(* ===== verification/Gateway_Prelude.thy ===== *)
theory Gateway_Prelude
  imports Main "HOL-Library.Word"
begin

text \<open>
  Shared vocabulary of the development: the names of the Rust integer types, the collections
  of facts that the component proofs hand to the simplifier, exhaustive reasoning over the 256
  values of a byte, and facts on lists and 8-bit words that several components use.

  Rust's \<^verbatim>\<open>u8\<close>, \<^verbatim>\<open>u16\<close>, \<^verbatim>\<open>u32\<close> are words of that width (\<open>+\<close> and \<open>-\<close> wrap, as
  \<^verbatim>\<open>wrapping_add\<close> does), an \<^verbatim>\<open>as\<close> cast between them is \<open>ucast\<close>, and \<^verbatim>\<open>usize\<close> counts and
  indices are natural numbers: every buffer of the program is far below \<open>2 ^ 32\<close> bytes.
\<close>

unbundle bit_operations_syntax

type_synonym byte = "8 word"
type_synonym u16 = "16 word"
type_synonym u32 = "32 word"
type_synonym u64 = "64 word"

named_theorems wire_simps \<open>how a prompt wire is read, byte by byte\<close>
named_theorems byte_facts \<open>bit-level facts on single bytes\<close>
named_theorems invar_intros \<open>every operation keeps its component's invariant\<close>


section \<open>Exhaustive reasoning over a byte\<close>

lemma unat_byte_less [simp]: "unat (b :: byte) < 256"
  using unsigned_less [of b, where 'a = nat] by simp

text \<open>
  The 256 byte values as numerals, column by column of the usual hexadecimal table. A property of
  every byte follows from its instances, which the simplifier evaluates with the arithmetic of word
  numerals.
\<close>

definition nibbles :: "nat list" where
  "nibbles = [0, 2, 4, 6, 8, 10, 12, 14, 1, 3, 5, 7, 9, 11, 13, 15]"

definition byte_table :: "byte list" where
  "byte_table = [
     0x00, 0x20, 0x40, 0x60, 0x80, 0xA0, 0xC0, 0xE0, 0x10, 0x30, 0x50, 0x70, 0x90, 0xB0, 0xD0, 0xF0,
     0x02, 0x22, 0x42, 0x62, 0x82, 0xA2, 0xC2, 0xE2, 0x12, 0x32, 0x52, 0x72, 0x92, 0xB2, 0xD2, 0xF2,
     0x04, 0x24, 0x44, 0x64, 0x84, 0xA4, 0xC4, 0xE4, 0x14, 0x34, 0x54, 0x74, 0x94, 0xB4, 0xD4, 0xF4,
     0x06, 0x26, 0x46, 0x66, 0x86, 0xA6, 0xC6, 0xE6, 0x16, 0x36, 0x56, 0x76, 0x96, 0xB6, 0xD6, 0xF6,
     0x08, 0x28, 0x48, 0x68, 0x88, 0xA8, 0xC8, 0xE8, 0x18, 0x38, 0x58, 0x78, 0x98, 0xB8, 0xD8, 0xF8,
     0x0A, 0x2A, 0x4A, 0x6A, 0x8A, 0xAA, 0xCA, 0xEA, 0x1A, 0x3A, 0x5A, 0x7A, 0x9A, 0xBA, 0xDA, 0xFA,
     0x0C, 0x2C, 0x4C, 0x6C, 0x8C, 0xAC, 0xCC, 0xEC, 0x1C, 0x3C, 0x5C, 0x7C, 0x9C, 0xBC, 0xDC, 0xFC,
     0x0E, 0x2E, 0x4E, 0x6E, 0x8E, 0xAE, 0xCE, 0xEE, 0x1E, 0x3E, 0x5E, 0x7E, 0x9E, 0xBE, 0xDE, 0xFE,
     0x01, 0x21, 0x41, 0x61, 0x81, 0xA1, 0xC1, 0xE1, 0x11, 0x31, 0x51, 0x71, 0x91, 0xB1, 0xD1, 0xF1,
     0x03, 0x23, 0x43, 0x63, 0x83, 0xA3, 0xC3, 0xE3, 0x13, 0x33, 0x53, 0x73, 0x93, 0xB3, 0xD3, 0xF3,
     0x05, 0x25, 0x45, 0x65, 0x85, 0xA5, 0xC5, 0xE5, 0x15, 0x35, 0x55, 0x75, 0x95, 0xB5, 0xD5, 0xF5,
     0x07, 0x27, 0x47, 0x67, 0x87, 0xA7, 0xC7, 0xE7, 0x17, 0x37, 0x57, 0x77, 0x97, 0xB7, 0xD7, 0xF7,
     0x09, 0x29, 0x49, 0x69, 0x89, 0xA9, 0xC9, 0xE9, 0x19, 0x39, 0x59, 0x79, 0x99, 0xB9, 0xD9, 0xF9,
     0x0B, 0x2B, 0x4B, 0x6B, 0x8B, 0xAB, 0xCB, 0xEB, 0x1B, 0x3B, 0x5B, 0x7B, 0x9B, 0xBB, 0xDB, 0xFB,
     0x0D, 0x2D, 0x4D, 0x6D, 0x8D, 0xAD, 0xCD, 0xED, 0x1D, 0x3D, 0x5D, 0x7D, 0x9D, 0xBD, 0xDD, 0xFD,
     0x0F, 0x2F, 0x4F, 0x6F, 0x8F, 0xAF, 0xCF, 0xEF, 0x1F, 0x3F, 0x5F, 0x7F, 0x9F, 0xBF, 0xDF, 0xFF]"

lemma nat_less_8: "n < 8 \<longleftrightarrow> n \<in> {0, 4, 2, 6, 1, 5, 3, 7 :: nat}"
  by auto

lemma nat_less_16: "n < 16 \<longleftrightarrow> n < 8 \<or> n \<in> {8, 12, 10, 14, 9, 13, 11, 15 :: nat}"
  by auto

lemma nibble_in: "n < 16 \<Longrightarrow> n \<in> set nibbles"
  unfolding nibbles_def nat_less_16 nat_less_8 by auto

lemma byte_table_columns:
  "byte_table = concat (map (\<lambda>lo. map (\<lambda>hi. word_of_nat (16 * hi + lo)) nibbles) nibbles)"
  by (simp add: byte_table_def nibbles_def)

lemma in_columns:
  "hi \<in> set xs \<Longrightarrow> lo \<in> set xs \<Longrightarrow> f hi lo \<in> set (concat (map (\<lambda>lo. map (\<lambda>hi. f hi lo) xs) xs))"
  by auto

lemma byte_in_table: "b \<in> set byte_table"
proof -
  have "unat b div 16 \<in> set nibbles" "unat b mod 16 \<in> set nibbles"
    using unat_byte_less [of b] by (auto intro!: nibble_in simp: less_mult_imp_div_less)
  from in_columns [OF this, of "\<lambda>hi lo. word_of_nat (16 * hi + lo)"]
  have "word_of_nat (16 * (unat b div 16) + unat b mod 16) \<in> set byte_table"
    unfolding byte_table_columns .
  moreover have "word_of_nat (16 * (unat b div 16) + unat b mod 16) = b" by simp
  ultimately show ?thesis by (simp only:)
qed

lemma byte_table_exhaust: "list_all P byte_table \<Longrightarrow> P b"
  using byte_in_table [of b] by (auto simp: list_all_iff)

lemmas byte_exhaust = byte_table_exhaust [unfolded byte_table_def]


section \<open>Bytes as bit patterns\<close>

text \<open>Equality of bytes is equality of their eight bits: identities of masks and shifts follow
  by rewriting with the library's \<open>bit_simps\<close>.\<close>

lemma byte_eq_iff:
  "(a::byte) = b \<longleftrightarrow>
     bit a 0 = bit b 0 \<and> bit a 1 = bit b 1 \<and> bit a 2 = bit b 2 \<and> bit a 3 = bit b 3 \<and>
     bit a 4 = bit b 4 \<and> bit a 5 = bit b 5 \<and> bit a 6 = bit b 6 \<and> bit a 7 = bit b 7"
  (is "_ \<longleftrightarrow> ?bits")
proof
  assume bits: ?bits
  show "a = b"
  proof (rule bit_word_eqI)
    fix n assume "n < LENGTH(8)"
    then have "n < 8" by simp
    with bits show "bit a n = bit b n" unfolding nat_less_8 by auto
  qed
qed simp

lemma u16_eq_iff:
  "(a::u16) = b \<longleftrightarrow>
     bit a 0 = bit b 0 \<and> bit a 1 = bit b 1 \<and> bit a 2 = bit b 2 \<and> bit a 3 = bit b 3 \<and>
     bit a 4 = bit b 4 \<and> bit a 5 = bit b 5 \<and> bit a 6 = bit b 6 \<and> bit a 7 = bit b 7 \<and>
     bit a 8 = bit b 8 \<and> bit a 9 = bit b 9 \<and> bit a 10 = bit b 10 \<and> bit a 11 = bit b 11 \<and>
     bit a 12 = bit b 12 \<and> bit a 13 = bit b 13 \<and> bit a 14 = bit b 14 \<and> bit a 15 = bit b 15"
  (is "_ \<longleftrightarrow> ?bits")
proof
  assume bits: ?bits
  show "a = b"
  proof (rule bit_word_eqI)
    fix n assume "n < LENGTH(16)"
    then have "n < 16" by simp
    with bits show "bit a n = bit b n" unfolding nat_less_16 nat_less_8 by auto
  qed
qed simp

lemma high_bit_set [byte_facts]: "b AND 0x80 \<noteq> (0::byte) \<longleftrightarrow> bit b 7"
  by (simp add: byte_eq_iff bit_simps)

lemma low7_or_high [byte_facts]: "bit (b::byte) 7 \<Longrightarrow> (b AND 0x7F) OR 0x80 = b"
  by (simp add: byte_eq_iff bit_simps)

lemma low7_id [byte_facts]: "\<not> bit (b::byte) 7 \<Longrightarrow> b AND 0x7F = b"
  by (simp add: byte_eq_iff bit_simps)

lemma low7_bit7 [byte_facts]: "\<not> bit ((b::byte) AND 0x7F) 7"
  by (simp add: bit_simps)

lemma byte_less_128 [byte_facts]: "(b::byte) < 0x80 \<longleftrightarrow> \<not> bit b 7"
  by (rule byte_exhaust [where b = b]) simp

lemma byte_xor_cancel [simp]: "((b::byte) XOR c) XOR c = b"
  by (simp add: xor.assoc)

lemma u16_xor_cancel [simp]: "((b::u16) XOR c) XOR c = b"
  by (simp add: xor.assoc)

lemma unat_word_of_nat_byte [simp]: "n < 256 \<Longrightarrow> unat (word_of_nat n :: byte) = n"
  by (simp add: unat_of_nat)


section \<open>Lists\<close>

lemma list_all_nth: "list_all P xs \<Longrightarrow> i < length xs \<Longrightarrow> P (xs ! i)"
  by (simp add: list_all_length)

lemma take_Suc_snoc: "n < length xs \<Longrightarrow> take (Suc n) xs = take n xs @ [xs ! n]"
  by (rule take_Suc_conv_app_nth)

lemma list_all_replicate [simp]: "list_all P (replicate n x) \<longleftrightarrow> n = 0 \<or> P x"
  by (induction n) auto

lemma concat_map_append: "concat (map f (xs @ ys)) = concat (map f xs) @ concat (map f ys)"
  by simp

lemma takeWhile_not_last: "takeWhile P (xs @ [x]) = (if list_all P xs then xs @ takeWhile P [x] else takeWhile P xs)"
  by (induction xs) auto

end
