(* ===== verification/Tnio.thy ===== *)
theory Tnio
  imports Gateway_Prelude
begin

text \<open>
  The raw byte layer under every file-transfer protocol (\<^verbatim>\<open>src/src/tnio.rs\<close>): telnet IAC
  unescaping on the way in, IAC doubling on the way out, the two-CAN abort rule and the retry
  budget.

  The transport is explicit data. A \<open>wire\<close> is the current time in milliseconds and the inputs
  still to come, each with its delay after the one before it; the end of the list is a peer that
  hangs up. An asynchronous read is a function from a wire to an outcome and the wire that is
  left, and a \<^verbatim>\<open>timeout\<close> around it is a deadline handed down: a read whose input comes later
  than the deadline gives \<open>Elapsed\<close> at the deadline and leaves that input on the wire.
\<close>

section \<open>The transport\<close>

datatype io_error = PeerClosed | IacTimeout | SbTimeout | IoErr string

datatype raw_error = UnexpectedEof | OtherError string

datatype inp = RxByte byte | RxErr string

record wire =
  clock :: nat
  feed :: "(nat \<times> inp) list"

datatype 'a outcome = Ok 'a | Err io_error | Elapsed

definition read_error :: "raw_error \<Rightarrow> io_error" where
  "read_error e = (case e of UnexpectedEof \<Rightarrow> PeerClosed | OtherError t \<Rightarrow> IoErr t)"

fun in_time :: "nat option \<Rightarrow> nat \<Rightarrow> bool" where
  "in_time None t \<longleftrightarrow> True"
| "in_time (Some u) t \<longleftrightarrow> t \<le> u"

text \<open>One \<^verbatim>\<open>read_exact\<close> of a single byte under the deadline \<open>dl\<close>.\<close>

definition rx :: "nat option \<Rightarrow> wire \<Rightarrow> byte outcome \<times> wire" where
  "rx dl w = (case feed w of
      [] \<Rightarrow> (Err (read_error UnexpectedEof), w)
    | (d, x) # r \<Rightarrow>
        (let t = clock w + d in
         if \<not> in_time dl t
         then (Elapsed, \<lparr>clock = max (clock w) (the dl), feed = (t - max (clock w) (the dl), x) # r\<rparr>)
         else case x of
             RxByte b \<Rightarrow> (Ok b, \<lparr>clock = t, feed = r\<rparr>)
           | RxErr e \<Rightarrow> (Err (read_error (OtherError e)), \<lparr>clock = t, feed = r\<rparr>)))"

text \<open>
  A read under a deadline \<open>t\<close> of its own, inside a caller that may have set one too
  (\<open>outer\<close>). The inner timer is polled first, so it wins a tie; if it fires the read fails with
  its error, and if the caller's fires the whole read is dropped.
\<close>

definition within :: "nat option \<Rightarrow> nat \<Rightarrow> io_error \<Rightarrow>
    (nat option \<Rightarrow> 'a outcome \<times> wire) \<Rightarrow> 'a outcome \<times> wire" where
  "within outer t e run =
     (if in_time outer t
      then (case run (Some t) of (Elapsed, w') \<Rightarrow> (Err e, w') | r \<Rightarrow> r)
      else run outer)"

lemma rx_Ok_shrinks: "rx dl w = (Ok b, w') \<Longrightarrow> length (feed w') < length (feed w)"
  by (auto simp: rx_def Let_def split: list.splits inp.splits if_splits)

lemma rx_length: "rx dl w = (r, w') \<Longrightarrow> length (feed w') \<le> length (feed w)"
  by (auto simp: rx_def Let_def split: list.splits inp.splits if_splits)

lemma rx_clock: "rx (Some u) w = (r, w') \<Longrightarrow> clock w' \<le> max (clock w) u"
  by (auto simp: rx_def Let_def split: list.splits inp.splits if_splits)

lemma rx_clock_mono: "rx dl w = (r, w') \<Longrightarrow> clock w \<le> clock w'"
  by (auto simp: rx_def Let_def split: list.splits inp.splits if_splits)

lemma rx_no_deadline: "rx None w \<noteq> (Elapsed, w')"
  by (auto simp: rx_def Let_def split: list.splits inp.splits if_splits)


section \<open>Constants\<close>

abbreviation (input) IAC :: byte where "IAC \<equiv> 0xFF"
abbreviation (input) SB :: byte where "SB \<equiv> 250"
abbreviation (input) SE :: byte where "SE \<equiv> 240"
abbreviation (input) WILL :: byte where "WILL \<equiv> 251"
abbreviation (input) WONT :: byte where "WONT \<equiv> 252"
abbreviation (input) DO_CMD :: byte where "DO_CMD \<equiv> 253"
abbreviation (input) DONT :: byte where "DONT \<equiv> 254"
abbreviation (input) CAN :: byte where "CAN \<equiv> 0x18"

definition MAX_FILE_SIZE :: nat where
  "MAX_FILE_SIZE = 8 * 1024 * 1024"

definition IAC_SEQUENCE_TIMEOUT_MS :: nat where
  "IAC_SEQUENCE_TIMEOUT_MS = 5 * 1000"


section \<open>Retry budget and per-stream state\<close>

definition retries_exhausted :: "nat \<Rightarrow> nat \<Rightarrow> bool" where
  "retries_exhausted failures max_retries \<longleftrightarrow> failures > max_retries"

record ReadState =
  pushback :: "byte option"
  pending_can :: bool
  resync :: bool

definition default_ReadState :: ReadState where
  "default_ReadState = \<lparr>pushback = None, pending_can = False, resync = False\<rparr>"

definition is_can_abort :: "byte \<Rightarrow> ReadState \<Rightarrow> bool \<times> ReadState" where
  "is_can_abort b st =
     (if b = CAN
      then if pending_can st then (True, st\<lparr>pending_can := False\<rparr>)
           else (False, st\<lparr>pending_can := True\<rparr>)
      else (False, st\<lparr>pending_can := False\<rparr>))"


section \<open>Byte readers\<close>

definition read_iac_continuation :: "nat option \<Rightarrow> wire \<Rightarrow> byte outcome \<times> wire" where
  "read_iac_continuation outer w =
     within outer (clock w + IAC_SEQUENCE_TIMEOUT_MS) IacTimeout (\<lambda>dl. rx dl w)"

text \<open>The loop that drains a subnegotiation up to its closing \<open>IAC SE\<close>.\<close>

function drain_sb :: "nat option \<Rightarrow> wire \<Rightarrow> unit outcome \<times> wire" where
  "drain_sb dl w = (case rx dl w of
      (Ok b, w1) \<Rightarrow>
        if b = IAC
        then (case rx dl w1 of
            (Ok c, w2) \<Rightarrow> if c = SE then (Ok (), w2) else drain_sb dl w2
          | (Err e, w2) \<Rightarrow> (Err e, w2)
          | (Elapsed, w2) \<Rightarrow> (Elapsed, w2))
        else drain_sb dl w1
    | (Err e, w1) \<Rightarrow> (Err e, w1)
    | (Elapsed, w1) \<Rightarrow> (Elapsed, w1))"
  by pat_completeness auto
termination
  by (relation "measure (\<lambda>(dl, w). length (feed w))")
    (auto dest!: rx_Ok_shrinks [OF sym])

declare drain_sb.simps [simp del]

definition consume_telnet_command ::
    "nat option \<Rightarrow> byte \<Rightarrow> wire \<Rightarrow> unit outcome \<times> wire" where
  "consume_telnet_command outer command w =
     (if command = SB
      then within outer (clock w + 5 * 1000) SbTimeout (\<lambda>dl. drain_sb dl w)
      else if command = WILL \<or> command = WONT \<or> command = DO_CMD \<or> command = DONT
      then (case read_iac_continuation outer w of
          (Ok _, w1) \<Rightarrow> (Ok (), w1)
        | (Err e, w1) \<Rightarrow> (Err e, w1)
        | (Elapsed, w1) \<Rightarrow> (Elapsed, w1))
      else (Ok (), w))"

lemma drain_sb_length: "drain_sb dl w = (r, w') \<Longrightarrow> length (feed w') \<le> length (feed w)"
proof (induction dl w arbitrary: r w' rule: drain_sb.induct)
  case (1 dl w)
  obtain x w1 where x: "rx dl w = (x, w1)" by (cases "rx dl w")
  obtain y w2 where y: "rx dl w1 = (y, w2)" by (cases "rx dl w1")
  have "length (feed w1) \<le> length (feed w)" "length (feed w2) \<le> length (feed w1)"
    using rx_length [OF x] rx_length [OF y] by auto
  then show ?case
    using "1.prems" "1.IH"(1) [OF x [symmetric]] "1.IH"(2) [OF x [symmetric]]
    by (subst (asm) drain_sb.simps)
      (fastforce simp: x y split: outcome.splits if_splits)
qed

lemma within_elim:
  assumes "within outer t e run = (r, w')"
  obtains dl r' where "run dl = (r', w')" "dl = Some t \<and> in_time outer t \<or> dl = outer \<and> \<not> in_time outer t"
    "r = (if r' = Elapsed \<and> dl = Some t \<and> in_time outer t then Err e else r')"
  using assms by (auto simp: within_def split: if_splits prod.splits outcome.splits)

lemma read_iac_continuation_length:
  "read_iac_continuation outer w = (r, w') \<Longrightarrow> length (feed w') \<le> length (feed w)"
  unfolding read_iac_continuation_def by (erule within_elim) (drule rx_length, simp)

lemma consume_telnet_command_length:
  "consume_telnet_command outer c w = (r, w') \<Longrightarrow> length (feed w') \<le> length (feed w)"
  by (auto simp: consume_telnet_command_def split: if_splits outcome.splits prod.splits
      dest: read_iac_continuation_length elim!: within_elim drain_sb_length)

function raw_read_byte :: "nat option \<Rightarrow> bool \<Rightarrow> wire \<Rightarrow> byte outcome \<times> wire" where
  "raw_read_byte outer is_tcp w = (case rx outer w of
      (Ok b, w1) \<Rightarrow>
        if is_tcp \<and> b = IAC
        then (case read_iac_continuation outer w1 of
            (Ok c, w2) \<Rightarrow>
              if c = IAC then (Ok IAC, w2)
              else (case consume_telnet_command outer c w2 of
                  (Ok _, w3) \<Rightarrow> raw_read_byte outer is_tcp w3
                | (Err e, w3) \<Rightarrow> (Err e, w3)
                | (Elapsed, w3) \<Rightarrow> (Elapsed, w3))
          | (Err e, w2) \<Rightarrow> (Err e, w2)
          | (Elapsed, w2) \<Rightarrow> (Elapsed, w2))
        else (Ok b, w1)
    | (Err e, w1) \<Rightarrow> (Err e, w1)
    | (Elapsed, w1) \<Rightarrow> (Elapsed, w1))"
  by pat_completeness auto
termination
  by (relation "measure (\<lambda>(outer, is_tcp, w). length (feed w))")
    (auto dest!: rx_Ok_shrinks [OF sym] read_iac_continuation_length [OF sym]
      consume_telnet_command_length [OF sym])

declare raw_read_byte.simps [simp del]

definition nvt_read_byte ::
    "nat option \<Rightarrow> bool \<Rightarrow> ReadState \<Rightarrow> wire \<Rightarrow> byte outcome \<times> ReadState \<times> wire" where
  "nvt_read_byte outer is_tcp st w = (case pushback st of
      Some b \<Rightarrow> (Ok b, st\<lparr>pushback := None\<rparr>, w)
    | None \<Rightarrow> (case raw_read_byte outer is_tcp w of (r, w') \<Rightarrow> (r, st, w')))"


section \<open>Byte writer\<close>

text \<open>A writer collects what went on the wire; \<open>broken\<close> is the error of a transport that is gone.\<close>

record writer =
  sent :: "byte list"
  broken :: "string option"

fun iac_double :: "byte list \<Rightarrow> byte list" where
  "iac_double [] = []"
| "iac_double (b # bs) = (if b = IAC then IAC # IAC # iac_double bs else b # iac_double bs)"

definition raw_write_bytes :: "bool \<Rightarrow> byte list \<Rightarrow> writer \<Rightarrow> unit outcome \<times> writer" where
  "raw_write_bytes is_tcp data wr = (case broken wr of
      Some e \<Rightarrow> (Err (IoErr e), wr)
    | None \<Rightarrow> (Ok (), wr\<lparr>sent := sent wr @ (if is_tcp then iac_double data else data)\<rparr>))"


section \<open>Reading a prompt wire\<close>

text \<open>
  \<open>delivers dl bs w w'\<close>: the wire \<open>w\<close> brings the bytes \<open>bs\<close>, each within the deadline and
  no more than the telnet sequence bound after the one before it, and is then \<open>w'\<close>.
\<close>

fun delivers :: "nat option \<Rightarrow> byte list \<Rightarrow> wire \<Rightarrow> wire \<Rightarrow> bool" where
  "delivers dl [] w w' \<longleftrightarrow> w' = w"
| "delivers dl (b # bs) w w' \<longleftrightarrow> (case feed w of
      [] \<Rightarrow> False
    | (d, x) # r \<Rightarrow> x = RxByte b \<and> d \<le> IAC_SEQUENCE_TIMEOUT_MS \<and> in_time dl (clock w + d) \<and>
        delivers dl bs \<lparr>clock = clock w + d, feed = r\<rparr> w')"

lemma delivers_append:
  "delivers dl (xs @ ys) w w' \<longleftrightarrow> (\<exists>v. delivers dl xs w v \<and> delivers dl ys v w')"
  by (induction xs arbitrary: w) (auto split: list.splits prod.splits)

lemma delivers_clock_mono: "delivers dl bs w w' \<Longrightarrow> clock w \<le> clock w'"
  by (induction bs arbitrary: w) (fastforce split: list.splits)+

lemma delivers_rx:
  assumes "delivers dl (b # bs) w w'"
  obtains w1 where "rx dl w = (Ok b, w1)" "delivers dl bs w1 w'" "clock w \<le> clock w1"
    "clock w1 \<le> clock w + IAC_SEQUENCE_TIMEOUT_MS"
    "\<forall>u \<ge> clock w1. rx (Some u) w = (Ok b, w1)"
  using assms by (auto simp: rx_def split: list.splits)

lemma delivers_continuation:
  assumes "delivers dl (b # bs) w w'"
  obtains w1 where "read_iac_continuation dl w = (Ok b, w1)" "delivers dl bs w1 w'"
    "clock w \<le> clock w1"
proof -
  from assms obtain w1 where w1: "rx dl w = (Ok b, w1)" "delivers dl bs w1 w'"
      "clock w \<le> clock w1" "clock w1 \<le> clock w + IAC_SEQUENCE_TIMEOUT_MS"
    and late: "\<forall>u \<ge> clock w1. rx (Some u) w = (Ok b, w1)"
    by (rule delivers_rx)
  have "read_iac_continuation dl w = (Ok b, w1)"
    using w1(1) late [rule_format, OF w1(4)] by (simp add: read_iac_continuation_def within_def)
  with w1 show thesis by (blast intro: that)
qed

lemma raw_read_plain:
  assumes "delivers dl (b # bs) w w'" and "\<not> (is_tcp \<and> b = IAC)"
  obtains w1 where "raw_read_byte dl is_tcp w = (Ok b, w1)" "delivers dl bs w1 w'"
proof -
  from assms(1) obtain w1 where "rx dl w = (Ok b, w1)" "delivers dl bs w1 w'"
    by (rule delivers_rx)
  with assms(2) show thesis
    by (intro that [of w1]) (auto simp: raw_read_byte.simps [of dl is_tcp w])
qed

lemma raw_read_doubled:
  assumes "delivers dl (IAC # IAC # bs) w w'"
  obtains w1 where "raw_read_byte dl True w = (Ok IAC, w1)" "delivers dl bs w1 w'"
proof -
  from assms obtain v where v: "rx dl w = (Ok IAC, v)" "delivers dl (IAC # bs) v w'"
    by (rule delivers_rx)
  from v(2) obtain w1 where "read_iac_continuation dl v = (Ok IAC, w1)" "delivers dl bs w1 w'"
    by (rule delivers_continuation)
  with v(1) show thesis
    by (intro that [of w1]) (auto simp: raw_read_byte.simps [of dl True w])
qed

definition wire_form :: "bool \<Rightarrow> byte list \<Rightarrow> byte list" where
  "wire_form is_tcp data = (if is_tcp then iac_double data else data)"

lemma wire_form_Nil [simp]: "wire_form t [] = []"
  by (simp add: wire_form_def)

lemma iac_double_append: "iac_double (xs @ ys) = iac_double xs @ iac_double ys"
  by (induction xs) auto

lemma wire_form_append: "wire_form t (xs @ ys) = wire_form t xs @ wire_form t ys"
  by (simp add: wire_form_def iac_double_append)

lemma wire_form_Cons: "wire_form t (b # bs) = (if t \<and> b = IAC then [IAC, IAC] else [b]) @ wire_form t bs"
  by (simp add: wire_form_def)

lemma raw_read_wire_form:
  assumes "delivers dl (wire_form t (b # bs)) w w'"
  obtains w1 where "raw_read_byte dl t w = (Ok b, w1)" "delivers dl (wire_form t bs) w1 w'"
proof (cases "t \<and> b = IAC")
  case True
  with assms have "delivers dl (IAC # IAC # wire_form t bs) w w'"
    by (simp add: wire_form_Cons)
  then obtain w1 where "raw_read_byte dl True w = (Ok IAC, w1)" "delivers dl (wire_form t bs) w1 w'"
    by (rule raw_read_doubled)
  with True show thesis by (intro that) auto
next
  case False
  with assms have "delivers dl (b # wire_form t bs) w w'"
    by (auto simp: wire_form_Cons)
  then show thesis using False by (rule raw_read_plain) (rule that)
qed

text \<open>The loop by which the protocols read a run of \<open>n\<close> bytes.\<close>

fun nvt_read_n ::
    "nat option \<Rightarrow> bool \<Rightarrow> nat \<Rightarrow> ReadState \<Rightarrow> wire \<Rightarrow> byte list outcome \<times> ReadState \<times> wire" where
  "nvt_read_n dl t 0 st w = (Ok [], st, w)"
| "nvt_read_n dl t (Suc n) st w = (case nvt_read_byte dl t st w of
      (Ok b, st1, w1) \<Rightarrow> (case nvt_read_n dl t n st1 w1 of
          (Ok bs, st2, w2) \<Rightarrow> (Ok (b # bs), st2, w2)
        | r \<Rightarrow> r)
    | (Err e, st1, w1) \<Rightarrow> (Err e, st1, w1)
    | (Elapsed, st1, w1) \<Rightarrow> (Elapsed, st1, w1))"

lemma nvt_read_byte_fresh:
  "pushback st = None \<Longrightarrow> raw_read_byte dl t w = (r, w') \<Longrightarrow> nvt_read_byte dl t st w = (r, st, w')"
  by (simp add: nvt_read_byte_def)

lemma nvt_read_n_wire_form:
  "pushback st = None \<Longrightarrow> delivers dl (wire_form t data) w w' \<Longrightarrow>
   nvt_read_n dl t (length data) st w = (Ok data, st, w')"
proof (induction data arbitrary: w)
  case Nil
  then show ?case by simp
next
  case (Cons b bs)
  from Cons.prems(2) obtain w1 where
      "raw_read_byte dl t w = (Ok b, w1)" "delivers dl (wire_form t bs) w1 w'"
    by (rule raw_read_wire_form)
  with Cons.IH [of w1] Cons.prems(1) show ?case
    by (simp add: nvt_read_byte_fresh)
qed


section \<open>Properties\<close>

text \<open>Property C10: whatever the transfer layer writes, reading the same number of bytes from a
  prompt wire that carries it gives the data back unchanged, on a telnet link (0xFF doubled) and
  on a clean one: the transport is transparent to all 256 byte values.\<close>

theorem transport_roundtrip:
  assumes "pushback st = None"
    and "raw_write_bytes is_tcp data \<lparr>sent = [], broken = None\<rparr> = (Ok (), wr)"
    and "delivers dl (sent wr) w w'"
  shows "nvt_read_n dl is_tcp (length data) st w = (Ok data, st, w')"
proof -
  have "sent wr = wire_form is_tcp data"
    using assms(2) by (auto simp: raw_write_bytes_def wire_form_def)
  with assms(1,3) show ?thesis by (simp add: nvt_read_n_wire_form)
qed

theorem transport_roundtrip_witness:
  "nvt_read_n (Some 100) True 3 default_ReadState
      \<lparr>clock = 0, feed = [(1, RxByte 0xFF), (1, RxByte 0xFF), (1, RxByte 0x0D), (1, RxByte 0)]\<rparr>
    = (Ok [0xFF, 0x0D, 0], default_ReadState, \<lparr>clock = 4, feed = []\<rparr>)"
  using transport_roundtrip [of default_ReadState True "[0xFF, 0x0D, 0]"
      "\<lparr>sent = [0xFF, 0xFF, 0x0D, 0], broken = None\<rparr>" "Some 100"
      "\<lparr>clock = 0, feed = [(1, RxByte 0xFF), (1, RxByte 0xFF), (1, RxByte 0x0D), (1, RxByte 0)]\<rparr>"
      "\<lparr>clock = 4, feed = []\<rparr>"]
  by (simp add: default_ReadState_def raw_write_bytes_def IAC_SEQUENCE_TIMEOUT_MS_def numeral_3_eq_3)

text \<open>
  What a telnet peer may interleave with the data: an option negotiation, a two-byte command, or
  a subnegotiation with its payload doubled. Each is invisible to the reader.
\<close>

datatype telnet_item =
    Data byte
  | Negotiate byte byte
  | Command byte
  | Subneg "byte list"

fun item_bytes :: "telnet_item \<Rightarrow> byte list" where
  "item_bytes (Data b) = (if b = IAC then [IAC, IAC] else [b])"
| "item_bytes (Negotiate verb opt) = [IAC, verb, opt]"
| "item_bytes (Command c) = [IAC, c]"
| "item_bytes (Subneg payload) = [IAC, SB] @ iac_double payload @ [IAC, SE]"

fun item_ok :: "telnet_item \<Rightarrow> bool" where
  "item_ok (Data b) \<longleftrightarrow> True"
| "item_ok (Negotiate verb opt) \<longleftrightarrow> verb \<in> {WILL, WONT, DO_CMD, DONT}"
| "item_ok (Command c) \<longleftrightarrow> c \<notin> {IAC, SB, WILL, WONT, DO_CMD, DONT}"
| "item_ok (Subneg payload) \<longleftrightarrow> True"

fun item_data :: "telnet_item \<Rightarrow> byte list" where
  "item_data (Data b) = [b]"
| "item_data _ = []"

lemma delivers_deadline: "delivers dl bs w w' \<Longrightarrow> clock w' \<le> u \<Longrightarrow> delivers (Some u) bs w w'"
proof (induction bs arbitrary: w)
  case Nil
  then show ?case by simp
next
  case (Cons b bs)
  then obtain d r where r: "feed w = (d, RxByte b) # r" "d \<le> IAC_SEQUENCE_TIMEOUT_MS"
      "delivers dl bs \<lparr>clock = clock w + d, feed = r\<rparr> w'"
    by (auto split: list.splits)
  then have "clock w + d \<le> u"
    using delivers_clock_mono [OF r(3)] Cons.prems(2) by simp
  with r Cons.IH [OF r(3) Cons.prems(2)] show ?case by simp
qed

lemma drain_sb_doubled:
  "delivers dl (iac_double payload @ [IAC, SE]) w w' \<Longrightarrow> drain_sb dl w = (Ok (), w')"
proof (induction payload arbitrary: w)
  case Nil
  then have "delivers dl (IAC # SE # []) w w'" by simp
  then obtain v where "rx dl w = (Ok IAC, v)" "delivers dl (SE # []) v w'"
    by (rule delivers_rx)
  then show ?case
    by (auto simp: drain_sb.simps [of dl w] elim!: delivers_rx simp del: delivers.simps(2))
next
  case (Cons b bs)
  show ?case
  proof (cases "b = IAC")
    case True
    with Cons.prems have "delivers dl (IAC # IAC # iac_double bs @ [IAC, SE]) w w'" by simp
    then obtain v where v: "rx dl w = (Ok IAC, v)" "delivers dl (IAC # iac_double bs @ [IAC, SE]) v w'"
      by (rule delivers_rx)
    from v(2) obtain u where "rx dl v = (Ok IAC, u)" "delivers dl (iac_double bs @ [IAC, SE]) u w'"
      by (rule delivers_rx)
    with v(1) Cons.IH [of u] show ?thesis by (simp add: drain_sb.simps [of dl w])
  next
    case False
    with Cons.prems have "delivers dl (b # iac_double bs @ [IAC, SE]) w w'" by simp
    then obtain v where "rx dl w = (Ok b, v)" "delivers dl (iac_double bs @ [IAC, SE]) v w'"
      by (rule delivers_rx)
    with False Cons.IH [of v] show ?thesis by (simp add: drain_sb.simps [of dl w])
  qed
qed

lemma consume_subneg:
  assumes "delivers dl (iac_double payload @ [IAC, SE]) w w'" and "clock w' \<le> clock w + 5000"
  shows "consume_telnet_command dl SB w = (Ok (), w')"
  using drain_sb_doubled [OF assms(1)]
    drain_sb_doubled [OF delivers_deadline [OF assms]]
  by (simp add: consume_telnet_command_def within_def)

lemma raw_read_skips:
  assumes "rx dl w = (Ok IAC, w1)" "read_iac_continuation dl w1 = (Ok c, w2)" "c \<noteq> IAC"
    and "consume_telnet_command dl c w2 = (Ok (), w3)"
  shows "raw_read_byte dl True w = raw_read_byte dl True w3"
  using assms by (subst raw_read_byte.simps) simp

lemma raw_read_item:
  assumes "delivers dl (item_bytes i) w v" "item_ok i" "clock v \<le> clock w + 5000"
  shows "raw_read_byte dl True w =
    (case item_data i of [] \<Rightarrow> raw_read_byte dl True v | b # _ \<Rightarrow> (Ok b, v))"
proof (cases i)
  case (Data b)
  with assms(1) have "delivers dl (wire_form True (b # [])) w v"
    by (auto simp: wire_form_def)
  then obtain w1 where "raw_read_byte dl True w = (Ok b, w1)" "delivers dl (wire_form True []) w1 v"
    by (rule raw_read_wire_form)
  with Data show ?thesis by simp
next
  case (Negotiate verb opt)
  with assms(1) obtain w1 where w1: "rx dl w = (Ok IAC, w1)" "delivers dl (verb # opt # []) w1 v"
    by (auto elim: delivers_rx simp del: delivers.simps(2))
  from w1(2) obtain w2 where w2: "read_iac_continuation dl w1 = (Ok verb, w2)" "delivers dl (opt # []) w2 v"
    by (rule delivers_continuation)
  from w2(2) obtain w3 where "read_iac_continuation dl w2 = (Ok opt, w3)" "delivers dl [] w3 v"
    by (rule delivers_continuation)
  with w1 w2 assms(2) Negotiate show ?thesis
    by (auto intro!: raw_read_skips simp: consume_telnet_command_def)
next
  case (Command c)
  with assms(1) obtain w1 where w1: "rx dl w = (Ok IAC, w1)" "delivers dl (c # []) w1 v"
    by (auto elim: delivers_rx simp del: delivers.simps(2))
  from w1(2) obtain w2 where "read_iac_continuation dl w1 = (Ok c, w2)" "delivers dl [] w2 v"
    by (rule delivers_continuation)
  with w1 assms(2) Command show ?thesis
    by (auto intro!: raw_read_skips simp: consume_telnet_command_def)
next
  case (Subneg payload)
  with assms(1) obtain w1 where w1: "rx dl w = (Ok IAC, w1)" "clock w \<le> clock w1"
      "delivers dl (SB # iac_double payload @ [IAC, SE]) w1 v"
    by (auto elim: delivers_rx simp del: delivers.simps(2))
  from w1(3) obtain w2 where w2: "read_iac_continuation dl w1 = (Ok SB, w2)"
      "delivers dl (iac_double payload @ [IAC, SE]) w2 v" "clock w1 \<le> clock w2"
    by (rule delivers_continuation)
  then have "consume_telnet_command dl SB w2 = (Ok (), v)"
    using assms(3) w1(2) by (intro consume_subneg) auto
  with w1 w2 Subneg show ?thesis by (auto intro!: raw_read_skips)
qed

text \<open>Telnet option negotiation, two-byte commands and subnegotiations that a peer
  sends inside a transfer are consumed without a trace: the reader sees exactly the data bytes,
  in order, whatever the interleaving (the whole burst arriving within the five-second bound).\<close>

lemma telnet_commands_invisible:
  assumes "pushback st = None"
    and "delivers dl (concat (map item_bytes items)) w w'"
    and "list_all item_ok items" and "clock w' \<le> clock w + 5000"
  shows "fst (nvt_read_n dl True (length (concat (map item_data items))) st w)
       = Ok (concat (map item_data items))"
  using assms(2-)
proof (induction items arbitrary: w)
  case Nil
  then show ?case by simp
next
  case (Cons i rest)
  from Cons.prems(1) obtain v where v: "delivers dl (item_bytes i) w v"
      "delivers dl (concat (map item_bytes rest)) v w'"
    by (auto simp: delivers_append)
  have cl: "clock w \<le> clock v" "clock v \<le> clock w'"
    using v by (auto dest: delivers_clock_mono)
  have IH: "fst (nvt_read_n dl True (length (concat (map item_data rest))) st v)
      = Ok (concat (map item_data rest))"
    using Cons.IH [OF v(2)] Cons.prems(2,3) cl by simp
  have step: "raw_read_byte dl True w =
      (case item_data i of [] \<Rightarrow> raw_read_byte dl True v | b # _ \<Rightarrow> (Ok b, v))"
    using v(1) Cons.prems(2,3) cl by (intro raw_read_item) auto
  show ?case
  proof (cases "item_data i")
    case Nil
    have "fst (nvt_read_n dl True n st w) = fst (nvt_read_n dl True n st v)" for n
      using step Nil assms(1) by (cases n) (auto simp: nvt_read_byte_def)
    then have "fst (nvt_read_n dl True (length (concat (map item_data rest))) st w)
        = Ok (concat (map item_data rest))"
      by (simp only: IH)
    with Nil show ?thesis by simp
  next
    case (Cons b bs)
    then have "bs = []" by (cases i) auto
    with Cons step IH assms(1) show ?thesis
      by (auto simp: nvt_read_byte_fresh split: outcome.splits prod.splits)
  qed
qed


subsection \<open>A peer cannot hold a read\<close>

lemma drain_sb_clock: "drain_sb (Some u) w = (r, w') \<Longrightarrow> clock w' \<le> max (clock w) u"
proof (induction "Some u" w arbitrary: r w' rule: drain_sb.induct)
  case (1 w)
  obtain x w1 where x: "rx (Some u) w = (x, w1)" by (cases "rx (Some u) w")
  obtain y w2 where y: "rx (Some u) w1 = (y, w2)" by (cases "rx (Some u) w1")
  have "clock w1 \<le> max (clock w) u" "clock w2 \<le> max (clock w1) u"
    using rx_clock [OF x] rx_clock [OF y] by auto
  then show ?case
    using "1.prems" "1.hyps"(1) [OF x [symmetric]] "1.hyps"(2) [OF x [symmetric]]
    by (subst (asm) drain_sb.simps) (fastforce simp: x y split: outcome.splits if_splits)
qed

lemma within_clock:
  assumes "within outer (clock w + m) e run = (r, w')"
    and "\<And>u r w'. run (Some u) = (r, w') \<Longrightarrow> clock w' \<le> max (clock w) u"
  shows "clock w' \<le> clock w + m"
proof -
  from assms(1) obtain u r' where "run (Some u) = (r', w')" "u \<le> clock w + m"
    by (rule within_elim) (cases outer, auto)
  from assms(2) [OF this(1)] this(2) show ?thesis by simp
qed

text \<open>Whatever the peer sends or withholds, the bytes of a telnet sequence that has
  begun are waited for no longer than five seconds each: the command byte after an IAC, and the
  rest of the command, an endless subnegotiation included, both end by then.\<close>

lemma iac_sequence_bounded:
  "(\<forall>r w'. read_iac_continuation outer w = (r, w') \<longrightarrow> clock w' \<le> clock w + 5000) \<and>
   (\<forall>r w'. consume_telnet_command outer c w = (r, w') \<longrightarrow> clock w' \<le> clock w + 5000)"
proof -
  have cont: "clock w' \<le> clock w + 5000" if "read_iac_continuation outer w = (r, w')" for r w'
    using within_clock [OF that [unfolded read_iac_continuation_def]] rx_clock
    by (simp add: IAC_SEQUENCE_TIMEOUT_MS_def)
  moreover have "clock w' \<le> clock w + 5000" if "consume_telnet_command outer c w = (r, w')" for r w'
  proof (cases "c = SB")
    case True
    with that have "within outer (clock w + 5 * 1000) SbTimeout (\<lambda>dl. drain_sb dl w) = (r, w')"
      by (simp add: consume_telnet_command_def)
    from within_clock [OF this] drain_sb_clock show ?thesis by simp
  next
    case False
    with that show ?thesis
      by (auto simp: consume_telnet_command_def dest: cont split: if_splits prod.splits outcome.splits)
  qed
  ultimately show ?thesis by blast
qed


text \<open>A lone IAC followed by silence is reported as its own error, and the byte that
  comes too late is still on the wire for the next read.\<close>

lemma stalled_iac_is_reported:
  assumes "feed w = (d, RxByte IAC) # (gap, x) # rest" and "gap > 5000"
  shows "raw_read_byte None True w =
    (Err IacTimeout, \<lparr>clock = clock w + d + 5000, feed = (gap - 5000, x) # rest\<rparr>)"
  using assms
  by (simp add: raw_read_byte.simps [of None True w] rx_def read_iac_continuation_def within_def
      IAC_SEQUENCE_TIMEOUT_MS_def)



subsection \<open>The two-CAN abort rule\<close>

fun can_scan :: "ReadState \<Rightarrow> byte list \<Rightarrow> bool" where
  "can_scan st [] \<longleftrightarrow> False"
| "can_scan st (b # bs) \<longleftrightarrow> (case is_can_abort b st of (stop, st') \<Rightarrow> stop \<or> can_scan st' bs)"

lemma can_scan_iff:
  "can_scan st bs \<longleftrightarrow> (pending_can st \<and> (\<exists>ys. bs = CAN # ys)) \<or> (\<exists>xs ys. bs = xs @ CAN # CAN # ys)"
proof (induction bs arbitrary: st)
  case Nil
  then show ?case by simp
next
  case (Cons b bs)
  have split: "(\<exists>xs ys. b # bs = xs @ CAN # CAN # ys) \<longleftrightarrow>
      (b = CAN \<and> (\<exists>ys. bs = CAN # ys)) \<or> (\<exists>xs ys. bs = xs @ CAN # CAN # ys)"
    by (auto simp: Cons_eq_append_conv)
  show ?case
    unfolding split by (auto simp: is_can_abort_def Cons.IH)
qed

text \<open>Fed a stream byte by byte from a fresh state, the abort rule fires exactly when
  the stream holds two CAN bytes in a row, across any number of reads; CANs with something between
  them never abort.\<close>

lemma can_abort_iff_two_consecutive:
  "can_scan default_ReadState bs \<longleftrightarrow> (\<exists>xs ys. bs = xs @ [CAN, CAN] @ ys)"
  by (simp add: can_scan_iff default_ReadState_def)

end
