(* ===== verification/Checksum_Register.thy ===== *)
theory Checksum_Register
  imports Gateway_Prelude
begin

text \<open>
  The contract behind every block check of the program: a register folded over the bytes of a
  block. Kermit's CRC-16, the CRC-16 of XMODEM, YMODEM and ZMODEM, ZMODEM's CRC-32 and Punter's
  two sums are all such folds. A step that loses neither the register nor the byte makes a
  one-byte corruption visible however long the block is; the components interpret the locale on
  their own step functions.
\<close>

locale checksum_register =
  fixes step :: "'r \<Rightarrow> byte \<Rightarrow> 'r"
  assumes step_inj_register: "step r b = step r' b \<Longrightarrow> r = r'"
    and step_inj_byte: "step r b = step r b' \<Longrightarrow> b = b'"
begin

lemma fold_inj_register: "foldl step r bs = foldl step r' bs \<Longrightarrow> r = r'"
  by (induction bs arbitrary: r r') (auto dest: step_inj_register)

lemma fold_inj_iff [simp]: "foldl step r bs = foldl step r' bs \<longleftrightarrow> r = r'"
  by (auto dest: fold_inj_register)

lemma detects_one_byte:
  "foldl step r (pre @ b # post) = foldl step r (pre @ c # post) \<longleftrightarrow> b = c"
  by (auto dest: step_inj_byte)

text \<open>A change of the last byte only, or of the starting value only, is seen as well.\<close>

lemma detects_last_byte: "foldl step r (pre @ [b]) = foldl step r (pre @ [c]) \<longleftrightarrow> b = c"
  by (auto dest: step_inj_byte)

lemma detects_update:
  "i < length bs \<Longrightarrow> foldl step r (bs[i := c]) = foldl step r bs \<longleftrightarrow> c = bs ! i"
  using detects_one_byte [of r "take i bs" c "drop (Suc i) bs" "bs ! i"]
  by (simp add: upd_conv_take_nth_drop id_take_nth_drop [symmetric])

end

text \<open>
  The stronger contract of the two shift-register checks that run most significant bit first or
  least significant bit first: the fold is additive over exclusive or, so whether an error is
  seen depends on the error pattern alone, not on the data it hits.
\<close>

locale linear_register = checksum_register step
  for step :: "'a::len word \<Rightarrow> byte \<Rightarrow> 'a word" +
  assumes step_xor: "step (r XOR r') (b XOR b') = step r b XOR step r' b'"
begin

lemma fold_xor:
  "length bs = length cs \<Longrightarrow>
   foldl step (r XOR r') (map2 (XOR) bs cs) = foldl step r bs XOR foldl step r' cs"
  by (induction bs cs arbitrary: r r' rule: list_induct2) (auto simp: step_xor)

lemma undetected_iff:
  assumes "length bs = length es"
  shows "foldl step r (map2 (XOR) bs es) = foldl step r bs \<longleftrightarrow> foldl step 0 es = 0"
proof -
  have "foldl step (r XOR 0) (map2 (XOR) bs es) = foldl step r bs XOR foldl step 0 es"
    using assms by (rule fold_xor)
  then have "foldl step r (map2 (XOR) bs es) = foldl step r bs XOR foldl step 0 es" by simp
  then show ?thesis
    by (metis xor.assoc xor.commute xor.right_neutral xor_self_eq)
qed

end


section \<open>Cyclic redundancy checks\<close>

text \<open>
  One bit of a CRC register, least significant bit first (Kermit, CRC-32) and most significant
  bit first (XMODEM, ZMODEM): shift, and subtract the polynomial when a one falls out. Each is
  linear, and loses nothing when the polynomial has its outermost coefficient.
\<close>

definition lsb_shift :: "'a::len word \<Rightarrow> 'a word \<Rightarrow> 'a word" where
  "lsb_shift poly r = (if odd r then drop_bit 1 r XOR poly else drop_bit 1 r)"

definition msb_shift :: "'a::len word \<Rightarrow> 'a word \<Rightarrow> 'a word" where
  "msb_shift poly r = (if bit r (LENGTH('a) - 1) then push_bit 1 r XOR poly else push_bit 1 r)"

lemma odd_xor: "odd (a XOR b) \<longleftrightarrow> odd a \<noteq> odd (b :: 'a::len word)"
  by (simp add: bit_xor_iff flip: bit_0)

lemma lsb_shift_xor: "lsb_shift p (a XOR b) = lsb_shift p a XOR lsb_shift p b"
  by (auto simp: lsb_shift_def odd_xor intro!: bit_word_eqI) (auto simp: bit_simps)

lemma msb_shift_xor: "msb_shift p (a XOR b) = msb_shift p a XOR msb_shift p b"
  by (auto simp: msb_shift_def bit_xor_iff bit_simps intro!: bit_word_eqI)

lemma lsb_shift_eq_0:
  fixes p :: "'a::len word"
  assumes "bit p (LENGTH('a) - 1)" and "lsb_shift p r = 0"
  shows "r = 0"
proof -
  have top: "\<not> bit (drop_bit 1 r) (LENGTH('a) - 1)"
    by (simp add: bit_drop_bit_eq)
  have even: "even r"
  proof (rule ccontr)
    assume "odd r"
    with assms(2) have "drop_bit 1 r = p"
      by (simp add: lsb_shift_def) (metis xor.assoc xor.right_neutral xor_self_eq xor.left_neutral)
    with top assms(1) show False by simp
  qed
  with assms(2) have "drop_bit 1 r = 0" by (simp add: lsb_shift_def)
  then have "\<not> bit (drop_bit 1 r) n" for n by simp
  then have "\<not> bit r (Suc n)" for n by (simp add: bit_drop_bit_eq)
  with even have "\<not> bit r n" for n by (cases n) (simp_all add: bit_0)
  then show "r = 0" by (intro bit_word_eqI) simp
qed

lemma msb_shift_eq_0:
  fixes p :: "'a::len word"
  assumes "odd p" and "msb_shift p r = 0"
  shows "r = 0"
proof -
  have low: "even (push_bit 1 r)" by simp
  have top: "\<not> bit r (LENGTH('a) - 1)"
  proof
    assume "bit r (LENGTH('a) - 1)"
    with assms(2) have "push_bit 1 r = p"
      by (simp add: msb_shift_def) (metis xor.assoc xor.right_neutral xor_self_eq xor.left_neutral)
    with low assms(1) show False by metis
  qed
  with assms(2) have z: "push_bit 1 r = 0" by (simp add: msb_shift_def)
  show "r = 0"
  proof (rule bit_word_eqI)
    fix n assume n: "n < LENGTH('a)"
    show "bit r n = bit 0 n"
    proof (cases "n = LENGTH('a) - 1")
      case True
      with top show ?thesis by simp
    next
      case False
      with n have "Suc n < LENGTH('a)" by simp
      then have "bit (push_bit 1 r) (Suc n) = bit r n" using bit_push_bit_iff [of 1 r "Suc n"] by simp
      with z show ?thesis by simp
    qed
  qed
qed


lemma funpow_xor:
  fixes f :: "'a::len word \<Rightarrow> 'a word"
  assumes "\<And>a b. f (a XOR b) = f a XOR f b"
  shows "(f ^^ n) (a XOR b) = (f ^^ n) a XOR (f ^^ n) b"
  by (induction n) (simp_all add: assms)

lemma funpow_eq_0:
  fixes f :: "'a::len word \<Rightarrow> 'a word"
  assumes "\<And>a. f a = 0 \<Longrightarrow> a = 0" and "(f ^^ n) a = 0"
  shows "a = 0"
  using assms(2) by (induction n) (simp, metis assms(1) comp_apply funpow.simps(2))

lemma xor_eq_0_iff_eq: "a XOR b = 0 \<longleftrightarrow> a = (b :: 'a::len word)"
  by (metis xor.assoc xor.right_neutral xor_self_eq)

lemma ucast_byte_xor: "(ucast (b XOR c :: byte) :: 'a::len word) = ucast b XOR ucast c"
  by (rule bit_word_eqI) (auto simp: bit_simps)

lemma ucast_byte_eq_iff:
  assumes "8 \<le> LENGTH('a::len)"
  shows "(ucast (b :: byte) :: 'a word) = ucast c \<longleftrightarrow> b = c"
proof
  assume eq: "(ucast b :: 'a word) = ucast c"
  show "b = c"
  proof (rule bit_word_eqI)
    fix n assume "n < LENGTH(8)"
    then have "n < LENGTH('a)" using assms by simp
    with eq show "bit b n = bit c n"
      by (metis bit_ucast_iff)
  qed
qed simp

text \<open>
  The two ways a byte enters the register: into the low end, or into the high end. Any linear
  shift that maps only zero to zero makes a linear register of either.
\<close>

locale crc_shift =
  fixes shift :: "'a::len word \<Rightarrow> 'a word" and entry :: "byte \<Rightarrow> 'a word"
  assumes shift_xor: "shift (a XOR a') = shift a XOR shift a'"
    and shift_eq_0: "shift a = 0 \<Longrightarrow> a = 0"
    and entry_xor: "entry (b XOR c) = entry b XOR entry c"
    and entry_inj: "entry b = entry c \<Longrightarrow> b = c"

sublocale crc_shift \<subseteq> linear_register "\<lambda>r b. (shift ^^ 8) (r XOR entry b)"
proof
  have inj: "a = b" if "(shift ^^ 8) a = (shift ^^ 8) b" for a b
  proof -
    from that have "(shift ^^ 8) (a XOR b) = 0"
      by (simp add: funpow_xor [of shift, OF shift_xor])
    then have "a XOR b = 0" using shift_eq_0 by (rule funpow_eq_0 [rotated])
    then show ?thesis by (simp add: xor_eq_0_iff_eq)
  qed
  show "r = r'" if "(shift ^^ 8) (r XOR entry b) = (shift ^^ 8) (r' XOR entry b)" for r r' b
    using inj [OF that] by (metis xor.assoc xor.right_neutral xor_self_eq)
  show "b = b'" if "(shift ^^ 8) (r XOR entry b) = (shift ^^ 8) (r XOR entry b')" for r b b'
    using inj [OF that] entry_inj by (metis xor.assoc xor.left_neutral xor_self_eq)
  show "(shift ^^ 8) ((r XOR r') XOR entry (b XOR b')) =
      (shift ^^ 8) (r XOR entry b) XOR (shift ^^ 8) (r' XOR entry b')" for r r' b b'
    by (simp add: entry_xor flip: funpow_xor [of shift, OF shift_xor]) (simp add: ac_simps)
qed

end
