(* ===== verification/Kermit_Codec.thy ===== *)
theory Kermit_Codec
  imports Tnio Checksum_Register
begin

text \<open>
  The bottom of the Kermit stack (\<^verbatim>\<open>src/src/kermit.rs\<close>): the printable-character primitives, the
  three block checks, and the quoting layer that turns arbitrary bytes into packet data (control
  quoting, 8th-bit prefixing, locking shifts, repeat counts) and back.

  A \<^verbatim>\<open>Vec\<close> that a function only appends to is modelled by the bytes it appends; a cursor into a
  slice is modelled by the rest of the slice from that cursor on.
\<close>

section \<open>Character primitives\<close>

abbreviation (input) SOH :: byte where "SOH \<equiv> 0x01"
abbreviation (input) SP :: byte where "SP \<equiv> 0x20"
abbreviation (input) SO :: byte where "SO \<equiv> 0x0E"
abbreviation (input) SI :: byte where "SI \<equiv> 0x0F"
abbreviation (input) DEL :: byte where "DEL \<equiv> 0x7F"

definition tochar :: "byte \<Rightarrow> byte" where
  "tochar n = n + 0x20"

definition unchar :: "byte \<Rightarrow> byte" where
  "unchar c = c - 0x20"

definition ctl :: "byte \<Rightarrow> byte" where
  "ctl b = b XOR 0x40"

definition unctl :: "byte \<Rightarrow> byte" where
  "unctl b = b XOR 0x40"

definition is_kermit_control :: "byte \<Rightarrow> bool" where
  "is_kermit_control b \<longleftrightarrow> b < 0x20 \<or> b = DEL \<or> (0x80 \<le> b \<and> b \<le> 0x9F) \<or> b = 0xFF"


section \<open>Block checks\<close>

datatype kermit_error =
    KIo io_error
  | KReadTimeout
  | KCancelledByUser
  | KPeerAborted
  | KCheckSize nat nat
  | KCheckMismatch byte
  | KHeaderCheck byte byte
  | KExtendedShort nat
  | KExtendedLong nat
  | KPacketSmall nat
  | KPacketShort nat nat
  | KRepeatAtEnd
  | KBadRepeat nat
  | KPastEnd
  | KEightBitAtEnd
  | KControlAtEnd
  | KEncodedTooLong nat nat

definition byte_sum :: "byte list \<Rightarrow> u32" where
  "byte_sum data = sum_list (map ucast data)"

definition chk1_value :: "byte list \<Rightarrow> byte" where
  "chk1_value data =
     (let s = byte_sum data in ucast ((s + drop_bit 6 (s AND 0xC0)) AND 0x3F))"

definition chk1 :: "byte list \<Rightarrow> byte" where
  "chk1 data = tochar (chk1_value data)"

definition chk2 :: "byte list \<Rightarrow> byte \<times> byte" where
  "chk2 data =
     (let s = byte_sum data AND 0x0FFF;
          hi = ucast (drop_bit 6 s AND 0x3F);
          lo = ucast (s AND 0x3F)
      in (tochar hi, tochar lo))"

definition chk2_decode :: "byte \<Rightarrow> byte \<Rightarrow> u16" where
  "chk2_decode hi lo =
     (push_bit 6 (ucast (unchar hi) AND 0x3F)) OR (ucast (unchar lo) AND 0x3F)"

definition crc_lsb_step :: "u16 \<Rightarrow> u16" where
  "crc_lsb_step crc = (if crc AND 1 \<noteq> 0 then drop_bit 1 crc XOR 0x8408 else drop_bit 1 crc)"

definition kermit_crc16_byte :: "u16 \<Rightarrow> byte \<Rightarrow> u16" where
  "kermit_crc16_byte crc b = (crc_lsb_step ^^ 8) (crc XOR ucast b)"

definition kermit_crc16 :: "byte list \<Rightarrow> u16" where
  "kermit_crc16 data = foldl kermit_crc16_byte 0 data"

definition chk3_encode :: "u16 \<Rightarrow> byte \<times> byte \<times> byte" where
  "chk3_encode crc =
     (tochar (ucast (drop_bit 12 crc AND 0x0F)),
      tochar (ucast (drop_bit 6 crc AND 0x3F)),
      tochar (ucast (crc AND 0x3F)))"

definition chk3_decode :: "byte \<Rightarrow> byte \<Rightarrow> byte \<Rightarrow> u16" where
  "chk3_decode c1 c2 c3 =
     (push_bit 12 (ucast (unchar c1) AND 0x0F)) OR (push_bit 6 (ucast (unchar c2) AND 0x3F))
       OR (ucast (unchar c3) AND 0x3F)"

definition check_size :: "byte \<Rightarrow> nat" where
  "check_size chkt =
     (if chkt = 0x31 then 1 else if chkt = 0x32 then 2 else if chkt = 0x33 then 3 else 1)"

definition block_check :: "byte \<Rightarrow> byte list \<Rightarrow> byte list" where
  "block_check chkt data =
     (if chkt = 0x32 then (case chk2 data of (hi, lo) \<Rightarrow> [hi, lo])
      else if chkt = 0x33
      then (case chk3_encode (kermit_crc16 data) of (c1, c2, c3) \<Rightarrow> [c1, c2, c3])
      else [chk1 data])"

definition verify_check :: "byte \<Rightarrow> byte list \<Rightarrow> byte list \<Rightarrow> kermit_error + unit" where
  "verify_check chkt data check =
     (if chkt = 0x32 then
        (case check of
            [hi, lo] \<Rightarrow>
              if (ucast (byte_sum data AND 0x0FFF) :: u16) = chk2_decode hi lo then Inr ()
              else Inl (KCheckMismatch 0x32)
          | _ \<Rightarrow> Inl (KCheckSize 2 (length check)))
      else if chkt = 0x33 then
        (case check of
            [c1, c2, c3] \<Rightarrow>
              if chk3_decode c1 c2 c3 = kermit_crc16 data then Inr ()
              else Inl (KCheckMismatch 0x33)
          | _ \<Rightarrow> Inl (KCheckSize 3 (length check)))
      else
        (case check of
            [c] \<Rightarrow>
              if chk1_value data = unchar c AND 0x3F then Inr ()
              else Inl (KCheckMismatch 0x31)
          | _ \<Rightarrow> Inl (KCheckSize 1 (length check))))"


section \<open>Quoting\<close>

record Quoting =
  qctl :: byte
  qbin :: "byte option"
  rept :: "byte option"
  locking_shifts :: bool

definition default_Quoting :: Quoting where
  "default_Quoting = \<lparr>qctl = 0x23, qbin = None, rept = Some 0x7E, locking_shifts = False\<rparr>"

datatype ShiftMode = Normal | Shifted

definition shift_target :: "byte \<Rightarrow> ShiftMode" where
  "shift_target b = (if b AND 0x80 \<noteq> 0 then Shifted else Normal)"

text \<open>The marker that switches the wire to the set of \<open>b\<close>, when it is in the other one.\<close>

definition shift_to :: "Quoting \<Rightarrow> ShiftMode \<Rightarrow> byte \<Rightarrow> byte list" where
  "shift_to q mode b =
     (if shift_target b \<noteq> mode
      then [qctl q, ctl (if shift_target b = Shifted then SO else SI)] else [])"

definition encode_one_byte :: "byte \<Rightarrow> Quoting \<Rightarrow> ShiftMode \<Rightarrow> byte list \<times> ShiftMode" where
  "encode_one_byte b q mode =
     (if locking_shifts q then
        (let body = b AND 0x7F in
         (shift_to q mode b @
            (if body = SO \<or> body = SI then [qctl q, body]
             else if is_kermit_control body then [qctl q, ctl body]
             else if body = qctl q \<or> rept q = Some body then [qctl q, body]
             else [body]),
          shift_target b))
      else
        (let (prefix, body) = (case qbin q of
                 Some qb \<Rightarrow> if b AND 0x80 \<noteq> 0 then ([qb], b AND 0x7F) else ([], b)
               | None \<Rightarrow> ([], b))
         in (prefix @
               (if is_kermit_control body then [qctl q, ctl body]
                else if body = qctl q \<or> qbin q = Some body \<or> rept q = Some body then [qctl q, body]
                else [body]),
             mode)))"

fun run_from :: "byte \<Rightarrow> byte list \<Rightarrow> nat \<Rightarrow> nat" where
  "run_from x [] run = run"
| "run_from x (y # ys) run = (if run < 94 \<and> y = x then run_from x ys (Suc run) else run)"

lemma run_from_ge: "run \<le> run_from x ys run"
  by (induction x ys run rule: run_from.induct) auto

function encode_loop :: "Quoting \<Rightarrow> ShiftMode \<Rightarrow> byte list \<Rightarrow> byte list \<times> ShiftMode" where
  "encode_loop q mode [] = ([], mode)"
| "encode_loop q mode (x # xs) =
     (case rept q of
        Some rept_char \<Rightarrow>
          (let run = run_from x xs 1 in
           if run \<ge> 3 then
             (let flip = (if locking_shifts q then shift_to q mode x else []);
                  mode1 = (if locking_shifts q then shift_target x else mode);
                  (body, mode2) = encode_one_byte x q mode1;
                  (out, mode') = encode_loop q mode2 (drop (run - 1) xs)
              in (flip @ [rept_char, tochar (word_of_nat run)] @ body @ out, mode'))
           else
             (let (body, mode1) = encode_one_byte x q mode;
                  (out, mode') = encode_loop q mode1 xs
              in (body @ out, mode')))
      | None \<Rightarrow>
          (let (body, mode1) = encode_one_byte x q mode;
               (out, mode') = encode_loop q mode1 xs
           in (body @ out, mode')))"
  by pat_completeness auto
termination
  by (relation "measure (\<lambda>(q, mode, xs). length xs)") auto

declare encode_loop.simps(2) [simp del]

definition encode_data :: "byte list \<Rightarrow> Quoting \<Rightarrow> byte list" where
  "encode_data input q =
     (let (out, mode) = encode_loop q Normal input
      in out @ (if locking_shifts q \<and> mode \<noteq> Normal then [qctl q, ctl SI] else []))"

definition decode_control :: "Quoting \<Rightarrow> byte \<Rightarrow> byte list \<Rightarrow> nat \<Rightarrow> kermit_error + byte \<times> nat" where
  "decode_control q high_bit rest consumed = (case rest of
      [] \<Rightarrow> Inl KPastEnd
    | c # rest' \<Rightarrow>
        if c = qctl q then
          (case rest' of
              [] \<Rightarrow> Inl KControlAtEnd
            | body # _ \<Rightarrow>
                Inr (if is_kermit_control (unctl body) then unctl body OR high_bit
                     else body OR high_bit, consumed + 2))
        else Inr (c OR high_bit, consumed + 1))"

definition decode_one_byte_at :: "byte list \<Rightarrow> Quoting \<Rightarrow> kermit_error + byte \<times> nat" where
  "decode_one_byte_at input q = (case input of
      [] \<Rightarrow> Inl KPastEnd
    | c # rest \<Rightarrow>
        if qbin q = Some c then
          (case rest of [] \<Rightarrow> Inl KEightBitAtEnd | _ # _ \<Rightarrow> decode_control q 0x80 rest 1)
        else decode_control q 0 input 0)"

lemma decode_one_byte_consumed: "decode_one_byte_at input q = Inr (b, n) \<Longrightarrow> 0 < n"
  by (auto simp: decode_one_byte_at_def decode_control_def split: list.splits if_splits)

text \<open>The locking-shift marker at the cursor, if there is one.\<close>

definition shift_marker :: "Quoting \<Rightarrow> byte list \<Rightarrow> ShiftMode option" where
  "shift_marker q input = (case input of
      c # body # _ \<Rightarrow>
        if locking_shifts q \<and> c = qctl q then
          (if unctl body = SO then Some Shifted
           else if unctl body = SI then Some Normal else None)
        else None
    | _ \<Rightarrow> None)"

definition with_mode :: "Quoting \<Rightarrow> ShiftMode \<Rightarrow> byte \<Rightarrow> byte" where
  "with_mode q mode b = (if locking_shifts q \<and> mode = Shifted then b OR 0x80 else b)"

function decode_loop :: "Quoting \<Rightarrow> ShiftMode \<Rightarrow> byte list \<Rightarrow> kermit_error + byte list" where
  "decode_loop q mode [] = Inr []"
| "decode_loop q mode (c # cs) =
     (case shift_marker q (c # cs) of
        Some mode' \<Rightarrow> decode_loop q mode' (drop 2 (c # cs))
      | None \<Rightarrow>
          if Some c = rept q then
            (case cs of
                [] \<Rightarrow> Inl KRepeatAtEnd
              | count # rest \<Rightarrow>
                  (let n = unat (unchar count) in
                   if n = 0 \<or> n > 94 then Inl (KBadRepeat n)
                   else (case decode_one_byte_at rest q of
                       Inl e \<Rightarrow> Inl e
                     | Inr (decoded, consumed) \<Rightarrow>
                         (case decode_loop q mode (drop consumed rest) of
                            Inl e \<Rightarrow> Inl e
                          | Inr out \<Rightarrow> Inr (replicate n (with_mode q mode decoded) @ out)))))
          else
            (case decode_one_byte_at (c # cs) q of
                Inl e \<Rightarrow> Inl e
              | Inr (decoded, consumed) \<Rightarrow>
                  (case decode_loop q mode (drop consumed (c # cs)) of
                     Inl e \<Rightarrow> Inl e
                   | Inr out \<Rightarrow> Inr (with_mode q mode decoded # out))))"
  by pat_completeness auto
termination
  by (relation "measure (\<lambda>(q, mode, cs). length cs)")
    (auto simp: less_Suc_eq_le dest!: decode_one_byte_consumed)

declare decode_loop.simps(2) [simp del]

definition decode_data :: "byte list \<Rightarrow> Quoting \<Rightarrow> kermit_error + byte list" where
  "decode_data input q = decode_loop q Normal input"

section \<open>Block checks are self-consistent\<close>

lemma unctl_ctl [simp]: "unctl (ctl b) = b"
  by (simp add: unctl_def ctl_def)

lemma unchar_tochar [simp]: "unchar (tochar b) = b"
  by (simp add: unchar_def tochar_def)

lemma chk1_value_masked: "chk1_value data AND 0x3F = chk1_value data"
  by (simp add: chk1_value_def Let_def byte_eq_iff bit_simps)

lemma chk2_decode_chk2:
  "chk2 data = (hi, lo) \<Longrightarrow> chk2_decode hi lo = ucast (byte_sum data AND 0x0FFF)"
  by (auto simp: chk2_def chk2_decode_def Let_def u16_eq_iff bit_simps)

lemma chk3_decode_encode: "chk3_encode crc = (c1, c2, c3) \<Longrightarrow> chk3_decode c1 c2 c3 = crc"
  by (auto simp: chk3_encode_def chk3_decode_def u16_eq_iff bit_simps)

lemma block_check_length: "length (block_check chkt data) = check_size chkt"
  by (simp add: block_check_def check_size_def split: prod.splits)

lemma verify_block_check: "verify_check chkt data (block_check chkt data) = Inr ()"
  by (auto simp: verify_check_def block_check_def chk1_def chk1_value_masked
      chk2_decode_chk2 chk3_decode_encode split: prod.splits)

lemma crc_lsb_step_eq: "crc_lsb_step = lsb_shift 0x8408"
  by (rule ext) (simp add: crc_lsb_step_def lsb_shift_def and_one_eq odd_iff_mod_2_eq_one)

interpretation kermit_crc: crc_shift crc_lsb_step ucast
proof
  show "crc_lsb_step (a XOR b) = crc_lsb_step a XOR crc_lsb_step b" for a b
    by (simp add: crc_lsb_step_eq lsb_shift_xor)
  show "a = 0" if "crc_lsb_step a = 0" for a
    using that unfolding crc_lsb_step_eq by (rule lsb_shift_eq_0 [rotated]) simp
qed (simp_all add: ucast_byte_xor ucast_byte_eq_iff)

lemma kermit_crc16_fold: "kermit_crc16 data = foldl (\<lambda>r b. (crc_lsb_step ^^ 8) (r XOR ucast b)) 0 data"
  by (simp add: kermit_crc16_def kermit_crc16_byte_def [abs_def])


section \<open>Quoting is lossless\<close>

text \<open>
  The prefix characters a session can use: none of them is a control character or the printable
  image of one, they differ, and a session with locking shifts uses no 8th-bit prefix.
\<close>

definition quote_char_ok :: "byte \<Rightarrow> bool" where
  "quote_char_ok c \<longleftrightarrow> \<not> is_kermit_control c \<and> \<not> is_kermit_control (unctl c)"

definition quoting_ok :: "Quoting \<Rightarrow> bool" where
  "quoting_ok q \<longleftrightarrow>
     quote_char_ok (qctl q) \<and>
     pred_option (\<lambda>c. quote_char_ok c \<and> c \<noteq> qctl q) (qbin q) \<and>
     pred_option (\<lambda>c. quote_char_ok c \<and> c \<noteq> qctl q \<and> qbin q \<noteq> Some c) (rept q) \<and>
     (locking_shifts q \<longrightarrow> qbin q = None)"

lemma control_SO_SI [simp]: "is_kermit_control SO" "is_kermit_control SI"
  by (simp_all add: is_kermit_control_def)

lemma unctl_SO_SI [simp]: "unctl SO = 0x4E" "unctl SI = 0x4F"
  by (simp_all add: unctl_def)

lemma not_control_NO [simp]: "\<not> is_kermit_control 0x4E" "\<not> is_kermit_control 0x4F"
  by (simp_all add: is_kermit_control_def)

lemma quoting_okD:
  assumes "quoting_ok q"
  shows "quote_char_ok (qctl q)"
    and "qbin q = Some c \<Longrightarrow> quote_char_ok c \<and> c \<noteq> qctl q"
    and "rept q = Some c \<Longrightarrow> quote_char_ok c \<and> c \<noteq> qctl q \<and> qbin q \<noteq> Some c"
    and "locking_shifts q \<Longrightarrow> qbin q = None"
  using assms by (auto simp: quoting_ok_def)

lemma decode_control_body:
  assumes "is_kermit_control body \<Longrightarrow> enc = [qctl q, ctl body]"
    and "\<not> is_kermit_control body \<Longrightarrow> enc = [qctl q, body] \<and> quote_char_ok body \<or> enc = [body] \<and> body \<noteq> qctl q"
  shows "decode_control q h (enc @ rest) k = Inr (body OR h, k + length enc)"
  using assms by (cases "is_kermit_control body") (auto simp: decode_control_def quote_char_ok_def)

lemma encode_one_plain:
  assumes q: "quoting_ok q" "\<not> locking_shifts q" and e: "encode_one_byte b q m = (bs, m')"
  shows "m' = m" "bs \<noteq> []" "rept q \<noteq> Some (hd bs)"
    "decode_one_byte_at (bs @ rest) q = Inr (b, length bs)"
proof -
  define body where "body = (if qbin q \<noteq> None \<and> b AND 0x80 \<noteq> 0 then b AND 0x7F else b)"
  define enc where "enc = (if is_kermit_control body then [qctl q, ctl body]
     else if body = qctl q \<or> qbin q = Some body \<or> rept q = Some body then [qctl q, body] else [body])"
  note qd = quoting_okD [OF q(1)]
  have dec: "decode_control q h (enc @ rest) k = Inr (body OR h, k + length enc)" for h k
    by (rule decode_control_body) (use qd in \<open>auto simp: enc_def\<close>)
  have "encode_one_byte b q m =
      ((if qbin q \<noteq> None \<and> b AND 0x80 \<noteq> 0 then [the (qbin q)] else []) @ enc, m)"
    unfolding encode_one_byte_def enc_def body_def Let_def using q(2)
    by (cases "qbin q"; cases "b AND 0x80 = 0") simp_all
  with e have bs: "bs = (if qbin q \<noteq> None \<and> b AND 0x80 \<noteq> 0 then [the (qbin q)] else []) @ enc"
      and m: "m' = m"
    by (simp_all only: prod.inject)
  from m show "m' = m" .
  have ne: "enc \<noteq> []" by (simp add: enc_def)
  with bs show "bs \<noteq> []" by simp
  have hd_enc: "hd enc = qctl q \<or> hd enc = body \<and> qbin q \<noteq> Some body \<and> rept q \<noteq> Some body"
    by (auto simp: enc_def)
  show "rept q \<noteq> Some (hd bs)"
    using bs hd_enc qd(2,3) by (cases "qbin q") auto
  show "decode_one_byte_at (bs @ rest) q = Inr (b, length bs)"
  proof (cases "qbin q \<noteq> None \<and> b AND 0x80 \<noteq> 0")
    case True
    then obtain c where c: "qbin q = Some c" by auto
    have "body OR 0x80 = b" using True by (simp add: body_def byte_facts)
    with True c bs ne dec [of "0x80" 1] show ?thesis
      by (cases enc) (auto simp: decode_one_byte_at_def)
  next
    case False
    then have "bs = enc" "body = b" using bs by (auto simp: body_def)
    moreover have "qbin q \<noteq> Some (hd enc)" using hd_enc qd(2) by auto
    ultimately show ?thesis
      using ne dec [of 0 0] by (cases enc) (auto simp: decode_one_byte_at_def)
  qed
qed

lemma encode_one_locking:
  assumes q: "quoting_ok q" "locking_shifts q"
  obtains enc where "\<forall>m. encode_one_byte b q m = (shift_to q m b @ enc, shift_target b)"
    "enc \<noteq> []" "rept q \<noteq> Some (hd enc)"
    "\<forall>rest. decode_one_byte_at (enc @ rest) q = Inr (b AND 0x7F, length enc)"
    "\<forall>rest. shift_marker q (enc @ rest) = None"
proof -
  define body where "body = b AND 0x7F"
  define enc where "enc = (if body = SO \<or> body = SI then [qctl q, body]
     else if is_kermit_control body then [qctl q, ctl body]
     else if body = qctl q \<or> rept q = Some body then [qctl q, body] else [body])"
  note qd = quoting_okD [OF q(1)]
  have enc1: "encode_one_byte b q m = (shift_to q m b @ enc, shift_target b)" for m
    using q(2) by (simp add: encode_one_byte_def enc_def body_def Let_def)
  have ne: "enc \<noteq> []" by (simp add: enc_def)
  have hd: "rept q \<noteq> Some (hd enc)" using qd(3) by (auto simp: enc_def)
  have dec: "decode_one_byte_at (enc @ rest) q = Inr (b AND 0x7F, length enc)" for rest
  proof (cases "body = SO \<or> body = SI")
    case True
    then show ?thesis
      using qd(4) [OF q(2)] by (auto simp: decode_one_byte_at_def decode_control_def enc_def simp flip: body_def)
  next
    case False
    then have "decode_control q 0 (enc @ rest) 0 = Inr (body OR 0, 0 + length enc)"
      by (intro decode_control_body) (use qd in \<open>auto simp: enc_def\<close>)
    with ne qd(4) [OF q(2)] show ?thesis
      by (cases enc) (auto simp: decode_one_byte_at_def body_def)
  qed
  have mark: "shift_marker q (enc @ rest) = None" for rest
    using qd(1,3) by (auto simp: enc_def shift_marker_def quote_char_ok_def split: list.split)
  from enc1 ne hd dec mark show thesis by (intro that allI)
qed

lemma shift_marker_plain [simp]: "\<not> locking_shifts q \<Longrightarrow> shift_marker q cs = None"
  by (auto simp: shift_marker_def split: list.splits)

lemma decode_shift_to:
  assumes "locking_shifts q"
  shows "decode_loop q m (shift_to q m b @ rest) = decode_loop q (shift_target b) rest"
proof -
  have "shift_target b \<noteq> m \<Longrightarrow> shift_target b = Normal \<or> shift_target b = Shifted"
    by (cases "shift_target b") auto
  then show ?thesis
    using assms by (auto simp: shift_to_def decode_loop.simps(2) shift_marker_def)
qed

definition prepend :: "byte list \<Rightarrow> kermit_error + byte list \<Rightarrow> kermit_error + byte list" where
  "prepend xs r = map_sum id (\<lambda>ys. xs @ ys) r"

lemma prepend_simps [simp]:
  "prepend xs (Inr ys) = Inr (xs @ ys)" "prepend xs (Inl e) = Inl e"
  "prepend [] r = r" "prepend xs (prepend ys r) = prepend (xs @ ys) r"
  by (cases r; auto simp: prepend_def)+

lemma with_mode_target: "locking_shifts q \<Longrightarrow> with_mode q (shift_target b) (b AND 0x7F) = b"
  by (auto simp: with_mode_def shift_target_def byte_facts)

lemma decode_loop_one:
  assumes "cs \<noteq> []" "shift_marker q (cs @ rest) = None" "rept q \<noteq> Some (hd cs)"
    and "decode_one_byte_at (cs @ rest) q = Inr (b, length cs)"
  shows "decode_loop q m (cs @ rest) = prepend [with_mode q m b] (decode_loop q m rest)"
  using assms by (cases cs) (auto simp: decode_loop.simps(2) prepend_def split: sum.splits)

lemma decode_loop_run:
  assumes "rept q = Some r" "r \<noteq> qctl q" "0 < n" "n \<le> 94"
    and "decode_one_byte_at (cs @ rest) q = Inr (b, length cs)"
  shows "decode_loop q m (r # tochar (word_of_nat n) # cs @ rest) =
    prepend (replicate n (with_mode q m b)) (decode_loop q m rest)"
proof -
  have "unat (word_of_nat n :: byte) = n" using assms(4) by simp
  moreover have "shift_marker q (r # tochar (word_of_nat n) # cs @ rest) = None"
    using assms(2) by (simp add: shift_marker_def)
  ultimately show ?thesis
    using assms by (auto simp: decode_loop.simps(2) prepend_def Let_def split: sum.splits)
qed

lemma decode_encode_one:
  assumes q: "quoting_ok q" and e: "encode_one_byte b q m = (bs, m')"
  shows "decode_loop q m (bs @ rest) = prepend [b] (decode_loop q m' rest)"
proof (cases "locking_shifts q")
  case True
  with q obtain enc where enc: "\<forall>m. encode_one_byte b q m = (shift_to q m b @ enc, shift_target b)"
    "enc \<noteq> []" "rept q \<noteq> Some (hd enc)"
    "\<forall>rest. decode_one_byte_at (enc @ rest) q = Inr (b AND 0x7F, length enc)"
    "\<forall>rest. shift_marker q (enc @ rest) = None"
    by (rule encode_one_locking)
  with e have "bs = shift_to q m b @ enc" "m' = shift_target b" by auto
  then show ?thesis
    using True enc(2,3) decode_loop_one [OF enc(2) enc(5) [rule_format] enc(3) enc(4) [rule_format]]
    by (simp add: decode_shift_to with_mode_target)
next
  case False
  note one = encode_one_plain [OF q False e]
  show ?thesis
    using decode_loop_one [OF one(2) _ one(3) one(4)] False one(1) by (simp add: with_mode_def)
qed

lemma decode_encode_run:
  assumes q: "quoting_ok q" and r: "rept q = Some r" and n: "0 < n" "n \<le> 94"
    and e: "encode_one_byte b q (if locking_shifts q then shift_target b else m) = (bs, m')"
  shows "decode_loop q m ((if locking_shifts q then shift_to q m b else []) @ [r, tochar (word_of_nat n)] @ bs @ rest)
    = prepend (replicate n b) (decode_loop q m' rest)"
proof (cases "locking_shifts q")
  case True
  with q obtain enc where enc: "\<forall>m. encode_one_byte b q m = (shift_to q m b @ enc, shift_target b)"
    "\<forall>rest. decode_one_byte_at (enc @ rest) q = Inr (b AND 0x7F, length enc)"
    by (rule encode_one_locking)
  have "shift_to q (shift_target b) b = []" by (simp add: shift_to_def)
  then have "bs = enc" "m' = shift_target b"
    using e enc(1) True by simp_all
  then show ?thesis
    using True quoting_okD(3) [OF q r] decode_loop_run [OF r _ n enc(2) [rule_format]]
    by (simp add: decode_shift_to with_mode_target)
next
  case False
  with e have e': "encode_one_byte b q m = (bs, m')" by simp
  note one = encode_one_plain [OF q False e']
  show ?thesis
    using False one(1) quoting_okD(3) [OF q r] decode_loop_run [OF r _ n one(4)]
    by (simp add: with_mode_def)
qed

lemma run_from_le: "run \<le> 94 \<Longrightarrow> run_from x ys run \<le> 94"
  by (induction x ys run rule: run_from.induct) auto

lemma run_from_prefix: "\<exists>zs. ys = replicate (run_from x ys run - run) x @ zs"
proof (induction x ys run rule: run_from.induct)
  case (2 x y ys run)
  show ?case
  proof (cases "run < 94 \<and> y = x")
    case True
    with 2 obtain zs where zs: "ys = replicate (run_from x ys (Suc run) - Suc run) x @ zs" by blast
    have "run_from x ys (Suc run) - run = Suc (run_from x ys (Suc run) - Suc run)"
      using run_from_ge [of "Suc run" x ys] by simp
    with True zs show ?thesis by (metis append_Cons replicate_Suc run_from.simps(2))
  qed auto
qed simp

lemma run_split: "x # xs = replicate (run_from x xs 1) x @ drop (run_from x xs 1 - 1) xs"
proof -
  obtain zs where "xs = replicate (run_from x xs 1 - 1) x @ zs" using run_from_prefix by blast
  moreover have "run_from x xs 1 = Suc (run_from x xs 1 - 1)" using run_from_ge [of 1 x xs] by simp
  ultimately show ?thesis
    by (metis (no_types, lifting) append_Cons append_eq_conv_conj length_replicate replicate_Suc)
qed

lemma encode_loop_run:
  assumes "rept q = Some r" "3 \<le> run_from x xs 1"
    and "encode_one_byte x q (if locking_shifts q then shift_target x else m) = (bs, m2)"
    and "encode_loop q m2 (drop (run_from x xs 1 - 1) xs) = (out, m')"
  shows "encode_loop q m (x # xs) =
    ((if locking_shifts q then shift_to q m x else []) @
       [r, tochar (word_of_nat (run_from x xs 1))] @ bs @ out, m')"
  using assms by (simp add: encode_loop.simps(2) Let_def)

lemma encode_loop_single:
  assumes "\<nexists>r. rept q = Some r \<and> 3 \<le> run_from x xs 1"
    and "encode_one_byte x q m = (bs, m1)" and "encode_loop q m1 xs = (out, m')"
  shows "encode_loop q m (x # xs) = (bs @ out, m')"
  using assms by (auto simp: encode_loop.simps(2) Let_def split: option.splits)

lemma decode_encode_loop:
  "quoting_ok q \<Longrightarrow> encode_loop q m xs = (out, m') \<Longrightarrow>
    decode_loop q m (out @ rest) = prepend xs (decode_loop q m' rest)"
proof (induction xs arbitrary: m out m' rule: length_induct)
  case (1 xs)
  show ?case
  proof (cases xs)
    case Nil
    with "1.prems" show ?thesis by simp
  next
    case (Cons x ys)
    show ?thesis
    proof (cases "\<exists>r. rept q = Some r \<and> 3 \<le> run_from x ys 1")
      case True
      then obtain r where r: "rept q = Some r" and run: "3 \<le> run_from x ys 1" by blast
      let ?n = "run_from x ys 1"
      obtain bs m2 where e: "encode_one_byte x q (if locking_shifts q then shift_target x else m) = (bs, m2)"
        by fastforce
      obtain out' m3 where l: "encode_loop q m2 (drop (?n - 1) ys) = (out', m3)" by fastforce
      have "decode_loop q m2 (out' @ rest) = prepend (drop (?n - 1) ys) (decode_loop q m3 rest)"
        using "1.IH" "1.prems"(1) l Cons by simp
      moreover have "?n \<le> 94" by (rule run_from_le) simp
      moreover have "xs = replicate ?n x @ drop (?n - 1) ys"
        using run_split Cons by simp
      ultimately show ?thesis
        using "1.prems" encode_loop_run [OF r run e l] Cons run
          decode_encode_run [OF "1.prems"(1) r _ _ e, of ?n "out' @ rest"]
        by simp
    next
      case False
      obtain bs m1 where e: "encode_one_byte x q m = (bs, m1)" by fastforce
      obtain out' m3 where l: "encode_loop q m1 ys = (out', m3)" by fastforce
      have "decode_loop q m1 (out' @ rest) = prepend ys (decode_loop q m3 rest)"
        using "1.IH" "1.prems"(1) l Cons by simp
      then show ?thesis
        using "1.prems" encode_loop_single [OF False e l] Cons
          decode_encode_one [OF "1.prems"(1) e, of "out' @ rest"]
        by auto
    qed
  qed
qed

lemma decode_encode_data:
  assumes "quoting_ok q"
  shows "decode_data (encode_data input q) q = Inr input"
proof -
  obtain out m where l: "encode_loop q Normal input = (out, m)" by fastforce
  have "decode_loop q m (if locking_shifts q \<and> m \<noteq> Normal then [qctl q, ctl SI] else []) = Inr []"
    by (auto simp: decode_loop.simps(2) shift_marker_def)
  then show ?thesis
    using decode_encode_loop [OF assms l] l by (simp add: decode_data_def encode_data_def)
qed

text \<open>Property C30: the Kermit quoting layer is lossless. For every admissible choice of prefixes
  (control quoting alone, with an 8th-bit prefix, with locking shifts, with or without repeat
  counts) decoding the encoded form of any byte string gives that string back.\<close>

theorem quoting_roundtrip:
  assumes "quoting_ok q"
  shows "decode_data (encode_data input q) q = Inr input"
  using assms by (rule decode_encode_data)

theorem quoting_roundtrip_witness:
  "(let q = \<lparr>qctl = 0x23, qbin = None, rept = Some 0x7E, locking_shifts = True\<rparr>;
        data = [0x8D, 0x8D, 0x8D, 0x8D, 0x0E, 0x23, 0x7E, 0xFF]
    in quoting_ok q \<and> decode_data (encode_data data q) q = Inr data)"
  unfolding Let_def
  by (intro conjI quoting_roundtrip)
    (simp_all add: quoting_ok_def quote_char_ok_def is_kermit_control_def unctl_def)


section \<open>What encoded data looks like on the wire\<close>

lemma encode_loop_all:
  assumes one: "\<And>b m. list_all P (fst (encode_one_byte b q m))"
    and shift: "locking_shifts q \<Longrightarrow> P (qctl q) \<and> P (ctl SO) \<and> P (ctl SI)"
    and rep: "\<And>r n. rept q = Some r \<Longrightarrow> 3 \<le> n \<Longrightarrow> n \<le> 94 \<Longrightarrow> P r \<and> P (tochar (word_of_nat n))"
  shows "list_all P (fst (encode_loop q m xs))"
proof (induction xs arbitrary: m rule: length_induct)
  case (1 xs)
  have shift_to: "list_all P (if locking_shifts q then shift_to q m b else [])" for b
    using shift by (auto simp: shift_to_def)
  show ?case
  proof (cases xs)
    case (Cons x ys)
    show ?thesis
    proof (cases "\<exists>r. rept q = Some r \<and> 3 \<le> run_from x ys 1")
      case True
      then obtain r where r: "rept q = Some r" and run: "3 \<le> run_from x ys 1" by blast
      let ?m = "if locking_shifts q then shift_target x else m"
      obtain bs m2 where e: "encode_one_byte x q ?m = (bs, m2)" by fastforce
      obtain out' m3 where l: "encode_loop q m2 (drop (run_from x ys 1 - 1) ys) = (out', m3)" by fastforce
      have "list_all P out'" using "1.IH" Cons l by (metis fst_conv length_Cons length_drop diff_le_self le_imp_less_Suc)
      moreover have "run_from x ys 1 \<le> 94" by (rule run_from_le) simp
      ultimately show ?thesis
        using encode_loop_run [OF r run e l] Cons one [of x ?m] e rep [OF r run] shift_to [of x] by simp
    next
      case False
      obtain bs m1 where e: "encode_one_byte x q m = (bs, m1)" by fastforce
      obtain out' m3 where l: "encode_loop q m1 ys = (out', m3)" by fastforce
      have "list_all P out'" using "1.IH" Cons l by (metis fst_conv length_Cons lessI)
      then show ?thesis
        using encode_loop_single [OF False e l] Cons one [of x m] e by simp
    qed
  qed simp
qed

lemma encode_data_all:
  assumes "\<And>b m. list_all P (fst (encode_one_byte b q m))"
    and "locking_shifts q \<Longrightarrow> P (qctl q) \<and> P (ctl SO) \<and> P (ctl SI)"
    and "\<And>r n. rept q = Some r \<Longrightarrow> 3 \<le> n \<Longrightarrow> n \<le> 94 \<Longrightarrow> P r \<and> P (tochar (word_of_nat n))"
  shows "list_all P (encode_data xs q)"
  using encode_loop_all [of P q Normal xs, OF assms] assms(2)
  by (auto simp: encode_data_def split: prod.splits)

lemma ctl_of_control: "is_kermit_control b \<Longrightarrow> \<not> is_kermit_control (ctl b)"
proof -
  have "is_kermit_control b \<longrightarrow> \<not> is_kermit_control (ctl b)"
    unfolding is_kermit_control_def ctl_def by (rule byte_exhaust [where b = b]) simp
  then show "is_kermit_control b \<Longrightarrow> \<not> is_kermit_control (ctl b)" ..
qed

lemma ctl_seven_bit: "b < 0x80 \<Longrightarrow> ctl b < 0x80"
  by (simp add: byte_less_128 ctl_def bit_simps)

lemma repeat_count_char:
  assumes "3 \<le> n" "n \<le> 94"
  shows "\<not> is_kermit_control (tochar (word_of_nat n)) \<and> tochar (word_of_nat n) < 0x80"
proof -
  have u: "unat (tochar (word_of_nat n)) = n + 32"
    using assms by (simp add: tochar_def unat_word_ariths)
  have "tochar (word_of_nat n) \<noteq> 0x7F" "tochar (word_of_nat n) \<noteq> 0xFF"
    using u assms by (auto dest: arg_cong [where f = unat])
  with u assms show ?thesis
    by (simp add: is_kermit_control_def word_less_nat_alt word_le_nat_alt)
qed

lemma encode_one_printable:
  assumes q: "quoting_ok q" "\<not> locking_shifts q"
  shows "list_all (\<lambda>b. \<not> is_kermit_control b) (fst (encode_one_byte b q m))"
proof -
  have "\<not> is_kermit_control (qctl q)" "\<And>c. qbin q = Some c \<Longrightarrow> \<not> is_kermit_control c"
    using quoting_okD(1,2) [OF q(1)] by (auto simp: quote_char_ok_def)
  then show ?thesis
    using q(2) by (auto simp: encode_one_byte_def ctl_of_control split: option.splits)
qed

lemma encode_data_printable:
  assumes "quoting_ok q" "\<not> locking_shifts q"
  shows "list_all (\<lambda>b. \<not> is_kermit_control b) (encode_data xs q)"
  using assms quoting_okD(3) [OF assms(1)] repeat_count_char
  by (intro encode_data_all) (auto simp: encode_one_printable quote_char_ok_def)

definition quoting_seven_bit :: "Quoting \<Rightarrow> bool" where
  "quoting_seven_bit q \<longleftrightarrow>
     qctl q < 0x80 \<and> pred_option (\<lambda>c. c < 0x80) (qbin q) \<and> pred_option (\<lambda>c. c < 0x80) (rept q) \<and>
     (qbin q \<noteq> None \<or> locking_shifts q)"

lemma encode_one_seven_bit:
  assumes "quoting_seven_bit q"
  shows "list_all (\<lambda>b. b < 0x80) (fst (encode_one_byte b q m))"
proof (cases "locking_shifts q")
  case True
  have "b AND 0x7F < 0x80" by (simp add: byte_facts)
  with True assms show ?thesis
    by (simp add: encode_one_byte_def shift_to_def quoting_seven_bit_def Let_def ctl_seven_bit)
next
  case False
  with assms obtain c where c: "qbin q = Some c" "c < 0x80"
    by (cases "qbin q") (auto simp: quoting_seven_bit_def)
  have "b AND 0x7F < 0x80" by (simp add: byte_facts)
  moreover have "b AND 0x80 = 0 \<Longrightarrow> b < 0x80" using high_bit_set [of b] by (simp add: byte_facts)
  ultimately show ?thesis
    using False c assms
    by (cases "b AND 0x80 = 0")
      (simp_all add: encode_one_byte_def quoting_seven_bit_def Let_def ctl_seven_bit)
qed

lemma encode_data_seven_bit:
  assumes "quoting_seven_bit q"
  shows "list_all (\<lambda>b. b < 0x80) (encode_data xs q)"
  using assms repeat_count_char
  by (intro encode_data_all) (auto simp: encode_one_seven_bit quoting_seven_bit_def ctl_seven_bit)

text \<open>Whatever the file holds, the data field of a packet is made of printable
  characters only (no C0, C1, DEL or 0xFF byte), so a terminal server in the path passes it
  unchanged; locking shifts are excluded, they quote SO and SI literally.\<close>

lemma encoded_data_is_printable:
  assumes "quoting_ok q" and "\<not> locking_shifts q"
  shows "list_all (\<lambda>b. \<not> is_kermit_control b) (encode_data input q)"
  using assms by (rule encode_data_printable)


text \<open>With an 8th-bit prefix or with locking shifts negotiated, every byte of the
  encoded data is below 0x80: the transfer survives a 7-bit line.\<close>

lemma encoded_data_is_seven_bit:
  assumes "quoting_seven_bit q"
  shows "list_all (\<lambda>b. b < 0x80) (encode_data input q)"
  using assms by (rule encode_data_seven_bit)



section \<open>What the block check catches\<close>

lemma kermit_crc16_detects:
  assumes "i < length data" "b \<noteq> data ! i"
  shows "kermit_crc16 (data[i := b]) \<noteq> kermit_crc16 data"
  unfolding kermit_crc16_fold using assms by (simp add: kermit_crc.detects_update)

lemma chk3_rejects:
  assumes "kermit_crc16 data' \<noteq> kermit_crc16 data"
  shows "verify_check 0x33 data' (block_check 0x33 data) = Inl (KCheckMismatch 0x33)"
  using assms by (auto simp: verify_check_def block_check_def chk3_decode_encode split: prod.splits)

text \<open>The 16-bit check (CHKT 3) refuses a packet in which any one byte was replaced
  by another value, whatever the position and the length of the packet.\<close>

lemma crc_check_rejects_corrupt_byte:
  assumes "i < length data" and "b \<noteq> data ! i"
  shows "verify_check 0x33 (data[i := b]) (block_check 0x33 data) = Inl (KCheckMismatch 0x33)"
  using chk3_rejects [OF kermit_crc16_detects [OF assms]] .


end
