(* ===== verification/Wire_Reader.thy ===== *)
theory Wire_Reader
  imports Tnio
begin

text \<open>
  The readers of the transfer protocols are sequences of byte reads that stop at the first
  error. A reader is a function of the per-stream state and the wire that gives an error or a
  value, and the state and wire after it; \<open>rbind\<close> is the \<^verbatim>\<open>?\<close> operator.

  Two contracts are stated here once for all protocols. \<open>byte_source\<close> says what a protocol's
  byte-level read does on a wire that carries given bytes. \<open>keeps_deadline\<close> says that a reader
  never runs past its deadline, and it is closed under sequencing.
\<close>

section \<open>Readers\<close>

type_synonym ('e, 'a) rd = "ReadState \<Rightarrow> wire \<Rightarrow> ('e + 'a) \<times> ReadState \<times> wire"

definition rpure :: "'a \<Rightarrow> ('e, 'a) rd" where
  "rpure x st w = (Inr x, st, w)"

definition rfail :: "'e \<Rightarrow> ('e, 'a) rd" where
  "rfail e st w = (Inl e, st, w)"

definition rbind :: "('e, 'a) rd \<Rightarrow> ('a \<Rightarrow> ('e, 'b) rd) \<Rightarrow> ('e, 'b) rd" where
  "rbind m f st w = (case m st w of
      (Inl e, st', w') \<Rightarrow> (Inl e, st', w')
    | (Inr x, st', w') \<Rightarrow> f x st' w')"

fun rtimes :: "nat \<Rightarrow> ('e, 'a) rd \<Rightarrow> ('e, 'a list) rd" where
  "rtimes 0 m = rpure []"
| "rtimes (Suc n) m = rbind m (\<lambda>x. rbind (rtimes n m) (\<lambda>xs. rpure (x # xs)))"

lemma rbind_Inr: "m st w = (Inr x, st', w') \<Longrightarrow> rbind m f st w = f x st' w'"
  by (simp add: rbind_def)

lemma rbind_Inl: "m st w = (Inl e, st', w') \<Longrightarrow> rbind m f st w = (Inl e, st', w')"
  by (simp add: rbind_def)

lemma rbind_InrE:
  assumes "rbind m f st w = (Inr y, st'', w'')"
  obtains x st' w' where "m st w = (Inr x, st', w')" "f x st' w' = (Inr y, st'', w'')"
  using assms by (auto simp: rbind_def split: prod.splits sum.splits)

lemma rpure_InrE: "rpure x st w = (Inr y, st', w') \<Longrightarrow> y = x \<and> st' = st \<and> w' = w"
  by (simp add: rpure_def)

lemma rfail_not_Inr [simp]: "rfail e st w \<noteq> (Inr y, st', w')"
  by (simp add: rfail_def)

lemma rtimes_length: "rtimes n m st w = (Inr xs, st', w') \<Longrightarrow> length xs = n"
  by (induction n arbitrary: st w xs) (auto elim!: rbind_InrE dest!: rpure_InrE)


text \<open>The key by which a user at a terminal gives up a transfer (\<^verbatim>\<open>src/src/telnet/mod.rs\<close>).\<close>

definition is_esc_key :: "byte \<Rightarrow> bool \<Rightarrow> bool" where
  "is_esc_key b is_petscii \<longleftrightarrow> b = 0x1B \<or> (is_petscii \<and> b = 0x5F)"


section \<open>Reading what the wire carries\<close>

locale byte_source =
  fixes get :: "('e, byte) rd"
    and carries :: "byte list \<Rightarrow> wire \<Rightarrow> wire \<Rightarrow> bool"
  assumes carries_Cons: "carries (b # bs) w w' \<Longrightarrow> pushback st = None \<Longrightarrow>
      \<exists>w1. get st w = (Inr b, st, w1) \<and> carries bs w1 w'"
begin

lemma get_first:
  assumes "carries (b # bs) w w'" "pushback st = None"
  obtains w1 where "get st w = (Inr b, st, w1)" "carries bs w1 w'"
  using carries_Cons [OF assms] by blast

lemma bind_get:
  assumes "carries (b # bs) w w'" "pushback st = None"
    and "\<And>w1. carries bs w1 w' \<Longrightarrow> P (f b st w1)"
  shows "P (rbind get f st w)"
proof -
  from assms(1,2) obtain w1 where "get st w = (Inr b, st, w1)" "carries bs w1 w'"
    by (rule get_first)
  with assms(3) show ?thesis by (simp add: rbind_Inr)
qed

lemma times_get:
  "carries (xs @ bs) w w' \<Longrightarrow> pushback st = None \<Longrightarrow>
   \<exists>w1. rtimes (length xs) get st w = (Inr xs, st, w1) \<and> carries bs w1 w'"
proof (induction xs arbitrary: w)
  case Nil
  then show ?case by (auto simp: rpure_def)
next
  case (Cons x xs)
  from Cons.prems obtain v where v: "get st w = (Inr x, st, v)" "carries (xs @ bs) v w'"
    using get_first by (metis append_Cons)
  from Cons.IH [OF v(2) Cons.prems(2)] obtain w1 where
      "rtimes (length xs) get st v = (Inr xs, st, w1)" "carries bs w1 w'"
    by blast
  with v(1) show ?case by (auto simp: rbind_Inr rpure_def)
qed

lemma bind_times_get:
  assumes "carries (xs @ bs) w w'" "pushback st = None" "length xs = n"
    and "\<And>w1. carries bs w1 w' \<Longrightarrow> P (f xs st w1)"
  shows "P (rbind (rtimes n get) f st w)"
  using times_get [OF assms(1,2)] assms(3,4) by (auto simp: rbind_Inr)

end


text \<open>
  A steady wire: no gap between two bytes is longer than \<open>g\<close>. Whatever is read from it arrives
  under any deadline that leaves that much time per byte.
\<close>

fun steady :: "nat \<Rightarrow> byte list \<Rightarrow> wire \<Rightarrow> wire \<Rightarrow> bool" where
  "steady g [] w w' \<longleftrightarrow> w' = w"
| "steady g (b # bs) w w' \<longleftrightarrow> (case feed w of
      [] \<Rightarrow> False
    | (d, x) # r \<Rightarrow> x = RxByte b \<and> d \<le> g \<and> steady g bs \<lparr>clock = clock w + d, feed = r\<rparr> w')"

lemma steady_append: "steady g (xs @ ys) w w' \<longleftrightarrow> (\<exists>v. steady g xs w v \<and> steady g ys v w')"
  by (induction xs arbitrary: w) (auto split: list.splits prod.splits)

lemma steady_delivers:
  "steady g bs w w' \<Longrightarrow> g \<le> IAC_SEQUENCE_TIMEOUT_MS \<Longrightarrow> clock w + g * length bs \<le> u \<Longrightarrow>
   delivers (Some u) bs w w'"
proof (induction bs arbitrary: w)
  case (Cons b bs)
  then obtain d r where r: "feed w = (d, RxByte b) # r" "d \<le> g" "steady g bs \<lparr>clock = clock w + d, feed = r\<rparr> w'"
    by (auto split: list.splits)
  have "clock \<lparr>clock = clock w + d, feed = r\<rparr> + g * length bs \<le> u" using Cons.prems(3) r(2) by simp
  from Cons.IH [OF r(3) Cons.prems(2) this] r Cons.prems(2,3) show ?case by simp
qed simp

text \<open>A concrete wire: the bytes come one per millisecond.\<close>

definition paced :: "nat \<Rightarrow> byte list \<Rightarrow> wire" where
  "paced c bs = \<lparr>clock = c, feed = map (\<lambda>b. (1, RxByte b)) bs\<rparr>"

lemma wire_form_length: "length (wire_form t bs) \<le> 2 * length bs"
  by (induction bs) (auto simp: wire_form_Cons)

lemma delivers_paced: "in_time dl (c + length bs) \<Longrightarrow> delivers dl bs (paced c bs) (paced (c + length bs) [])"
proof (induction bs arbitrary: c)
  case (Cons b bs)
  have "in_time dl (Suc c)" using Cons.prems by (cases dl) auto
  with Cons.IH [of "Suc c"] Cons.prems show ?case
    by (simp add: paced_def IAC_SEQUENCE_TIMEOUT_MS_def)
qed simp

lemma steady_paced: "0 < g \<Longrightarrow> steady g bs (paced c bs) (paced (c + length bs) [])"
  by (induction bs arbitrary: c) (auto simp: paced_def, metis add_Suc)


section \<open>Deadlines\<close>

lemma read_iac_continuation_clock:
  "read_iac_continuation (Some u) w = (r, w') \<Longrightarrow> clock w' \<le> max (clock w) u"
  unfolding read_iac_continuation_def
  by (erule within_elim) (auto dest: rx_clock)

lemma consume_telnet_command_clock:
  "consume_telnet_command (Some u) c w = (r, w') \<Longrightarrow> clock w' \<le> max (clock w) u"
proof (cases "c = SB")
  case True
  assume "consume_telnet_command (Some u) c w = (r, w')"
  with True have "within (Some u) (clock w + 5 * 1000) SbTimeout (\<lambda>dl. drain_sb dl w) = (r, w')"
    by (simp add: consume_telnet_command_def)
  then show ?thesis by (rule within_elim) (auto dest: drain_sb_clock)
next
  case False
  assume "consume_telnet_command (Some u) c w = (r, w')"
  with False show ?thesis
    by (auto simp: consume_telnet_command_def dest!: read_iac_continuation_clock
        split: if_splits prod.splits outcome.splits)
qed

lemma raw_read_clock: "raw_read_byte (Some u) t w = (r, w') \<Longrightarrow> clock w' \<le> max (clock w) u"
proof (induction "Some u" t w arbitrary: r w' rule: raw_read_byte.induct)
  case (1 t w)
  obtain x w1 where x: "rx (Some u) w = (x, w1)" by (cases "rx (Some u) w")
  obtain y w2 where y: "read_iac_continuation (Some u) w1 = (y, w2)"
    by (cases "read_iac_continuation (Some u) w1")
  obtain z w3 where z: "consume_telnet_command (Some u) (case y of Ok c \<Rightarrow> c | _ \<Rightarrow> 0) w2 = (z, w3)"
    by fastforce
  have "clock w1 \<le> max (clock w) u" "clock w2 \<le> max (clock w1) u" "clock w3 \<le> max (clock w2) u"
    using rx_clock [OF x] read_iac_continuation_clock [OF y] consume_telnet_command_clock [OF z]
    by auto
  with z show ?case
    using "1.prems" "1.hyps" [OF x [symmetric]]
    by (subst (asm) raw_read_byte.simps) (fastforce simp: x y split: outcome.splits if_splits)
qed

lemma raw_read_Ok_shrinks:
  "raw_read_byte dl t w = (Ok b, w') \<Longrightarrow> length (feed w') < length (feed w)"
proof (induction dl t w arbitrary: b w' rule: raw_read_byte.induct)
  case (1 dl t w)
  obtain x w1 where x: "rx dl w = (x, w1)" by (cases "rx dl w")
  obtain y w2 where y: "read_iac_continuation dl w1 = (y, w2)"
    by (cases "read_iac_continuation dl w1")
  obtain z w3 where z: "consume_telnet_command dl (case y of Ok c \<Rightarrow> c | _ \<Rightarrow> 0) w2 = (z, w3)"
    by fastforce
  have "length (feed w2) \<le> length (feed w1)" "length (feed w3) \<le> length (feed w2)"
    using read_iac_continuation_length [OF y] consume_telnet_command_length [OF z] by auto
  moreover have "x = Ok c \<Longrightarrow> length (feed w1) < length (feed w)" for c
    using rx_Ok_shrinks x by blast
  ultimately show ?case
    using "1.prems" "1.IH" [OF x [symmetric]] z
    by (subst (asm) raw_read_byte.simps) (fastforce simp: x y split: outcome.splits if_splits)
qed

text \<open>How much a stream can still give: what is on the wire and the byte pushed back.\<close>

definition stream_left :: "ReadState \<Rightarrow> wire \<Rightarrow> nat" where
  "stream_left st w = length (feed w) + (if pushback st = None then 0 else 1)"

lemma nvt_read_Ok_shrinks:
  "nvt_read_byte dl t st w = (Ok b, st', w') \<Longrightarrow> stream_left st' w' < stream_left st w"
  by (auto simp: nvt_read_byte_def stream_left_def dest!: raw_read_Ok_shrinks split: option.splits prod.splits)

lemma raw_read_length: "raw_read_byte dl t w = (r, w') \<Longrightarrow> length (feed w') \<le> length (feed w)"
proof (induction dl t w arbitrary: r w' rule: raw_read_byte.induct)
  case (1 dl t w)
  obtain x w1 where x: "rx dl w = (x, w1)" by (cases "rx dl w")
  obtain y w2 where y: "read_iac_continuation dl w1 = (y, w2)"
    by (cases "read_iac_continuation dl w1")
  obtain z w3 where z: "consume_telnet_command dl (case y of Ok c \<Rightarrow> c | _ \<Rightarrow> 0) w2 = (z, w3)"
    by fastforce
  have "length (feed w1) \<le> length (feed w)" "length (feed w2) \<le> length (feed w1)"
      "length (feed w3) \<le> length (feed w2)"
    using rx_length [OF x] read_iac_continuation_length [OF y] consume_telnet_command_length [OF z] by auto
  then show ?case
    using "1.prems" "1.IH" [OF x [symmetric]] z
    by (subst (asm) raw_read_byte.simps) (fastforce simp: x y split: outcome.splits if_splits)
qed

lemma nvt_read_le: "nvt_read_byte dl t st w = (r, st', w') \<Longrightarrow> stream_left st' w' \<le> stream_left st w"
  by (auto simp: nvt_read_byte_def stream_left_def dest!: raw_read_length split: option.splits prod.splits)

lemma nvt_read_clock: "nvt_read_byte (Some u) t st w = (r, st', w') \<Longrightarrow> clock w' \<le> max (clock w) u"
  by (auto simp: nvt_read_byte_def dest!: raw_read_clock split: option.splits prod.splits)

lemma stream_left_can [simp]:
  "stream_left (snd (is_can_abort b st)) w = stream_left st w"
  by (simp add: is_can_abort_def stream_left_def)

definition keeps_deadline :: "nat \<Rightarrow> ('e, 'a) rd \<Rightarrow> bool" where
  "keeps_deadline d m \<longleftrightarrow> (\<forall>st w r st' w'. m st w = (r, st', w') \<longrightarrow> clock w' \<le> max (clock w) d)"

lemma keeps_deadlineD: "keeps_deadline d m \<Longrightarrow> m st w = (r, st', w') \<Longrightarrow> clock w' \<le> max (clock w) d"
  by (simp add: keeps_deadline_def)

lemma keeps_deadline_rpure [invar_intros]: "keeps_deadline d (rpure x)"
  by (simp add: keeps_deadline_def rpure_def)

lemma keeps_deadline_rfail [invar_intros]: "keeps_deadline d (rfail e)"
  by (simp add: keeps_deadline_def rfail_def)

lemma keeps_deadline_rbind [invar_intros]:
  assumes "keeps_deadline d m" "\<And>x. keeps_deadline d (f x)"
  shows "keeps_deadline d (rbind m f)"
  unfolding keeps_deadline_def
proof (intro allI impI)
  fix st w r st' w' assume r: "rbind m f st w = (r, st', w')"
  obtain x st1 w1 where m: "m st w = (x, st1, w1)" by (cases "m st w")
  have "clock w1 \<le> max (clock w) d" using assms(1) m by (rule keeps_deadlineD)
  moreover have "clock w' \<le> max (clock w1) d"
    using r m keeps_deadlineD [OF assms(2)] by (auto simp: rbind_def split: sum.splits)
  ultimately show "clock w' \<le> max (clock w) d" by simp
qed

lemma keeps_deadline_if [invar_intros]:
  "keeps_deadline d m \<Longrightarrow> keeps_deadline d n \<Longrightarrow> keeps_deadline d (if c then m else n)"
  by simp

lemma keeps_deadline_rtimes [invar_intros]: "keeps_deadline d m \<Longrightarrow> keeps_deadline d (rtimes n m)"
  by (induction n) (auto intro!: invar_intros)

end
