(* ===== verification/Kermit_Packet.thy ===== *)
theory Kermit_Packet
  imports Kermit_Codec Wire_Reader
begin

text \<open>
  Kermit packets (\<^verbatim>\<open>src/src/kermit.rs\<close>): building a packet in the standard and in the
  extended-length form, and reading one from the wire under a deadline: the hunt for MARK with its
  two abort signals, both header forms, the check, and the best-effort read of the terminator.
  Diagnostics (\<^verbatim>\<open>glog!\<close>) have no effect on the result and are left out.
\<close>

section \<open>Definitions\<close>

abbreviation (input) TYPE_SEND_INIT :: byte where "TYPE_SEND_INIT \<equiv> 0x53"
abbreviation (input) TYPE_INIT :: byte where "TYPE_INIT \<equiv> 0x49"
abbreviation (input) CLASSIC_MAX_PACKET_LEN :: nat where "CLASSIC_MAX_PACKET_LEN \<equiv> 94"
abbreviation (input) EXTENDED_MAX_PACKET_LEN :: nat where "EXTENDED_MAX_PACKET_LEN \<equiv> 9024"

record Packet =
  kind :: byte
  seq :: byte
  payload :: "byte list"

text \<open>The bytes between MARK and the check, which are also what the check covers.\<close>

definition packet_head :: "byte \<Rightarrow> byte \<Rightarrow> byte list \<Rightarrow> byte \<Rightarrow> byte list" where
  "packet_head knd sq pl chkt =
     (let cklen = check_size chkt;
          body_len = 1 + 1 + length pl + cklen
      in if body_len \<le> CLASSIC_MAX_PACKET_LEN
         then [tochar (word_of_nat body_len), tochar (sq AND 0x3F), knd] @ pl
         else
           (let extended_len = length pl + cklen;
                lenx1 = word_of_nat (extended_len div 95);
                lenx2 = word_of_nat (extended_len mod 95);
                head = [SP, tochar (sq AND 0x3F), knd, tochar lenx1, tochar lenx2]
            in head @ [chk1 head] @ pl))"

definition build_packet ::
    "byte \<Rightarrow> byte \<Rightarrow> byte list \<Rightarrow> byte \<Rightarrow> byte \<Rightarrow> byte \<Rightarrow> byte \<Rightarrow> byte list" where
  "build_packet knd sq pl chkt pad_count pad_char eol =
     (let out = packet_head knd sq pl chkt
      in replicate (unat pad_count) pad_char @ [SOH] @ out @ block_check chkt out @ [eol])"

definition read_byte_with_deadline :: "nat option \<Rightarrow> bool \<Rightarrow> (kermit_error, byte) rd" where
  "read_byte_with_deadline deadline is_tcp st w = (case deadline of
      Some d \<Rightarrow>
        if clock w \<ge> d then (Inl KReadTimeout, st, w)
        else (case nvt_read_byte (Some d) is_tcp st w of
            (Ok b, st', w') \<Rightarrow> (Inr b, st', w')
          | (Err e, st', w') \<Rightarrow> (Inl (KIo e), st', w')
          | (Elapsed, st', w') \<Rightarrow> (Inl KReadTimeout, st', w'))
    | None \<Rightarrow>
        (case nvt_read_byte None is_tcp st w of
            (Ok b, st', w') \<Rightarrow> (Inr b, st', w')
          | (Err e, st', w') \<Rightarrow> (Inl (KIo e), st', w')
          | (Elapsed, st', w') \<Rightarrow> (Inl KReadTimeout, st', w')))"

text \<open>The header of an extended-length packet, from the byte after its blank LEN: the header bytes
  for the check, SEQ, TYPE, the payload length, and the check type.\<close>

definition read_extended_header ::
    "(kermit_error, byte) rd \<Rightarrow> byte \<Rightarrow> (kermit_error, byte list \<times> byte \<times> byte \<times> nat \<times> byte) rd" where
  "read_extended_header get chkt =
     rbind get (\<lambda>seq_byte. rbind get (\<lambda>knd. rbind get (\<lambda>lenx1. rbind get (\<lambda>lenx2.
     rbind get (\<lambda>hcheck.
       (let header_input = [SP, seq_byte, knd, lenx1, lenx2];
            expected_hcheck = chk1 header_input;
            extended_len = unat (unchar lenx1) * 95 + unat (unchar lenx2);
            cklen = check_size chkt
        in if hcheck \<noteq> expected_hcheck then rfail (KHeaderCheck hcheck expected_hcheck)
           else if extended_len < cklen then rfail (KExtendedShort extended_len)
           else if extended_len - cklen > EXTENDED_MAX_PACKET_LEN then rfail (KExtendedLong extended_len)
           else rpure (header_input @ [hcheck], unchar seq_byte AND 0x3F, knd, extended_len - cklen, chkt)))))))"

text \<open>Reading and dropping what a packet with a bogus LEN claims is left of it, up to the first
  failed read.\<close>

fun drain_bytes :: "nat \<Rightarrow> ('e, byte) rd \<Rightarrow> ('e, unit) rd" where
  "drain_bytes 0 get st w = (Inr (), st, w)"
| "drain_bytes (Suc n) get st w = (case get st w of
      (Inl _, st', w') \<Rightarrow> (Inr (), st', w')
    | (Inr _, st', w') \<Rightarrow> drain_bytes n get st' w')"

definition read_standard_header ::
    "(kermit_error, byte) rd \<Rightarrow> byte \<Rightarrow> byte \<Rightarrow>
     (kermit_error, byte list \<times> byte \<times> byte \<times> nat \<times> byte) rd" where
  "read_standard_header get chkt len_byte =
     (let n = unat (unchar len_byte)
      in if n < 3 then rfail (KPacketSmall n)
         else rbind get (\<lambda>seq_byte. rbind get (\<lambda>knd.
           (let chkt' = (if knd = TYPE_SEND_INIT \<or> knd = TYPE_INIT then 0x31 else chkt);
                cklen = check_size chkt'
            in if n < 2 + cklen
               then rbind (drain_bytes (min (n - 2) 32) get) (\<lambda>_. rfail (KPacketShort n cklen))
               else rpure ([len_byte, seq_byte, knd], unchar seq_byte AND 0x3F, knd,
                           n - 2 - cklen, chkt')))))"

definition read_eol :: "nat option \<Rightarrow> bool \<Rightarrow> byte \<Rightarrow> (kermit_error, unit) rd" where
  "read_eol deadline is_tcp eol st w =
     (if eol = 0 then (Inr (), st, w)
      else
        (let eol_deadline = Some (case deadline of
               Some d \<Rightarrow> min d (clock w + 200) | None \<Rightarrow> clock w + 200)
         in case read_byte_with_deadline eol_deadline is_tcp st w of
              (Inr b, st', w') \<Rightarrow>
                if b = eol then (Inr (), st', w') else (Inr (), st'\<lparr>pushback := Some b\<rparr>, w')
            | (Inl _, st', w') \<Rightarrow> (Inr (), st', w')))"

definition read_packet_after_mark ::
    "bool \<Rightarrow> byte \<Rightarrow> byte \<Rightarrow> nat option \<Rightarrow> (kermit_error, Packet) rd" where
  "read_packet_after_mark is_tcp chkt eol deadline =
     (let get = read_byte_with_deadline deadline is_tcp in
      rbind get (\<lambda>len_byte.
      rbind (if len_byte = SP then read_extended_header get chkt
             else read_standard_header get chkt len_byte)
        (\<lambda>(header_input, sq, knd, payload_len, chkt').
      rbind (rtimes payload_len get) (\<lambda>pl.
      rbind (rtimes (check_size chkt') get) (\<lambda>check_bytes.
        (case verify_check chkt' (header_input @ pl) check_bytes of
            Inl e \<Rightarrow> rfail e
          | Inr _ \<Rightarrow>
              rbind (read_eol deadline is_tcp eol) (\<lambda>_.
                rpure \<lparr>kind = knd, seq = sq, payload = pl\<rparr>)))))))"

lemma read_byte_shrinks:
  "read_byte_with_deadline dl t st w = (Inr b, st', w') \<Longrightarrow> stream_left st' w' < stream_left st w"
  by (auto simp: read_byte_with_deadline_def dest!: nvt_read_Ok_shrinks
      split: option.splits outcome.splits prod.splits if_splits)

function hunt_mark :: "nat option \<Rightarrow> bool \<Rightarrow> bool \<Rightarrow> (kermit_error, unit) rd" where
  "hunt_mark deadline is_tcp is_petscii st w =
     (case read_byte_with_deadline deadline is_tcp st w of
        (Inl e, st1, w1) \<Rightarrow> (Inl e, st1\<lparr>resync := False\<rparr>, w1)
      | (Inr b, st1, w1) \<Rightarrow>
          if b = SOH then (Inr (), st1, w1)
          else if resync st1 then hunt_mark deadline is_tcp is_petscii st1 w1
          else if is_esc_key b is_petscii then (Inl KCancelledByUser, st1, w1)
          else if fst (is_can_abort b st1) then (Inl KPeerAborted, snd (is_can_abort b st1), w1)
          else hunt_mark deadline is_tcp is_petscii (snd (is_can_abort b st1)) w1)"
  by pat_completeness auto
termination
  by (relation "measure (\<lambda>(d, t, p, st, w). stream_left st w)")
    (auto dest!: read_byte_shrinks [OF sym])

declare hunt_mark.simps [simp del]

definition read_packet ::
    "bool \<Rightarrow> bool \<Rightarrow> byte \<Rightarrow> byte \<Rightarrow> nat option \<Rightarrow> (kermit_error, Packet) rd" where
  "read_packet is_tcp is_petscii chkt eol deadline st w =
     (case hunt_mark deadline is_tcp is_petscii st w of
        (Inl e, st1, w1) \<Rightarrow> (Inl e, st1, w1)
      | (Inr _, st1, w1) \<Rightarrow>
          (case read_packet_after_mark is_tcp chkt eol deadline st1 w1 of
             (Inl e, st2, w2) \<Rightarrow>
               (Inl e, st2\<lparr>resync := e \<noteq> KReadTimeout \<and> e \<noteq> KIo PeerClosed\<rparr>, w2)
           | (Inr p, st2, w2) \<Rightarrow> (Inr p, st2\<lparr>resync := False\<rparr>, w2)))"


section \<open>Reading a wire that carries a packet\<close>

definition before :: "nat option \<Rightarrow> wire \<Rightarrow> bool" where
  "before dl w \<longleftrightarrow> (case dl of None \<Rightarrow> True | Some d \<Rightarrow> clock w < d)"

text \<open>The bytes arrive promptly and the last one strictly before the deadline.\<close>

definition arrives :: "nat option \<Rightarrow> bool \<Rightarrow> byte list \<Rightarrow> wire \<Rightarrow> wire \<Rightarrow> bool" where
  "arrives dl t bs w w' \<longleftrightarrow> delivers dl (wire_form t bs) w w' \<and> before dl w'"

interpretation kermit_source: byte_source "read_byte_with_deadline dl t" "arrives dl t" for dl t
proof
  show "\<exists>w1. read_byte_with_deadline dl t st w = (Inr b, st, w1) \<and> arrives dl t bs w1 w'"
    if a: "arrives dl t (b # bs) w w'" and st: "pushback st = None" for b bs w w' st
  proof -
    from a have d: "delivers dl (wire_form t (b # bs)) w w'" and e: "before dl w'"
      by (auto simp: arrives_def)
    from d obtain w1 where w1: "raw_read_byte dl t w = (Ok b, w1)" "delivers dl (wire_form t bs) w1 w'"
      by (rule raw_read_wire_form)
    have "clock w \<le> clock w'" using d by (rule delivers_clock_mono)
    then have "read_byte_with_deadline dl t st w = (Inr b, st, w1)"
      using e nvt_read_byte_fresh [OF st w1(1)]
      by (auto simp: read_byte_with_deadline_def before_def split: option.splits)
    with w1 e show ?thesis by (auto simp: arrives_def)
  qed
qed

lemma read_eol_Inr: "\<exists>st' w'. read_eol dl t eol st w = (Inr (), st', w')"
  by (auto simp: read_eol_def Let_def split: sum.splits prod.splits)

lemma unat_unchar_tochar: "n < 256 \<Longrightarrow> unat (unchar (tochar (word_of_nat n))) = n"
  by simp

lemma seq_masked: "unchar (tochar (sq AND 0x3F)) AND 0x3F = sq AND 0x3F"
  by (simp add: byte_eq_iff bit_simps)

lemma tochar_eq_SP: "tochar b = SP \<longleftrightarrow> b = 0"
  by (metis unchar_tochar tochar_def add_0 unchar_def diff_self)

lemma read_standard_head:
  assumes "arrives dl t (tochar (sq AND 0x3F) # knd # rest) w w'" "pushback st = None"
    and "3 \<le> n" "n \<le> 94" "2 + check_size chkt \<le> n" "knd \<in> {TYPE_SEND_INIT, TYPE_INIT} \<Longrightarrow> chkt = 0x31"
  obtains w1 where "read_standard_header (read_byte_with_deadline dl t) chkt (tochar (word_of_nat n)) st w =
      (Inr ([tochar (word_of_nat n), tochar (sq AND 0x3F), knd], sq AND 0x3F, knd, n - 2 - check_size chkt, chkt),
       st, w1)" "arrives dl t rest w1 w'"
proof -
  have "unat (unchar (tochar (word_of_nat n))) = n" using assms(4) by (intro unat_unchar_tochar) simp
  moreover obtain v where v: "read_byte_with_deadline dl t st w = (Inr (tochar (sq AND 0x3F)), st, v)"
      "arrives dl t (knd # rest) v w'"
    using assms(1,2) by (rule kermit_source.get_first)
  moreover obtain u where "read_byte_with_deadline dl t st v = (Inr knd, st, u)" "arrives dl t rest u w'"
    using v(2) assms(2) by (rule kermit_source.get_first)
  ultimately show thesis
    using assms(3-) by (intro that [of u])
      (auto simp: read_standard_header_def rbind_Inr rpure_def seq_masked simp del: unchar_tochar)
qed

lemma read_extended_head:
  assumes "arrives dl t ([tochar (sq AND 0x3F), knd, tochar (word_of_nat (n div 95)),
        tochar (word_of_nat (n mod 95)),
        chk1 [SP, tochar (sq AND 0x3F), knd, tochar (word_of_nat (n div 95)), tochar (word_of_nat (n mod 95))]]
        @ rest) w w'" (is "arrives _ _ ([?s, _, ?x1, ?x2, ?h] @ _) _ _")
    and "pushback st = None" "check_size chkt \<le> n" "n \<le> 9024"
  obtains w1 where "read_extended_header (read_byte_with_deadline dl t) chkt st w =
      (Inr ([SP, ?s, knd, ?x1, ?x2, ?h], sq AND 0x3F, knd, n - check_size chkt, chkt), st, w1)"
      "arrives dl t rest w1 w'"
proof -
  have "n div 95 < 256" "n mod 95 < 256" using assms(4) by auto
  then have len: "unat (unchar ?x1) * 95 + unat (unchar ?x2) = n"
    by (simp only: unat_unchar_tochar) simp
  from assms(1) have "arrives dl t (?s # knd # ?x1 # ?x2 # ?h # rest) w w'" by simp
  then obtain v1 where v1: "read_byte_with_deadline dl t st w = (Inr ?s, st, v1)"
      "arrives dl t (knd # ?x1 # ?x2 # ?h # rest) v1 w'"
    using assms(2) by (rule kermit_source.get_first)
  from v1(2) assms(2) obtain v2 where v2: "read_byte_with_deadline dl t st v1 = (Inr knd, st, v2)"
      "arrives dl t (?x1 # ?x2 # ?h # rest) v2 w'"
    by (rule kermit_source.get_first)
  from v2(2) assms(2) obtain v3 where v3: "read_byte_with_deadline dl t st v2 = (Inr ?x1, st, v3)"
      "arrives dl t (?x2 # ?h # rest) v3 w'"
    by (rule kermit_source.get_first)
  from v3(2) assms(2) obtain v4 where v4: "read_byte_with_deadline dl t st v3 = (Inr ?x2, st, v4)"
      "arrives dl t (?h # rest) v4 w'"
    by (rule kermit_source.get_first)
  from v4(2) assms(2) obtain v5 where v5: "read_byte_with_deadline dl t st v4 = (Inr ?h, st, v5)"
      "arrives dl t rest v5 w'"
    by (rule kermit_source.get_first)
  have "read_extended_header (read_byte_with_deadline dl t) chkt st w =
      (Inr ([SP, ?s, knd, ?x1, ?x2, ?h], sq AND 0x3F, knd, n - check_size chkt, chkt), st, v5)"
    using len assms(3,4)
    by (simp add: read_extended_header_def rbind_Inr v1(1) v2(1) v3(1) v4(1) v5(1) Let_def rpure_def
        seq_masked del: unchar_tochar)
  with v5(2) show thesis by (rule that [rotated])
qed

text \<open>A head that arrived in full is read back, and the check that follows it decides.\<close>

lemma check_size_pos [simp]: "0 < check_size chkt" "check_size chkt \<le> 3"
  by (simp_all add: check_size_def)

definition head_of :: "byte \<Rightarrow> byte \<Rightarrow> byte list \<Rightarrow> byte \<Rightarrow> byte list" where
  "head_of knd sq pl chkt =
     take (if 2 + length pl + check_size chkt \<le> 94 then 3 else 6) (packet_head knd sq pl chkt)"

lemma packet_head_split: "packet_head knd sq pl chkt = head_of knd sq pl chkt @ pl"
  by (simp add: head_of_def packet_head_def Let_def add.commute)

lemma read_head_standard:
  assumes "arrives dl t (packet_head knd sq pl chkt @ rest) w w'" "pushback st = None"
    and "2 + length pl + check_size chkt \<le> 94" "knd \<in> {TYPE_SEND_INIT, TYPE_INIT} \<Longrightarrow> chkt = 0x31"
  obtains len_byte w0 v where "read_byte_with_deadline dl t st w = (Inr len_byte, st, w0)" "len_byte \<noteq> SP"
    "read_standard_header (read_byte_with_deadline dl t) chkt len_byte st w0 =
       (Inr (head_of knd sq pl chkt, sq AND 0x3F, knd, length pl, chkt), st, v)"
    "arrives dl t (pl @ rest) v w'"
proof -
  define n where "n = 2 + length pl + check_size chkt"
  have n: "3 \<le> n" "n \<le> 94" "2 + check_size chkt \<le> n" "n - 2 - check_size chkt = length pl"
    using assms(3) check_size_pos(1) [of chkt] unfolding n_def by linarith+
  have head: "packet_head knd sq pl chkt = [tochar (word_of_nat n), tochar (sq AND 0x3F), knd] @ pl"
    using assms(3) by (simp add: packet_head_def Let_def n_def)
  have "unat (word_of_nat n :: byte) \<noteq> 0" using n by (subst unat_word_of_nat_byte) simp_all
  then have ne: "tochar (word_of_nat n) \<noteq> SP" by (metis tochar_eq_SP unat_0)
  from assms(1) have "arrives dl t (tochar (word_of_nat n) # tochar (sq AND 0x3F) # knd # pl @ rest) w w'"
    by (simp add: head)
  then obtain w0 where w0: "read_byte_with_deadline dl t st w = (Inr (tochar (word_of_nat n)), st, w0)"
      "arrives dl t (tochar (sq AND 0x3F) # knd # pl @ rest) w0 w'"
    using assms(2) by (rule kermit_source.get_first)
  from w0(2) assms(2) n(1-3) assms(4) obtain v where
      "read_standard_header (read_byte_with_deadline dl t) chkt (tochar (word_of_nat n)) st w0 =
        (Inr ([tochar (word_of_nat n), tochar (sq AND 0x3F), knd], sq AND 0x3F, knd,
          n - 2 - check_size chkt, chkt), st, v)" "arrives dl t (pl @ rest) v w'"
    by (rule read_standard_head)
  then show thesis
    using w0(1) ne n assms(3) by (intro that) (auto simp: head_of_def head)
qed

lemma read_head_extended:
  assumes "arrives dl t (packet_head knd sq pl chkt @ rest) w w'" "pushback st = None"
    and "\<not> 2 + length pl + check_size chkt \<le> 94" "length pl + check_size chkt \<le> 9024"
  obtains w0 v where "read_byte_with_deadline dl t st w = (Inr SP, st, w0)"
    "read_extended_header (read_byte_with_deadline dl t) chkt st w0 =
       (Inr (head_of knd sq pl chkt, sq AND 0x3F, knd, length pl, chkt), st, v)"
    "arrives dl t (pl @ rest) v w'"
proof -
  define n where "n = length pl + check_size chkt"
  let ?h = "[tochar (sq AND 0x3F), knd, tochar (word_of_nat (n div 95)), tochar (word_of_nat (n mod 95))]"
  have head: "packet_head knd sq pl chkt = SP # ?h @ [chk1 (SP # ?h)] @ pl"
    using assms(3) by (simp add: packet_head_def Let_def n_def)
  from assms(1) have "arrives dl t (SP # (?h @ [chk1 (SP # ?h)] @ pl @ rest)) w w'"
    by (simp add: head)
  then obtain w0 where w0: "read_byte_with_deadline dl t st w = (Inr SP, st, w0)"
      "arrives dl t (?h @ [chk1 (SP # ?h)] @ pl @ rest) w0 w'"
    using assms(2) by (rule kermit_source.get_first)
  then have arr: "arrives dl t ([tochar (sq AND 0x3F), knd, tochar (word_of_nat (n div 95)),
      tochar (word_of_nat (n mod 95)), chk1 (SP # ?h)] @ pl @ rest) w0 w'"
    by simp
  obtain v where "read_extended_header (read_byte_with_deadline dl t) chkt st w0 =
        (Inr (SP # ?h @ [chk1 (SP # ?h)], sq AND 0x3F, knd, n - check_size chkt, chkt), st, v)"
      "arrives dl t (pl @ rest) v w'"
    by (rule read_extended_head [OF arr assms(2), of chkt]) (use assms(4) in \<open>auto simp: n_def\<close>)
  then show thesis
    using w0(1) assms(3) by (intro that) (auto simp: head_of_def head n_def)
qed

lemma read_head:
  assumes "arrives dl t (packet_head knd sq pl chkt @ rest) w w'" "pushback st = None"
    and "length pl + check_size chkt \<le> 9024" "knd \<in> {TYPE_SEND_INIT, TYPE_INIT} \<Longrightarrow> chkt = 0x31"
  obtains len_byte w0 v where "read_byte_with_deadline dl t st w = (Inr len_byte, st, w0)"
    "(if len_byte = SP then read_extended_header (read_byte_with_deadline dl t) chkt
      else read_standard_header (read_byte_with_deadline dl t) chkt len_byte) st w0 =
        (Inr (head_of knd sq pl chkt, sq AND 0x3F, knd, length pl, chkt), st, v)"
    "arrives dl t (pl @ rest) v w'"
proof (cases "2 + length pl + check_size chkt \<le> 94")
  case True
  from assms(1,2) True assms(4) show thesis by (rule read_head_standard) (auto intro: that)
next
  case False
  from assms(1,2) False assms(3) show thesis by (rule read_head_extended) (auto intro: that)
qed

lemma read_after_mark:
  assumes "arrives dl t (packet_head knd sq pl chkt @ ck @ rest) w w'" "pushback st = None"
    and "length ck = check_size chkt" "length pl + check_size chkt \<le> 9024"
    and "knd \<in> {TYPE_SEND_INIT, TYPE_INIT} \<Longrightarrow> chkt = 0x31"
  shows "\<exists>st' w1. read_packet_after_mark t chkt eol dl st w =
    (case verify_check chkt (packet_head knd sq pl chkt) ck of
       Inl e \<Rightarrow> Inl e | Inr _ \<Rightarrow> Inr \<lparr>kind = knd, seq = sq AND 0x3F, payload = pl\<rparr>, st', w1)"
proof -
  from assms(1,2,4,5) obtain len_byte w0 v where
      step: "read_byte_with_deadline dl t st w = (Inr len_byte, st, w0)"
      "(if len_byte = SP then read_extended_header (read_byte_with_deadline dl t) chkt
       else read_standard_header (read_byte_with_deadline dl t) chkt len_byte) st w0 =
        (Inr (head_of knd sq pl chkt, sq AND 0x3F, knd, length pl, chkt), st, v)"
      and v: "arrives dl t (pl @ ck @ rest) v w'"
    by (rule read_head)
  from kermit_source.times_get [OF v assms(2)] obtain v2 where
    pl: "rtimes (length pl) (read_byte_with_deadline dl t) st v = (Inr pl, st, v2)"
      and v2: "arrives dl t (ck @ rest) v2 w'" by blast
  from kermit_source.times_get [OF v2 assms(2)] obtain v3 where
    ck: "rtimes (check_size chkt) (read_byte_with_deadline dl t) st v2 = (Inr ck, st, v3)"
    using assms(3) by auto
  obtain st' w1 where eol: "read_eol dl t eol st v3 = (Inr (), st', w1)" using read_eol_Inr by blast
  show ?thesis
    using step pl ck eol
    by (cases "verify_check chkt (packet_head knd sq pl chkt) ck")
      (auto simp: read_packet_after_mark_def Let_def rbind_Inr packet_head_split rfail_def rpure_def)
qed


section \<open>The hunt for MARK\<close>

text \<open>A byte that the hunt passes over at a packet boundary: no MARK and no abort signal.\<close>

definition noise_byte :: "bool \<Rightarrow> byte \<Rightarrow> bool" where
  "noise_byte p b \<longleftrightarrow> b \<noteq> SOH \<and> \<not> is_esc_key b p \<and> b \<noteq> CAN"

lemma is_can_abort_noise: "b \<noteq> CAN \<Longrightarrow> is_can_abort b st = (False, st\<lparr>pending_can := False\<rparr>)"
  by (simp add: is_can_abort_def)

lemma hunt_skips_noise:
  assumes "arrives dl t (ns @ SOH # bs) w w'" "pushback st = None" "list_all (noise_byte p) ns"
  shows "\<exists>st1 w1. hunt_mark dl t p st w = (Inr (), st1, w1) \<and> arrives dl t bs w1 w' \<and> pushback st1 = None"
  using assms
proof (induction ns arbitrary: st w)
  case Nil
  then have "arrives dl t (SOH # bs) w w'" by simp
  then obtain w1 where "read_byte_with_deadline dl t st w = (Inr SOH, st, w1)" "arrives dl t bs w1 w'"
    using Nil.prems(2) by (rule kermit_source.get_first)
  with Nil.prems(2) show ?case by (simp add: hunt_mark.simps [of dl t p st w])
next
  case (Cons n ns)
  then have "arrives dl t (n # ns @ SOH # bs) w w'" by simp
  then obtain v where v: "read_byte_with_deadline dl t st w = (Inr n, st, v)"
      "arrives dl t (ns @ SOH # bs) v w'"
    using Cons.prems(2) by (rule kermit_source.get_first)
  have n: "n \<noteq> SOH" "\<not> is_esc_key n p" "n \<noteq> CAN" using Cons.prems(3) by (auto simp: noise_byte_def)
  define st' where "st' = (if resync st then st else st\<lparr>pending_can := False\<rparr>)"
  have "hunt_mark dl t p st w = hunt_mark dl t p st' v"
    using v(1) n by (simp add: hunt_mark.simps [of dl t p st w] is_can_abort_noise st'_def)
  moreover have "pushback st' = None" using Cons.prems(2) by (simp add: st'_def)
  ultimately show ?case using Cons.IH [OF v(2)] Cons.prems(3) by simp
qed

lemma hunt_resync_no_abort:
  assumes "resync st" "hunt_mark dl t p st w = (r, st', w')"
  shows "r \<noteq> Inl KCancelledByUser" "r \<noteq> Inl KPeerAborted"
proof -
  have "r \<noteq> Inl KCancelledByUser \<and> r \<noteq> Inl KPeerAborted"
    using assms
  proof (induction dl t p st w arbitrary: r rule: hunt_mark.induct)
    case (1 dl t p st w)
    obtain x st1 w1 where x: "read_byte_with_deadline dl t st w = (x, st1, w1)" by (cases "read_byte_with_deadline dl t st w")
    show ?case
    proof (cases x)
      case (Inl e)
      then show ?thesis using "1.prems"(2) x
        by (auto simp: hunt_mark.simps [of dl t p st w] read_byte_with_deadline_def
            split: option.splits if_splits prod.splits outcome.splits)
    next
      case (Inr b)
      have st1: "resync st1" using x "1.prems"(1)
        by (auto simp: read_byte_with_deadline_def nvt_read_byte_def
            split: option.splits if_splits prod.splits outcome.splits)
      show ?thesis
      proof (cases "b = SOH")
        case True
        then show ?thesis using "1.prems"(2) x Inr by (auto simp: hunt_mark.simps [of dl t p st w])
      next
        case False
        then have "hunt_mark dl t p st1 w1 = (r, st', w')"
          using "1.prems"(2) x Inr st1 by (simp add: hunt_mark.simps [of dl t p st w])
        with "1.IH"(1) [OF x [symmetric]] Inr False st1 show ?thesis by blast
      qed
    qed
  qed
  then show "r \<noteq> Inl KCancelledByUser" "r \<noteq> Inl KPeerAborted" by blast+
qed


section \<open>Properties\<close>

lemma wire_carries_packet:
  assumes "arrives dl t (ns @ SOH # packet_head knd sq pl chkt @ ck @ rest) w w'" "pushback st = None"
    and "list_all (noise_byte p) ns" "length ck = check_size chkt" "length pl + check_size chkt \<le> 9024"
    and "knd \<in> {TYPE_SEND_INIT, TYPE_INIT} \<Longrightarrow> chkt = 0x31"
  shows "\<exists>st' w1. read_packet t p chkt eol dl st w =
    (case verify_check chkt (packet_head knd sq pl chkt) ck of
       Inl e \<Rightarrow> (Inl e, st'\<lparr>resync := e \<noteq> KReadTimeout \<and> e \<noteq> KIo PeerClosed\<rparr>, w1)
     | Inr _ \<Rightarrow> (Inr \<lparr>kind = knd, seq = sq AND 0x3F, payload = pl\<rparr>, st'\<lparr>resync := False\<rparr>, w1))"
proof -
  from hunt_skips_noise [OF assms(1-3)] obtain st1 w1 where
      h: "hunt_mark dl t p st w = (Inr (), st1, w1)"
      "arrives dl t (packet_head knd sq pl chkt @ ck @ rest) w1 w'" "pushback st1 = None"
    by blast
  from read_after_mark [OF h(2,3) assms(4-6)] obtain st' w2 where
    "read_packet_after_mark t chkt eol dl st1 w1 =
     (case verify_check chkt (packet_head knd sq pl chkt) ck of
       Inl e \<Rightarrow> Inl e | Inr _ \<Rightarrow> Inr \<lparr>kind = knd, seq = sq AND 0x3F, payload = pl\<rparr>, st', w2)"
    by blast
  with h(1) show ?thesis
    by (auto simp: read_packet_def split: sum.splits)
qed

text \<open>Property C22: a packet of any type, in the standard or the extended-length form, with any of
  the three checks, with padding before it and line noise before that, arriving over telnet (IAC
  doubled) or a clean link before the deadline, is read back with its type, its sequence number
  and its payload, and the stream is then at a packet boundary.\<close>

theorem packet_roundtrip:
  assumes "arrives dl is_tcp (noise @ build_packet knd sq pl chkt npad padc eol) w w'"
    and "pushback st = None" and "list_all (noise_byte is_petscii) noise"
    and "npad = 0 \<or> noise_byte is_petscii padc" and "length pl + check_size chkt \<le> 9024"
    and "knd \<in> {TYPE_SEND_INIT, TYPE_INIT} \<longrightarrow> chkt = 0x31"
  shows "\<exists>st' w1. read_packet is_tcp is_petscii chkt eol dl st w =
    (Inr \<lparr>kind = knd, seq = sq AND 0x3F, payload = pl\<rparr>, st', w1) \<and> \<not> resync st'"
proof -
  let ?ns = "noise @ replicate (unat npad) padc" and ?h = "packet_head knd sq pl chkt"
  have "arrives dl is_tcp (?ns @ SOH # ?h @ block_check chkt ?h @ [eol]) w w'"
    using assms(1) by (simp add: build_packet_def Let_def)
  moreover have "list_all (noise_byte is_petscii) ?ns"
    using assms(3,4) by auto
  ultimately show ?thesis
    using wire_carries_packet [of dl is_tcp ?ns knd sq pl chkt "block_check chkt ?h" "[eol]" w w' st is_petscii eol]
      assms(2,5,6) verify_block_check [of chkt ?h]
    by (auto simp: block_check_length)
qed

theorem packet_roundtrip_witness:
  "\<exists>st' w1. read_packet True False 0x33 0x0D (Some 1000) default_ReadState
      (paced 0 (wire_form True ([0x0A] @ build_packet 0x44 67 [0xFF, 0x41] 0x33 1 0 0x0D))) =
    (Inr \<lparr>kind = 0x44, seq = 3, payload = [0xFF, 0x41]\<rparr>, st', w1) \<and> \<not> resync st'"
proof -
  let ?bs = "[0x0A] @ build_packet 0x44 67 [0xFF, 0x41] 0x33 1 0 0x0D"
  have "length ?bs < 50"
    by (simp add: build_packet_def packet_head_def block_check_length check_size_def Let_def)
  then have "length (wire_form True ?bs) < 1000" using wire_form_length [of True ?bs] by linarith
  then have "arrives (Some 1000) True ?bs (paced 0 (wire_form True ?bs)) (paced (0 + length (wire_form True ?bs)) [])"
    unfolding arrives_def by (intro conjI delivers_paced) (auto simp: before_def paced_def)
  from packet_roundtrip [OF this, of default_ReadState False]
  show ?thesis
    by (simp add: default_ReadState_def noise_byte_def is_esc_key_def check_size_def)
qed

lemma head_of_length: "length (head_of knd sq pl chkt) = (if 2 + length pl + check_size chkt \<le> 94 then 3 else 6)"
  by (simp add: head_of_def packet_head_def Let_def)

lemma head_of_update: "head_of knd sq (pl[i := b]) chkt = head_of knd sq pl chkt"
  by (simp add: head_of_def packet_head_def Let_def)

lemma packet_head_update:
  "packet_head knd sq (pl[i := b]) chkt = (packet_head knd sq pl chkt)[length (head_of knd sq pl chkt) + i := b]"
  by (simp add: packet_head_split head_of_update list_update_append)

text \<open>With the 16-bit check negotiated, a packet whose payload was hit in transit in
  any one byte is refused with the check error, never delivered, and the reader remembers that
  the rest of the stream is not at a packet boundary.\<close>

lemma corrupted_packet_refused:
  assumes "arrives dl is_tcp (SOH # packet_head knd sq (pl[i := b]) 0x33
      @ block_check 0x33 (packet_head knd sq pl 0x33) @ rest) w w'"
    and "pushback st = None" and "length pl \<le> 9021" and "knd \<notin> {TYPE_SEND_INIT, TYPE_INIT}"
    and "i < length pl" and "b \<noteq> pl ! i"
  shows "\<exists>st' w1. read_packet is_tcp is_petscii 0x33 eol dl st w =
    (Inl (KCheckMismatch 0x33), st', w1) \<and> resync st'"
proof -
  let ?h = "packet_head knd sq pl 0x33"
  have "packet_head knd sq (pl[i := b]) 0x33 = ?h[length (head_of knd sq pl 0x33) + i := b]"
    by (rule packet_head_update)
  moreover have "b \<noteq> ?h ! (length (head_of knd sq pl 0x33) + i)"
    using assms(6) by (simp add: packet_head_split)
  ultimately have "verify_check 0x33 (packet_head knd sq (pl[i := b]) 0x33) (block_check 0x33 ?h)
      = Inl (KCheckMismatch 0x33)"
    using assms(5) by (simp add: chk3_rejects kermit_crc16_detects packet_head_split)
  then show ?thesis
    using wire_carries_packet [of dl is_tcp "[]" knd sq "pl[i := b]" "0x33" "block_check 0x33 ?h" rest w w' st is_petscii eol]
      assms(1-4) by (auto simp: block_check_length check_size_def)
qed



subsection \<open>No cancel while resynchronising\<close>

lemma read_byte_no_cancel:
  "read_byte_with_deadline dl t st w = (Inl e, st', w') \<Longrightarrow> e \<noteq> KCancelledByUser \<and> e \<noteq> KPeerAborted"
  by (auto simp: read_byte_with_deadline_def split: option.splits if_splits prod.splits outcome.splits)

definition no_cancel :: "(kermit_error, 'a) rd \<Rightarrow> bool" where
  "no_cancel m \<longleftrightarrow> (\<forall>st w e st' w'. m st w = (Inl e, st', w') \<longrightarrow> e \<noteq> KCancelledByUser \<and> e \<noteq> KPeerAborted)"

lemma no_cancel_rpure [invar_intros]: "no_cancel (rpure x)"
  by (simp add: no_cancel_def rpure_def)

lemma no_cancel_rfail: "e \<noteq> KCancelledByUser \<and> e \<noteq> KPeerAborted \<Longrightarrow> no_cancel (rfail e)"
  by (simp add: no_cancel_def rfail_def)

lemma no_cancel_rbind [invar_intros]: "no_cancel m \<Longrightarrow> (\<And>x. no_cancel (f x)) \<Longrightarrow> no_cancel (rbind m f)"
  unfolding no_cancel_def rbind_def by (fastforce split: prod.splits sum.splits)

lemma no_cancel_rtimes [invar_intros]: "no_cancel m \<Longrightarrow> no_cancel (rtimes n m)"
  by (induction n) (auto intro!: invar_intros)

lemma no_cancel_get [invar_intros]: "no_cancel (read_byte_with_deadline dl t)"
  unfolding no_cancel_def using read_byte_no_cancel by blast

lemma drain_bytes_Inr: "\<exists>st' w'. drain_bytes n get st w = (Inr (), st', w')"
  by (induction n get st w rule: drain_bytes.induct) (auto split: prod.splits sum.splits)

lemma no_cancel_drain [invar_intros]: "no_cancel (drain_bytes n get)"
  unfolding no_cancel_def using drain_bytes_Inr by (metis Inl_Inr_False Pair_inject)

lemma no_cancel_eol [invar_intros]: "no_cancel (read_eol dl t eol)"
  unfolding no_cancel_def using read_eol_Inr by (metis Inl_Inr_False Pair_inject)

lemma no_cancel_after_mark: "no_cancel (read_packet_after_mark t chkt eol dl)"
proof -
  have "verify_check c d k \<noteq> Inl KCancelledByUser" "verify_check c d k \<noteq> Inl KPeerAborted" for c d k
    by (auto simp: verify_check_def split: if_splits list.splits)
  then show ?thesis
    by (auto simp: read_packet_after_mark_def read_extended_header_def read_standard_header_def Let_def
        intro!: invar_intros no_cancel_rfail split: sum.splits)
qed

lemma read_packet_resync_no_cancel:
  assumes "resync st" "read_packet t p chkt eol dl st w = (Inl e, st', w')"
  shows "e \<noteq> KCancelledByUser \<and> e \<noteq> KPeerAborted"
  using assms hunt_resync_no_abort [OF assms(1), of dl t p w]
    no_cancel_after_mark [of t chkt eol dl, unfolded no_cancel_def]
  by (auto simp: read_packet_def split: prod.splits sum.splits) blast+

text \<open>Property C34: while the reader is resynchronising after a damaged packet, no byte of the
  leftover (\<open>_\<close>, ESC or a CAN pair are ordinary data there) can cancel the transfer.\<close>

theorem resync_cannot_cancel:
  assumes "resync st" and "read_packet is_tcp is_petscii chkt eol dl st w = (Inl e, st', w')"
  shows "e \<noteq> KCancelledByUser \<and> e \<noteq> KPeerAborted"
  using assms by (rule read_packet_resync_no_cancel)

theorem resync_cannot_cancel_witness:
  "(let r = fst (read_packet False False 0x31 0x0D None \<lparr>pushback = None, pending_can = False, resync = True\<rparr>
        (paced 0 [0x1B, 0x18, 0x18]))
    in r = Inl (KIo PeerClosed) \<and> r \<noteq> Inl KCancelledByUser \<and> r \<noteq> Inl KPeerAborted)"
proof -
  let ?st = "\<lparr>pushback = None, pending_can = False, resync = True\<rparr>"
  have r: "read_packet False False 0x31 0x0D None ?st (paced 0 [0x1B, 0x18, 0x18])
     = (Inl (KIo PeerClosed), ?st\<lparr>resync := False\<rparr>, \<lparr>clock = 3, feed = []\<rparr>)"
    by (simp add: read_packet_def hunt_mark.simps read_byte_with_deadline_def nvt_read_byte_def
        raw_read_byte.simps rx_def paced_def read_error_def)
  from resync_cannot_cancel [OF _ r] show ?thesis by (simp add: r)
qed


subsection \<open>A packet read ends by its deadline\<close>

lemma get_keeps_deadline: "keeps_deadline d (read_byte_with_deadline (Some d) t)"
  by (auto simp: keeps_deadline_def read_byte_with_deadline_def nvt_read_byte_def dest!: raw_read_clock
      split: option.splits if_splits prod.splits outcome.splits)

lemma get_keeps_later_deadline: "u \<le> d \<Longrightarrow> keeps_deadline d (read_byte_with_deadline (Some u) t)"
  using get_keeps_deadline [of u t] unfolding keeps_deadline_def by (meson max.mono order_refl order_trans)

lemma drain_keeps_deadline [invar_intros]: "keeps_deadline d get \<Longrightarrow> keeps_deadline d (drain_bytes n get)"
proof (induction n)
  case (Suc n)
  have "drain_bytes (Suc n) get = (\<lambda>st w. case get st w of
      (Inl _, st', w') \<Rightarrow> (Inr (), st', w') | (Inr _, st', w') \<Rightarrow> drain_bytes n get st' w')"
    by (intro ext) simp
  with Suc show ?case
    unfolding keeps_deadline_def by (fastforce split: prod.splits sum.splits)
qed (simp add: keeps_deadline_def)

lemma eol_keeps_deadline: "keeps_deadline d (read_eol (Some d) t eol)"
  unfolding keeps_deadline_def
proof (intro allI impI)
  fix st w r st' w' assume r: "read_eol (Some d) t eol st w = (r, st', w')"
  have "keeps_deadline d (read_byte_with_deadline (Some (min d (clock w + 200))) t)"
    by (rule get_keeps_later_deadline) simp
  with r show "clock w' \<le> max (clock w) d"
    by (auto simp: read_eol_def Let_def dest: keeps_deadlineD split: if_splits prod.splits sum.splits)
qed

lemma after_mark_keeps_deadline: "keeps_deadline d (read_packet_after_mark t chkt eol (Some d))"
  by (auto simp: read_packet_after_mark_def read_extended_header_def read_standard_header_def Let_def
      intro!: invar_intros get_keeps_deadline eol_keeps_deadline split: sum.splits)

lemma hunt_keeps_deadline: "hunt_mark (Some d) t p st w = (r, st', w') \<Longrightarrow> clock w' \<le> max (clock w) d"
proof (induction "Some d" t p st w arbitrary: r rule: hunt_mark.induct)
  case (1 t p st w)
  obtain x st1 w1 where x: "read_byte_with_deadline (Some d) t st w = (x, st1, w1)"
    by (cases "read_byte_with_deadline (Some d) t st w")
  have "clock w1 \<le> max (clock w) d" using get_keeps_deadline x by (rule keeps_deadlineD)
  then show ?case
    using "1.prems" "1.hyps"(1,2) [OF x [symmetric]]
    by (subst (asm) hunt_mark.simps) (fastforce simp: x split: sum.splits if_splits)
qed

text \<open>Property C35: reading a packet under a deadline ends by that deadline, whatever the peer
  sends: noise without a MARK, half a header, an endless payload, a telnet sequence cut short.\<close>

theorem read_packet_by_deadline:
  assumes "read_packet is_tcp is_petscii chkt eol (Some d) st w = (r, st', w')"
  shows "clock w' \<le> max (clock w) d"
proof -
  obtain x st1 w1 where h: "hunt_mark (Some d) is_tcp is_petscii st w = (x, st1, w1)"
    by (cases "hunt_mark (Some d) is_tcp is_petscii st w")
  have h1: "clock w1 \<le> max (clock w) d" using h by (rule hunt_keeps_deadline)
  obtain y st2 w2 where a: "read_packet_after_mark is_tcp chkt eol (Some d) st1 w1 = (y, st2, w2)"
    by (cases "read_packet_after_mark is_tcp chkt eol (Some d) st1 w1")
  have "clock w2 \<le> max (clock w1) d" using after_mark_keeps_deadline a by (rule keeps_deadlineD)
  with h1 h a assms show ?thesis by (auto simp: read_packet_def split: sum.splits)
qed

theorem read_packet_by_deadline_witness:
  "clock (snd (snd (read_packet True False 0x33 0x0D (Some 5) default_ReadState
      (paced 0 (replicate 1000 0x41))))) \<le> 5"
  using read_packet_by_deadline [of True False "0x33" "0x0D" 5 default_ReadState "paced 0 (replicate 1000 0x41)"]
  by (cases "read_packet True False 0x33 0x0D (Some 5) default_ReadState (paced 0 (replicate 1000 0x41))")
    (simp add: paced_def)


subsection \<open>What a delivered packet can hold\<close>

lemma masked_le_63: "(b::byte) AND 0x3F \<le> 63"
  by (rule byte_exhaust [where b = b]) simp

lemma header_bounds:
  "read_extended_header get chkt st w = (Inr (h, sq, knd, n, c), st', w') \<Longrightarrow> n \<le> 9024 \<and> sq \<le> 63"
  by (auto simp: read_extended_header_def Let_def masked_le_63 rpure_def split: if_splits elim!: rbind_InrE)

lemma standard_header_bounds:
  assumes "read_standard_header get chkt len_byte st w = (Inr (h, sq, knd, n, c), st', w')"
  shows "n \<le> 9024 \<and> sq \<le> 63"
proof -
  have "unat (unchar len_byte) - k \<le> 9024" for k
    using unat_byte_less [of "unchar len_byte"] by linarith
  with assms show ?thesis
    by (auto simp: read_standard_header_def Let_def masked_le_63 rpure_def split: if_splits elim!: rbind_InrE)
qed

lemma after_mark_bounds:
  assumes "read_packet_after_mark t chkt eol dl st w = (Inr pk, st', w')"
  shows "seq pk \<le> 63 \<and> length (payload pk) \<le> 9024"
  using assms unfolding read_packet_after_mark_def Let_def
  by (auto split: if_splits sum.splits elim!: rbind_InrE dest!: rpure_InrE rtimes_length
      dest!: header_bounds standard_header_bounds)

text \<open>Every packet the reader delivers has a sequence number below 64 and a payload
  within the extended-length limit, whatever bytes the peer sent: the receiver's window arithmetic
  and buffers rest on it.\<close>

lemma delivered_packet_bounds:
  assumes "read_packet is_tcp is_petscii chkt eol dl st w = (Inr pk, st', w')"
  shows "seq pk \<le> 63 \<and> length (payload pk) \<le> 9024"
  using assms after_mark_bounds by (auto simp: read_packet_def split: prod.splits sum.splits)


end
