(* ===== verification/Rust_Std.thy ===== *)
theory Rust_Std
  imports Gateway_Prelude
begin

text \<open>
  What the program uses of Rust's standard library on strings. A \<^verbatim>\<open>&str\<close> or \<^verbatim>\<open>String\<close> is its
  UTF-8 bytes: validation and lossy conversion, trimming of Unicode white space, ASCII case
  mapping, substring search, splitting, and the decimal and octal forms of unsigned integers.
\<close>

type_synonym str = "byte list"

definition str_of :: "string \<Rightarrow> str" where
  "str_of s = map of_char s"


text \<open>\<^verbatim>\<open>saturating_add(1)\<close> on a \<^verbatim>\<open>u32\<close>.\<close>

definition saturating_inc :: "nat \<Rightarrow> nat" where
  "saturating_inc n = min (n + 1) (2 ^ 32 - 1)"

text \<open>An \<^verbatim>\<open>as\<close> cast keeps the value modulo the width of the target.\<close>

lemma unat_ucast_mod: "unat (ucast (w :: 'a::len word) :: 'b::len word) = unat w mod 2 ^ LENGTH('b)"
  by (simp add: unsigned_ucast_eq take_bit_eq_mod)


section \<open>UTF-8\<close>

definition in_range :: "byte \<Rightarrow> byte \<Rightarrow> byte \<Rightarrow> bool" where
  "in_range lo hi b \<longleftrightarrow> lo \<le> b \<and> b \<le> hi"

definition cont :: "byte \<Rightarrow> bool" where
  "cont = in_range 0x80 0xBF"

text \<open>The second byte that may follow a lead byte of a three- or four-byte sequence.\<close>

definition second_ok :: "byte \<Rightarrow> byte \<Rightarrow> bool" where
  "second_ok a b \<longleftrightarrow>
     (if a = 0xE0 then in_range 0xA0 0xBF b
      else if a = 0xED then in_range 0x80 0x9F b
      else if a = 0xF0 then in_range 0x90 0xBF b
      else if a = 0xF4 then in_range 0x80 0x8F b
      else cont b)"

text \<open>The next character: whether it is well formed, and how many bytes it (or the maximal
  ill-formed part that one replacement character stands for) takes.\<close>

definition utf8_next :: "byte \<Rightarrow> byte list \<Rightarrow> bool \<times> nat" where
  "utf8_next a bs =
     (if a < 0x80 then (True, 1)
      else if in_range 0xC2 0xDF a then
        (case bs of b # _ \<Rightarrow> if cont b then (True, 2) else (False, 1) | [] \<Rightarrow> (False, 1))
      else if in_range 0xE0 0xEF a then
        (case bs of
            b # c # _ \<Rightarrow>
              if second_ok a b then (if cont c then (True, 3) else (False, 2)) else (False, 1)
          | [b] \<Rightarrow> (False, if second_ok a b then 2 else 1)
          | [] \<Rightarrow> (False, 1))
      else if in_range 0xF0 0xF4 a then
        (case bs of
            b # c # d # _ \<Rightarrow>
              if second_ok a b
              then (if cont c then (if cont d then (True, 4) else (False, 3)) else (False, 2))
              else (False, 1)
          | [b, c] \<Rightarrow> (False, if second_ok a b then (if cont c then 3 else 2) else 1)
          | [b] \<Rightarrow> (False, if second_ok a b then 2 else 1)
          | [] \<Rightarrow> (False, 1))
      else (False, 1))"

lemma utf8_next_pos: "0 < snd (utf8_next a bs)"
  by (auto simp: utf8_next_def split: list.splits)

function utf8_valid :: "byte list \<Rightarrow> bool" where
  "utf8_valid [] \<longleftrightarrow> True"
| "utf8_valid (a # bs) \<longleftrightarrow>
     fst (utf8_next a bs) \<and> utf8_valid (drop (snd (utf8_next a bs)) (a # bs))"
  by pat_completeness auto
termination
  by (relation "measure length") (auto simp: utf8_next_pos)

declare utf8_valid.simps(2) [simp del]

definition from_utf8 :: "byte list \<Rightarrow> str option" where
  "from_utf8 bs = (if utf8_valid bs then Some bs else None)"

function from_utf8_lossy :: "byte list \<Rightarrow> str" where
  "from_utf8_lossy [] = []"
| "from_utf8_lossy (a # bs) =
     (let (ok, n) = utf8_next a bs
      in (if ok then take n (a # bs) else [0xEF, 0xBF, 0xBD]) @ from_utf8_lossy (drop n (a # bs)))"
  by pat_completeness auto
termination
  by (relation "measure length") (auto dest!: arg_cong [where f = snd] simp: utf8_next_pos)

declare from_utf8_lossy.simps(2) [simp del]

definition ascii :: "byte list \<Rightarrow> bool" where
  "ascii bs \<longleftrightarrow> list_all (\<lambda>b. b < 0x80) bs"

lemma ascii_valid: "ascii bs \<Longrightarrow> utf8_valid bs"
  by (induction bs) (auto simp: ascii_def utf8_valid.simps(2) utf8_next_def)

lemma lossy_valid: "utf8_valid bs \<Longrightarrow> from_utf8_lossy bs = bs"
proof (induction bs rule: utf8_valid.induct)
  case (2 a bs)
  then have "fst (utf8_next a bs)" "from_utf8_lossy (drop (snd (utf8_next a bs)) (a # bs))
      = drop (snd (utf8_next a bs)) (a # bs)"
    by (auto simp: utf8_valid.simps(2))
  then show ?case
    by (simp add: from_utf8_lossy.simps(2) split_beta del: take_append drop_append)
qed simp


section \<open>Trimming, case and search\<close>

definition ascii_ws :: "byte \<Rightarrow> bool" where
  "ascii_ws b \<longleftrightarrow> (0x09 \<le> b \<and> b \<le> 0x0D) \<or> b = 0x20"

definition ws_after_E2 :: "byte \<Rightarrow> byte \<Rightarrow> bool" where
  "ws_after_E2 b c \<longleftrightarrow>
     b = 0x80 \<and> (in_range 0x80 0x8A c \<or> c = 0xA8 \<or> c = 0xA9 \<or> c = 0xAF) \<or> b = 0x81 \<and> c = 0x9F"

definition ws3 :: "byte \<Rightarrow> byte \<Rightarrow> byte \<Rightarrow> bool" where
  "ws3 a b c \<longleftrightarrow> a = 0xE1 \<and> b = 0x9A \<and> c = 0x80 \<or> a = 0xE2 \<and> ws_after_E2 b c
     \<or> a = 0xE3 \<and> b = 0x80 \<and> c = 0x80"

text \<open>The white space at the front of a string, and, on the reversed bytes, at its end.\<close>

fun trim_start :: "str \<Rightarrow> str" where
  "trim_start (a # b # c # s) =
     (if ascii_ws a then trim_start (b # c # s)
      else if a = 0xC2 \<and> (b = 0x85 \<or> b = 0xA0) then trim_start (c # s)
      else if ws3 a b c then trim_start s
      else a # b # c # s)"
| "trim_start [a, b] =
     (if ascii_ws a then trim_start [b]
      else if a = 0xC2 \<and> (b = 0x85 \<or> b = 0xA0) then [] else [a, b])"
| "trim_start [a] = (if ascii_ws a then [] else [a])"
| "trim_start [] = []"

fun trim_rev :: "byte list \<Rightarrow> byte list" where
  "trim_rev (c # b # a # s) =
     (if ascii_ws c then trim_rev (b # a # s)
      else if b = 0xC2 \<and> (c = 0x85 \<or> c = 0xA0) then trim_rev (a # s)
      else if ws3 a b c then trim_rev s
      else c # b # a # s)"
| "trim_rev [c, b] =
     (if ascii_ws c then trim_rev [b]
      else if b = 0xC2 \<and> (c = 0x85 \<or> c = 0xA0) then [] else [c, b])"
| "trim_rev [c] = (if ascii_ws c then [] else [c])"
| "trim_rev [] = []"

definition trim_end :: "str \<Rightarrow> str" where
  "trim_end s = rev (trim_rev (rev s))"

definition trim :: "str \<Rightarrow> str" where
  "trim s = trim_end (trim_start s)"

definition trim_end_matches :: "byte \<Rightarrow> str \<Rightarrow> str" where
  "trim_end_matches c s = rev (dropWhile (\<lambda>b. b = c) (rev s))"

definition to_ascii_uppercase_byte :: "byte \<Rightarrow> byte" where
  "to_ascii_uppercase_byte b = (if in_range 0x61 0x7A b then b - 0x20 else b)"

definition to_ascii_lowercase_byte :: "byte \<Rightarrow> byte" where
  "to_ascii_lowercase_byte b = (if in_range 0x41 0x5A b then b + 0x20 else b)"

definition to_ascii_uppercase :: "str \<Rightarrow> str" where
  "to_ascii_uppercase = map to_ascii_uppercase_byte"

definition to_ascii_lowercase :: "str \<Rightarrow> str" where
  "to_ascii_lowercase = map to_ascii_lowercase_byte"

definition is_ascii_alphabetic :: "byte \<Rightarrow> bool" where
  "is_ascii_alphabetic b \<longleftrightarrow> in_range 0x41 0x5A b \<or> in_range 0x61 0x7A b"

definition is_ascii_digit :: "byte \<Rightarrow> bool" where
  "is_ascii_digit = in_range 0x30 0x39"

definition is_ascii_alphanumeric :: "byte \<Rightarrow> bool" where
  "is_ascii_alphanumeric b \<longleftrightarrow> is_ascii_alphabetic b \<or> is_ascii_digit b"

definition starts_with :: "str \<Rightarrow> str \<Rightarrow> bool" where
  "starts_with s p \<longleftrightarrow> take (length p) s = p"

fun contains :: "str \<Rightarrow> str \<Rightarrow> bool" where
  "contains [] p \<longleftrightarrow> p = []"
| "contains (b # s) p \<longleftrightarrow> starts_with (b # s) p \<or> contains s p"

definition strip_prefix :: "str \<Rightarrow> str \<Rightarrow> str option" where
  "strip_prefix p s = (if starts_with s p then Some (drop (length p) s) else None)"

fun split_on :: "byte \<Rightarrow> str \<Rightarrow> str list" where
  "split_on c [] = [[]]"
| "split_on c (b # s) =
     (if b = c then [] # split_on c s
      else (case split_on c s of p # ps \<Rightarrow> (b # p) # ps | [] \<Rightarrow> [[b]]))"

text \<open>\<^verbatim>\<open>rsplit_once\<close>: what is before and after the last separator.\<close>

definition rsplit_once :: "byte \<Rightarrow> str \<Rightarrow> (str \<times> str) option" where
  "rsplit_once c s =
     (if c \<in> set s
      then Some (rev (tl (dropWhile (\<lambda>b. b \<noteq> c) (rev s))), rev (takeWhile (\<lambda>b. b \<noteq> c) (rev s)))
      else None)"

lemma split_on_not_Nil [simp]: "split_on c s \<noteq> []"
  by (induction s) (auto split: list.splits)

lemma contains_iff: "contains s p \<longleftrightarrow> (\<exists>us vs. s = us @ p @ vs)"
proof (induction s)
  case (Cons b s)
  have "starts_with (b # s) p \<longleftrightarrow> (\<exists>vs. b # s = p @ vs)"
    unfolding starts_with_def by (metis append_eq_conv_conj append_take_drop_id)
  with Cons show ?case
    by (auto simp: Cons_eq_append_conv)
qed auto

lemma contains_byte: "contains s [b] \<longleftrightarrow> b \<in> set s"
  by (auto simp: contains_iff in_set_conv_decomp)

lemma length_ascii_case [simp]:
  "length (to_ascii_uppercase s) = length s" "length (to_ascii_lowercase s) = length s"
  by (simp_all add: to_ascii_uppercase_def to_ascii_lowercase_def)


section \<open>Unsigned integers as text\<close>

definition digit_char :: "nat \<Rightarrow> byte" where
  "digit_char d = 0x30 + word_of_nat d"

fun radix_string :: "nat \<Rightarrow> nat \<Rightarrow> str" where
  "radix_string r n =
     (if n < r \<or> r < 2 then [digit_char (n mod 10)]
      else radix_string r (n div r) @ [digit_char (n mod r)])"

declare radix_string.simps [simp del]

abbreviation "dec_string \<equiv> radix_string 10"
abbreviation "oct_string \<equiv> radix_string 8"

definition digit_value :: "byte \<Rightarrow> nat" where
  "digit_value c = unat (c - 0x30)"

definition is_radix_digit :: "nat \<Rightarrow> byte \<Rightarrow> bool" where
  "is_radix_digit r c \<longleftrightarrow> 0x30 \<le> c \<and> digit_value c < r"

text \<open>\<^verbatim>\<open>parse\<close> and \<^verbatim>\<open>from_str_radix\<close> of an unsigned type with \<open>bound\<close> values, for a radix up to
  ten: an optional plus sign, at least one digit, and no overflow.\<close>

definition parse_uint :: "nat \<Rightarrow> nat \<Rightarrow> str \<Rightarrow> nat option" where
  "parse_uint r bound s =
     (let ds = (case s of c # cs \<Rightarrow> if c = 0x2B then cs else s | [] \<Rightarrow> [])
      in if ds \<noteq> [] \<and> list_all (is_radix_digit r) ds
         then (let v = foldl (\<lambda>a c. a * r + digit_value c) 0 ds in if v < bound then Some v else None)
         else None)"

lemma digit_value_char: "d < 10 \<Longrightarrow> digit_value (digit_char d) = d"
  by (simp add: digit_value_def digit_char_def)

lemma digit_char_unat: "d < 10 \<Longrightarrow> unat (digit_char d) = 48 + d"
  by (simp add: digit_char_def unat_word_ariths)

lemma digit_char_ok:
  assumes "d < r" "r \<le> 10"
  shows "is_radix_digit r (digit_char d)" "0x30 \<le> digit_char d" "digit_char d \<le> 0x39"
proof -
  have "unat (digit_char d) = 48 + d" "digit_value (digit_char d) = d"
    using assms by (auto intro: digit_char_unat digit_value_char)
  then show "is_radix_digit r (digit_char d)" "0x30 \<le> digit_char d" "digit_char d \<le> 0x39"
    using assms by (auto simp: is_radix_digit_def word_le_nat_alt)
qed

lemma radix_string_digits:
  assumes "1 < r" "r \<le> 10"
  shows "radix_string r n \<noteq> []" "list_all (is_radix_digit r) (radix_string r n)"
    "list_all (\<lambda>c. 0x30 \<le> c \<and> c \<le> 0x39) (radix_string r n)"
proof -
  have "radix_string r n \<noteq> [] \<and>
      list_all (\<lambda>c. is_radix_digit r c \<and> 0x30 \<le> c \<and> c \<le> 0x39) (radix_string r n)"
    using assms
  proof (induction r n rule: radix_string.induct)
    case (1 r n)
    then have "n mod r < r" "n < r \<longrightarrow> n mod 10 < r" by auto
    from digit_char_ok [OF this(1)] this(2) digit_char_ok [of "n mod 10" r] 1 show ?case
      by (subst (1 2) radix_string.simps) auto
  qed
  then show "radix_string r n \<noteq> []" "list_all (is_radix_digit r) (radix_string r n)"
    "list_all (\<lambda>c. 0x30 \<le> c \<and> c \<le> 0x39) (radix_string r n)"
    by (auto simp: list_all_iff)
qed

lemma radix_string_value:
  "1 < r \<Longrightarrow> r \<le> 10 \<Longrightarrow> foldl (\<lambda>a c. a * r + digit_value c) 0 (radix_string r n) = n"
proof (induction r n rule: radix_string.induct)
  case (1 r n)
  then have "n mod r < 10" using mod_less_divisor [of r n] by linarith
  with 1 show ?case
    by (subst radix_string.simps) (auto simp: digit_value_char)
qed

lemma parse_radix_string:
  assumes "1 < r" "r \<le> 10" "n < bound"
  shows "parse_uint r bound (radix_string r n) = Some n"
proof -
  note d = radix_string_digits [OF assms(1,2), of n]
  have "(case radix_string r n of c # cs \<Rightarrow> if c = 0x2B then cs else radix_string r n | [] \<Rightarrow> []) = radix_string r n"
    using d(3) by (cases "radix_string r n") auto
  with d assms show ?thesis by (simp add: parse_uint_def radix_string_value)
qed

lemma ws3_high: "ws3 a b c \<Longrightarrow> 0x80 \<le> a \<and> 0x80 \<le> c"
  by (auto simp: ws3_def ws_after_E2_def in_range_def)

lemma digit_byte_facts:
  assumes "0x30 \<le> a \<and> a \<le> 0x39"
  shows "\<not> ascii_ws a" "a \<noteq> 0xC2" "\<not> ws3 a b c" "\<not> ws3 b c a" "a < 0x80"
proof -
  have a: "\<not> ascii_ws a" "a \<noteq> 0xC2" "a < 0x80"
    using assms by (auto simp: ascii_ws_def word_le_nat_alt word_less_nat_alt)
  then show "\<not> ascii_ws a" "a \<noteq> 0xC2" "a < 0x80" by -
  show "\<not> ws3 a b c" "\<not> ws3 b c a"
    using a(3) ws3_high [of a b c] ws3_high [of b c a] by (auto simp: linorder_not_less [symmetric])
qed

lemma trim_start_digits: "list_all (\<lambda>c. 0x30 \<le> c \<and> c \<le> 0x39) s \<Longrightarrow> trim_start s = s"
  by (cases s rule: trim_start.cases) (auto simp: digit_byte_facts)

lemma trim_rev_digits: "list_all (\<lambda>c. 0x30 \<le> c \<and> c \<le> 0x39) s \<Longrightarrow> trim_rev s = s"
  by (cases s rule: trim_rev.cases) (auto simp: digit_byte_facts)

lemma trim_digits: "list_all (\<lambda>c. 0x30 \<le> c \<and> c \<le> 0x39) s \<Longrightarrow> trim s = s"
  by (simp add: trim_def trim_end_def trim_start_digits trim_rev_digits list_all_iff)

lemma digits_ascii: "list_all (\<lambda>c. 0x30 \<le> c \<and> c \<le> 0x39) s \<Longrightarrow> ascii s"
  by (auto simp: ascii_def list_all_iff digit_byte_facts(5))

lemma parse_trimmed_radix:
  assumes "1 < r" "r \<le> 10" "n < bound"
  shows "from_utf8 (radix_string r n) = Some (radix_string r n)"
    "parse_uint r bound (trim (radix_string r n)) = Some n"
  using radix_string_digits(3) [OF assms(1,2), of n] parse_radix_string [OF assms]
  by (auto simp: from_utf8_def trim_digits digits_ascii ascii_valid)

lemma radix_string_length:
  assumes "1 < r" "n < r ^ k" "0 < k"
  shows "length (radix_string r n) \<le> k"
  using assms
proof (induction r n arbitrary: k rule: radix_string.induct)
  case (1 r n)
  show ?case
  proof (cases "n < r")
    case True
    with 1 show ?thesis by (subst radix_string.simps) simp
  next
    case False
    with "1.prems" have k: "1 < k" by (cases k; cases "k - 1") auto
    then have "n div r < r ^ (k - 1)"
      using "1.prems" by (cases k) (auto simp: less_mult_imp_div_less mult.commute)
    with "1.IH" "1.prems" False k have "length (radix_string r (n div r)) \<le> k - 1" by simp
    with False "1.prems" k show ?thesis by (subst radix_string.simps) simp
  qed
qed

end
