(* ===== verification/Kermit_Negotiation.thy ===== *)
theory Kermit_Negotiation
  imports Kermit_Packet Rust_Std
begin

text \<open>
  Kermit session parameters (\<^verbatim>\<open>src/src/kermit.rs\<close>): the capabilities of a peer, the Send-Init data
  field in both directions, the intersection both ends compute, the packet sizes that follow from
  it, the gateway's own proposal, the peer classifier and the small packets of the protocol.
\<close>

section \<open>Capabilities\<close>

abbreviation (input) CR :: byte where "CR \<equiv> 0x0D"
abbreviation (input) DEFAULT_QCTL :: byte where "DEFAULT_QCTL \<equiv> 0x23"
abbreviation (input) CAPAS_ATTRIBUTE :: byte where "CAPAS_ATTRIBUTE \<equiv> 0x08"
abbreviation (input) CAPAS_LONGPKT :: byte where "CAPAS_LONGPKT \<equiv> 0x02"
abbreviation (input) CAPAS_SLIDING :: byte where "CAPAS_SLIDING \<equiv> 0x04"
abbreviation (input) CAPAS_CONTINUE :: byte where "CAPAS_CONTINUE \<equiv> 0x01"
abbreviation (input) CAPAS_RESEND :: byte where "CAPAS_RESEND \<equiv> 0x10"
abbreviation (input) CAPAS_LOCKING_SHIFT :: byte where "CAPAS_LOCKING_SHIFT \<equiv> 0x20"
abbreviation (input) CAPAS_STREAMING_BYTE3_BIT :: byte where "CAPAS_STREAMING_BYTE3_BIT \<equiv> 0x04"
abbreviation (input) MAX_WINDOW_SIZE :: byte where "MAX_WINDOW_SIZE \<equiv> 31"
abbreviation (input) MIN_PACKET_LEN :: u16 where "MIN_PACKET_LEN \<equiv> 10"

record Capabilities =
  c_maxl :: u16
  c_time :: byte
  c_npad :: byte
  c_padc :: byte
  c_eol :: byte
  c_qctl :: byte
  c_qbin :: "byte option"
  c_chkt :: byte
  c_rept :: "byte option"
  c_window :: byte
  c_long_packets :: bool
  c_attribute_packets :: bool
  c_streaming :: bool
  c_resend :: bool
  c_locking_shifts :: bool
  c_peer_id :: "str option"

definition default_Capabilities :: Capabilities where
  "default_Capabilities = \<lparr>c_maxl = 80, c_time = 5, c_npad = 0, c_padc = 0, c_eol = CR,
     c_qctl = DEFAULT_QCTL, c_qbin = None, c_chkt = 0x31, c_rept = None, c_window = 1,
     c_long_packets = False, c_attribute_packets = False, c_streaming = False, c_resend = False,
     c_locking_shifts = False, c_peer_id = None\<rparr>"

definition capas1 :: "Capabilities \<Rightarrow> byte" where
  "capas1 c =
     (if c_attribute_packets c then CAPAS_ATTRIBUTE else 0)
     OR (if c_long_packets c then CAPAS_LONGPKT else 0)
     OR (if c_window c > 1 then CAPAS_SLIDING else 0)
     OR (if c_resend c then CAPAS_RESEND else 0)
     OR (if c_locking_shifts c then CAPAS_LOCKING_SHIFT else 0)
     OR (if c_streaming c then CAPAS_CONTINUE else 0)"

definition build_send_init_payload :: "Capabilities \<Rightarrow> byte list" where
  "build_send_init_payload c =
     (let maxl_short = (if c_maxl c > 94 then 94 else ucast (c_maxl c));
          maxl_long = min (c_maxl c) 9024;
          mx1 = ucast (maxl_long div 95);
          mx2 = ucast (maxl_long mod 95)
      in [tochar maxl_short, tochar (min (c_time c) 94), tochar (min (c_npad c) 94), ctl (c_padc c),
          tochar (c_eol c AND 0x7F), c_qctl c,
          (case c_qbin c of Some q \<Rightarrow> q | None \<Rightarrow> 0x59), c_chkt c,
          (case c_rept c of Some r \<Rightarrow> r | None \<Rightarrow> 0x20),
          tochar (capas1 c)]
         @ (if c_streaming c then [tochar CAPAS_CONTINUE, tochar CAPAS_STREAMING_BYTE3_BIT] else [])
         @ (if c_window c > 1 then [tochar (min (c_window c) MAX_WINDOW_SIZE)] else [])
         @ (if c_long_packets c then [tochar mx1, tochar mx2] else []))"

text \<open>The loop over the CAPAS chain: the bytes it reads and the rest of the field.\<close>

fun read_capas :: "byte list \<Rightarrow> byte list \<times> byte list" where
  "read_capas [] = ([], [])"
| "read_capas (b # bs) =
     (if unchar b AND CAPAS_CONTINUE = 0 then ([unchar b], bs)
      else (case read_capas bs of (cs, rest) \<Rightarrow> (unchar b # cs, rest)))"

fun letter_run :: "byte list \<Rightarrow> bool" where
  "letter_run (a # b # c # d # s) \<longleftrightarrow>
     list_all is_ascii_alphabetic [a, b, c, d] \<or> letter_run (b # c # d # s)"
| "letter_run _ \<longleftrightarrow> False"

definition parse_peer_id :: "byte list \<Rightarrow> str option" where
  "parse_peer_id trailing =
     (if letter_run trailing
      then (let s = trim (from_utf8_lossy trailing) in if s \<noteq> [] then Some s else None)
      else None)"

definition clamp :: "'a::linorder \<Rightarrow> 'a \<Rightarrow> 'a \<Rightarrow> 'a" where
  "clamp x lo hi = (if x < lo then lo else if x > hi then hi else x)"

definition parse_send_init_payload :: "byte list \<Rightarrow> Capabilities" where
  "parse_send_init_payload data =
     (let d = default_Capabilities;
          slot = (\<lambda>i. if i < length data then Some (data ! i) else None);
          maxl1 = (case slot 0 of Some b \<Rightarrow> ucast (unchar b) | None \<Rightarrow> c_maxl d);
          (qbin', r7) = (case drop 6 data of
              [] \<Rightarrow> (None, [])
            | q # r \<Rightarrow> (if q = 0x59 \<or> q = 0x20 \<or> q = 0x4E then None else Some q, r));
          (chkt', r8) = (case r7 of
              [] \<Rightarrow> (c_chkt d, [])
            | k # r \<Rightarrow> (if k = 0x31 \<or> k = 0x32 \<or> k = 0x33 then k else 0x31, r));
          (rept', r9) = (case r8 of
              [] \<Rightarrow> (None, [])
            | k # r \<Rightarrow> (if k = 0x20 \<or> k = 0x4E then None else Some k, r));
          (capas, r10) = read_capas r9;
          first = (case capas of [] \<Rightarrow> 0 | b # _ \<Rightarrow> b);
          advertises_sliding = (first AND CAPAS_SLIDING \<noteq> 0);
          advertises_long = (first AND CAPAS_LONGPKT \<noteq> 0);
          (window', r11) =
            (if advertises_sliding
             then (case r10 of [] \<Rightarrow> (c_window d, []) | b # r \<Rightarrow> (clamp (unchar b) 1 MAX_WINDOW_SIZE, r))
             else (c_window d, r10));
          (maxl2, r12) =
            (if advertises_long
             then (case r11 of
                 x1 # x2 # r \<Rightarrow>
                   (let extended = ucast (unchar x1) * 95 + ucast (unchar x2) :: u16
                    in (if MIN_PACKET_LEN \<le> extended \<and> extended \<le> 9024 then extended else maxl1, r))
               | _ \<Rightarrow> (maxl1, r11))
             else (maxl1, r11))
      in \<lparr>c_maxl = maxl2,
          c_time = (case slot 1 of Some b \<Rightarrow> unchar b | None \<Rightarrow> c_time d),
          c_npad = (case slot 2 of Some b \<Rightarrow> unchar b | None \<Rightarrow> c_npad d),
          c_padc = (case slot 3 of Some b \<Rightarrow> unctl b | None \<Rightarrow> c_padc d),
          c_eol = (case slot 4 of Some b \<Rightarrow> unchar b | None \<Rightarrow> c_eol d),
          c_qctl = (case slot 5 of Some b \<Rightarrow> b | None \<Rightarrow> c_qctl d),
          c_qbin = qbin', c_chkt = chkt', c_rept = rept', c_window = window',
          c_long_packets = advertises_long,
          c_attribute_packets = (first AND CAPAS_ATTRIBUTE \<noteq> 0),
          c_streaming = (2 < length capas \<and> (capas ! 2) AND CAPAS_STREAMING_BYTE3_BIT \<noteq> 0),
          c_resend = (first AND CAPAS_RESEND \<noteq> 0),
          c_locking_shifts = (first AND CAPAS_LOCKING_SHIFT \<noteq> 0),
          c_peer_id = parse_peer_id r12\<rparr>)"

definition chkt_priority :: "byte \<Rightarrow> nat" where
  "chkt_priority c = (if c = 0x31 then 1 else if c = 0x32 then 2 else if c = 0x33 then 3 else 1)"

definition pick_chkt :: "byte \<Rightarrow> byte \<Rightarrow> byte" where
  "pick_chkt a b = (if chkt_priority a \<le> chkt_priority b then a else b)"

definition intersect_capabilities :: "Capabilities \<Rightarrow> Capabilities \<Rightarrow> Capabilities" where
  "intersect_capabilities ours theirs =
     (let both_lshift = (c_locking_shifts ours \<and> c_locking_shifts theirs);
          need_eight_bit = (c_qbin ours \<noteq> None \<or> c_qbin theirs \<noteq> None);
          use_lshift = (both_lshift \<and> need_eight_bit);
          qbin_negotiated =
            (if use_lshift then None
             else (case c_qbin ours of Some c \<Rightarrow> Some c | None \<Rightarrow> c_qbin theirs))
      in \<lparr>c_maxl = max (min (c_maxl theirs) (c_maxl ours)) MIN_PACKET_LEN,
          c_time = max (c_time theirs) 1,
          c_npad = c_npad theirs,
          c_padc = c_padc theirs,
          c_eol = c_eol theirs,
          c_qctl = c_qctl theirs,
          c_qbin = qbin_negotiated,
          c_chkt = pick_chkt (c_chkt ours) (c_chkt theirs),
          c_rept = (case (c_rept ours, c_rept theirs) of
              (Some a, Some b) \<Rightarrow> if a = b then Some a else None
            | _ \<Rightarrow> None),
          c_window = max (min (c_window ours) (c_window theirs)) 1,
          c_long_packets = (c_long_packets ours \<and> c_long_packets theirs),
          c_attribute_packets = (c_attribute_packets ours \<and> c_attribute_packets theirs),
          c_streaming = (c_streaming ours \<and> c_streaming theirs),
          c_resend = (c_resend ours \<and> c_resend theirs),
          c_locking_shifts = use_lshift,
          c_peer_id = c_peer_id theirs\<rparr>)"


definition max_payload_for :: "Capabilities \<Rightarrow> nat" where
  "max_payload_for s =
     (let cklen = check_size (c_chkt s);
          header_overhead = (if c_long_packets s \<and> c_maxl s > 94 then 6 + cklen else 2 + cklen)
      in unat (c_maxl s) - header_overhead)"

definition check_encoded_fits :: "byte list \<Rightarrow> Capabilities \<Rightarrow> kermit_error + unit" where
  "check_encoded_fits encoded s =
     (if length encoded > max_payload_for s
      then Inl (KEncodedTooLong (length encoded) (max_payload_for s)) else Inr ())"


section \<open>The gateway's own proposal\<close>




section \<open>Peer classification and small helpers\<close>

datatype KermitFlavor =
    CKermit | GKermit | Kermit95 | Kermit86 | C64Kermit | EmbeddedKermit | MsKermit
  | UnknownFlavor str | Unidentified

fun flavor_display :: "KermitFlavor \<Rightarrow> str" where
  "flavor_display CKermit = str_of ''C-Kermit''"
| "flavor_display GKermit = str_of ''G-Kermit''"
| "flavor_display Kermit95 = str_of ''Kermit-95''"
| "flavor_display Kermit86 = str_of ''MS-DOS Kermit''"
| "flavor_display C64Kermit = str_of ''C64-Kermit''"
| "flavor_display EmbeddedKermit = str_of ''Embedded Kermit (E-Kermit)''"
| "flavor_display MsKermit = str_of ''MS Kermit''"
| "flavor_display (UnknownFlavor s) = str_of ''Unknown Kermit ('' @ s @ str_of '')''"
| "flavor_display Unidentified = str_of ''Kermit (no identity sent)''"

definition flavor_of_id :: "str \<Rightarrow> KermitFlavor" where
  "flavor_of_id pid =
     (let low = to_ascii_lowercase pid;
          has = (\<lambda>t. contains low (str_of t))
      in if has ''c-kermit'' \<or> has ''ckermit'' then CKermit
         else if has ''kermit 95'' \<or> has ''kermit-95'' then Kermit95
         else if has ''ms-dos'' \<or> has ''msdos'' then Kermit86
         else if has ''c64'' \<or> has ''commodore'' then C64Kermit
         else if has ''e-kermit'' \<or> has ''ekermit'' then EmbeddedKermit
         else if has ''g-kermit'' \<or> has ''gkermit'' then GKermit
         else if has ''ms kermit'' then MsKermit
         else UnknownFlavor pid)"

definition detect_flavor :: "Capabilities \<Rightarrow> KermitFlavor" where
  "detect_flavor c = (case c_peer_id c of
      Some pid \<Rightarrow> flavor_of_id pid
    | None \<Rightarrow>
        if \<not> c_long_packets c \<and> \<not> c_attribute_packets c \<and> c_window c \<le> 1 \<and> c_maxl c \<le> 90
        then (if c_maxl c \<le> 82 \<and> c_chkt c = 0x33 then EmbeddedKermit else GKermit)
        else if c_long_packets c \<and> c_attribute_packets c \<and> c_window c > 1 then CKermit
        else if c_long_packets c \<and> \<not> c_attribute_packets c then Kermit86
        else Unidentified)"

definition has_non_text_bytes :: "byte list \<Rightarrow> bool" where
  "has_non_text_bytes data \<longleftrightarrow>
     list_ex (\<lambda>b. in_range 0x00 0x06 b \<or> in_range 0x0E 0x19 b \<or> in_range 0x1C 0x1F b) data"

definition effective_packet_timeout :: "byte \<Rightarrow> nat \<Rightarrow> nat" where
  "effective_packet_timeout peer_time fallback_secs =
     max (if peer_time > 0 then unat peer_time else fallback_secs) 1"

definition KERMIT_SEND_INIT_ATTEMPT_MS :: nat where
  "KERMIT_SEND_INIT_ATTEMPT_MS = 5000"

text \<open>The window is a \<^verbatim>\<open>u64\<close> and the product saturates; the count is cast to \<^verbatim>\<open>u32\<close>.\<close>

definition send_init_attempts_for :: "u64 \<Rightarrow> u32 \<Rightarrow> u32" where
  "send_init_attempts_for window_secs floor' =
     (let fits = min (unat window_secs * 1000) (2 ^ 64 - 1) div max KERMIT_SEND_INIT_ATTEMPT_MS 1
      in max (max (word_of_nat fits) floor') 1)"

definition send_ack :: "byte \<Rightarrow> byte \<Rightarrow> byte \<Rightarrow> byte \<Rightarrow> byte \<Rightarrow> bool \<Rightarrow> writer \<Rightarrow> unit outcome \<times> writer" where
  "send_ack sq chkt pad_count pad_char eol is_tcp wr =
     raw_write_bytes is_tcp (build_packet 0x59 sq [] chkt pad_count pad_char eol) wr"

definition send_ack_with_payload ::
    "byte \<Rightarrow> byte list \<Rightarrow> byte \<Rightarrow> byte \<Rightarrow> byte \<Rightarrow> byte \<Rightarrow> bool \<Rightarrow> writer \<Rightarrow> unit outcome \<times> writer" where
  "send_ack_with_payload sq pl chkt pad_count pad_char eol is_tcp wr =
     raw_write_bytes is_tcp (build_packet 0x59 sq pl chkt pad_count pad_char eol) wr"

definition send_nak :: "byte \<Rightarrow> byte \<Rightarrow> byte \<Rightarrow> byte \<Rightarrow> byte \<Rightarrow> bool \<Rightarrow> writer \<Rightarrow> unit outcome \<times> writer" where
  "send_nak sq chkt pad_count pad_char eol is_tcp wr =
     raw_write_bytes is_tcp (build_packet 0x4E sq [] chkt pad_count pad_char eol) wr"

definition command_quoting :: Quoting where
  "command_quoting = \<lparr>qctl = DEFAULT_QCTL, qbin = None, rept = None, locking_shifts = False\<rparr>"

definition send_error ::
    "byte \<Rightarrow> str \<Rightarrow> byte \<Rightarrow> byte \<Rightarrow> byte \<Rightarrow> byte \<Rightarrow> bool \<Rightarrow> writer \<Rightarrow> unit outcome \<times> writer" where
  "send_error sq msg chkt pad_count pad_char eol is_tcp wr =
     raw_write_bytes is_tcp
       (build_packet 0x45 sq (encode_data msg command_quoting) chkt pad_count pad_char eol) wr"

definition decode_error_message :: "byte list \<Rightarrow> Quoting \<Rightarrow> str" where
  "decode_error_message pl q = (case decode_data pl q of
      Inr v \<Rightarrow> (case from_utf8 v of Some t \<Rightarrow> t | None \<Rightarrow> str_of ''(unparseable)'')
    | Inl _ \<Rightarrow> str_of ''(unparseable)'')"

definition wrap_send_err :: "str \<Rightarrow> str \<Rightarrow> str" where
  "wrap_send_err context_name inner =
     (let detail = (case strip_prefix (str_of ''Kermit: '') inner of Some d \<Rightarrow> d | None \<Rightarrow> inner)
      in str_of ''Kermit send '' @ context_name @ str_of '': '' @ detail)"


section \<open>The Send-Init field says what it means\<close>

definition sendable :: "Capabilities \<Rightarrow> bool" where
  "sendable c \<longleftrightarrow>
     (if c_long_packets c then 10 \<le> c_maxl c \<and> c_maxl c \<le> 9024 else c_maxl c \<le> 94) \<and>
     c_time c \<le> 94 \<and> c_npad c \<le> 94 \<and> c_eol c < 0x80 \<and>
     c_qbin c \<notin> {Some 0x59, Some 0x20, Some 0x4E} \<and> c_chkt c \<in> {0x31, 0x32, 0x33} \<and>
     c_rept c \<notin> {Some 0x20, Some 0x4E} \<and> 1 \<le> c_window c \<and> c_window c \<le> 31"

lemma capas1_bits:
  "capas1 c AND CAPAS_ATTRIBUTE \<noteq> 0 \<longleftrightarrow> c_attribute_packets c"
  "capas1 c AND CAPAS_LONGPKT \<noteq> 0 \<longleftrightarrow> c_long_packets c"
  "capas1 c AND CAPAS_SLIDING \<noteq> 0 \<longleftrightarrow> c_window c > 1"
  "capas1 c AND CAPAS_RESEND \<noteq> 0 \<longleftrightarrow> c_resend c"
  "capas1 c AND CAPAS_LOCKING_SHIFT \<noteq> 0 \<longleftrightarrow> c_locking_shifts c"
  "capas1 c AND CAPAS_CONTINUE \<noteq> 0 \<longleftrightarrow> c_streaming c"
  by (simp_all add: capas1_def)

lemmas capas1_bit_simps = capas1_bits capas1_bits [THEN arg_cong [where f = Not], unfolded not_not]

lemma maxl_split:
  fixes m :: u16
  assumes "m \<le> 9024"
  shows "ucast (ucast (m div 95) :: byte) * 95 + ucast (ucast (m mod 95) :: byte) = m"
proof -
  have m: "unat m \<le> 9024" using assms by (simp add: word_le_nat_alt)
  then have "unat m div 95 < 256" "unat m mod 95 < 256" by auto
  then have u: "unat (ucast (m div 95) :: byte) = unat m div 95" "unat (ucast (m mod 95) :: byte) = unat m mod 95"
    by (simp_all add: unat_ucast_mod unat_div unat_mod)
  have "unat m div 95 * 95 + unat m mod 95 = unat m" by simp
  then have "unat (ucast (ucast (m div 95) :: byte) * 95 + ucast (ucast (m mod 95) :: byte) :: u16) = unat m"
    using m by (simp add: unat_word_ariths unat_ucast_mod u)
  then show ?thesis by (simp add: word_unat_eq_iff)
qed

lemma ucast_small: "(m::u16) \<le> 94 \<Longrightarrow> ucast (ucast m :: byte) = m"
  by (simp add: word_unat_eq_iff unat_ucast_mod word_le_nat_alt)

lemma read_capas_built:
  "c_streaming c \<Longrightarrow> read_capas (tochar (capas1 c) # tochar CAPAS_CONTINUE # tochar CAPAS_STREAMING_BYTE3_BIT # r)
     = ([capas1 c, CAPAS_CONTINUE, CAPAS_STREAMING_BYTE3_BIT], r)"
  "\<not> c_streaming c \<Longrightarrow> read_capas (tochar (capas1 c) # r) = ([capas1 c], r)"
  using capas1_bits(6) [of c] by simp_all

lemma parse_build_send_init:
  assumes "sendable c"
  shows "parse_send_init_payload (build_send_init_payload c) = c\<lparr>c_peer_id := None\<rparr>"
proof -
  have ok: "c_time c \<le> 94" "c_npad c \<le> 94" "c_eol c < 0x80" "1 \<le> c_window c" "c_window c \<le> 31"
    and chkt: "c_chkt c = 0x31 \<or> c_chkt c = 0x32 \<or> c_chkt c = 0x33"
    and qb: "c_qbin c \<notin> {Some 0x59, Some 0x20, Some 0x4E}" and rp: "c_rept c \<notin> {Some 0x20, Some 0x4E}"
    and maxl: "if c_long_packets c then 10 \<le> c_maxl c \<and> c_maxl c \<le> 9024 else c_maxl c \<le> 94"
    using assms by (auto simp: sendable_def)
  have eol: "c_eol c AND 0x7F = c_eol c" using ok(3) by (simp add: byte_facts)
  have win: "c_window c = 1" if "\<not> c_window c > 1" using ok(4) that by simp
  have clamp: "clamp (c_window c) 1 31 = c_window c"
    using ok(4,5) unfolding clamp_def by (metis linorder_not_less)
  have qb': "(if q = 0x59 \<or> q = 0x20 \<or> q = 0x4E then None else Some q) = c_qbin c"
    if "q = (case c_qbin c of Some q \<Rightarrow> q | None \<Rightarrow> 0x59)" for q
    using qb that by (cases "c_qbin c") auto
  have rp': "(if r = 0x20 \<or> r = 0x4E then None else Some r) = c_rept c"
    if "r = (case c_rept c of Some r \<Rightarrow> r | None \<Rightarrow> 0x20)" for r
    using rp that by (cases "c_rept c") auto
  have peer: "parse_peer_id [] = None" by (simp add: parse_peer_id_def)
  show ?thesis
    using ok eol win clamp chkt maxl
    unfolding parse_send_init_payload_def build_send_init_payload_def Let_def default_Capabilities_def
    by (cases "c_streaming c"; cases "c_window c > 1"; cases "c_long_packets c")
      (simp_all add: read_capas_built qb' [OF refl] rp' [OF refl] capas1_bit_simps maxl_split ucast_small peer
        del: read_capas.simps)
qed

text \<open>Property C32: whatever capabilities one end proposes (any packet length, window, check,
  prefixes and options within the protocol's ranges), the other end reads exactly those from the
  Send-Init field; only the identification text, which the field does not carry, is lost.\<close>

theorem send_init_roundtrip:
  assumes "sendable c"
  shows "parse_send_init_payload (build_send_init_payload c) = c\<lparr>c_peer_id := None\<rparr>"
  using assms by (rule parse_build_send_init)

theorem send_init_roundtrip_witness:
  "(let c = default_Capabilities\<lparr>c_maxl := 4096, c_long_packets := True, c_window := 4,
      c_streaming := True, c_qbin := Some 0x26, c_chkt := 0x33\<rparr>
    in sendable c \<and> parse_send_init_payload (build_send_init_payload c) = c\<lparr>c_peer_id := None\<rparr>)"
  unfolding Let_def
  by (intro conjI send_init_roundtrip) (simp_all add: sendable_def default_Capabilities_def)


section \<open>Both ends agree\<close>

lemma pick_chkt_sym: "a \<in> {0x31, 0x32, 0x33} \<Longrightarrow> b \<in> {0x31, 0x32, 0x33} \<Longrightarrow> pick_chkt a b = pick_chkt b a"
  by (auto simp: pick_chkt_def chkt_priority_def)

text \<open>What both ends must have in common to understand each other.\<close>

definition agreed :: "Capabilities \<Rightarrow> Capabilities \<Rightarrow> bool" where
  "agreed s t \<longleftrightarrow>
     c_maxl s = c_maxl t \<and> c_chkt s = c_chkt t \<and> c_qbin s = c_qbin t \<and> c_rept s = c_rept t \<and>
     c_window s = c_window t \<and> c_long_packets s = c_long_packets t \<and>
     c_attribute_packets s = c_attribute_packets t \<and> c_streaming s = c_streaming t \<and>
     c_resend s = c_resend t \<and> c_locking_shifts s = c_locking_shifts t"

definition qbin_compatible :: "Capabilities \<Rightarrow> Capabilities \<Rightarrow> bool" where
  "qbin_compatible a b \<longleftrightarrow> c_qbin a = None \<or> c_qbin b = None \<or> c_qbin a = c_qbin b"

lemma intersect_agreed:
  assumes "qbin_compatible a b" "c_chkt a \<in> {0x31, 0x32, 0x33}" "c_chkt b \<in> {0x31, 0x32, 0x33}"
  shows "agreed (intersect_capabilities a b) (intersect_capabilities b a)"
  using assms pick_chkt_sym [OF assms(2,3)] unfolding agreed_def qbin_compatible_def
  by (auto simp: intersect_capabilities_def Let_def min.commute split: option.splits)

lemma parsed_chkt: "c_chkt (parse_send_init_payload d) \<in> {0x31, 0x32, 0x33}"
  by (auto simp: parse_send_init_payload_def Let_def default_Capabilities_def split: prod.splits list.splits)

text \<open>Two ends that intersect their proposals, each from its own side, come to the
  same packet length, check, 8th-bit prefix, repeat prefix, window and options, provided they do
  not propose two different 8th-bit prefixes.\<close>

lemma negotiation_agrees:
  assumes "qbin_compatible a b"
    and "c_chkt a \<in> {0x31, 0x32, 0x33}" and "c_chkt b \<in> {0x31, 0x32, 0x33}"
  shows "agreed (intersect_capabilities a b) (intersect_capabilities b a)"
  using assms by (rule intersect_agreed)




section \<open>Two gateways\<close>













lemma standard_quoting_ok:
  assumes "q \<in> {None, Some 0x26}" "r \<in> {None, Some 0x7E}" "l \<Longrightarrow> q = None"
  shows "quoting_ok \<lparr>qctl = 0x23, qbin = q, rept = r, locking_shifts = l\<rparr>"
proof -
  have "quote_char_ok 0x23" "quote_char_ok 0x26" "quote_char_ok 0x7E"
    by (simp_all add: quote_char_ok_def is_kermit_control_def unctl_def)
  with assms show ?thesis by (auto simp: quoting_ok_def)
qed





section \<open>Packets stay within what was negotiated\<close>

lemma fits_standard:
  assumes "check_encoded_fits enc s = Inr ()" "\<not> (c_long_packets s \<and> c_maxl s > 94)" "10 \<le> c_maxl s"
  shows "2 + length enc + check_size (c_chkt s) \<le> unat (c_maxl s)"
proof -
  have "10 \<le> unat (c_maxl s)" using assms(3) by (simp add: word_le_nat_alt)
  moreover have "length enc \<le> unat (c_maxl s) - (2 + check_size (c_chkt s))"
    using assms(1,2) by (auto simp: check_encoded_fits_def max_payload_for_def Let_def split: if_splits)
  ultimately show ?thesis using check_size_pos(2) [of "c_chkt s"] by linarith
qed

lemma fits_long:
  assumes "check_encoded_fits enc s = Inr ()" "c_long_packets s" "c_maxl s > 94"
  shows "6 + length enc + check_size (c_chkt s) \<le> unat (c_maxl s)"
proof -
  have "94 < unat (c_maxl s)" using assms(3) by (simp add: word_less_nat_alt)
  moreover have "length enc \<le> unat (c_maxl s) - (6 + check_size (c_chkt s))"
    using assms by (auto simp: check_encoded_fits_def max_payload_for_def Let_def split: if_splits)
  ultimately show ?thesis using check_size_pos(2) [of "c_chkt s"] by linarith
qed

lemma intersect_maxl: "10 \<le> c_maxl (intersect_capabilities a b)"
  by (simp add: intersect_capabilities_def Let_def)

lemma packet_head_length:
  "length (packet_head knd sq pl chkt) =
     (if 2 + length pl + check_size chkt \<le> 94 then 3 + length pl else 6 + length pl)"
  by (simp add: packet_head_split head_of_length)

definition is_extended :: "byte list \<Rightarrow> bool" where
  "is_extended head \<longleftrightarrow> head \<noteq> [] \<and> hd head = SP"

lemma standard_not_extended:
  assumes "2 + length pl + check_size chkt \<le> 94"
  shows "\<not> is_extended (packet_head knd sq pl chkt)"
proof -
  define n where "n = 2 + length pl + check_size chkt"
  have "n < 256" using assms by (simp add: n_def)
  then have "unat (word_of_nat n :: byte) = n" by (rule unat_word_of_nat_byte)
  moreover have "n \<noteq> 0" by (simp add: n_def)
  ultimately have "tochar (word_of_nat n) \<noteq> SP" by (metis tochar_eq_SP unat_0)
  with assms show ?thesis by (simp add: is_extended_def packet_head_def Let_def n_def)
qed

lemma fitting_packet:
  assumes "check_encoded_fits enc s = Inr ()" "10 \<le> c_maxl s" "c_long_packets s \<or> c_maxl s \<le> 94"
  shows "length (packet_head knd sq enc (c_chkt s)) + check_size (c_chkt s) \<le> Suc (unat (c_maxl s)) \<and>
    (\<not> c_long_packets s \<longrightarrow> \<not> is_extended (packet_head knd sq enc (c_chkt s)))"
proof (cases "c_long_packets s \<and> c_maxl s > 94")
  case True
  with fits_long [OF assms(1)] show ?thesis by (simp add: packet_head_length)
next
  case False
  then have "c_maxl s \<le> 94" using assms(3) by auto
  then have "unat (c_maxl s) \<le> 94" by (simp add: word_le_nat_alt)
  with fits_standard [OF assms(1) False assms(2)] show ?thesis
    by (simp add: packet_head_length standard_not_extended)
qed

text \<open>A data field that passes the final size check makes a packet whose length
  field stays within the negotiated maximum, and a session without long packets never gets the
  extended-length form, as long as the negotiated maximum is a classic one in that case.\<close>

lemma fitting_packet_within_maxl:
  assumes "check_encoded_fits enc s = Inr ()" and "10 \<le> c_maxl s" and "c_long_packets s \<or> c_maxl s \<le> 94"
  shows "length (packet_head knd sq enc (c_chkt s)) + check_size (c_chkt s) \<le> Suc (unat (c_maxl s)) \<and>
    (\<not> c_long_packets s \<longrightarrow> \<not> is_extended (packet_head knd sq enc (c_chkt s)))"
  using assms by (rule fitting_packet)



lemma error_message_roundtrip_aux:
  "utf8_valid msg \<Longrightarrow> decode_error_message (encode_data msg command_quoting) command_quoting = msg"
  by (simp add: decode_error_message_def from_utf8_def decode_encode_data command_quoting_def
      standard_quoting_ok)

end
