(* ===== verification/Kermit_Attributes.thy ===== *)
theory Kermit_Attributes
  imports Kermit_Negotiation
begin

text \<open>
  The attribute (A) packet of Kermit (\<^verbatim>\<open>src/src/kermit.rs\<close>): its tag-length-value codec and the
  date strings it carries. Unsigned decimal fields are natural numbers below the bound of their
  Rust type; the permission bits are a 32-bit word.
\<close>

section \<open>Attributes\<close>

record Attributes =
  a_length :: "nat option"
  a_date :: "str option"
  a_mode :: "u32 option"
  a_system_id :: "str option"
  a_file_type :: "byte option"
  a_disposition :: "byte option"
  a_long_length :: "nat option"
  a_charset :: "byte option"
  a_encoding :: "byte option"
  a_record_format :: "byte option"
  a_record_length :: "nat option"
  a_creator_id :: "str option"
  a_account_id :: "str option"
  a_block_size :: "nat option"
  a_access_mode :: "byte option"
  a_encoding_alt :: "byte option"

definition default_Attributes :: Attributes where
  "default_Attributes = \<lparr>a_length = None, a_date = None, a_mode = None, a_system_id = None,
     a_file_type = None, a_disposition = None, a_long_length = None, a_charset = None,
     a_encoding = None, a_record_format = None, a_record_length = None, a_creator_id = None,
     a_account_id = None, a_block_size = None, a_access_mode = None, a_encoding_alt = None\<rparr>"

definition sub_attr :: "byte \<Rightarrow> byte list \<Rightarrow> byte list" where
  "sub_attr tag v = [tag, tochar (word_of_nat (length v))] @ v"

definition capped_attr :: "byte \<Rightarrow> byte list \<Rightarrow> byte list" where
  "capped_attr tag v = (if length v \<le> 94 then sub_attr tag v else [])"

definition opt_attr :: "('a \<Rightarrow> byte list) \<Rightarrow> 'a option \<Rightarrow> byte list" where
  "opt_attr f v = (case v of Some x \<Rightarrow> f x | None \<Rightarrow> [])"

definition byte_attr :: "byte \<Rightarrow> byte \<Rightarrow> byte list" where
  "byte_attr tag b = [tag, tochar 1, b]"

definition encode_attributes :: "Attributes \<Rightarrow> byte list" where
  "encode_attributes a =
     opt_attr (\<lambda>n. sub_attr 0x21 (dec_string n)) (a_length a)
     @ opt_attr (capped_attr 0x23) (a_date a)
     @ opt_attr (\<lambda>m. sub_attr 0x2B (oct_string (unat (m AND 0xFFF)))) (a_mode a)
     @ opt_attr (capped_attr 0x2E) (a_system_id a)
     @ opt_attr (byte_attr 0x22) (a_file_type a)
     @ opt_attr (byte_attr 0x40) (a_disposition a)
     @ opt_attr (byte_attr 0x31) (a_charset a)
     @ opt_attr (byte_attr 0x2A) (a_encoding a)
     @ opt_attr (byte_attr 0x2C) (a_record_format a)
     @ opt_attr (\<lambda>n. capped_attr 0x2D (dec_string n)) (a_record_length a)
     @ opt_attr (capped_attr 0x24) (a_creator_id a)
     @ opt_attr (capped_attr 0x25) (a_account_id a)
     @ opt_attr (\<lambda>n. capped_attr 0x27 (dec_string n)) (a_block_size a)
     @ opt_attr (byte_attr 0x28) (a_access_mode a)
     @ opt_attr (byte_attr 0x29) (a_encoding_alt a)"

definition parse_dec :: "nat \<Rightarrow> byte list \<Rightarrow> nat option" where
  "parse_dec bound val = (case from_utf8 val of
      Some s \<Rightarrow> parse_uint 10 bound (trim s) | None \<Rightarrow> None)"

definition parse_oct :: "byte list \<Rightarrow> u32 option" where
  "parse_oct val = (case from_utf8 val of
      Some s \<Rightarrow> map_option word_of_nat (parse_uint 8 (2 ^ 32) (trim s)) | None \<Rightarrow> None)"

definition keep :: "'a option \<Rightarrow> 'a option \<Rightarrow> 'a option" where
  "keep new old = (case new of Some v \<Rightarrow> Some v | None \<Rightarrow> old)"

definition first_byte :: "byte list \<Rightarrow> byte option" where
  "first_byte val = (case val of [] \<Rightarrow> None | b # _ \<Rightarrow> Some b)"

text \<open>The effect of one sub-attribute: a value that does not parse leaves the field as it was.\<close>

definition set_attribute :: "byte \<Rightarrow> byte list \<Rightarrow> Attributes \<Rightarrow> Attributes" where
  "set_attribute tag val a =
     (if tag = 0x21 then a\<lparr>a_length := keep (parse_dec (2 ^ 64) val) (a_length a)\<rparr>
      else if tag = 0x23 then a\<lparr>a_date := keep (from_utf8 val) (a_date a)\<rparr>
      else if tag = 0x2B then a\<lparr>a_mode := keep (parse_oct val) (a_mode a)\<rparr>
      else if tag = 0x2E then a\<lparr>a_system_id := keep (from_utf8 val) (a_system_id a)\<rparr>
      else if tag = 0x22 then a\<lparr>a_file_type := keep (first_byte val) (a_file_type a)\<rparr>
      else if tag = 0x40 then a\<lparr>a_disposition := keep (first_byte val) (a_disposition a)\<rparr>
      else if tag = 0x26 then a\<lparr>a_long_length := keep (parse_dec (2 ^ 64) val) (a_long_length a)\<rparr>
      else if tag = 0x31 then a\<lparr>a_charset := keep (first_byte val) (a_charset a)\<rparr>
      else if tag = 0x2A then a\<lparr>a_encoding := keep (first_byte val) (a_encoding a)\<rparr>
      else if tag = 0x2C then a\<lparr>a_record_format := keep (first_byte val) (a_record_format a)\<rparr>
      else if tag = 0x2D then a\<lparr>a_record_length := keep (parse_dec (2 ^ 32) val) (a_record_length a)\<rparr>
      else if tag = 0x24 then a\<lparr>a_creator_id := keep (from_utf8 val) (a_creator_id a)\<rparr>
      else if tag = 0x25 then a\<lparr>a_account_id := keep (from_utf8 val) (a_account_id a)\<rparr>
      else if tag = 0x27 then a\<lparr>a_block_size := keep (parse_dec (2 ^ 32) val) (a_block_size a)\<rparr>
      else if tag = 0x28 then a\<lparr>a_access_mode := keep (first_byte val) (a_access_mode a)\<rparr>
      else if tag = 0x29 then a\<lparr>a_encoding_alt := keep (first_byte val) (a_encoding_alt a)\<rparr>
      else a)"

fun parse_attr_loop :: "byte list \<Rightarrow> Attributes \<Rightarrow> Attributes" where
  "parse_attr_loop (tag # len # rest) a =
     (let n = unat (unchar len)
      in if n > length rest then a
         else parse_attr_loop (drop n rest) (set_attribute tag (take n rest) a))"
| "parse_attr_loop _ a = a"

definition parse_attributes :: "byte list \<Rightarrow> Attributes" where
  "parse_attributes data = parse_attr_loop data default_Attributes"


section \<open>Dates\<close>

definition is_leap :: "int \<Rightarrow> bool" where
  "is_leap y \<longleftrightarrow> (y mod 4 = 0 \<and> y mod 100 \<noteq> 0) \<or> y mod 400 = 0"

definition month_lengths :: "int \<Rightarrow> nat list" where
  "month_lengths year = [31, if is_leap year then 29 else 28, 31, 30, 31, 30, 31, 31, 30, 31, 30, 31]"

definition year_length :: "int \<Rightarrow> nat" where
  "year_length y = (if is_leap y then 366 else 365)"

function year_loop :: "nat \<Rightarrow> int \<Rightarrow> nat \<times> int" where
  "year_loop days year =
     (if days < year_length year then (days, year) else year_loop (days - year_length year) (year + 1))"
  by pat_completeness auto
termination
  by (relation "measure fst") (auto simp: year_length_def split: if_splits)

declare year_loop.simps [simp del]

text \<open>The loop over the months: the days left and the index it stops at.\<close>

fun month_loop :: "nat \<Rightarrow> nat list \<Rightarrow> nat \<Rightarrow> nat \<times> nat" where
  "month_loop days [] i = (days, 0)"
| "month_loop days (m # ms) i = (if days < m then (days, i) else month_loop (days - m) ms (Suc i))"

definition pad_dec :: "nat \<Rightarrow> nat \<Rightarrow> str" where
  "pad_dec width n = (let s = dec_string n in replicate (width - length s) 0x30 @ s)"

definition unix_secs_to_kermit_date :: "nat \<Rightarrow> str" where
  "unix_secs_to_kermit_date secs =
     (let sec = secs mod 60; t1 = secs div 60;
          mn = t1 mod 60; t2 = t1 div 60;
          hr = t2 mod 24; t3 = t2 div 24;
          (days, year) = year_loop t3 1970;
          (days', month) = month_loop days (month_lengths year) 0
      in pad_dec 4 (nat year) @ pad_dec 2 (month + 1) @ pad_dec 2 (days' + 1) @ [0x20]
         @ pad_dec 2 hr @ [0x3A] @ pad_dec 2 mn @ [0x3A] @ pad_dec 2 sec)"

definition char_boundary :: "str \<Rightarrow> nat \<Rightarrow> bool" where
  "char_boundary s i \<longleftrightarrow> i = 0 \<or> i = length s \<or> (i < length s \<and> \<not> cont (s ! i))"

definition str_get :: "str \<Rightarrow> nat \<Rightarrow> nat \<Rightarrow> str option" where
  "str_get s i j =
     (if i \<le> j \<and> char_boundary s i \<and> char_boundary s j then Some (take (j - i) (drop i s)) else None)"

text \<open>\<^verbatim>\<open>parse::<i64>\<close> of a short field: a sign and digits.\<close>

definition parse_i64 :: "str \<Rightarrow> int option" where
  "parse_i64 s = (case s of
      c # cs \<Rightarrow> if c = 0x2D
               then (case cs of
                   d # _ \<Rightarrow> if d = 0x2B then None
                            else map_option (\<lambda>n. - int n) (parse_uint 10 (2 ^ 63 + 1) cs)
                 | [] \<Rightarrow> None)
               else map_option int (parse_uint 10 (2 ^ 63) s)
    | [] \<Rightarrow> None)"

definition get_u32 :: "str \<Rightarrow> nat \<Rightarrow> nat \<Rightarrow> nat option" where
  "get_u32 s i j = Option.bind (str_get s i j) (parse_uint 10 (2 ^ 32))"

text \<open>The days of the years from 1970 up to but not including \<open>year\<close>.\<close>

function days_before_year :: "int \<Rightarrow> int \<Rightarrow> nat" where
  "days_before_year y year = (if y < year then year_length y + days_before_year (y + 1) year else 0)"
  by pat_completeness auto
termination
  by (relation "measure (\<lambda>(y, year). nat (year - y))") auto

declare days_before_year.simps [simp del]

definition date_time_of_day :: "str \<Rightarrow> (nat \<times> nat \<times> nat) option" where
  "date_time_of_day s =
     (if length s \<ge> 17 then
        Option.bind (get_u32 s 9 11) (\<lambda>h.
        Option.bind (get_u32 s 12 14) (\<lambda>m.
        Option.bind (get_u32 s 15 17) (\<lambda>se. Some (h, m, se))))
      else Some (0, 0, 0))"

definition parse_kermit_date :: "str \<Rightarrow> nat option" where
  "parse_kermit_date s0 =
     (let s = trim s0 in
      if length s < 8 then None
      else
        Option.bind (Option.bind (str_get s 0 4) parse_i64) (\<lambda>year.
        Option.bind (get_u32 s 4 6) (\<lambda>month.
        Option.bind (get_u32 s 6 8) (\<lambda>day.
        Option.bind (date_time_of_day s) (\<lambda>(hr, mn, sec).
          if \<not> (1 \<le> month \<and> month \<le> 12) \<or> day = 0 \<or> day > 31 then None
          else
            (let days = days_before_year 1970 year
                        + sum_list (take (month - 1) (month_lengths year)) + (day - 1)
             in Some (days * 86400 + hr * 3600 + mn * 60 + sec)))))))"


section \<open>Attributes survive the packet\<close>

lemma parse_sub_attr:
  assumes "length v < 256"
  shows "parse_attr_loop (sub_attr tag v @ rest) a = parse_attr_loop rest (set_attribute tag v a)"
  using assms by (simp add: sub_attr_def)

lemma opt_attr_simps [simp]: "opt_attr f None = []" "opt_attr f (Some x) = f x"
  by (simp_all add: opt_attr_def)

lemma keep_simps [simp]: "keep (Some x) old = Some x" "keep None old = old"
  by (simp_all add: keep_def)

lemmas field_step = parse_sub_attr set_attribute_def capped_attr_def

lemma dec_string_length: "n < 2 ^ 64 \<Longrightarrow> length (dec_string n) \<le> 20"
  by (rule radix_string_length) auto

lemma dec_string_length32: "n < 2 ^ 32 \<Longrightarrow> length (dec_string n) \<le> 10"
  by (rule radix_string_length) auto

lemma parse_dec_string: "n < bound \<Longrightarrow> parse_dec bound (dec_string n) = Some n"
  by (simp add: parse_dec_def parse_trimmed_radix)

lemma mode_bits_bound: "unat ((m::u32) AND 0xFFF) < 8 ^ 4"
proof -
  have "m AND 0xFFF \<le> 0xFFF" by (rule word_and_le1)
  then show ?thesis by (simp add: word_le_nat_alt)
qed

lemma parse_mode: "parse_oct (oct_string (unat ((m::u32) AND 0xFFF))) = Some (m AND 0xFFF)"
proof -
  have "unat (m AND 0xFFF) < 2 ^ 32" using mode_bits_bound [of m] by simp
  then show ?thesis by (simp add: parse_oct_def parse_trimmed_radix)
qed

lemma mode_string_length: "length (oct_string (unat ((m::u32) AND 0xFFF))) \<le> 4"
  using mode_bits_bound [of m] by (intro radix_string_length) auto

text \<open>One field at a time: reading its sub-attribute sets exactly that field.\<close>

lemma text_field_steps:
  assumes "pred_option (\<lambda>s. utf8_valid s \<and> length s \<le> 94) v"
  shows
    "parse_attr_loop (opt_attr (capped_attr 0x23) v @ rest) a = parse_attr_loop rest (a\<lparr>a_date := keep v (a_date a)\<rparr>)"
    "parse_attr_loop (opt_attr (capped_attr 0x2E) v @ rest) a = parse_attr_loop rest (a\<lparr>a_system_id := keep v (a_system_id a)\<rparr>)"
    "parse_attr_loop (opt_attr (capped_attr 0x24) v @ rest) a = parse_attr_loop rest (a\<lparr>a_creator_id := keep v (a_creator_id a)\<rparr>)"
    "parse_attr_loop (opt_attr (capped_attr 0x25) v @ rest) a = parse_attr_loop rest (a\<lparr>a_account_id := keep v (a_account_id a)\<rparr>)"
  using assms by (cases v; simp add: field_step from_utf8_def)+

lemma byte_field_steps:
  shows
    "parse_attr_loop (opt_attr (byte_attr 0x22) v @ rest) a = parse_attr_loop rest (a\<lparr>a_file_type := keep v (a_file_type a)\<rparr>)"
    "parse_attr_loop (opt_attr (byte_attr 0x40) v @ rest) a = parse_attr_loop rest (a\<lparr>a_disposition := keep v (a_disposition a)\<rparr>)"
    "parse_attr_loop (opt_attr (byte_attr 0x31) v @ rest) a = parse_attr_loop rest (a\<lparr>a_charset := keep v (a_charset a)\<rparr>)"
    "parse_attr_loop (opt_attr (byte_attr 0x2A) v @ rest) a = parse_attr_loop rest (a\<lparr>a_encoding := keep v (a_encoding a)\<rparr>)"
    "parse_attr_loop (opt_attr (byte_attr 0x2C) v @ rest) a = parse_attr_loop rest (a\<lparr>a_record_format := keep v (a_record_format a)\<rparr>)"
    "parse_attr_loop (opt_attr (byte_attr 0x28) v @ rest) a = parse_attr_loop rest (a\<lparr>a_access_mode := keep v (a_access_mode a)\<rparr>)"
    "parse_attr_loop (opt_attr (byte_attr 0x29) v @ rest) a = parse_attr_loop rest (a\<lparr>a_encoding_alt := keep v (a_encoding_alt a)\<rparr>)"
proof -
  have b: "byte_attr tag b = sub_attr tag [b]" for tag b by (simp add: byte_attr_def sub_attr_def)
  show
    "parse_attr_loop (opt_attr (byte_attr 0x22) v @ rest) a = parse_attr_loop rest (a\<lparr>a_file_type := keep v (a_file_type a)\<rparr>)"
    "parse_attr_loop (opt_attr (byte_attr 0x40) v @ rest) a = parse_attr_loop rest (a\<lparr>a_disposition := keep v (a_disposition a)\<rparr>)"
    "parse_attr_loop (opt_attr (byte_attr 0x31) v @ rest) a = parse_attr_loop rest (a\<lparr>a_charset := keep v (a_charset a)\<rparr>)"
    "parse_attr_loop (opt_attr (byte_attr 0x2A) v @ rest) a = parse_attr_loop rest (a\<lparr>a_encoding := keep v (a_encoding a)\<rparr>)"
    "parse_attr_loop (opt_attr (byte_attr 0x2C) v @ rest) a = parse_attr_loop rest (a\<lparr>a_record_format := keep v (a_record_format a)\<rparr>)"
    "parse_attr_loop (opt_attr (byte_attr 0x28) v @ rest) a = parse_attr_loop rest (a\<lparr>a_access_mode := keep v (a_access_mode a)\<rparr>)"
    "parse_attr_loop (opt_attr (byte_attr 0x29) v @ rest) a = parse_attr_loop rest (a\<lparr>a_encoding_alt := keep v (a_encoding_alt a)\<rparr>)"
    by (cases v; simp add: b field_step first_byte_def)+
qed

lemma number_field_steps:
  assumes "pred_option (\<lambda>n. n < 2 ^ 32) v"
  shows
    "parse_attr_loop (opt_attr (\<lambda>n. capped_attr 0x2D (dec_string n)) v @ rest) a = parse_attr_loop rest (a\<lparr>a_record_length := keep v (a_record_length a)\<rparr>)"
    "parse_attr_loop (opt_attr (\<lambda>n. capped_attr 0x27 (dec_string n)) v @ rest) a = parse_attr_loop rest (a\<lparr>a_block_size := keep v (a_block_size a)\<rparr>)"
proof -
  have v: "length (dec_string x) \<le> 94 \<and> length (dec_string x) < 256 \<and> parse_dec (2 ^ 32) (dec_string x) = Some x"
    if "v = Some x" for x
    using assms that dec_string_length32 [of x] by (simp add: parse_dec_string)
  show
    "parse_attr_loop (opt_attr (\<lambda>n. capped_attr 0x2D (dec_string n)) v @ rest) a = parse_attr_loop rest (a\<lparr>a_record_length := keep v (a_record_length a)\<rparr>)"
    "parse_attr_loop (opt_attr (\<lambda>n. capped_attr 0x27 (dec_string n)) v @ rest) a = parse_attr_loop rest (a\<lparr>a_block_size := keep v (a_block_size a)\<rparr>)"
    using v by (cases v; simp add: field_step)+
qed

lemma length_field_step:
  assumes "pred_option (\<lambda>n. n < 2 ^ 64) v"
  shows
    "parse_attr_loop (opt_attr (\<lambda>n. sub_attr 0x21 (dec_string n)) v @ rest) a = parse_attr_loop rest (a\<lparr>a_length := keep v (a_length a)\<rparr>)"
proof -
  have "length (dec_string x) < 256 \<and> parse_dec (2 ^ 64) (dec_string x) = Some x" if "v = Some x" for x
    using assms that dec_string_length [of x] by (simp add: parse_dec_string)
  then show ?thesis by (cases v) (simp_all add: field_step)
qed

lemma mode_field_step:
  assumes "pred_option (\<lambda>m. m AND 0xFFF = m) v"
  shows
    "parse_attr_loop (opt_attr (\<lambda>m. sub_attr 0x2B (oct_string (unat (m AND 0xFFF)))) v @ rest) a = parse_attr_loop rest (a\<lparr>a_mode := keep v (a_mode a)\<rparr>)"
proof -
  have "length (oct_string (unat x)) < 256 \<and> parse_oct (oct_string (unat x)) = Some x \<and> x AND 0xFFF = x"
    if "v = Some x" for x
    using assms that mode_string_length [of x] parse_mode [of x] by simp
  then show ?thesis by (cases v) (simp_all add: field_step)
qed

definition attributes_ok :: "Attributes \<Rightarrow> bool" where
  "attributes_ok a \<longleftrightarrow>
     pred_option (\<lambda>n. n < 2 ^ 64) (a_length a) \<and>
     pred_option (\<lambda>m. m AND 0xFFF = m) (a_mode a) \<and>
     pred_option (\<lambda>n. n < 2 ^ 32) (a_record_length a) \<and>
     pred_option (\<lambda>n. n < 2 ^ 32) (a_block_size a) \<and>
     list_all (pred_option (\<lambda>s. utf8_valid s \<and> length s \<le> 94))
       [a_date a, a_system_id a, a_creator_id a, a_account_id a] \<and>
     a_long_length a = None"

lemma keep_None [simp]: "keep v None = v"
  by (cases v) simp_all

lemma parse_encode_attributes:
  assumes "attributes_ok a"
  shows "parse_attributes (encode_attributes a) = a"
proof -
  have "parse_attr_loop (encode_attributes a @ []) default_Attributes = a"
    using assms unfolding encode_attributes_def append_assoc attributes_ok_def default_Attributes_def
    by (simp add: length_field_step mode_field_step number_field_steps text_field_steps byte_field_steps
        del: append_Nil2)
  then show ?thesis by (simp add: parse_attributes_def)
qed

text \<open>Property C33: the attributes of a file (size, date, permission bits, type, system and the
  record fields) that one end puts in an A-packet are the attributes the other end reads, each
  present exactly when it was sent.\<close>

theorem attributes_roundtrip:
  assumes "attributes_ok a"
  shows "parse_attributes (encode_attributes a) = a"
  using assms by (rule parse_encode_attributes)

theorem attributes_roundtrip_witness:
  "(let a = default_Attributes\<lparr>a_length := Some 8388608, a_date := Some (str_of ''20240229 23:59:59''),
        a_mode := Some 420, a_file_type := Some 0x42\<rparr>
    in attributes_ok a \<and> parse_attributes (encode_attributes a) = a)"
proof -
  let ?a = "default_Attributes\<lparr>a_length := Some 8388608, a_date := Some (str_of ''20240229 23:59:59''),
        a_mode := Some 420, a_file_type := Some 0x42\<rparr>"
  have "utf8_valid (str_of ''20240229 23:59:59'')"
    by (rule ascii_valid) (simp add: ascii_def str_of_def)
  then have "attributes_ok ?a"
    by (simp add: attributes_ok_def default_Attributes_def str_of_def)
  with attributes_roundtrip [OF this] show ?thesis by (simp add: Let_def)
qed


section \<open>Dates survive the packet\<close>

lemma year_loop_sum:
  "year_loop d y = (d', y') \<Longrightarrow> days_before_year y y' + d' = d \<and> d' < year_length y' \<and> y \<le> y' \<and> 365 * nat (y' - y) \<le> d"
proof (induction d y rule: year_loop.induct)
  case (1 d y)
  show ?case
  proof (cases "d < year_length y")
    case True
    with "1.prems" show ?thesis by (simp add: year_loop.simps [of d y] days_before_year.simps)
  next
    case False
    with "1.prems" have "year_loop (d - year_length y) (y + 1) = (d', y')"
      by (simp add: year_loop.simps [of d y])
    from "1.IH" [OF False this] have IH: "days_before_year (y + 1) y' + d' = d - year_length y"
        "d' < year_length y'" "y + 1 \<le> y'" "365 * nat (y' - (y + 1)) \<le> d - year_length y"
      by auto
    have "year_length y \<ge> 365" by (simp add: year_length_def)
    with False IH show ?thesis by (simp add: days_before_year.simps [of y y']) (auto simp: nat_diff_distrib)
  qed
qed

lemma month_loop_sum:
  "month_loop d ms i = (d', j) \<Longrightarrow> d < sum_list ms \<Longrightarrow>
   i \<le> j \<and> j < i + length ms \<and> sum_list (take (j - i) ms) + d' = d \<and> d' < ms ! (j - i)"
proof (induction d ms i rule: month_loop.induct)
  case (2 d m ms i)
  show ?case
  proof (cases "d < m")
    case False
    with 2 have IH: "Suc i \<le> j" "j < Suc i + length ms" "sum_list (take (j - Suc i) ms) + d' = d - m"
        "d' < ms ! (j - Suc i)"
      by auto
    then have "j - i = Suc (j - Suc i)" by simp
    with IH False show ?thesis by auto
  qed (use "2.prems" in auto)
qed simp

lemma month_lengths_sum: "sum_list (month_lengths y) = year_length y"
  by (simp add: month_lengths_def year_length_def)

lemma month_lengths_le: "i < 12 \<Longrightarrow> month_lengths y ! i \<le> 31"
proof -
  have "\<forall>m\<in>set (month_lengths y). m \<le> 31" by (simp add: month_lengths_def)
  moreover assume "i < 12"
  then have "month_lengths y ! i \<in> set (month_lengths y)" by (intro nth_mem) (simp add: month_lengths_def)
  ultimately show ?thesis by blast
qed

abbreviation "digit_byte c \<equiv> 0x30 \<le> c \<and> c \<le> (0x39 :: byte)"

lemma pad_dec_digits: "list_all (\<lambda>c. digit_byte c) (pad_dec w n)"
  using radix_string_digits(3) [of 10 n] by (simp add: pad_dec_def Let_def)

lemma pad_dec_length: "n < 10 ^ w \<Longrightarrow> 0 < w \<Longrightarrow> length (pad_dec w n) = w"
  using radix_string_length [of 10 n w] by (simp add: pad_dec_def Let_def)

lemma parse_pad_dec: "n < bound \<Longrightarrow> parse_uint 10 bound (pad_dec w n) = Some n"
proof -
  assume n: "n < bound"
  note d = radix_string_digits [of 10 n, simplified]
  have zeros: "foldl (\<lambda>a c. a * 10 + digit_value c) 0 (replicate k 0x30) = 0" for k
    by (induction k) (simp_all add: digit_value_def)
  have "list_all (is_radix_digit 10) (pad_dec w n)"
    using d(2) by (simp add: pad_dec_def Let_def is_radix_digit_def digit_value_def)
  moreover have "foldl (\<lambda>a c. a * 10 + digit_value c) 0 (pad_dec w n) = n"
    using radix_string_value [of 10 n] by (simp add: pad_dec_def Let_def zeros)
  moreover have "pad_dec w n \<noteq> []" using d(1) by (simp add: pad_dec_def Let_def)
  moreover have "(case pad_dec w n of c # cs \<Rightarrow> if c = 0x2B then cs else pad_dec w n | [] \<Rightarrow> []) = pad_dec w n"
    using pad_dec_digits [of w n] by (cases "pad_dec w n") auto
  ultimately show ?thesis using n by (simp add: parse_uint_def)
qed

lemma two_digits:
  assumes "n < 100"
  obtains x y where "pad_dec 2 n = [x, y]" "digit_byte x" "digit_byte y" "parse_uint 10 (2 ^ 32) [x, y] = Some n"
proof -
  have "length (pad_dec 2 n) = 2" using assms by (intro pad_dec_length) auto
  then obtain x y where xy: "pad_dec 2 n = [x, y]" by (auto simp: numeral_2_eq_2 length_Suc_conv)
  moreover have "parse_uint 10 (2 ^ 32) (pad_dec 2 n) = Some n" using assms by (intro parse_pad_dec) simp
  ultimately show thesis using pad_dec_digits [of 2 n] by (intro that) auto
qed

lemma four_digits:
  assumes "n < 10000"
  obtains x y z u where "pad_dec 4 n = [x, y, z, u]" "digit_byte x" "digit_byte y" "digit_byte z" "digit_byte u"
    "parse_uint 10 (2 ^ 63) [x, y, z, u] = Some n"
proof -
  have "length (pad_dec 4 n) = Suc (Suc (Suc (Suc 0)))" using assms by (subst pad_dec_length) auto
  then obtain x y z u where xy: "pad_dec 4 n = [x, y, z, u]" by (auto simp: length_Suc_conv)
  moreover have "parse_uint 10 (2 ^ 63) (pad_dec 4 n) = Some n" using assms by (intro parse_pad_dec) simp
  ultimately show thesis using pad_dec_digits [of 4 n] by (intro that) auto
qed

lemma not_cont_digit: "digit_byte c \<Longrightarrow> \<not> cont c"
  by (auto simp: cont_def in_range_def word_le_nat_alt)

lemma trim_digit_ends:
  assumes "digit_byte a" "digit_byte z"
  shows "trim (a # s @ [z]) = a # s @ [z]"
proof -
  have "trim_start (a # t) = a # t" for t
    using digit_byte_facts [OF assms(1)] by (cases "a # t" rule: trim_start.cases) auto
  moreover have "trim_rev (z # t) = z # t" for t
    using digit_byte_facts [OF assms(2)] by (cases "z # t" rule: trim_rev.cases) auto
  ultimately show ?thesis by (simp add: trim_def trim_end_def)
qed

lemma parse_i64_digits:
  assumes "digit_byte c"
  shows "parse_i64 (c # cs) = map_option int (parse_uint 10 (2 ^ 63) (c # cs))"
  using assms by (auto simp: parse_i64_def)

lemma parse_date_string:
  assumes "y < 10000" "m < 100" "d < 100" "h < 100" "n < 100" "e < 100"
    and "1 \<le> m" "m \<le> 12" "d \<noteq> 0" "d \<le> 31"
  shows "parse_kermit_date (pad_dec 4 y @ pad_dec 2 m @ pad_dec 2 d @ [0x20] @ pad_dec 2 h @ [0x3A]
      @ pad_dec 2 n @ [0x3A] @ pad_dec 2 e) =
    Some ((days_before_year 1970 (int y) + sum_list (take (m - 1) (month_lengths (int y))) + (d - 1)) * 86400
      + h * 3600 + n * 60 + e)"
proof -
  from assms(1) obtain y1 y2 y3 y4 where y: "pad_dec 4 y = [y1, y2, y3, y4]" "digit_byte y1"
      "parse_uint 10 (2 ^ 63) [y1, y2, y3, y4] = Some y" by (rule four_digits)
  from assms(2) obtain m1 m2 where m: "pad_dec 2 m = [m1, m2]" "digit_byte m1" "parse_uint 10 (2 ^ 32) [m1, m2] = Some m"
    by (rule two_digits)
  from assms(3) obtain d1 d2 where d: "pad_dec 2 d = [d1, d2]" "digit_byte d1" "parse_uint 10 (2 ^ 32) [d1, d2] = Some d"
    by (rule two_digits)
  from assms(4) obtain h1 h2 where h: "pad_dec 2 h = [h1, h2]" "digit_byte h1" "parse_uint 10 (2 ^ 32) [h1, h2] = Some h"
    by (rule two_digits)
  from assms(5) obtain n1 n2 where n: "pad_dec 2 n = [n1, n2]" "digit_byte n1" "parse_uint 10 (2 ^ 32) [n1, n2] = Some n"
    by (rule two_digits)
  from assms(6) obtain e1 e2 where e: "pad_dec 2 e = [e1, e2]" "digit_byte e1" "digit_byte e2"
      "parse_uint 10 (2 ^ 32) [e1, e2] = Some e"
    by (rule two_digits)
  let ?s = "[y1, y2, y3, y4, m1, m2, d1, d2, 0x20, h1, h2, 0x3A, n1, n2, 0x3A, e1, e2]"
  have t: "trim ?s = ?s"
    using trim_digit_ends [OF y(2) e(3), of "[y2, y3, y4, m1, m2, d1, d2, 0x20, h1, h2, 0x3A, n1, n2, 0x3A, e1]"]
    by simp
  have c: "\<not> cont 0x20" "\<not> cont 0x3A" "\<not> cont m1" "\<not> cont d1" "\<not> cont h1" "\<not> cont n1" "\<not> cont e1"
    using m d h n e by (auto simp: not_cont_digit) (simp_all add: cont_def in_range_def)
  have g: "str_get ?s 0 4 = Some [y1, y2, y3, y4]" "str_get ?s 4 6 = Some [m1, m2]"
    "str_get ?s 6 8 = Some [d1, d2]" "str_get ?s 9 11 = Some [h1, h2]"
    "str_get ?s 12 14 = Some [n1, n2]" "str_get ?s 15 17 = Some [e1, e2]"
    using c by (simp_all add: str_get_def char_boundary_def)
  show ?thesis
    using assms(7-) t g m(3) d(3) h(3) n(3) e(4) y(3) parse_i64_digits [OF y(2), of "[y2, y3, y4]"]
    by (simp add: y(1) m(1) d(1) h(1) n(1) e(1) parse_kermit_date_def date_time_of_day_def get_u32_def Let_def)
qed

lemma split_secs: "((secs::nat) div 60 div 60 div 24) * 86400 + (secs div 60 div 60 mod 24) * 3600 + (secs div 60 mod 60) * 60 + secs mod 60 = secs"
proof -
  have "secs div 60 div 60 div 24 * 24 + secs div 60 div 60 mod 24 = secs div 60 div 60"
    "secs div 60 div 60 * 60 + secs div 60 mod 60 = secs div 60" "secs div 60 * 60 + secs mod 60 = secs"
    by (simp_all only: div_mult_mod_eq)
  then show ?thesis by linarith
qed

lemma parse_unix_date:
  assumes "secs < 253202544000"
  shows "parse_kermit_date (unix_secs_to_kermit_date secs) = Some secs"
proof -
  let ?t3 = "secs div 60 div 60 div 24"
  obtain days year where yl: "year_loop ?t3 1970 = (days, year)" by fastforce
  obtain days' month where ml: "month_loop days (month_lengths year) 0 = (days', month)" by fastforce
  from year_loop_sum [OF yl] have y: "days_before_year 1970 year + days = ?t3" "days < year_length year"
      "1970 \<le> year" "365 * nat (year - 1970) \<le> ?t3"
    by auto
  have "?t3 < 2930585" using assms by (simp add: div_mult2_eq [symmetric] less_mult_imp_div_less)
  with y(4) have year: "nat year < 10000" using y(3) by linarith
  from month_loop_sum [OF ml] y(2) have m: "month < 12" "sum_list (take month (month_lengths year)) + days' = days"
      "days' < month_lengths year ! month"
    by (auto simp: month_lengths_sum) (simp_all add: month_lengths_def)
  have d: "days' < 31" using m(3) month_lengths_le [OF m(1), of year] by linarith
  have "unix_secs_to_kermit_date secs = pad_dec 4 (nat year) @ pad_dec 2 (month + 1) @ pad_dec 2 (days' + 1) @ [0x20]
         @ pad_dec 2 (secs div 60 div 60 mod 24) @ [0x3A] @ pad_dec 2 (secs div 60 mod 60) @ [0x3A] @ pad_dec 2 (secs mod 60)"
    by (simp add: unix_secs_to_kermit_date_def Let_def yl ml)
  moreover have "secs div 60 div 60 mod 24 < 100" "secs div 60 mod 60 < 100" "secs mod 60 < 100"
    using mod_less_divisor [of 24 "secs div 60 div 60"] mod_less_divisor [of 60 "secs div 60"]
      mod_less_divisor [of 60 secs] by linarith+
  ultimately have "parse_kermit_date (unix_secs_to_kermit_date secs) =
      Some ((days_before_year 1970 year + sum_list (take month (month_lengths year)) + days') * 86400
        + (secs div 60 div 60 mod 24) * 3600 + (secs div 60 mod 60) * 60 + secs mod 60)"
    using year m(1) d y(3) by (simp only: parse_date_string) simp
  also have "days_before_year 1970 year + sum_list (take month (month_lengths year)) + days' = ?t3"
    using y(1) m(2) by linarith
  finally show ?thesis by (simp only: split_secs)
qed

text \<open>The modification time that the sender writes into an A-packet as a calendar
  date is, to the second, the time the receiver reads, leap years and month lengths included (for
  dates with a four-digit year, here up to the year 9993).\<close>

lemma kermit_date_roundtrip:
  assumes "secs < 253202544000"
  shows "parse_kermit_date (unix_secs_to_kermit_date secs) = Some secs"
  using assms by (rule parse_unix_date)


end
