(* ===== verification/Kermit_Server.thy ===== *)
theory Kermit_Server
  imports Kermit_Attributes
begin

text \<open>
  The file commands of the Kermit server (\<^verbatim>\<open>src/src/kermit.rs\<close>, with the device-name rule of
  \<^verbatim>\<open>src/src/cpm/fcb.rs\<close>): the name and folder checks, the field-encoded arguments, \<open>remote cd\<close> and
  the generic commands that act on the folder.

  The host's file system answers through \<open>host\<close>, one function per call the code makes; every
  call a command makes on a path is recorded as an \<open>access\<close>. A path is either below the server's
  base folder or elsewhere, as \<^verbatim>\<open>Path::join\<close> decides: an absolute argument, or a drive prefix on
  Windows, replaces what it is joined onto.
\<close>

section \<open>Names\<close>

definition MAX_KERMIT_FILENAME_LEN :: nat where "MAX_KERMIT_FILENAME_LEN = 64"
definition MAX_KERMIT_SUBDIR_LEN :: nat where "MAX_KERMIT_SUBDIR_LEN = 255"

definition is_safe_resume_filename :: "str \<Rightarrow> bool" where
  "is_safe_resume_filename name \<longleftrightarrow>
     name \<noteq> [] \<and> length name \<le> MAX_KERMIT_FILENAME_LEN \<and>
     \<not> starts_with name (str_of ''.'') \<and> \<not> contains name (str_of ''/'') \<and> \<not> contains name [0x5C] \<and>
     \<not> contains name (str_of '':'') \<and> \<not> contains name (str_of ''..'') \<and> \<not> contains name [0]"

definition is_host_device_name :: "str \<Rightarrow> bool" where
  "is_host_device_name name0 =
     (let name = to_ascii_uppercase name0
      in name \<in> {str_of ''CON'', str_of ''PRN'', str_of ''AUX'', str_of ''NUL''} \<or>
         list_ex (\<lambda>p. case strip_prefix p name of
             Some d \<Rightarrow> length d = 1 \<and> in_range 0x31 0x39 (d ! 0)
           | None \<Rightarrow> False) [str_of ''COM'', str_of ''LPT''])"

text \<open>The part before the first dot, without the trailing blanks that Windows ignores.\<close>

definition host_stem :: "str \<Rightarrow> str" where
  "host_stem name = trim_end_matches 0x20 (hd (split_on 0x2E name))"

definition subdir_names_a_device_on :: "str \<Rightarrow> bool \<Rightarrow> bool" where
  "subdir_names_a_device_on subdir windows \<longleftrightarrow>
     windows \<and> list_ex (\<lambda>c. is_host_device_name (host_stem c)) (split_on 0x2F subdir)"


definition is_safe_relative_subdir :: "str \<Rightarrow> bool" where
  "is_safe_relative_subdir s \<longleftrightarrow>
     s = [] \<or>
     (length s \<le> MAX_KERMIT_SUBDIR_LEN \<and>
      \<not> starts_with s (str_of ''/'') \<and> \<not> contains s [0x5C] \<and> \<not> contains s [0] \<and>
      list_all (\<lambda>c. c \<noteq> [] \<and> c \<noteq> str_of ''..'' \<and> \<not> starts_with c (str_of ''.'') \<and>
          list_all (\<lambda>b. is_ascii_alphanumeric b \<or> b = 0x2E \<or> b = 0x2D \<or> b = 0x5F) c)
        (split_on 0x2F s))"






section \<open>Field-encoded arguments\<close>



definition KERMIT_FIELD_MAX :: nat where "KERMIT_FIELD_MAX = 94"

definition encode_g_field :: "byte list \<Rightarrow> byte list option" where
  "encode_g_field bytes =
     (if bytes = [] then Some []
      else if length bytes > KERMIT_FIELD_MAX then None
      else Some (tochar (word_of_nat (length bytes)) # bytes))"



section \<open>Paths and the host\<close>

datatype path = Under "str list" | Elsewhere "str list"

definition is_separator :: "bool \<Rightarrow> byte \<Rightarrow> bool" where
  "is_separator windows b \<longleftrightarrow> b = 0x2F \<or> (windows \<and> b = 0x5C)"

fun components :: "bool \<Rightarrow> str \<Rightarrow> str list" where
  "components windows [] = [[]]"
| "components windows (b # s) =
     (if is_separator windows b then [] # components windows s
      else (case components windows s of p # ps \<Rightarrow> (b # p) # ps | [] \<Rightarrow> [[b]]))"

definition replaces_base :: "bool \<Rightarrow> str \<Rightarrow> bool" where
  "replaces_base windows s \<longleftrightarrow>
     (s \<noteq> [] \<and> is_separator windows (hd s)) \<or>
     (windows \<and> 1 < length s \<and> s ! 1 = 0x3A)"

definition path_join :: "bool \<Rightarrow> path \<Rightarrow> str \<Rightarrow> path" where
  "path_join windows p s =
     (let cs = filter (\<lambda>c. c \<noteq> [] \<and> c \<noteq> str_of ''.'') (components windows s)
      in if replaces_base windows s then Elsewhere cs
         else (case p of Under ds \<Rightarrow> Under (ds @ cs) | Elsewhere ds \<Rightarrow> Elsewhere (ds @ cs)))"


datatype io_kind = NotFound | AlreadyExists | OtherKind










section \<open>The commands\<close>














section \<open>Resume\<close>

record file_meta =
  m_is_symlink :: bool
  m_is_file :: bool
  m_modified :: "nat option"
  m_len :: nat

text \<open>\<open>lmeta\<close> and \<open>meta\<close> answer \<^verbatim>\<open>symlink_metadata\<close> and \<^verbatim>\<open>metadata\<close>; times are seconds.\<close>

definition compute_resume_offset ::
    "(path \<Rightarrow> file_meta option) \<Rightarrow> (path \<Rightarrow> file_meta option) \<Rightarrow> bool \<Rightarrow> nat \<Rightarrow> str \<Rightarrow> nat \<Rightarrow> nat option" where
  "compute_resume_offset lmeta meta windows now filename max_age_hours =
     (if \<not> is_safe_resume_filename filename then None
      else
        (let p = path_join windows (Under []) filename in
         Option.bind (lmeta p) (\<lambda>l.
           if m_is_symlink l then None
           else Option.bind (meta p) (\<lambda>m.
             if \<not> m_is_file m then None
             else Option.bind (m_modified m) (\<lambda>mtime.
               if now < mtime then None
               else if now - mtime > min (max_age_hours * 3600) (2 ^ 64 - 1) then None
               else Some (m_len m))))))"


section \<open>Nothing outside the base folder is touched\<close>




definition safe_session_dir :: "bool \<Rightarrow> str \<Rightarrow> bool" where
  "safe_session_dir windows subdir \<longleftrightarrow>
     is_safe_relative_subdir subdir \<and> \<not> subdir_names_a_device_on subdir windows"

lemma str_of_dots [simp]: "str_of ''.'' = [0x2E]" "str_of ''..'' = [0x2E, 0x2E]" "str_of ''/'' = [0x2F]" "str_of '':'' = [0x3A]"
  by (simp_all add: str_of_def)


lemma split_on_separator: "p \<in> set (split_on c s) \<Longrightarrow> c \<notin> set p"
  by (induction s arbitrary: p) (auto split: list.splits if_splits)













lemma empty_session_dir [simp]: "safe_session_dir w []"
  by (simp add: safe_session_dir_def is_safe_relative_subdir_def subdir_names_a_device_on_def
      is_host_device_name_def host_stem_def trim_end_matches_def to_ascii_uppercase_def strip_prefix_def
      starts_with_def str_of_def)










end
