(* ===== verification/Zmodem_Codec.thy ===== *)
theory Zmodem_Codec
  imports Wire_Reader Checksum_Register Rust_Std
begin

text \<open>
  The frame layer of ZMODEM (\<^verbatim>\<open>src/src/zmodem.rs\<close>): the two CRCs, ZDLE escaping with the extra
  escaping a peer may ask for, hexadecimal and binary headers, data subpackets, and the readers of
  all of them. The header readers run under the deadline of their caller; each unit of a
  subpacket is read under a deadline of its own.
\<close>

section \<open>Constants and the receive window\<close>

abbreviation (input) ZPAD :: byte where "ZPAD \<equiv> 0x2A"
abbreviation (input) ZDLE :: byte where "ZDLE \<equiv> 0x18"
abbreviation (input) ZBIN :: byte where "ZBIN \<equiv> 0x41"
abbreviation (input) ZHEX :: byte where "ZHEX \<equiv> 0x42"
abbreviation (input) ZBIN32 :: byte where "ZBIN32 \<equiv> 0x43"
abbreviation (input) ZCRCE :: byte where "ZCRCE \<equiv> 0x68"
abbreviation (input) ZCRCG :: byte where "ZCRCG \<equiv> 0x69"
abbreviation (input) ZCRCQ :: byte where "ZCRCQ \<equiv> 0x6A"
abbreviation (input) ZCRCW :: byte where "ZCRCW \<equiv> 0x6B"
abbreviation (input) ZRUB0 :: byte where "ZRUB0 \<equiv> 0x6C"
abbreviation (input) ZRUB1 :: byte where "ZRUB1 \<equiv> 0x6D"
abbreviation (input) ZACK :: byte where "ZACK \<equiv> 0x03"
abbreviation (input) ZFIN :: byte where "ZFIN \<equiv> 0x08"

definition SUBPACKET_DATA_SIZE :: nat where "SUBPACKET_DATA_SIZE = 1024"
definition MIN_SUBPACKET_DATA_SIZE :: nat where "MIN_SUBPACKET_DATA_SIZE = 1"
definition MAX_SUBPACKET_DATA :: nat where "MAX_SUBPACKET_DATA = 8192"
definition CANCEL_CAN_RUN :: nat where "CANCEL_CAN_RUN = 5"
definition HEADER_HUNT_BUDGET :: nat where "HEADER_HUNT_BUDGET = 48 * 1024"

record RxWindow =
  rw_chunk :: nat
  segmented :: bool

definition from_zrinit :: "nat \<Rightarrow> RxWindow" where
  "from_zrinit rx_bufsize =
     (if rx_bufsize = 0 then \<lparr>rw_chunk = SUBPACKET_DATA_SIZE, segmented = False\<rparr>
      else \<lparr>rw_chunk = max MIN_SUBPACKET_DATA_SIZE (min rx_bufsize SUBPACKET_DATA_SIZE), segmented = True\<rparr>)"

definition mid_file_marker :: "RxWindow \<Rightarrow> byte" where
  "mid_file_marker w = (if segmented w then ZCRCW else ZCRCQ)"


section \<open>CRCs\<close>

definition crc_msb_step :: "u16 \<Rightarrow> u16" where
  "crc_msb_step crc = (if crc AND 0x8000 \<noteq> 0 then push_bit 1 crc XOR 0x1021 else push_bit 1 crc)"

definition crc16_byte :: "u16 \<Rightarrow> byte \<Rightarrow> u16" where
  "crc16_byte crc b = (crc_msb_step ^^ 8) (crc XOR push_bit 8 (ucast b))"

definition crc16_update :: "u16 \<Rightarrow> byte list \<Rightarrow> u16" where
  "crc16_update crc data = foldl crc16_byte crc data"

definition crc16 :: "byte list \<Rightarrow> u16" where
  "crc16 data = crc16_update 0 data"

definition crc32_step :: "u32 \<Rightarrow> u32" where
  "crc32_step crc = (let lsb = crc AND 1; c = drop_bit 1 crc in if lsb \<noteq> 0 then c XOR 0xEDB88320 else c)"

definition crc32_byte :: "u32 \<Rightarrow> byte \<Rightarrow> u32" where
  "crc32_byte crc b = (crc32_step ^^ 8) (crc XOR ucast b)"

definition crc32 :: "byte list \<Rightarrow> u32" where
  "crc32 data = NOT (foldl crc32_byte 0xFFFFFFFF data)"


section \<open>Escaping\<close>

definition needs_zdle_escape :: "byte \<Rightarrow> bool" where
  "needs_zdle_escape b \<longleftrightarrow>
     b \<in> {ZDLE, 0x10, 0x11, 0x13, 0x0D, 0x8D, 0x90, 0x91, 0x93, 0x98}"

record EscapeMode =
  escctl :: bool
  esc8 :: bool

definition from_zrinit_zf0 :: "byte \<Rightarrow> EscapeMode" where
  "from_zrinit_zf0 zf = \<lparr>escctl = (zf AND 0x40 \<noteq> 0), esc8 = (zf AND 0x80 \<noteq> 0)\<rparr>"

definition needs_zdle_escape_mode :: "byte \<Rightarrow> EscapeMode \<Rightarrow> bool" where
  "needs_zdle_escape_mode b mode \<longleftrightarrow>
     needs_zdle_escape b \<or> (escctl mode \<and> b AND 0x60 = 0) \<or> (esc8 mode \<and> b AND 0xE0 = 0x80)"

definition push_escaped_mode :: "byte \<Rightarrow> EscapeMode \<Rightarrow> byte list" where
  "push_escaped_mode b mode = (if needs_zdle_escape_mode b mode then [ZDLE, b XOR 0x40] else [b])"

definition hex_digit :: "byte \<Rightarrow> byte" where
  "hex_digit v0 = (let v = v0 AND 0x0F in if v < 10 then 0x30 + v else 0x61 + (v - 10))"

definition hex_to_nibble :: "byte \<Rightarrow> byte option" where
  "hex_to_nibble c =
     (if in_range 0x30 0x39 c then Some (c - 0x30)
      else if in_range 0x61 0x66 c then Some (10 + c - 0x61)
      else if in_range 0x41 0x46 c then Some (10 + c - 0x41)
      else None)"


section \<open>Headers and subpackets\<close>

text \<open>A header's four data bytes are a list of length four.\<close>

definition build_hex_header :: "byte \<Rightarrow> byte list \<Rightarrow> byte list" where
  "build_hex_header frame data =
     (let payload = frame # data; crc = crc16 payload
      in [ZPAD, ZPAD, ZDLE, ZHEX]
         @ concat (map (\<lambda>b. [hex_digit (drop_bit 4 b), hex_digit b]) payload)
         @ [hex_digit (ucast (drop_bit 12 crc)), hex_digit (ucast (drop_bit 8 crc)),
            hex_digit (ucast (drop_bit 4 crc)), hex_digit (ucast crc), 0x0D, 0x0A]
         @ (if frame \<noteq> ZACK \<and> frame \<noteq> ZFIN then [0x11] else []))"

definition build_bin16_header_mode :: "byte \<Rightarrow> byte list \<Rightarrow> EscapeMode \<Rightarrow> byte list" where
  "build_bin16_header_mode frame data mode =
     (let payload = frame # data; crc = crc16 payload
      in [ZPAD, ZDLE, ZBIN] @ concat (map (\<lambda>b. push_escaped_mode b mode) payload)
         @ push_escaped_mode (ucast (drop_bit 8 crc)) mode @ push_escaped_mode (ucast crc) mode)"

definition build_subpacket_mode :: "byte list \<Rightarrow> byte \<Rightarrow> EscapeMode \<Rightarrow> byte list" where
  "build_subpacket_mode data end_marker mode =
     (let crc = crc16_update (crc16 data) [end_marker]
      in concat (map (\<lambda>b. push_escaped_mode b mode) data) @ [ZDLE, end_marker]
         @ push_escaped_mode (ucast (drop_bit 8 crc)) mode @ push_escaped_mode (ucast crc) mode)"

datatype CrcKind = Crc16 | Crc32

record ZHeader =
  frame :: byte
  hdata :: "byte list"
  crc_kind :: CrcKind

definition from_le_bytes :: "byte list \<Rightarrow> u32" where
  "from_le_bytes bs =
     ucast (bs ! 0) OR push_bit 8 (ucast (bs ! 1)) OR push_bit 16 (ucast (bs ! 2)) OR push_bit 24 (ucast (bs ! 3))"

definition position :: "ZHeader \<Rightarrow> u32" where
  "position h = from_le_bytes (hdata h)"

definition zf0 :: "ZHeader \<Rightarrow> byte" where
  "zf0 h = hdata h ! 3"


section \<open>Readers\<close>

datatype zmodem_error =
    ZIo io_error | ZElapsed | ZPeerCancel | ZSyncLost | ZOnlyFlow | ZTerminator byte
  | ZBadHex | ZHeaderCrc | ZSubTimeout | ZSubTooLong | ZSubCrc

definition is_peer_cancel :: "zmodem_error \<Rightarrow> bool" where
  "is_peer_cancel e \<longleftrightarrow> e = ZPeerCancel \<or> e = ZIo PeerClosed"

definition zget :: "nat option \<Rightarrow> bool \<Rightarrow> (zmodem_error, byte) rd" where
  "zget dl is_tcp st w = (case nvt_read_byte dl is_tcp st w of
      (Ok b, st', w') \<Rightarrow> (Inr b, st', w')
    | (Err e, st', w') \<Rightarrow> (Inl (ZIo e), st', w')
    | (Elapsed, st', w') \<Rightarrow> (Inl ZElapsed, st', w'))"

fun frame_byte_loop :: "nat \<Rightarrow> nat option \<Rightarrow> bool \<Rightarrow> (zmodem_error, byte) rd" where
  "frame_byte_loop 0 dl is_tcp = rfail ZOnlyFlow"
| "frame_byte_loop (Suc n) dl is_tcp =
     rbind (zget dl is_tcp) (\<lambda>b.
       if b \<notin> {0x11, 0x13, 0x91, 0x93} then rpure b else frame_byte_loop n dl is_tcp)"

definition read_frame_byte :: "nat option \<Rightarrow> bool \<Rightarrow> (zmodem_error, byte) rd" where
  "read_frame_byte dl is_tcp = frame_byte_loop 1024 dl is_tcp"

definition decode_after_zdle :: "byte \<Rightarrow> zmodem_error + byte" where
  "decode_after_zdle e =
     (if e = ZDLE then Inl ZPeerCancel
      else if e \<in> {ZCRCE, ZCRCG, ZCRCQ, ZCRCW} then Inl (ZTerminator e)
      else if e = ZRUB0 then Inr 0x7F
      else if e = ZRUB1 then Inr 0xFF
      else Inr (e XOR 0x40))"

definition rlift :: "'e + 'a \<Rightarrow> ('e, 'a) rd" where
  "rlift r = (case r of Inl e \<Rightarrow> rfail e | Inr x \<Rightarrow> rpure x)"

definition read_escaped_byte :: "nat option \<Rightarrow> bool \<Rightarrow> (zmodem_error, byte) rd" where
  "read_escaped_byte dl is_tcp =
     rbind (read_frame_byte dl is_tcp) (\<lambda>b.
       if b \<noteq> ZDLE then rpure b
       else rbind (read_frame_byte dl is_tcp) (\<lambda>e. rlift (decode_after_zdle e)))"

definition header_of :: "byte list \<Rightarrow> CrcKind \<Rightarrow> ZHeader" where
  "header_of payload k = \<lparr>frame = payload ! 0, hdata = take 4 (drop 1 payload), crc_kind = k\<rparr>"

definition read_bin16_body :: "nat option \<Rightarrow> bool \<Rightarrow> (zmodem_error, ZHeader) rd" where
  "read_bin16_body dl is_tcp =
     rbind (rtimes 5 (read_escaped_byte dl is_tcp)) (\<lambda>payload.
     rbind (read_escaped_byte dl is_tcp) (\<lambda>crc_hi.
     rbind (read_escaped_byte dl is_tcp) (\<lambda>crc_lo.
       if crc16 payload \<noteq> (push_bit 8 (ucast crc_hi) OR ucast crc_lo) then rfail ZHeaderCrc
       else rpure (header_of payload Crc16))))"

definition read_bin32_body :: "nat option \<Rightarrow> bool \<Rightarrow> (zmodem_error, ZHeader) rd" where
  "read_bin32_body dl is_tcp =
     rbind (rtimes 5 (read_escaped_byte dl is_tcp)) (\<lambda>payload.
     rbind (rtimes 4 (read_escaped_byte dl is_tcp)) (\<lambda>crc_bytes.
       if crc32 payload \<noteq> from_le_bytes crc_bytes then rfail ZHeaderCrc
       else rpure (header_of payload Crc32)))"

definition read_hex_pair :: "nat option \<Rightarrow> bool \<Rightarrow> (zmodem_error, byte) rd" where
  "read_hex_pair dl is_tcp =
     rbind (read_frame_byte dl is_tcp) (\<lambda>hi.
     rbind (read_frame_byte dl is_tcp) (\<lambda>lo.
       case (hex_to_nibble hi, hex_to_nibble lo) of
         (Some h, Some l) \<Rightarrow> rpure (push_bit 4 h OR l)
       | _ \<Rightarrow> rfail ZBadHex))"

text \<open>Swallowing the line end of a hexadecimal header: each byte is waited for 200 ms.\<close>

fun hex_trailer :: "nat \<Rightarrow> nat option \<Rightarrow> bool \<Rightarrow> (zmodem_error, unit) rd" where
  "hex_trailer 0 dl is_tcp st w = (Inr (), st, w)"
| "hex_trailer (Suc n) dl is_tcp st w =
     (let t = clock w + 200; own = in_time dl t
      in case zget (if own then Some t else dl) is_tcp st w of
           (Inr b, st', w') \<Rightarrow>
             if b \<in> {0x0A, 0x8A, 0x0D, 0x11} then hex_trailer n dl is_tcp st' w'
             else (Inr (), st'\<lparr>pushback := Some b\<rparr>, w')
         | (Inl e, st', w') \<Rightarrow>
             if e = ZElapsed \<and> \<not> own then (Inl ZElapsed, st', w') else (Inr (), st', w'))"

definition read_hex_body :: "nat option \<Rightarrow> bool \<Rightarrow> (zmodem_error, ZHeader) rd" where
  "read_hex_body dl is_tcp =
     rbind (rtimes 7 (read_hex_pair dl is_tcp)) (\<lambda>raw.
       if crc16 (take 5 raw) \<noteq> (push_bit 8 (ucast (raw ! 5)) OR ucast (raw ! 6)) then rfail ZHeaderCrc
       else rbind (hex_trailer (if raw ! 0 = ZACK \<or> raw ! 0 = ZFIN then 2 else 3) dl is_tcp)
              (\<lambda>_. rpure (header_of raw Crc16)))"

text \<open>The rest of a run of ZPADs: the byte after it and the budget left.\<close>

fun skip_zpad :: "nat \<Rightarrow> nat option \<Rightarrow> bool \<Rightarrow> byte \<Rightarrow> (zmodem_error, byte \<times> nat) rd" where
  "skip_zpad 0 dl is_tcp b = (if b = ZPAD then rfail ZSyncLost else rpure (b, 0))"
| "skip_zpad (Suc n) dl is_tcp b =
     (if b = ZPAD then rbind (zget dl is_tcp) (\<lambda>c. skip_zpad n dl is_tcp c) else rpure (b, Suc n))"

lemma skip_zpad_le: "skip_zpad n dl t b st w = (Inr (c, m), st', w') \<Longrightarrow> m \<le> n"
proof (induction n arbitrary: b st w)
  case 0
  then show ?case by (auto simp: rpure_def split: if_splits)
next
  case (Suc n)
  show ?case
  proof (cases "b = ZPAD")
    case True
    with Suc.prems obtain d st1 w1 where "skip_zpad n dl t d st1 w1 = (Inr (c, m), st', w')"
      by (auto elim!: rbind_InrE)
    from Suc.IH [OF this] show ?thesis by simp
  next
    case False
    with Suc.prems show ?thesis by (simp add: rpure_def)
  qed
qed

function header_loop :: "nat \<Rightarrow> nat \<Rightarrow> nat option \<Rightarrow> bool \<Rightarrow> (zmodem_error, ZHeader) rd" where
  "header_loop 0 can_run dl is_tcp st w = (Inl ZSyncLost, st, w)"
| "header_loop (Suc n) can_run dl is_tcp st w =
     (case zget dl is_tcp st w of
        (Inl e, st1, w1) \<Rightarrow> (Inl e, st1, w1)
      | (Inr b, st1, w1) \<Rightarrow>
          let run = (if b = ZDLE then Suc can_run else 0)
          in if b = ZDLE \<and> run \<ge> CANCEL_CAN_RUN then (Inl ZPeerCancel, st1, w1)
             else if b \<noteq> ZPAD then header_loop n run dl is_tcp st1 w1
             else case rbind (zget dl is_tcp) (\<lambda>c. skip_zpad n dl is_tcp c) st1 w1 of
                 (Inl e, st2, w2) \<Rightarrow> (Inl e, st2, w2)
               | (Inr (nxt, m), st2, w2) \<Rightarrow>
                   if nxt \<noteq> ZDLE then header_loop m run dl is_tcp st2 w2
                   else case zget dl is_tcp st2 w2 of
                       (Inl e, st3, w3) \<Rightarrow> (Inl e, st3, w3)
                     | (Inr k, st3, w3) \<Rightarrow>
                         if k = ZHEX then read_hex_body dl is_tcp st3 w3
                         else if k = ZBIN then read_bin16_body dl is_tcp st3 w3
                         else if k = ZBIN32 then read_bin32_body dl is_tcp st3 w3
                         else header_loop m run dl is_tcp st3 w3)"
  by pat_completeness auto
termination
proof (relation "measure (\<lambda>(n, r, d, t, st, w). n)")
qed (auto dest!: sym [where s = "(Inr _, _)"] elim!: rbind_InrE dest!: skip_zpad_le)

declare header_loop.simps(2) [simp del]

definition read_header :: "nat option \<Rightarrow> bool \<Rightarrow> (zmodem_error, ZHeader) rd" where
  "read_header dl is_tcp = header_loop HEADER_HUNT_BUDGET 0 dl is_tcp"

text \<open>One unit of a subpacket, waited for \<open>secs\<close> seconds.\<close>

definition read_subpacket_byte ::
    "(nat option \<Rightarrow> (zmodem_error, byte) rd) \<Rightarrow> nat \<Rightarrow> (zmodem_error, byte) rd" where
  "read_subpacket_byte fut secs st w = (case fut (Some (clock w + secs * 1000)) st w of
      (Inl e, st', w') \<Rightarrow> (Inl (if e = ZElapsed then ZSubTimeout else e), st', w')
    | r \<Rightarrow> r)"

fun drop_crc :: "nat \<Rightarrow> bool \<Rightarrow> nat \<Rightarrow> (zmodem_error, unit) rd" where
  "drop_crc 0 is_tcp secs st w = (Inr (), st, w)"
| "drop_crc (Suc n) is_tcp secs st w =
     (case read_subpacket_byte (\<lambda>dl. read_escaped_byte dl is_tcp) secs st w of
        (Inl _, st', w') \<Rightarrow> (Inr (), st', w')
      | (Inr _, st', w') \<Rightarrow> drop_crc n is_tcp secs st' w')"

fun drain_loop :: "nat \<Rightarrow> bool \<Rightarrow> CrcKind \<Rightarrow> nat \<Rightarrow> (zmodem_error, unit) rd" where
  "drain_loop 0 is_tcp kind secs st w = (Inr (), st, w)"
| "drain_loop (Suc n) is_tcp kind secs st w =
     (case read_subpacket_byte (\<lambda>dl. zget dl is_tcp) secs st w of
        (Inl _, st1, w1) \<Rightarrow> (Inr (), st1, w1)
      | (Inr b, st1, w1) \<Rightarrow>
          if b \<noteq> ZDLE then drain_loop n is_tcp kind secs st1 w1
          else (case read_subpacket_byte (\<lambda>dl. zget dl is_tcp) secs st1 w1 of
              (Inl _, st2, w2) \<Rightarrow> (Inr (), st2, w2)
            | (Inr e, st2, w2) \<Rightarrow>
                if e \<in> {ZCRCE, ZCRCG, ZCRCQ, ZCRCW}
                then drop_crc (case kind of Crc16 \<Rightarrow> 2 | Crc32 \<Rightarrow> 4) is_tcp secs st2 w2
                else drain_loop n is_tcp kind secs st2 w2))"

definition drain_to_subpacket_end :: "bool \<Rightarrow> CrcKind \<Rightarrow> nat \<Rightarrow> (zmodem_error, unit) rd" where
  "drain_to_subpacket_end is_tcp kind secs = drain_loop MAX_SUBPACKET_DATA is_tcp kind secs"

record Subpacket =
  sdata :: "byte list"
  end_marker :: byte

definition finish_subpacket ::
    "bool \<Rightarrow> CrcKind \<Rightarrow> nat \<Rightarrow> byte list \<Rightarrow> byte \<Rightarrow> (zmodem_error, Subpacket) rd" where
  "finish_subpacket is_tcp kind secs data e =
     (let get = read_subpacket_byte (\<lambda>dl. read_escaped_byte dl is_tcp) secs
      in case kind of
           Crc16 \<Rightarrow>
             rbind get (\<lambda>hi. rbind get (\<lambda>lo.
               if crc16 (data @ [e]) \<noteq> (push_bit 8 (ucast hi) OR ucast lo) then rfail ZSubCrc
               else rpure \<lparr>sdata = data, end_marker = e\<rparr>))
         | Crc32 \<Rightarrow>
             rbind (rtimes 4 get) (\<lambda>crc_bytes.
               if crc32 (data @ [e]) \<noteq> from_le_bytes crc_bytes then rfail ZSubCrc
               else rpure \<lparr>sdata = data, end_marker = e\<rparr>))"

text \<open>The reading loop: \<open>room\<close> is how many bytes may still come before the limit is passed.\<close>

fun subpacket_loop ::
    "nat \<Rightarrow> bool \<Rightarrow> CrcKind \<Rightarrow> nat \<Rightarrow> byte list \<Rightarrow> (zmodem_error, Subpacket) rd" where
  "subpacket_loop 0 is_tcp kind secs data =
     rbind (drain_to_subpacket_end is_tcp kind secs) (\<lambda>_. rfail ZSubTooLong)"
| "subpacket_loop (Suc room) is_tcp kind secs data =
     (let get = read_subpacket_byte (\<lambda>dl. read_frame_byte dl is_tcp) secs
      in rbind get (\<lambda>b.
           if b \<noteq> ZDLE then subpacket_loop room is_tcp kind secs (data @ [b])
           else rbind get (\<lambda>e.
             if e \<in> {ZCRCE, ZCRCG, ZCRCQ, ZCRCW} then finish_subpacket is_tcp kind secs data e
             else rbind (rlift (decode_after_zdle e)) (\<lambda>d.
               subpacket_loop room is_tcp kind secs (data @ [d])))))"

definition read_subpacket :: "bool \<Rightarrow> CrcKind \<Rightarrow> nat \<Rightarrow> nat \<Rightarrow> (zmodem_error, Subpacket) rd" where
  "read_subpacket is_tcp kind max_len frame_timeout =
     subpacket_loop (Suc max_len) is_tcp kind frame_timeout []"


section \<open>The CRCs detect every corrupted byte\<close>

lemma crc_msb_step_eq: "crc_msb_step = msb_shift 0x1021"
proof
  fix crc :: u16
  have "crc AND 0x8000 \<noteq> 0 \<longleftrightarrow> bit crc 15" by (simp add: u16_eq_iff bit_simps)
  then show "crc_msb_step crc = msb_shift 0x1021 crc" by (simp add: crc_msb_step_def msb_shift_def)
qed

interpretation zmodem_crc16: crc_shift crc_msb_step "\<lambda>b. push_bit 8 (ucast b)"
proof
  show "crc_msb_step (a XOR b) = crc_msb_step a XOR crc_msb_step b" for a b
    by (simp add: crc_msb_step_eq msb_shift_xor)
  show "a = 0" if "crc_msb_step a = 0" for a
    using that unfolding crc_msb_step_eq by (rule msb_shift_eq_0 [rotated]) simp
  show "push_bit 8 (ucast (b XOR c)) = (push_bit 8 (ucast b) XOR push_bit 8 (ucast c) :: u16)" for b c :: byte
    by (simp add: ucast_byte_xor push_bit_xor)
  show "b = c" if "push_bit 8 (ucast b) = (push_bit 8 (ucast c) :: u16)" for b c :: byte
    using that by (simp add: u16_eq_iff byte_eq_iff bit_simps)
qed

lemma crc32_step_eq: "crc32_step = lsb_shift 0xEDB88320"
  by (rule ext) (simp add: crc32_step_def lsb_shift_def Let_def and_one_eq odd_iff_mod_2_eq_one)

interpretation zmodem_crc32: crc_shift crc32_step ucast
proof
  show "crc32_step (a XOR b) = crc32_step a XOR crc32_step b" for a b
    by (simp add: crc32_step_eq lsb_shift_xor)
  show "a = 0" if "crc32_step a = 0" for a
    using that unfolding crc32_step_eq by (rule lsb_shift_eq_0 [rotated]) simp
qed (simp_all add: ucast_byte_xor ucast_byte_eq_iff)

lemma crc16_fold: "crc16 data = foldl (\<lambda>r b. (crc_msb_step ^^ 8) (r XOR push_bit 8 (ucast b))) 0 data"
  by (simp add: crc16_def crc16_update_def crc16_byte_def [abs_def])

lemma crc32_fold: "crc32 data = NOT (foldl (\<lambda>r b. (crc32_step ^^ 8) (r XOR ucast b)) 0xFFFFFFFF data)"
  by (simp add: crc32_def crc32_byte_def [abs_def])

lemma crc16_detects: "i < length data \<Longrightarrow> b \<noteq> data ! i \<Longrightarrow> crc16 (data[i := b]) \<noteq> crc16 data"
  unfolding crc16_fold by (simp add: zmodem_crc16.detects_update)

lemma crc32_detects: "i < length data \<Longrightarrow> b \<noteq> data ! i \<Longrightarrow> crc32 (data[i := b]) \<noteq> crc32 data"
  unfolding crc32_fold by (simp add: zmodem_crc32.detects_update)

lemma crc16_append: "crc16_update (crc16 data) [e] = crc16 (data @ [e])"
  by (simp add: crc16_def crc16_update_def)

lemma crc16_halves: "push_bit 8 (ucast (ucast (drop_bit 8 c) :: byte)) OR ucast (ucast c :: byte) = (c :: u16)"
  by (simp add: u16_eq_iff bit_simps)


section \<open>Escaped bytes read back\<close>

abbreviation flow :: "byte set" where "flow \<equiv> {0x11, 0x13, 0x91, 0x93}"

lemma escape_superset:
  assumes "needs_zdle_escape_mode b mode"
  shows "needs_zdle_escape b \<or> b AND 0x60 = 0 \<or> b AND 0xE0 = 0x80"
  using assms by (auto simp: needs_zdle_escape_mode_def)

lemma escaped_byte:
  assumes "needs_zdle_escape_mode b mode"
  shows "b XOR 0x40 \<notin> flow" "b XOR 0x40 \<notin> {ZCRCE, ZCRCG, ZCRCQ, ZCRCW}" "decode_after_zdle (b XOR 0x40) = Inr b"
proof -
  have "needs_zdle_escape b \<or> b AND 0x60 = 0 \<or> b AND 0xE0 = 0x80 \<longrightarrow>
      b XOR 0x40 \<notin> {0x11, 0x13, 0x91, 0x93, 0x68, 0x69, 0x6A, 0x6B} \<and> decode_after_zdle (b XOR 0x40) = Inr b"
    unfolding needs_zdle_escape_def decode_after_zdle_def
    by (rule byte_exhaust [where b = b]) simp
  with escape_superset [OF assms]
  show "b XOR 0x40 \<notin> flow" "b XOR 0x40 \<notin> {ZCRCE, ZCRCG, ZCRCQ, ZCRCW}" "decode_after_zdle (b XOR 0x40) = Inr b"
    by auto
qed

lemma unescaped_byte:
  assumes "\<not> needs_zdle_escape_mode b mode"
  shows "b \<noteq> ZDLE" "b \<notin> flow"
  using assms by (auto simp: needs_zdle_escape_mode_def needs_zdle_escape_def)

interpretation zmodem_source: byte_source "zget dl t" "\<lambda>bs w w'. delivers dl (wire_form t bs) w w'" for dl t
proof
  fix b bs w w' and st :: ReadState
  assume "delivers dl (wire_form t (b # bs)) w w'" and st: "pushback st = None"
  then obtain w1 where "raw_read_byte dl t w = (Ok b, w1)" "delivers dl (wire_form t bs) w1 w'"
    by (elim raw_read_wire_form)
  then show "\<exists>w1. zget dl t st w = (Inr b, st, w1) \<and> delivers dl (wire_form t bs) w1 w'"
    using nvt_read_byte_fresh [OF st] by (auto simp: zget_def)
qed

lemma read_frame:
  assumes "delivers dl (wire_form t (b # bs)) w w'" "pushback st = None" "b \<notin> flow"
  obtains w1 where "read_frame_byte dl t st w = (Inr b, st, w1)" "delivers dl (wire_form t bs) w1 w'"
proof -
  from assms(1,2) obtain w1 where w1: "zget dl t st w = (Inr b, st, w1)" "delivers dl (wire_form t bs) w1 w'"
    by (rule zmodem_source.get_first)
  have "frame_byte_loop (Suc n) dl t st w = (Inr b, st, w1)" for n
    using w1(1) assms(3) by (simp add: rbind_Inr rpure_def)
  from this [of 1023] w1(2) show thesis by (intro that) (simp_all add: read_frame_byte_def)
qed

lemma read_escaped:
  assumes "delivers dl (wire_form t (push_escaped_mode b mode @ bs)) w w'" "pushback st = None"
  obtains w1 where "read_escaped_byte dl t st w = (Inr b, st, w1)" "delivers dl (wire_form t bs) w1 w'"
proof (cases "needs_zdle_escape_mode b mode")
  case True
  from assms(1) True have "delivers dl (wire_form t (ZDLE # (b XOR 0x40) # bs)) w w'"
    by (simp add: push_escaped_mode_def)
  then obtain v where v: "read_frame_byte dl t st w = (Inr ZDLE, st, v)"
      "delivers dl (wire_form t ((b XOR 0x40) # bs)) v w'"
    using assms(2) by (rule read_frame) simp
  from v(2) assms(2) escaped_byte(1) [OF True] obtain w1 where
      "read_frame_byte dl t st v = (Inr (b XOR 0x40), st, w1)" "delivers dl (wire_form t bs) w1 w'"
    by (rule read_frame)
  with v(1) escaped_byte(3) [OF True] show thesis
    by (intro that [of w1]) (auto simp: read_escaped_byte_def rbind_Inr rlift_def rpure_def)
next
  case False
  from assms(1) False have "delivers dl (wire_form t (b # bs)) w w'" by (simp add: push_escaped_mode_def)
  then obtain w1 where "read_frame_byte dl t st w = (Inr b, st, w1)" "delivers dl (wire_form t bs) w1 w'"
    using assms(2) unescaped_byte(2) [OF False] by (rule read_frame)
  with unescaped_byte(1) [OF False] show thesis
    by (intro that [of w1]) (auto simp: read_escaped_byte_def rbind_Inr rpure_def)
qed

definition escape_all :: "EscapeMode \<Rightarrow> byte list \<Rightarrow> byte list" where
  "escape_all mode bs = concat (map (\<lambda>b. push_escaped_mode b mode) bs)"

lemma escape_all_simps [simp]:
  "escape_all mode [] = []" "escape_all mode (b # bs) = push_escaped_mode b mode @ escape_all mode bs"
  "escape_all mode (xs @ ys) = escape_all mode xs @ escape_all mode ys"
  by (simp_all add: escape_all_def)

interpretation escaped_source: byte_source "read_escaped_byte dl t"
  "\<lambda>bs w w'. delivers dl (wire_form t (escape_all mode bs @ rest)) w w'" for dl t mode rest
proof
  fix b bs w w' and st :: ReadState
  assume "delivers dl (wire_form t (escape_all mode (b # bs) @ rest)) w w'" "pushback st = None"
  then have "delivers dl (wire_form t (push_escaped_mode b mode @ escape_all mode bs @ rest)) w w'" by simp
  then show "\<exists>w1. read_escaped_byte dl t st w = (Inr b, st, w1) \<and>
      delivers dl (wire_form t (escape_all mode bs @ rest)) w1 w'"
    using \<open>pushback st = None\<close> by (elim read_escaped) blast+
qed


section \<open>Headers read back\<close>

lemma read_bin16:
  assumes "delivers dl (wire_form t (escape_all mode (fr # data @ [ucast (drop_bit 8 (crc16 (fr # data))), ucast (crc16 (fr # data))]) @ rest)) w w'"
    and "pushback st = None" "length data = 4"
  shows "\<exists>w1. read_bin16_body dl t st w = (Inr \<lparr>frame = fr, hdata = data, crc_kind = Crc16\<rparr>, st, w1)"
proof -
  let ?hi = "ucast (drop_bit 8 (crc16 (fr # data))) :: byte" and ?lo = "ucast (crc16 (fr # data)) :: byte"
  have "delivers dl (wire_form t (escape_all mode ((fr # data) @ [?hi, ?lo]) @ rest)) w w'"
    using assms(1) by simp
  from escaped_source.times_get [OF this assms(2)] obtain v where v:
      "rtimes 5 (read_escaped_byte dl t) st w = (Inr (fr # data), st, v)"
      "delivers dl (wire_form t (escape_all mode (?hi # [?lo]) @ rest)) v w'"
    using assms(3) by auto
  from v(2) assms(2) obtain v1 where v1: "read_escaped_byte dl t st v = (Inr ?hi, st, v1)"
      "delivers dl (wire_form t (escape_all mode (?lo # []) @ rest)) v1 w'"
    by (rule escaped_source.get_first)
  from v1(2) assms(2) obtain v2 where "read_escaped_byte dl t st v1 = (Inr ?lo, st, v2)"
    by (rule escaped_source.get_first)
  with v(1) v1(1) assms(3) show ?thesis
    by (auto simp: read_bin16_body_def rbind_Inr crc16_halves header_of_def rpure_def)
qed

definition hex_byte :: "byte \<Rightarrow> byte list" where
  "hex_byte b = [hex_digit (drop_bit 4 b), hex_digit b]"

lemma hex_digit_nibble: "hex_to_nibble (hex_digit v) = Some (v AND 0x0F)" "hex_digit v \<notin> flow"
proof -
  have "hex_to_nibble (hex_digit v) = Some (v AND 0x0F) \<and> hex_digit v \<notin> {0x11, 0x13, 0x91, 0x93}"
    unfolding hex_to_nibble_def hex_digit_def Let_def in_range_def
    by (rule byte_exhaust [where b = v]) simp
  then show "hex_to_nibble (hex_digit v) = Some (v AND 0x0F)" "hex_digit v \<notin> flow" by auto
qed

lemma nibbles_join:
  "push_bit 4 (drop_bit 4 b AND 0x0F) OR (b AND 0x0F) = (b :: byte)"
  "(push_bit 4 (drop_bit 4 b) AND 0xF0) OR (b AND 0x0F) = (b :: byte)"
  by (simp_all add: byte_eq_iff bit_simps)

interpretation hex_source: byte_source "read_hex_pair dl t"
  "\<lambda>bs w w'. delivers dl (wire_form t (concat (map hex_byte bs) @ rest)) w w'" for dl t rest
proof
  fix b bs w w' and st :: ReadState
  assume "delivers dl (wire_form t (concat (map hex_byte (b # bs)) @ rest)) w w'" and st: "pushback st = None"
  then have "delivers dl (wire_form t (hex_digit (drop_bit 4 b) # hex_digit b # concat (map hex_byte bs) @ rest)) w w'"
    by (simp add: hex_byte_def)
  then obtain v where v: "read_frame_byte dl t st w = (Inr (hex_digit (drop_bit 4 b)), st, v)"
      "delivers dl (wire_form t (hex_digit b # concat (map hex_byte bs) @ rest)) v w'"
    using st hex_digit_nibble(2) by (rule read_frame)
  from v(2) st hex_digit_nibble(2) obtain w1 where "read_frame_byte dl t st v = (Inr (hex_digit b), st, w1)"
      "delivers dl (wire_form t (concat (map hex_byte bs) @ rest)) w1 w'"
    by (rule read_frame)
  with v(1) show "\<exists>w1. read_hex_pair dl t st w = (Inr b, st, w1) \<and>
      delivers dl (wire_form t (concat (map hex_byte bs) @ rest)) w1 w'"
    by (auto simp: read_hex_pair_def rbind_Inr hex_digit_nibble(1) nibbles_join rpure_def)
qed

lemma zget_clock: "zget (Some u) t st w = (r, st', w') \<Longrightarrow> clock w' \<le> max (clock w) u"
  by (auto simp: zget_def nvt_read_byte_def dest!: raw_read_clock split: option.splits prod.splits outcome.splits)

lemma in_time_mono: "in_time dl u \<Longrightarrow> v \<le> u \<Longrightarrow> in_time dl v"
  by (cases dl) auto

lemma hex_trailer_ok: "in_time dl (clock w + 200 * n) \<Longrightarrow> \<exists>st' w'. hex_trailer n dl t st w = (Inr (), st', w')"
proof (induction n arbitrary: st w)
  case (Suc n)
  have own: "in_time dl (clock w + 200)" using Suc.prems by (rule in_time_mono) simp
  obtain r st1 w1 where z: "zget (Some (clock w + 200)) t st w = (r, st1, w1)"
    by (cases "zget (Some (clock w + 200)) t st w")
  have "clock w1 \<le> clock w + 200" using zget_clock [OF z] by simp
  then have "in_time dl (clock w1 + 200 * n)" using Suc.prems by (elim in_time_mono) simp
  with Suc.IH z own show ?case by (auto split: sum.splits)
qed simp

lemma build_hex_header_bytes:
  "build_hex_header fr data = [ZPAD, ZPAD, ZDLE, ZHEX] @
     concat (map hex_byte (fr # data @ [ucast (drop_bit 8 (crc16 (fr # data))), ucast (crc16 (fr # data))])) @
     [0x0D, 0x0A] @ (if fr \<noteq> ZACK \<and> fr \<noteq> ZFIN then [0x11] else [])"
proof -
  have mask: "a AND 0x0F = b AND 0x0F \<Longrightarrow> hex_digit a = hex_digit b" for a b
    by (simp add: hex_digit_def)
  have "hex_digit (ucast (drop_bit 12 c)) = hex_digit (drop_bit 4 (ucast (drop_bit 8 c)))"
    "hex_digit (ucast (drop_bit 4 c)) = hex_digit (drop_bit 4 (ucast c))" for c :: u16
    by (rule mask, simp add: byte_eq_iff bit_simps)+
  then show ?thesis by (simp add: build_hex_header_def Let_def hex_byte_def [abs_def])
qed

lemma read_hex:
  assumes "delivers dl (wire_form t (concat (map hex_byte (fr # data @ [ucast (drop_bit 8 (crc16 (fr # data))), ucast (crc16 (fr # data))])) @ rest)) w w'"
    and "pushback st = None" "length data = 4" "in_time dl (clock w' + 600)"
  shows "\<exists>st' w1. read_hex_body dl t st w = (Inr \<lparr>frame = fr, hdata = data, crc_kind = Crc16\<rparr>, st', w1)"
proof -
  define raw where "raw = fr # data @ [ucast (drop_bit 8 (crc16 (fr # data))), ucast (crc16 (fr # data))]"
  have raw: "length raw = 7" "raw ! 0 = fr" "take 5 raw = fr # data" "take 4 (drop (Suc 0) raw) = data"
    "push_bit 8 (ucast (raw ! 5)) OR ucast (raw ! 6) = crc16 (fr # data)"
    using assms(3) by (simp_all add: raw_def nth_append crc16_halves)
  have "delivers dl (wire_form t (concat (map hex_byte (raw @ [])) @ rest)) w w'"
    using assms(1) by (simp add: raw_def)
  from hex_source.times_get [OF this assms(2), unfolded raw(1)] obtain v where
      v: "rtimes 7 (read_hex_pair dl t) st w = (Inr raw, st, v)" "delivers dl (wire_form t rest) v w'"
    by auto
  have "clock v \<le> clock w'" using v(2) by (rule delivers_clock_mono)
  then have "in_time dl (clock v + 200 * (if fr = ZACK \<or> fr = ZFIN then 2 else 3))"
    using assms(4) by (elim in_time_mono) simp
  then obtain st' w1 where "hex_trailer (if fr = ZACK \<or> fr = ZFIN then 2 else 3) dl t st v = (Inr (), st', w1)"
    using hex_trailer_ok by blast
  then show ?thesis
    unfolding read_hex_body_def rbind_def v(1) by (simp add: raw header_of_def rpure_def)
qed

lemma header_loop_noise:
  "list_all (\<lambda>b. b \<noteq> ZPAD \<and> b \<noteq> ZDLE) ns \<Longrightarrow> delivers dl (wire_form t (ns @ bs)) w w' \<Longrightarrow> pushback st = None \<Longrightarrow>
   \<exists>w1. header_loop (length ns + n) 0 dl t st w = header_loop n 0 dl t st w1 \<and> delivers dl (wire_form t bs) w1 w'"
proof (induction ns arbitrary: w)
  case (Cons b ns)
  then have "delivers dl (wire_form t (b # ns @ bs)) w w'" by simp
  then obtain v where v: "zget dl t st w = (Inr b, st, v)" "delivers dl (wire_form t (ns @ bs)) v w'"
    using Cons.prems(3) by (rule zmodem_source.get_first)
  have "header_loop (length (b # ns) + n) 0 dl t st w = header_loop (length ns + n) 0 dl t st v"
    using v(1) Cons.prems(1) by (simp add: header_loop.simps(2))
  with Cons.IH [OF _ v(2) Cons.prems(3)] Cons.prems(1) show ?case by simp
qed auto

lemma skip_zpad_run:
  "delivers dl (wire_form t (replicate j ZPAD @ ZDLE # bs)) u w' \<Longrightarrow> pushback st = None \<Longrightarrow> j < n \<Longrightarrow>
   \<exists>v m. rbind (zget dl t) (\<lambda>c. skip_zpad n dl t c) st u = (Inr (ZDLE, m), st, v) \<and> delivers dl (wire_form t bs) v w'"
proof (induction j arbitrary: n u)
  case 0
  then have "delivers dl (wire_form t (ZDLE # bs)) u w'" by simp
  then obtain v where "zget dl t st u = (Inr ZDLE, st, v)" "delivers dl (wire_form t bs) v w'"
    using 0 by (elim zmodem_source.get_first)
  then show ?case by (cases n) (auto simp: rbind_Inr rpure_def)
next
  case (Suc j)
  then obtain i where i: "n = Suc i" "j < i" by (cases n) auto
  from Suc.prems have "delivers dl (wire_form t (ZPAD # replicate j ZPAD @ ZDLE # bs)) u w'" by simp
  then obtain v where "zget dl t st u = (Inr ZPAD, st, v)"
      "delivers dl (wire_form t (replicate j ZPAD @ ZDLE # bs)) v w'"
    using Suc.prems(2) by (rule zmodem_source.get_first)
  with Suc.IH [of v i] Suc.prems i show ?case by (auto simp: rbind_Inr)
qed

text \<open>The prologue of a header, a run of ZPADs, ZDLE and the frame indicator, leads to its body.\<close>

lemma header_loop_prologue:
  assumes "delivers dl (wire_form t (replicate (Suc k) ZPAD @ ZDLE # knd # bs)) w w'" "pushback st = None" "k < n"
    and "knd \<in> {ZHEX, ZBIN}"
  shows "\<exists>w1. header_loop (Suc n) 0 dl t st w =
      (if knd = ZHEX then read_hex_body dl t st w1 else read_bin16_body dl t st w1) \<and> delivers dl (wire_form t bs) w1 w'"
proof -
  from assms(1) have "delivers dl (wire_form t (ZPAD # replicate k ZPAD @ ZDLE # knd # bs)) w w'" by simp
  then obtain v where v: "zget dl t st w = (Inr ZPAD, st, v)"
      "delivers dl (wire_form t (replicate k ZPAD @ ZDLE # knd # bs)) v w'"
    using assms(2) by (rule zmodem_source.get_first)
  from skip_zpad_run [OF v(2) assms(2,3)] obtain u m where
      u: "rbind (zget dl t) (\<lambda>c. skip_zpad n dl t c) st v = (Inr (ZDLE, m), st, u)"
      "delivers dl (wire_form t (knd # bs)) u w'" by blast
  from u(2) assms(2) obtain w1 where "zget dl t st u = (Inr knd, st, w1)" "delivers dl (wire_form t bs) w1 w'"
    by (rule zmodem_source.get_first)
  with u(1) v(1) assms(4) show ?thesis by (auto simp: header_loop.simps(2))
qed

text \<open>What a sender may put on the wire as a header: the hexadecimal form, or the binary one with
  the escaping the peer asked for.\<close>

definition header_forms :: "byte \<Rightarrow> byte list \<Rightarrow> EscapeMode \<Rightarrow> byte list set" where
  "header_forms fr data mode = {build_hex_header fr data, build_bin16_header_mode fr data mode}"

lemma read_header_ok:
  assumes "hdr \<in> header_forms fr data mode" "delivers dl (wire_form t (ns @ hdr)) w w'"
    and "list_all (\<lambda>b. b \<noteq> ZPAD \<and> b \<noteq> ZDLE) ns" "length ns < 40000" "pushback st = None" "length data = 4"
    and "in_time dl (clock w' + 600)"
  shows "\<exists>st' w1. read_header dl t st w = (Inr \<lparr>frame = fr, hdata = data, crc_kind = Crc16\<rparr>, st', w1)"
proof -
  define n where "n = HEADER_HUNT_BUDGET - length ns - 1"
  have n: "HEADER_HUNT_BUDGET = length ns + Suc n" "1 < n"
    using assms(4) by (simp_all add: n_def HEADER_HUNT_BUDGET_def)
  from header_loop_noise [OF assms(3,2,5), of "Suc n"] obtain v where
    v: "read_header dl t st w = header_loop (Suc n) 0 dl t st v" "delivers dl (wire_form t hdr) v w'"
    by (auto simp: read_header_def n(1))
  let ?crc = "[ucast (drop_bit 8 (crc16 (fr # data))), ucast (crc16 (fr # data))]"
  show ?thesis
  proof (cases "hdr = build_hex_header fr data")
    case True
    with v(2) have "delivers dl (wire_form t (replicate (Suc 1) ZPAD @ ZDLE # ZHEX #
        (concat (map hex_byte (fr # data @ ?crc)) @ [0x0D, 0x0A] @ (if fr \<noteq> ZACK \<and> fr \<noteq> ZFIN then [0x11] else [])))) v w'"
      by (simp add: build_hex_header_bytes)
    from header_loop_prologue [OF this assms(5) n(2)] obtain u where
      "header_loop (Suc n) 0 dl t st v = read_hex_body dl t st u"
      "delivers dl (wire_form t (concat (map hex_byte (fr # data @ ?crc)) @ [0x0D, 0x0A] @
         (if fr \<noteq> ZACK \<and> fr \<noteq> ZFIN then [0x11] else []))) u w'" by auto
    with read_hex [OF this(2) assms(5-7)] v(1) show ?thesis by simp
  next
    case False
    with assms(1) v(2) have "delivers dl (wire_form t (replicate (Suc 0) ZPAD @ ZDLE # ZBIN #
        (escape_all mode (fr # data @ ?crc) @ []))) v w'"
      by (simp add: header_forms_def build_bin16_header_mode_def escape_all_def Let_def)
    from header_loop_prologue [OF this assms(5), of n] n(2) obtain u where
      "header_loop (Suc n) 0 dl t st v = read_bin16_body dl t st u"
      "delivers dl (wire_form t (escape_all mode (fr # data @ ?crc) @ [])) u w'" by auto
    with read_bin16 [OF this(2) assms(5,6)] v(1) show ?thesis by auto
  qed
qed

text \<open>Property C31: a ZMODEM header sent in hexadecimal or in binary form, with any escaping the
  peer asked for, after line noise, over telnet or a clean link, is read back with its frame type
  and its four data bytes.\<close>

theorem header_roundtrip:
  assumes "hdr \<in> header_forms fr data mode" and "length data = 4"
    and "list_all (\<lambda>b. b \<noteq> ZPAD \<and> b \<noteq> ZDLE) noise" and "length noise < 40000"
    and "delivers dl (wire_form is_tcp (noise @ hdr)) w w'" and "in_time dl (clock w' + 600)"
    and "pushback st = None"
  shows "\<exists>st' w1. read_header dl is_tcp st w = (Inr \<lparr>frame = fr, hdata = data, crc_kind = Crc16\<rparr>, st', w1)"
  using read_header_ok [OF assms(1,5,3,4,7,2,6)] .

theorem header_roundtrip_witness:
  "(let hdr = build_bin16_header_mode 0x0A [0, 0x11, 0xFF, 0x18] \<lparr>escctl = True, esc8 = False\<rparr>
    in \<exists>st' w1. read_header None True default_ReadState (paced 0 (wire_form True ([0x0D, 0x8A] @ hdr))) =
      (Inr \<lparr>frame = 0x0A, hdata = [0, 0x11, 0xFF, 0x18], crc_kind = Crc16\<rparr>, st', w1))"
proof -
  define hdr where "hdr = build_bin16_header_mode 0x0A [0, 0x11, 0xFF, 0x18] \<lparr>escctl = True, esc8 = False\<rparr>"
  have "delivers None (wire_form True ([0x0D, 0x8A] @ hdr)) (paced 0 (wire_form True ([0x0D, 0x8A] @ hdr)))
      (paced (0 + length (wire_form True ([0x0D, 0x8A] @ hdr))) [])"
    by (rule delivers_paced) simp
  from header_roundtrip [OF _ _ _ _ this, of "0x0A" "[0, 0x11, 0xFF, 0x18]" "\<lparr>escctl = True, esc8 = False\<rparr>" default_ReadState]
  show ?thesis by (simp add: hdr_def header_forms_def default_ReadState_def)
qed


section \<open>Subpackets read back\<close>

text \<open>A unit of a subpacket that arrives steadily is read before its own timer fires.\<close>

lemma steady_unit:
  assumes "steady g (wire_form t (u @ bs)) w w'" "g \<le> 5000" "2 * length u * g \<le> secs * 1000"
  obtains v where "delivers (Some (clock w + secs * 1000)) (wire_form t u) w v" "steady g (wire_form t bs) v w'"
proof -
  from assms(1) obtain v where v: "steady g (wire_form t u) w v" "steady g (wire_form t bs) v w'"
    by (auto simp: wire_form_append steady_append)
  have "g * length (wire_form t u) \<le> g * (2 * length u)" using wire_form_length by (rule mult_le_mono2)
  also have "\<dots> = 2 * length u * g" by simp
  also note assms(3)
  finally have "clock w + g * length (wire_form t u) \<le> clock w + secs * 1000" by simp
  moreover have "g \<le> IAC_SEQUENCE_TIMEOUT_MS" using assms(2) by (simp add: IAC_SEQUENCE_TIMEOUT_MS_def)
  ultimately have "delivers (Some (clock w + secs * 1000)) (wire_form t u) w v"
    using v(1) by (intro steady_delivers)
  from this v(2) show thesis by (rule that)
qed

lemma sub_frame:
  assumes "steady g (wire_form t (b # bs)) w w'" "pushback st = None" "b \<notin> flow" "g \<le> 5000" "4 * g \<le> secs * 1000"
  obtains w1 where "read_subpacket_byte (\<lambda>dl. read_frame_byte dl t) secs st w = (Inr b, st, w1)"
    "steady g (wire_form t bs) w1 w'"
proof -
  have "steady g (wire_form t ([b] @ bs)) w w'" using assms(1) by simp
  then obtain v where v: "delivers (Some (clock w + secs * 1000)) (wire_form t (b # [])) w v" "steady g (wire_form t bs) v w'"
    using assms(4,5) by (elim steady_unit [where secs = secs]) auto
  from v(1) assms(2,3) obtain w1 where "read_frame_byte (Some (clock w + secs * 1000)) t st w = (Inr b, st, w1)"
      "delivers (Some (clock w + secs * 1000)) (wire_form t []) w1 v"
    by (rule read_frame)
  with v(2) show thesis by (intro that [of v]) (auto simp: read_subpacket_byte_def)
qed

lemma sub_escaped:
  assumes "steady g (wire_form t (push_escaped_mode b mode @ bs)) w w'" "pushback st = None"
    and "g \<le> 5000" "4 * g \<le> secs * 1000"
  obtains w1 where "read_subpacket_byte (\<lambda>dl. read_escaped_byte dl t) secs st w = (Inr b, st, w1)"
    "steady g (wire_form t bs) w1 w'"
proof -
  have "length (push_escaped_mode b mode) \<le> 2" by (simp add: push_escaped_mode_def)
  then have "2 * length (push_escaped_mode b mode) * g \<le> 4 * g" by simp
  then have "2 * length (push_escaped_mode b mode) * g \<le> secs * 1000" using assms(4) by linarith
  with assms(1,3) obtain v where v: "delivers (Some (clock w + secs * 1000)) (wire_form t (push_escaped_mode b mode @ [])) w v"
      "steady g (wire_form t bs) v w'"
    by (elim steady_unit [where secs = secs]) auto
  from v(1) assms(2) obtain w1 where "read_escaped_byte (Some (clock w + secs * 1000)) t st w = (Inr b, st, w1)"
      "delivers (Some (clock w + secs * 1000)) (wire_form t []) w1 v"
    by (rule read_escaped)
  with v(2) show thesis by (intro that [of v]) (auto simp: read_subpacket_byte_def)
qed

lemma ZDLE_not_flow: "ZDLE \<notin> flow"
  by simp

lemma subpacket_step:
  assumes "steady g (wire_form t (push_escaped_mode b mode @ bs)) w w'" "pushback st = None" "g \<le> 5000" "4 * g \<le> secs * 1000"
  obtains w1 where "subpacket_loop (Suc room) t k secs acc st w = subpacket_loop room t k secs (acc @ [b]) st w1"
    "steady g (wire_form t bs) w1 w'"
proof (cases "needs_zdle_escape_mode b mode")
  case True
  with assms(1) have "steady g (wire_form t (ZDLE # (b XOR 0x40) # bs)) w w'" by (simp add: push_escaped_mode_def)
  then obtain v where v: "read_subpacket_byte (\<lambda>dl. read_frame_byte dl t) secs st w = (Inr ZDLE, st, v)"
      "steady g (wire_form t ((b XOR 0x40) # bs)) v w'"
    using assms(2) ZDLE_not_flow assms(3,4) by (rule sub_frame)
  from v(2) assms(2) escaped_byte(1) [OF True] assms(3,4) obtain w1 where
      "read_subpacket_byte (\<lambda>dl. read_frame_byte dl t) secs st v = (Inr (b XOR 0x40), st, w1)" "steady g (wire_form t bs) w1 w'"
    by (rule sub_frame)
  with v(1) escaped_byte(2,3) [OF True] show thesis
    by (intro that [of w1]) (auto simp: rbind_Inr rlift_def rpure_def Let_def)
next
  case False
  with assms(1) have "steady g (wire_form t (b # bs)) w w'" by (simp add: push_escaped_mode_def)
  then obtain w1 where "read_subpacket_byte (\<lambda>dl. read_frame_byte dl t) secs st w = (Inr b, st, w1)" "steady g (wire_form t bs) w1 w'"
    using assms(2) unescaped_byte(2) [OF False] assms(3,4) by (rule sub_frame)
  with unescaped_byte(1) [OF False] show thesis
    by (intro that [of w1]) (auto simp: rbind_Inr Let_def)
qed

lemma subpacket_data:
  "steady g (wire_form t (escape_all mode data @ bs)) w w' \<Longrightarrow> pushback st = None \<Longrightarrow> g \<le> 5000 \<Longrightarrow> 4 * g \<le> secs * 1000 \<Longrightarrow>
   \<exists>w1. subpacket_loop (length data + room) t k secs acc st w = subpacket_loop room t k secs (acc @ data) st w1 \<and>
     steady g (wire_form t bs) w1 w'"
proof (induction data arbitrary: acc w)
  case (Cons b data)
  from Cons.prems(1) have "steady g (wire_form t (push_escaped_mode b mode @ (escape_all mode data @ bs))) w w'" by simp
  then obtain v where v: "subpacket_loop (Suc (length data + room)) t k secs acc st w
        = subpacket_loop (length data + room) t k secs (acc @ [b]) st v"
      "steady g (wire_form t (escape_all mode data @ bs)) v w'"
    using Cons.prems(2-4) by (rule subpacket_step)
  from Cons.IH [OF v(2) Cons.prems(2-4), of "acc @ [b]"] v(1) show ?case by simp
qed auto

lemma subpacket_end:
  assumes "steady g (wire_form t ([ZDLE, e] @ push_escaped_mode hi mode @ push_escaped_mode lo mode)) w w'"
    and "pushback st = None" "g \<le> 5000" "4 * g \<le> secs * 1000" "e \<in> {ZCRCE, ZCRCG, ZCRCQ, ZCRCW}"
  shows "\<exists>w1. subpacket_loop (Suc room) t Crc16 secs acc st w =
    (if crc16 (acc @ [e]) \<noteq> (push_bit 8 (ucast hi) OR ucast lo) then Inl ZSubCrc
     else Inr \<lparr>sdata = acc, end_marker = e\<rparr>, st, w1)"
proof -
  have "steady g (wire_form t (ZDLE # (e # (push_escaped_mode hi mode @ push_escaped_mode lo mode)))) w w'"
    using assms(1) by simp
  then obtain v where v: "read_subpacket_byte (\<lambda>dl. read_frame_byte dl t) secs st w = (Inr ZDLE, st, v)"
      "steady g (wire_form t (e # (push_escaped_mode hi mode @ push_escaped_mode lo mode))) v w'"
    using assms(2) ZDLE_not_flow assms(3,4) by (rule sub_frame)
  have "e \<notin> flow" using assms(5) by auto
  with v(2) assms(2) obtain v1 where v1: "read_subpacket_byte (\<lambda>dl. read_frame_byte dl t) secs st v = (Inr e, st, v1)"
      "steady g (wire_form t (push_escaped_mode hi mode @ push_escaped_mode lo mode)) v1 w'"
    using assms(3,4) by (rule sub_frame)
  from v1(2) assms(2-4) obtain v2 where v2: "read_subpacket_byte (\<lambda>dl. read_escaped_byte dl t) secs st v1 = (Inr hi, st, v2)"
      "steady g (wire_form t (push_escaped_mode lo mode)) v2 w'"
    by (rule sub_escaped)
  from v2(2) have "steady g (wire_form t (push_escaped_mode lo mode @ [])) v2 w'" by simp
  then obtain v3 where v3: "read_subpacket_byte (\<lambda>dl. read_escaped_byte dl t) secs st v2 = (Inr lo, st, v3)"
    using assms(2-4) by (rule sub_escaped)
  have "finish_subpacket t Crc16 secs acc e st v1 =
      (if crc16 (acc @ [e]) \<noteq> (push_bit 8 (ucast hi) OR ucast lo) then Inl ZSubCrc
       else Inr \<lparr>sdata = acc, end_marker = e\<rparr>, st, v3)"
    using v2(1) v3 by (simp add: finish_subpacket_def rbind_Inr rfail_def rpure_def Let_def)
  with v(1) v1(1) assms(5) show ?thesis by (auto simp: rbind_Inr Let_def)
qed

lemma read_subpacket_wire:
  assumes "steady g (wire_form t (escape_all mode data @ [ZDLE, e] @ push_escaped_mode hi mode @ push_escaped_mode lo mode)) w w'"
    and "pushback st = None" "g \<le> 5000" "4 * g \<le> secs * 1000" "e \<in> {ZCRCE, ZCRCG, ZCRCQ, ZCRCW}" "length data \<le> max_len"
  shows "\<exists>w1. read_subpacket t Crc16 max_len secs st w =
    (if crc16 (data @ [e]) \<noteq> (push_bit 8 (ucast hi) OR ucast lo) then Inl ZSubCrc
     else Inr \<lparr>sdata = data, end_marker = e\<rparr>, st, w1)"
proof -
  have len: "Suc max_len = length data + Suc (max_len - length data)" using assms(6) by simp
  from subpacket_data [OF assms(1-4), of "Suc (max_len - length data)" Crc16 "[]"] obtain v where
    "read_subpacket t Crc16 max_len secs st w = subpacket_loop (Suc (max_len - length data)) t Crc16 secs data st v"
    "steady g (wire_form t ([ZDLE, e] @ push_escaped_mode hi mode @ push_escaped_mode lo mode)) v w'"
    unfolding read_subpacket_def len by auto
  with subpacket_end [OF this(2) assms(2-5), of "max_len - length data" data] show ?thesis by simp
qed

text \<open>A data subpacket of any content, with any terminator and any escaping the peer
  asked for, arriving steadily over telnet or a clean link, is read back exactly: the data, the
  terminator, and a stream left right behind it.\<close>

lemma subpacket_roundtrip:
  assumes "steady g (wire_form is_tcp (build_subpacket_mode data e mode)) w w'"
    and "pushback st = None" and "g \<le> 5000" and "4 * g \<le> secs * 1000"
    and "e \<in> {ZCRCE, ZCRCG, ZCRCQ, ZCRCW}" and "length data \<le> max_len"
  shows "\<exists>w1. read_subpacket is_tcp Crc16 max_len secs st w = (Inr \<lparr>sdata = data, end_marker = e\<rparr>, st, w1)"
  using read_subpacket_wire [where data = data and mode = mode and hi = "ucast (drop_bit 8 (crc16 (data @ [e])))"
      and lo = "ucast (crc16 (data @ [e]))", OF _ assms(2-6)] assms(1)
  by (simp add: build_subpacket_mode_def crc16_append escape_all_def crc16_halves Let_def)


text \<open>A subpacket in which one data byte was replaced in transit is refused by its
  CRC, whatever the byte, the position and the length.\<close>

lemma corrupted_subpacket_refused:
  assumes "steady g (wire_form is_tcp (escape_all mode (data[i := b]) @ [ZDLE, e]
      @ push_escaped_mode (ucast (drop_bit 8 (crc16 (data @ [e])))) mode
      @ push_escaped_mode (ucast (crc16 (data @ [e]))) mode)) w w'"
    and "pushback st = None" and "g \<le> 5000" and "4 * g \<le> secs * 1000"
    and "e \<in> {ZCRCE, ZCRCG, ZCRCQ, ZCRCW}" and "length data \<le> max_len"
    and "i < length data" and "b \<noteq> data ! i"
  shows "fst (read_subpacket is_tcp Crc16 max_len secs st w) = Inl ZSubCrc"
proof -
  have "crc16 ((data @ [e])[i := b]) \<noteq> crc16 (data @ [e])"
    using assms(7,8) by (intro crc16_detects) (auto simp: nth_append)
  then have "crc16 (data[i := b] @ [e]) \<noteq> crc16 (data @ [e])"
    using assms(7) by (simp add: list_update_append)
  with read_subpacket_wire [OF assms(1-5), of max_len] assms(6) show ?thesis
    by (auto simp: crc16_halves)
qed



section \<open>Limits\<close>

lemma subpacket_loop_bound:
  "subpacket_loop room t k secs acc st w = (Inr sp, st', w') \<Longrightarrow> length (sdata sp) < length acc + room"
proof (induction room arbitrary: acc st w)
  case 0
  then show ?case by (auto elim!: rbind_InrE)
next
  case (Suc room)
  have fin: "finish_subpacket t k secs acc e st w = (Inr sp, st', w') \<Longrightarrow> sdata sp = acc" for e st w
    by (auto simp: finish_subpacket_def Let_def rpure_def split: CrcKind.splits if_splits elim!: rbind_InrE)
  show ?case
    using Suc.prems fin
    by (auto simp: Let_def rpure_def rlift_def split: if_splits sum.splits elim!: rbind_InrE dest!: Suc.IH)
qed

text \<open>No subpacket longer than the caller's limit is ever delivered, whatever the peer
  streams: the receive buffers rest on it.\<close>

lemma subpacket_within_limit:
  assumes "read_subpacket is_tcp kind max_len secs st w = (Inr sp, st', w')"
  shows "length (sdata sp) \<le> max_len"
  using subpacket_loop_bound [of "Suc max_len" is_tcp kind secs "[]" st w sp st' w'] assms
  by (simp add: read_subpacket_def)


text \<open>A receiver that states a buffer is never sent a subpacket larger than it, gets
  the terminator that makes it write the buffer out and acknowledge, and still gets at least one
  byte at a time; one that states none gets full-size streaming subpackets.\<close>

lemma window_honours_buffer:
  "(if bufsize = 0 then rw_chunk (from_zrinit bufsize) = 1024 \<and> mid_file_marker (from_zrinit bufsize) = ZCRCQ
    else 1 \<le> rw_chunk (from_zrinit bufsize) \<and> rw_chunk (from_zrinit bufsize) \<le> bufsize \<and>
         rw_chunk (from_zrinit bufsize) \<le> 1024 \<and> mid_file_marker (from_zrinit bufsize) = ZCRCW)"
  by (simp add: from_zrinit_def mid_file_marker_def SUBPACKET_DATA_SIZE_def MIN_SUBPACKET_DATA_SIZE_def)

end
