(* ===== verification/Link.thy ===== *)
theory Link
  imports Wire_Reader
begin

text \<open>
  The state a transfer engine threads through its calls: the per-stream read state, the wire it
  reads and the writer it answers on. An engine step is a function of the link that gives an error
  or a value and the link after it; \<open>lbind\<close> is the \<^verbatim>\<open>?\<close> operator of the engines.
\<close>

record link =
  rst :: ReadState
  inw :: wire
  outw :: writer

type_synonym ('e, 'a) lk = "link \<Rightarrow> ('e + 'a) \<times> link"

definition lpure :: "'a \<Rightarrow> ('e, 'a) lk" where
  "lpure x l = (Inr x, l)"

definition lfail :: "'e \<Rightarrow> ('e, 'a) lk" where
  "lfail e l = (Inl e, l)"

definition lbind :: "('e, 'a) lk \<Rightarrow> ('a \<Rightarrow> ('e, 'b) lk) \<Rightarrow> ('e, 'b) lk" where
  "lbind m f l = (case m l of (Inl e, l') \<Rightarrow> (Inl e, l') | (Inr x, l') \<Rightarrow> f x l')"

text \<open>A read works on the first two parts of the link, a write on the third.\<close>

definition on_reader :: "(ReadState \<Rightarrow> wire \<Rightarrow> 'r \<times> ReadState \<times> wire) \<Rightarrow> link \<Rightarrow> 'r \<times> link" where
  "on_reader m l = (case m (rst l) (inw l) of (r, st, w) \<Rightarrow> (r, l\<lparr>rst := st, inw := w\<rparr>))"

definition on_writer :: "(io_error \<Rightarrow> 'e) \<Rightarrow> bool \<Rightarrow> byte list \<Rightarrow> ('e, unit) lk" where
  "on_writer err is_tcp data l = (case raw_write_bytes is_tcp data (outw l) of
      (Err e, wr) \<Rightarrow> (Inl (err e), l\<lparr>outw := wr\<rparr>)
    | (_, wr) \<Rightarrow> (Inr (), l\<lparr>outw := wr\<rparr>))"

lemma lbind_Inr: "m l = (Inr x, l') \<Longrightarrow> lbind m f l = f x l'"
  by (simp add: lbind_def)

lemma lbind_Inl: "m l = (Inl e, l') \<Longrightarrow> lbind m f l = (Inl e, l')"
  by (simp add: lbind_def)

lemma lbind_InrE:
  assumes "lbind m f l = (Inr y, l'')"
  obtains x l' where "m l = (Inr x, l')" "f x l' = (Inr y, l'')"
  using assms by (auto simp: lbind_def split: prod.splits sum.splits)


section \<open>Progress and time\<close>

text \<open>
  Two measures of a link: how much it can still deliver, and the time. A step that never gains
  input, and ends within \<open>d\<close> milliseconds of its start, is \<open>bounded d\<close>.
\<close>

definition link_left :: "link \<Rightarrow> nat" where
  "link_left l = stream_left (rst l) (inw l)"

abbreviation now :: "link \<Rightarrow> nat" where
  "now l \<equiv> clock (inw l)"

definition bounded :: "nat \<Rightarrow> ('e, 'a) lk \<Rightarrow> bool" where
  "bounded d m \<longleftrightarrow> (\<forall>l r l'. m l = (r, l') \<longrightarrow> link_left l' \<le> link_left l \<and> now l' \<le> now l + d)"

lemma boundedI:
  assumes "\<And>l r l'. m l = (r, l') \<Longrightarrow> link_left l' \<le> link_left l \<and> now l' \<le> now l + d"
  shows "bounded d m"
  using assms by (simp add: bounded_def)

lemma boundedD:
  assumes "bounded d m" "m l = (r, l')"
  shows "link_left l' \<le> link_left l" "now l' \<le> now l + d"
  using assms by (simp_all add: bounded_def)

lemma bounded_mono: "bounded d m \<Longrightarrow> d \<le> e \<Longrightarrow> bounded e m"
  unfolding bounded_def by (meson add_left_mono le_trans)

lemma bounded_lpure [invar_intros]: "bounded d (lpure x)"
  by (simp add: bounded_def lpure_def)

lemma bounded_lfail [invar_intros]: "bounded d (lfail e)"
  by (simp add: bounded_def lfail_def)

lemma bounded_lbind [invar_intros]:
  assumes "bounded d m" "\<And>x. bounded e (f x)"
  shows "bounded (d + e) (lbind m f)"
proof (rule boundedI)
  fix l r l' assume r: "lbind m f l = (r, l')"
  obtain x l1 where m: "m l = (x, l1)" by (cases "m l")
  note a = boundedD [OF assms(1) m]
  show "link_left l' \<le> link_left l \<and> now l' \<le> now l + (d + e)"
  proof (cases x)
    case (Inl err)
    with r m have "l' = l1" by (simp add: lbind_def)
    with a show ?thesis by simp
  next
    case (Inr y)
    with r m have "f y l1 = (r, l')" by (simp add: lbind_def)
    from boundedD [OF assms(2) this] a show ?thesis by simp
  qed
qed

lemma bounded_write [invar_intros]: "bounded d (on_writer err t data)"
  by (rule boundedI) (auto simp: on_writer_def link_left_def split: prod.splits outcome.splits)


section \<open>Reading a steady link\<close>

text \<open>
  The byte-level fact all engines share: a byte that arrives steadily is read before a timer that
  allows two gaps (a telnet link may double it), and costs at most that much time.
\<close>

lemma steady_clock: "steady g bs w w' \<Longrightarrow> clock w' \<le> clock w + g * length bs"
proof (induction bs arbitrary: w)
  case (Cons b bs)
  then obtain d r where "feed w = (d, RxByte b) # r" "d \<le> g" "steady g bs \<lparr>clock = clock w + d, feed = r\<rparr> w'"
    by (auto split: list.splits)
  with Cons.IH show ?case by fastforce
qed simp

lemma steady_nvt:
  assumes "steady g (wire_form t (b # bs)) w w'" "pushback st = None" "g \<le> 5000" "clock w + 2 * g \<le> u"
  obtains v where "nvt_read_byte (Some u) t st w = (Ok b, st, v)" "steady g (wire_form t bs) v w'"
    "clock v \<le> clock w + 2 * g"
proof -
  have "wire_form t (b # bs) = wire_form t [b] @ wire_form t bs" by (simp add: wire_form_Cons)
  with assms(1) obtain v where v: "steady g (wire_form t [b]) w v" "steady g (wire_form t bs) v w'"
    by (auto simp: steady_append)
  have "g * length (wire_form t [b]) \<le> g * 2" using wire_form_length [of t "[b]"] by (intro mult_le_mono2) simp
  then have t: "g * length (wire_form t [b]) \<le> 2 * g" by (simp only: mult.commute)
  have u: "clock w + g * length (wire_form t [b]) \<le> u" using assms(4) t by linarith
  have "g \<le> IAC_SEQUENCE_TIMEOUT_MS" using assms(3) by (simp add: IAC_SEQUENCE_TIMEOUT_MS_def)
  with v(1) have "delivers (Some u) (wire_form t [b]) w v" using u by (rule steady_delivers)
  then obtain w1 where "raw_read_byte (Some u) t w = (Ok b, w1)" "delivers (Some u) (wire_form t []) w1 v"
    by (rule raw_read_wire_form)
  then have "nvt_read_byte (Some u) t st w = (Ok b, st, v)"
    using assms(2) by (simp add: nvt_read_byte_fresh)
  moreover have "clock v \<le> clock w + 2 * g" using steady_clock [OF v(1)] t by linarith
  ultimately show thesis using v(2) by (intro that)
qed

end
