(* ===== verification/Wire_Progress.thy ===== *)
theory Wire_Progress
  imports Link
begin

text \<open>
  What makes the loops of a transfer engine end. Every read under a deadline that is still ahead
  uses the wire up: it takes an input, or it waits and the next input comes nearer, or the peer has
  hung up. \<open>wire_rest\<close> counts the inputs and the milliseconds until they arrive; a reader that
  never adds to it is \<open>frugal\<close>, and so is an engine step.
\<close>

definition wire_rest :: "wire \<Rightarrow> nat" where
  "wire_rest w = sum_list (map (\<lambda>(d, x). Suc d) (feed w))"

definition ahead :: "nat option \<Rightarrow> wire \<Rightarrow> bool" where
  "ahead dl w \<longleftrightarrow> (\<forall>u. dl = Some u \<longrightarrow> clock w < u)"

definition stream_rest :: "ReadState \<Rightarrow> wire \<Rightarrow> nat" where
  "stream_rest st w = wire_rest w + (if pushback st = None then 0 else 1)"

definition link_rest :: "link \<Rightarrow> nat" where
  "link_rest l = stream_rest (rst l) (inw l)"

lemma rx_rest: "rx dl w = (r, w') \<Longrightarrow> wire_rest w' \<le> wire_rest w"
  by (auto simp: rx_def wire_rest_def Let_def split: list.splits inp.splits if_splits)

lemma rx_rest_less:
  "rx dl w = (r, w') \<Longrightarrow> r \<noteq> Err PeerClosed \<Longrightarrow> ahead dl w \<Longrightarrow> wire_rest w' < wire_rest w"
  by (cases dl)
    (auto simp: rx_def wire_rest_def ahead_def read_error_def Let_def split: list.splits inp.splits if_splits)

lemma drain_sb_rest: "drain_sb dl w = (r, w') \<Longrightarrow> wire_rest w' \<le> wire_rest w"
proof (induction dl w arbitrary: r w' rule: drain_sb.induct)
  case (1 dl w)
  obtain x w1 where x: "rx dl w = (x, w1)" by (cases "rx dl w")
  obtain y w2 where y: "rx dl w1 = (y, w2)" by (cases "rx dl w1")
  have "wire_rest w1 \<le> wire_rest w" "wire_rest w2 \<le> wire_rest w1"
    using rx_rest [OF x] rx_rest [OF y] by auto
  then show ?case
    using "1.prems" "1.IH"(1) [OF x [symmetric]] "1.IH"(2) [OF x [symmetric]]
    by (subst (asm) drain_sb.simps) (fastforce simp: x y split: outcome.splits if_splits)
qed

lemma read_iac_continuation_rest:
  "read_iac_continuation outer w = (r, w') \<Longrightarrow> wire_rest w' \<le> wire_rest w"
  unfolding read_iac_continuation_def by (erule within_elim) (drule rx_rest, simp)

lemma consume_telnet_command_rest:
  "consume_telnet_command outer c w = (r, w') \<Longrightarrow> wire_rest w' \<le> wire_rest w"
  by (auto simp: consume_telnet_command_def split: if_splits outcome.splits prod.splits
      dest: read_iac_continuation_rest elim!: within_elim drain_sb_rest)

lemma raw_read_rest: "raw_read_byte dl t w = (r, w') \<Longrightarrow> wire_rest w' \<le> wire_rest w"
proof (induction dl t w arbitrary: r w' rule: raw_read_byte.induct)
  case (1 dl t w)
  obtain x w1 where x: "rx dl w = (x, w1)" by (cases "rx dl w")
  obtain y w2 where y: "read_iac_continuation dl w1 = (y, w2)"
    by (cases "read_iac_continuation dl w1")
  obtain z w3 where z: "consume_telnet_command dl (case y of Ok c \<Rightarrow> c | _ \<Rightarrow> 0) w2 = (z, w3)"
    by fastforce
  have "wire_rest w1 \<le> wire_rest w" "wire_rest w2 \<le> wire_rest w1" "wire_rest w3 \<le> wire_rest w2"
    using rx_rest [OF x] read_iac_continuation_rest [OF y] consume_telnet_command_rest [OF z] by auto
  then show ?case
    using "1.prems" "1.IH" [OF x [symmetric]] z
    by (subst (asm) raw_read_byte.simps) (fastforce simp: x y split: outcome.splits if_splits)
qed

lemma raw_read_rest_less:
  assumes "raw_read_byte dl t w = (r, w')" "r \<noteq> Err PeerClosed" "ahead dl w"
  shows "wire_rest w' < wire_rest w"
proof -
  obtain x w1 where x: "rx dl w = (x, w1)" by (cases "rx dl w")
  have "x = Err PeerClosed \<Longrightarrow> r = Err PeerClosed"
    using assms(1) x by (subst (asm) raw_read_byte.simps) simp
  with rx_rest_less [OF x] assms(2,3) have less: "wire_rest w1 < wire_rest w" by blast
  moreover have "wire_rest w' \<le> wire_rest w1"
  proof -
    obtain y w2 where y: "read_iac_continuation dl w1 = (y, w2)" by (cases "read_iac_continuation dl w1")
    obtain z w3 where z: "consume_telnet_command dl (case y of Ok c \<Rightarrow> c | _ \<Rightarrow> 0) w2 = (z, w3)"
      by fastforce
    have "wire_rest w2 \<le> wire_rest w1" "wire_rest w3 \<le> wire_rest w2"
      using read_iac_continuation_rest [OF y] consume_telnet_command_rest [OF z] by auto
    then show ?thesis
      using assms(1) raw_read_rest [of dl t w3 r w'] z
      by (subst (asm) raw_read_byte.simps) (auto simp: x y split: outcome.splits if_splits prod.splits)
  qed
  ultimately show ?thesis by simp
qed

lemma nvt_read_rest: "nvt_read_byte dl t st w = (r, st', w') \<Longrightarrow> stream_rest st' w' \<le> stream_rest st w"
  by (auto simp: nvt_read_byte_def stream_rest_def dest!: raw_read_rest split: option.splits prod.splits)

lemma nvt_read_rest_less:
  "nvt_read_byte dl t st w = (r, st', w') \<Longrightarrow> r \<noteq> Err PeerClosed \<Longrightarrow> ahead dl w \<Longrightarrow>
   stream_rest st' w' < stream_rest st w"
  by (auto simp: nvt_read_byte_def stream_rest_def dest: raw_read_rest_less split: option.splits prod.splits)


section \<open>Readers that never add to the wire\<close>

definition frugal :: "('e, 'a) rd \<Rightarrow> bool" where
  "frugal m \<longleftrightarrow> (\<forall>st w r st' w'. m st w = (r, st', w') \<longrightarrow> stream_rest st' w' \<le> stream_rest st w)"

lemma frugalI:
  assumes "\<And>st w r st' w'. m st w = (r, st', w') \<Longrightarrow> stream_rest st' w' \<le> stream_rest st w"
  shows "frugal m"
  using assms by (simp add: frugal_def)

lemma frugalD: "frugal m \<Longrightarrow> m st w = (r, st', w') \<Longrightarrow> stream_rest st' w' \<le> stream_rest st w"
  by (simp add: frugal_def)

lemma frugal_rpure [invar_intros]: "frugal (rpure x)"
  by (simp add: frugal_def rpure_def)

lemma frugal_rfail [invar_intros]: "frugal (rfail e)"
  by (simp add: frugal_def rfail_def)

lemma frugal_rbind [invar_intros]:
  assumes "frugal m" "\<And>x. frugal (f x)"
  shows "frugal (rbind m f)"
proof (rule frugalI)
  fix st w r st' w' assume r: "rbind m f st w = (r, st', w')"
  obtain x st1 w1 where m: "m st w = (x, st1, w1)" by (cases "m st w")
  from frugalD [OF assms(1) m] r m show "stream_rest st' w' \<le> stream_rest st w"
    by (cases x) (auto simp: rbind_def dest!: frugalD [OF assms(2)])
qed

lemma frugal_if [invar_intros]: "frugal m \<Longrightarrow> frugal n \<Longrightarrow> frugal (if c then m else n)"
  by simp

lemma frugal_rtimes [invar_intros]: "frugal m \<Longrightarrow> frugal (rtimes n m)"
  by (induction n) (auto intro!: invar_intros)


section \<open>Engine steps that never add to the wire\<close>

definition keeps_rest :: "('e, 'a) lk \<Rightarrow> bool" where
  "keeps_rest m \<longleftrightarrow> (\<forall>l r l'. m l = (r, l') \<longrightarrow> link_rest l' \<le> link_rest l)"

lemma keeps_restI:
  assumes "\<And>l r l'. m l = (r, l') \<Longrightarrow> link_rest l' \<le> link_rest l"
  shows "keeps_rest m"
  using assms by (simp add: keeps_rest_def)

lemma keeps_restD: "keeps_rest m \<Longrightarrow> m l = (r, l') \<Longrightarrow> link_rest l' \<le> link_rest l"
  by (simp add: keeps_rest_def)

lemma keeps_rest_lpure [invar_intros]: "keeps_rest (lpure x)"
  by (simp add: keeps_rest_def lpure_def)

lemma keeps_rest_lfail [invar_intros]: "keeps_rest (lfail e)"
  by (simp add: keeps_rest_def lfail_def)

lemma keeps_rest_lbind [invar_intros]:
  assumes "keeps_rest m" "\<And>x. keeps_rest (f x)"
  shows "keeps_rest (lbind m f)"
proof (rule keeps_restI)
  fix l r l' assume r: "lbind m f l = (r, l')"
  obtain x l1 where m: "m l = (x, l1)" by (cases "m l")
  from keeps_restD [OF assms(1) m] r m show "link_rest l' \<le> link_rest l"
    by (cases x) (auto simp: lbind_def dest!: keeps_restD [OF assms(2)])
qed

lemma keeps_rest_write [invar_intros]: "keeps_rest (on_writer err t data)"
  by (rule keeps_restI) (auto simp: on_writer_def link_rest_def split: prod.splits outcome.splits)

lemma keeps_rest_if [invar_intros]: "keeps_rest m \<Longrightarrow> keeps_rest n \<Longrightarrow> keeps_rest (if c then m else n)"
  by simp

lemma keeps_rest_read: "frugal m \<Longrightarrow> keeps_rest (on_reader m)"
  by (rule keeps_restI) (auto simp: on_reader_def link_rest_def split: prod.splits dest: frugalD)

end
