(* ===== verification/Zmodem_Transfer.thy ===== *)
theory Zmodem_Transfer
  imports Zmodem_Codec Wire_Progress
begin

text \<open>
  The ZMODEM engines (\<^verbatim>\<open>zmodem_receive_keeping\<close> and \<^verbatim>\<open>zmodem_send\<close> of \<^verbatim>\<open>src/src/zmodem.rs\<close>): the batch
  loop of the receiver with its budgets, the file information subpacket, the data phase, and the
  sender's negotiation, file offer, acknowledged data run and end of file. A \<^verbatim>\<open>timeout\<close> around a
  header read is the deadline handed to \<open>read_header\<close>, and \<open>ZElapsed\<close> is the timeout's own error.
  Every loop is a step function and a recursion over it; a step that goes on has used up some of
  the wire (\<open>link_rest\<close>). The settings are read once; the diagnostics (\<^verbatim>\<open>glog!\<close>) are left out.
\<close>

section \<open>Settings, errors and frame types\<close>

text \<open>The values of the four keys, when present and a number (\<^verbatim>\<open>src/src/config.rs\<close>).\<close>

record zmodem_settings =
  key_negotiation_timeout :: "nat option"
  key_frame_timeout :: "nat option"
  key_max_retries :: "nat option"
  key_negotiation_retry_interval :: "nat option"

definition at_least_one :: "nat \<Rightarrow> nat option \<Rightarrow> nat" where
  "at_least_one dflt v = (case v of Some n \<Rightarrow> if n \<ge> 1 then n else dflt | None \<Rightarrow> dflt)"

definition z_negotiation_timeout :: "zmodem_settings \<Rightarrow> nat" where
  "z_negotiation_timeout cfg = at_least_one 45 (key_negotiation_timeout cfg)"

definition z_frame_timeout :: "zmodem_settings \<Rightarrow> nat" where
  "z_frame_timeout cfg = at_least_one 30 (key_frame_timeout cfg)"

definition z_max_retries :: "zmodem_settings \<Rightarrow> nat" where
  "z_max_retries cfg = at_least_one 10 (key_max_retries cfg)"

definition z_retry_interval :: "zmodem_settings \<Rightarrow> nat" where
  "z_retry_interval cfg = at_least_one 5 (key_negotiation_retry_interval cfg)"

lemma settings_positive [simp]:
  "0 < z_negotiation_timeout cfg" "0 < z_frame_timeout cfg" "0 < z_max_retries cfg" "0 < z_retry_interval cfg"
  by (simp_all add: z_negotiation_timeout_def z_frame_timeout_def z_max_retries_def z_retry_interval_def
      at_least_one_def split: option.splits)

datatype transfer_error =
    TRead zmodem_error | TWrite io_error
  | TNoZfile | THeaderErrors nat | TChatty | TTooManyFiles | TSenderAborted | TSenderFileError
  | TRefusedCommand | TNoFiles
  | TInfoErrors nat | TRetransmitErrors nat | TStrayFrames nat | TMalformedZfile
  | TTooManyErrors nat | TEmptySubpackets | TFileTooLarge | TUnexpectedMarker
  | TUnsupportedSize str | TNoZrinit | TNoZrpos | TReceiverAborted | TTooManyZcrc
  | TRetransmissions | TNoZeofReply

abbreviation (input) ZRQINIT :: byte where "ZRQINIT \<equiv> 0x00"
abbreviation (input) ZRINIT :: byte where "ZRINIT \<equiv> 0x01"
abbreviation (input) ZSINIT :: byte where "ZSINIT \<equiv> 0x02"
abbreviation (input) ZFILE :: byte where "ZFILE \<equiv> 0x04"
abbreviation (input) ZSKIP :: byte where "ZSKIP \<equiv> 0x05"
abbreviation (input) ZNAK :: byte where "ZNAK \<equiv> 0x06"
abbreviation (input) ZABORT :: byte where "ZABORT \<equiv> 0x07"
abbreviation (input) ZRPOS :: byte where "ZRPOS \<equiv> 0x09"
abbreviation (input) ZDATA :: byte where "ZDATA \<equiv> 0x0A"
abbreviation (input) ZEOF :: byte where "ZEOF \<equiv> 0x0B"
abbreviation (input) ZFERR :: byte where "ZFERR \<equiv> 0x0C"
abbreviation (input) ZCRC :: byte where "ZCRC \<equiv> 0x0D"
abbreviation (input) ZCHALLENGE :: byte where "ZCHALLENGE \<equiv> 0x0E"
abbreviation (input) ZCOMPL :: byte where "ZCOMPL \<equiv> 0x0F"
abbreviation (input) ZFREECNT :: byte where "ZFREECNT \<equiv> 0x11"
abbreviation (input) ZCOMMAND :: byte where "ZCOMMAND \<equiv> 0x12"
abbreviation (input) ZSTDERR :: byte where "ZSTDERR \<equiv> 0x13"
abbreviation (input) CANFDX :: byte where "CANFDX \<equiv> 0x01"
abbreviation (input) CANOVIO :: byte where "CANOVIO \<equiv> 0x02"
abbreviation (input) CANFC32 :: byte where "CANFC32 \<equiv> 0x20"
abbreviation (input) ZCBIN :: byte where "ZCBIN \<equiv> 0x01"

definition MAX_EMPTY_SUBPACKETS :: nat where "MAX_EMPTY_SUBPACKETS = 64"
definition MAX_BATCH_FILES :: nat where "MAX_BATCH_FILES = 1000"
definition ZFREECNT_REPLY :: u32 where "ZFREECNT_REPLY = 0x7FFFFFFF"
definition OO_TRAILER_TIMEOUT_SECS :: nat where "OO_TRAILER_TIMEOUT_SECS = 3"
definition POST_ZEOF_ZRINIT_FLOOR_SECS :: nat where "POST_ZEOF_ZRINIT_FLOOR_SECS = 15"


section \<open>Header writers\<close>

definition to_le_bytes :: "u32 \<Rightarrow> byte list" where
  "to_le_bytes p = [ucast p, ucast (drop_bit 8 p), ucast (drop_bit 16 p), ucast (drop_bit 24 p)]"

definition send_hex :: "byte \<Rightarrow> byte list \<Rightarrow> bool \<Rightarrow> (transfer_error, unit) lk" where
  "send_hex fr data is_tcp = on_writer TWrite is_tcp (build_hex_header fr data)"

definition send_zrinit :: "bool \<Rightarrow> (transfer_error, unit) lk" where
  "send_zrinit = send_hex ZRINIT [0, 0, 0, CANFDX OR CANOVIO OR CANFC32]"

definition send_zrqinit :: "bool \<Rightarrow> (transfer_error, unit) lk" where
  "send_zrqinit = send_hex ZRQINIT [0, 0, 0, 0]"

definition send_zrpos :: "u32 \<Rightarrow> bool \<Rightarrow> (transfer_error, unit) lk" where
  "send_zrpos p = send_hex ZRPOS (to_le_bytes p)"

definition send_zack :: "u32 \<Rightarrow> bool \<Rightarrow> (transfer_error, unit) lk" where
  "send_zack p = send_hex ZACK (to_le_bytes p)"

definition send_zeof :: "u32 \<Rightarrow> bool \<Rightarrow> (transfer_error, unit) lk" where
  "send_zeof len = send_hex ZEOF (to_le_bytes len)"

definition send_zfin :: "bool \<Rightarrow> (transfer_error, unit) lk" where
  "send_zfin = send_hex ZFIN [0, 0, 0, 0]"

definition send_znak :: "bool \<Rightarrow> (transfer_error, unit) lk" where
  "send_znak = send_hex ZNAK [0, 0, 0, 0]"

definition send_zskip :: "bool \<Rightarrow> (transfer_error, unit) lk" where
  "send_zskip = send_hex ZSKIP [0, 0, 0, 0]"

definition send_zcrc :: "u32 \<Rightarrow> bool \<Rightarrow> (transfer_error, unit) lk" where
  "send_zcrc crc = send_hex ZCRC (to_le_bytes crc)"

definition send_zcompl :: "u32 \<Rightarrow> bool \<Rightarrow> (transfer_error, unit) lk" where
  "send_zcompl status = send_hex ZCOMPL (to_le_bytes status)"

definition send_cancel :: "bool \<Rightarrow> (transfer_error, unit) lk" where
  "send_cancel is_tcp = on_writer TWrite is_tcp (replicate 8 ZDLE @ replicate 8 0x08)"

text \<open>Cancel the session, whether or not that can still be written, and fail.\<close>

definition give_up :: "bool \<Rightarrow> transfer_error \<Rightarrow> (transfer_error, 'a) lk" where
  "give_up is_tcp e l = (Inl e, snd (send_cancel is_tcp l))"

text \<open>Count one error against the budget: past it the session is cancelled.\<close>

definition counted :: "(nat \<Rightarrow> transfer_error) \<Rightarrow> zmodem_settings \<Rightarrow> bool \<Rightarrow> nat \<Rightarrow>
    (nat \<Rightarrow> (transfer_error, 'a) lk) \<Rightarrow> (transfer_error, 'a) lk" where
  "counted err cfg is_tcp errors go =
     (let n = saturating_inc errors
      in if n > z_max_retries cfg then give_up is_tcp (err n) else go n)"

definition timed_header :: "nat \<Rightarrow> bool \<Rightarrow> link \<Rightarrow> (zmodem_error + ZHeader) \<times> link" where
  "timed_header secs is_tcp l = on_reader (read_header (Some (now l + secs * 1000)) is_tcp) l"

definition next_subpacket :: "bool \<Rightarrow> CrcKind \<Rightarrow> nat \<Rightarrow> nat \<Rightarrow> link \<Rightarrow> (zmodem_error + Subpacket) \<times> link" where
  "next_subpacket is_tcp kind max_len secs = on_reader (read_subpacket is_tcp kind max_len secs)"


section \<open>The readers use the wire up\<close>

lemma frugal_zget [invar_intros]: "frugal (zget dl t)"
  by (rule frugalI) (auto simp: zget_def split: prod.splits outcome.splits dest: nvt_read_rest)

lemma zget_rest_less:
  "zget dl t st w = (r, st', w') \<Longrightarrow> r \<noteq> Inl (ZIo PeerClosed) \<Longrightarrow> ahead dl w \<Longrightarrow> stream_rest st' w' < stream_rest st w"
  by (auto simp: zget_def split: prod.splits outcome.splits dest: nvt_read_rest_less)

lemma frugal_rlift [invar_intros]: "frugal (rlift r)"
  by (auto simp: rlift_def split: sum.splits intro: invar_intros)

lemma frugal_frame_byte_loop [invar_intros]: "frugal (frame_byte_loop n dl t)"
  by (induction n) (auto intro!: invar_intros)

lemma frugal_read_frame_byte [invar_intros]: "frugal (read_frame_byte dl t)"
  unfolding read_frame_byte_def by (rule frugal_frame_byte_loop)

lemma frugal_read_escaped_byte [invar_intros]: "frugal (read_escaped_byte dl t)"
  unfolding read_escaped_byte_def by (intro invar_intros)

lemma frugal_read_hex_pair [invar_intros]: "frugal (read_hex_pair dl t)"
  unfolding read_hex_pair_def by (intro invar_intros) (auto split: option.splits intro: invar_intros)

lemma frugal_skip_zpad [invar_intros]: "frugal (skip_zpad n dl t b)"
  by (induction n arbitrary: b) (auto intro!: invar_intros)

lemma frugal_bin16_body [invar_intros]: "frugal (read_bin16_body dl t)"
  unfolding read_bin16_body_def by (intro invar_intros)

lemma frugal_bin32_body [invar_intros]: "frugal (read_bin32_body dl t)"
  unfolding read_bin32_body_def by (intro invar_intros)

lemma wire_rest_after_byte:
  "zget dl t st w = (Inr b, st', w') \<Longrightarrow> stream_rest (st'\<lparr>pushback := Some b\<rparr>) w' \<le> Suc (stream_rest st' w')"
  by (simp add: stream_rest_def)

lemma nvt_read_Ok_rest: "nvt_read_byte dl t st w = (Ok b, st', w') \<Longrightarrow> stream_rest (st'\<lparr>pushback := Some b\<rparr>) w' \<le> stream_rest st w"
proof -
  have *: "wire_rest w' < wire_rest w" if "raw_read_byte dl t w = (Ok b, w')" for w'
    using that
  proof (induction dl t w arbitrary: w' rule: raw_read_byte.induct)
    case (1 dl t w)
    obtain x w1 where x: "rx dl w = (x, w1)" by (cases "rx dl w")
    obtain y w2 where y: "read_iac_continuation dl w1 = (y, w2)" by (cases "read_iac_continuation dl w1")
    obtain z w3 where z: "consume_telnet_command dl (case y of Ok c \<Rightarrow> c | _ \<Rightarrow> 0) w2 = (z, w3)"
      by fastforce
    have "wire_rest w2 \<le> wire_rest w1" "wire_rest w3 \<le> wire_rest w2"
      using read_iac_continuation_rest [OF y] consume_telnet_command_rest [OF z] by auto
    moreover have "x = Ok c \<Longrightarrow> wire_rest w1 < wire_rest w" for c
      using x by (auto simp: rx_def wire_rest_def Let_def split: list.splits inp.splits if_splits)
    ultimately show ?case
      using "1.prems" "1.IH" [OF x [symmetric]] z
      by (subst (asm) raw_read_byte.simps) (fastforce simp: x y split: outcome.splits if_splits)
  qed
  assume "nvt_read_byte dl t st w = (Ok b, st', w')"
  then show ?thesis
    by (auto simp: nvt_read_byte_def stream_rest_def split: option.splits prod.splits dest!: *)
qed

lemma zget_push_back:
  "zget dl t st w = (Inr b, st', w') \<Longrightarrow> stream_rest (st'\<lparr>pushback := Some b\<rparr>) w' \<le> stream_rest st w"
  by (auto simp: zget_def split: prod.splits outcome.splits dest: nvt_read_Ok_rest)

lemma frugal_hex_trailer [invar_intros]: "frugal (hex_trailer n dl t)"
proof (induction n)
  case (Suc n)
  show ?case
  proof (rule frugalI)
    fix st w r st' w' assume r: "hex_trailer (Suc n) dl t st w = (r, st', w')"
    define d where "d = (if in_time dl (clock w + 200) then Some (clock w + 200) else dl)"
    obtain x st1 w1 where z: "zget d t st w = (x, st1, w1)" by (cases "zget d t st w")
    have "stream_rest st1 w1 \<le> stream_rest st w" using frugal_zget z by (rule frugalD)
    moreover have "x = Inr b \<Longrightarrow> stream_rest (st1\<lparr>pushback := Some b\<rparr>) w1 \<le> stream_rest st w" for b
      using z zget_push_back by blast
    moreover have "hex_trailer n dl t st1 w1 = (r, st', w') \<Longrightarrow> stream_rest st' w' \<le> stream_rest st1 w1"
      using Suc by (rule frugalD)
    ultimately show "stream_rest st' w' \<le> stream_rest st w"
      using r z by (auto simp: Let_def d_def [symmetric] split: sum.splits if_splits)
  qed
qed (simp add: frugal_def)

lemma frugal_hex_body [invar_intros]: "frugal (read_hex_body dl t)"
  unfolding read_hex_body_def by (intro invar_intros)

lemma frugal_header_loop: "frugal (header_loop n run dl t)"
proof (rule frugalI)
  fix st w r st' w' assume "header_loop n run dl t st w = (r, st', w')"
  then show "stream_rest st' w' \<le> stream_rest st w"
  proof (induction n run dl t st w arbitrary: r st' w' rule: header_loop.induct)
    case (2 n run dl t st w)
    obtain x st1 w1 where x: "zget dl t st w = (x, st1, w1)" by (cases "zget dl t st w")
    obtain y st2 w2 where y: "rbind (zget dl t) (\<lambda>c. skip_zpad n dl t c) st1 w1 = (y, st2, w2)"
      by (cases "rbind (zget dl t) (\<lambda>c. skip_zpad n dl t c) st1 w1")
    obtain z st3 w3 where z: "zget dl t st2 w2 = (z, st3, w3)" by (cases "zget dl t st2 w2")
    have "frugal (rbind (zget dl t) (\<lambda>c. skip_zpad n dl t c))" by (intro invar_intros)
    from frugalD [OF this y] frugalD [OF frugal_zget x] frugalD [OF frugal_zget z]
    have le: "stream_rest st1 w1 \<le> stream_rest st w" "stream_rest st2 w2 \<le> stream_rest st1 w1"
      "stream_rest st3 w3 \<le> stream_rest st2 w2" by auto
    note bodies = frugalD [OF frugal_hex_body] frugalD [OF frugal_bin16_body] frugalD [OF frugal_bin32_body]
    show ?case
    proof (cases x)
      case (Inl e)
      with "2.prems" x le show ?thesis by (simp add: header_loop.simps(2))
    next
      case b: (Inr b)
      show ?thesis
      proof (cases "b = ZPAD")
        case False
        with "2.prems" x b le "2.IH"(1) [OF x [symmetric] b] show ?thesis
          by (fastforce simp: header_loop.simps(2) Let_def split: if_splits)
      next
        case True
        note step = "2.prems" x b True
        show ?thesis
        proof (cases y)
          case (Inl e)
          with step y le show ?thesis by (simp add: header_loop.simps(2))
        next
          case (Inr p)
          obtain nxt m where p: "p = (nxt, m)" by (cases p)
          note step = step y Inr p
          show ?thesis
            using step le z bodies [of dl t st3 w3 r st' w']
              "2.IH"(2) [OF x [symmetric] b refl refl _ _ y [symmetric] Inr p [symmetric] refl]
              "2.IH"(3) [OF x [symmetric] b refl refl _ _ y [symmetric] Inr p [symmetric] refl _ z [symmetric]]
            by (fastforce simp: header_loop.simps(2) Let_def split: if_splits sum.splits)
        qed
      qed
    qed
  qed simp
qed

lemma frugal_read_header [invar_intros]: "frugal (read_header dl t)"
  unfolding read_header_def by (rule frugal_header_loop)

lemma read_header_rest_less:
  assumes "read_header dl t st w = (r, st', w')" "r \<noteq> Inl (ZIo PeerClosed)" "ahead dl w"
  shows "stream_rest st' w' < stream_rest st w"
proof -
  obtain n where n: "HEADER_HUNT_BUDGET = Suc n" by (simp add: HEADER_HUNT_BUDGET_def)
  obtain x st1 w1 where x: "zget dl t st w = (x, st1, w1)" by (cases "zget dl t st w")
  have "x = Inl (ZIo PeerClosed) \<Longrightarrow> r = Inl (ZIo PeerClosed)"
    using assms(1) x by (simp add: read_header_def n header_loop.simps(2))
  with zget_rest_less [OF x] assms(2,3) have less: "stream_rest st1 w1 < stream_rest st w" by blast
  have "stream_rest st' w' \<le> stream_rest st1 w1"
  proof (cases x)
    case (Inl e)
    with assms(1) x show ?thesis by (simp add: read_header_def n header_loop.simps(2))
  next
    case (Inr b)
    note loop = frugalD [OF frugal_header_loop]
    obtain y st2 w2 where y: "rbind (zget dl t) (\<lambda>c. skip_zpad n dl t c) st1 w1 = (y, st2, w2)"
      by (cases "rbind (zget dl t) (\<lambda>c. skip_zpad n dl t c) st1 w1")
    obtain z st3 w3 where z: "zget dl t st2 w2 = (z, st3, w3)" by (cases "zget dl t st2 w2")
    have "frugal (rbind (zget dl t) (\<lambda>c. skip_zpad n dl t c))" by (intro invar_intros)
    from frugalD [OF this y] frugalD [OF frugal_zget z]
    have le: "stream_rest st2 w2 \<le> stream_rest st1 w1" "stream_rest st3 w3 \<le> stream_rest st2 w2" by auto
    note bodies = frugalD [OF frugal_hex_body, of dl t st3 w3] frugalD [OF frugal_bin16_body, of dl t st3 w3]
      frugalD [OF frugal_bin32_body, of dl t st3 w3]
    show ?thesis
      using assms(1) x Inr y z le
      by (auto simp: read_header_def n header_loop.simps(2) Let_def split: if_splits sum.splits
          dest!: loop bodies)
  qed
  with less show ?thesis by simp
qed

lemma frugal_subpacket_byte [invar_intros]: "(\<And>dl. frugal (m dl)) \<Longrightarrow> frugal (read_subpacket_byte m secs)"
  unfolding read_subpacket_byte_def
  by (rule frugalI) (fastforce split: prod.splits sum.splits dest: frugalD)

lemma frugal_drop_crc [invar_intros]: "frugal (drop_crc n t secs)"
proof (induction n)
  case (Suc n)
  have "frugal (read_subpacket_byte (\<lambda>dl. read_escaped_byte dl t) secs)" by (intro invar_intros)
  with Suc show ?case
    by (intro frugalI) (auto split: prod.splits sum.splits dest!: frugalD)
qed (simp add: frugal_def)

lemma frugal_drain_loop [invar_intros]: "frugal (drain_loop n t kind secs)"
proof (induction n)
  case (Suc n)
  have g: "frugal (read_subpacket_byte (\<lambda>dl. zget dl t) secs)" by (intro invar_intros)
  note facts = frugalD [OF g] frugalD [OF Suc] frugalD [OF frugal_drop_crc]
  show ?case
    by (rule frugalI) (auto split: prod.splits sum.splits if_splits dest!: facts)
qed (simp add: frugal_def)

lemma frugal_finish_subpacket [invar_intros]: "frugal (finish_subpacket t kind secs data e)"
  unfolding finish_subpacket_def Let_def by (auto split: CrcKind.splits intro!: invar_intros)

lemma frugal_subpacket_loop [invar_intros]: "frugal (subpacket_loop room t kind secs data)"
proof (induction room arbitrary: data)
  case 0
  show ?case by (auto simp: drain_to_subpacket_end_def intro!: invar_intros)
next
  case (Suc room)
  then show ?case by (auto simp: Let_def intro!: invar_intros)
qed

lemma frugal_read_subpacket [invar_intros]: "frugal (read_subpacket t kind max_len secs)"
  unfolding read_subpacket_def by (rule frugal_subpacket_loop)

lemma frame_byte_less:
  assumes "read_subpacket_byte (\<lambda>dl. read_frame_byte dl t) secs st w = (r, st', w')" "0 < secs"
    and "r \<noteq> Inl (ZIo PeerClosed)"
  shows "stream_rest st' w' < stream_rest st w"
proof -
  let ?dl = "Some (clock w + secs * 1000)"
  obtain r' where r': "read_frame_byte ?dl t st w = (r', st', w')" "r' \<noteq> Inl (ZIo PeerClosed)"
    using assms(1,3) by (auto simp: read_subpacket_byte_def split: prod.splits sum.splits if_splits)
  obtain n where n: "(1024::nat) = Suc n" by simp
  obtain x st1 w1 where x: "zget ?dl t st w = (x, st1, w1)" by (cases "zget ?dl t st w")
  have "x = Inl (ZIo PeerClosed) \<Longrightarrow> r' = Inl (ZIo PeerClosed)"
    using r'(1) x by (simp add: read_frame_byte_def n rbind_def)
  moreover have "ahead ?dl w" using assms(2) by (simp add: ahead_def)
  ultimately have "stream_rest st1 w1 < stream_rest st w" using zget_rest_less [OF x] r'(2) by blast
  moreover have "stream_rest st' w' \<le> stream_rest st1 w1"
    using r'(1) x frugalD [OF frugal_frame_byte_loop, of n ?dl t st1 w1]
    by (auto simp: read_frame_byte_def n rbind_def rpure_def split: sum.splits if_splits)
  ultimately show ?thesis by simp
qed

lemma read_subpacket_rest_less:
  assumes "read_subpacket t kind max_len secs st w = (r, st', w')" "0 < secs" "r \<noteq> Inl (ZIo PeerClosed)"
  shows "stream_rest st' w' < stream_rest st w"
proof -
  let ?get = "read_subpacket_byte (\<lambda>dl. read_frame_byte dl t) secs"
  obtain x st1 w1 where x: "?get st w = (x, st1, w1)" by (cases "?get st w")
  have "x = Inl (ZIo PeerClosed) \<Longrightarrow> r = Inl (ZIo PeerClosed)"
    using assms(1) x by (simp add: read_subpacket_def rbind_def Let_def)
  with frame_byte_less [OF x assms(2)] assms(3) have less: "stream_rest st1 w1 < stream_rest st w" by blast
  define rest where "rest = (\<lambda>b. if b \<noteq> ZDLE then subpacket_loop max_len t kind secs ([] @ [b])
      else rbind ?get (\<lambda>e. if e \<in> {ZCRCE, ZCRCG, ZCRCQ, ZCRCW} then finish_subpacket t kind secs [] e
             else rbind (rlift (decode_after_zdle e)) (\<lambda>d. subpacket_loop max_len t kind secs ([] @ [d]))))"
  have fr: "frugal (rest b)" for b unfolding rest_def by (intro invar_intros)
  have eq: "read_subpacket t kind max_len secs = rbind ?get rest"
    by (simp add: read_subpacket_def rest_def Let_def fun_eq_iff)
  have "stream_rest st' w' \<le> stream_rest st1 w1"
    using assms(1) x unfolding eq by (cases x) (auto simp: rbind_def dest: frugalD [OF fr])
  with less show ?thesis by simp
qed

lemma timed_header_rest:
  assumes "timed_header secs t l = (r, l')"
  shows "link_rest l' \<le> link_rest l"
    and "0 < secs \<Longrightarrow> r \<noteq> Inl (ZIo PeerClosed) \<Longrightarrow> link_rest l' < link_rest l"
  using assms frugalD [OF frugal_read_header]
  by (auto simp: timed_header_def on_reader_def link_rest_def ahead_def split: prod.splits
      dest: read_header_rest_less)

lemma next_subpacket_rest:
  assumes "next_subpacket t kind max_len secs l = (r, l')"
  shows "link_rest l' \<le> link_rest l"
    and "0 < secs \<Longrightarrow> r \<noteq> Inl (ZIo PeerClosed) \<Longrightarrow> link_rest l' < link_rest l"
  using assms frugalD [OF frugal_read_subpacket]
  by (auto simp: next_subpacket_def on_reader_def link_rest_def split: prod.splits
      dest: read_subpacket_rest_less)

lemma PeerClosed_is_cancel [simp]: "is_peer_cancel (ZIo PeerClosed)"
  by (simp add: is_peer_cancel_def)

lemma ZElapsed_no_cancel [simp]: "\<not> is_peer_cancel ZElapsed"
  by (simp add: is_peer_cancel_def)

lemma keeps_rest_hex [invar_intros]: "keeps_rest (send_hex fr data t)"
  unfolding send_hex_def by (rule keeps_rest_write)

lemma keeps_rest_header [invar_intros]:
  "keeps_rest (send_zrinit t)" "keeps_rest (send_zrqinit t)" "keeps_rest (send_zrpos p t)"
  "keeps_rest (send_zack p t)" "keeps_rest (send_zeof p t)" "keeps_rest (send_zfin t)" "keeps_rest (send_znak t)"
  "keeps_rest (send_zskip t)" "keeps_rest (send_zcrc p t)" "keeps_rest (send_zcompl p t)" "keeps_rest (send_cancel t)"
  by (simp_all add: send_zrinit_def send_zrqinit_def send_zrpos_def send_zack_def send_zeof_def send_zfin_def
      send_znak_def send_zskip_def send_zcrc_def send_zcompl_def send_cancel_def keeps_rest_hex keeps_rest_write)

lemma keeps_rest_give_up [invar_intros]: "keeps_rest (give_up t e)"
proof (rule keeps_restI)
  fix l r l' assume "give_up t e l = (r, l' :: link)"
  then have "send_cancel t l = (fst (send_cancel t l), l')" by (auto simp: give_up_def)
  with keeps_rest_header(11) show "link_rest l' \<le> link_rest l" by (rule keeps_restD)
qed

lemma keeps_rest_counted [invar_intros]: "(\<And>n. keeps_rest (go n)) \<Longrightarrow> keeps_rest (counted err cfg t errors go)"
  unfolding counted_def Let_def by (intro invar_intros)


section \<open>The file information subpacket\<close>

record ZfileInfo =
  zi_filename :: str
  zi_length :: "nat option"
  zi_modtime :: "nat option"
  zi_mode :: "nat option"

fun split_by :: "(byte \<Rightarrow> bool) \<Rightarrow> byte list \<Rightarrow> byte list list" where
  "split_by sep [] = [[]]"
| "split_by sep (b # bs) = (if sep b then [] # split_by sep bs
     else case split_by sep bs of p # ps \<Rightarrow> (b # p) # ps | [] \<Rightarrow> [[b]])"

definition info_tokens :: "byte list \<Rightarrow> str list" where
  "info_tokens bs = List.map_filter from_utf8 (filter (\<lambda>s. s \<noteq> []) (split_by (\<lambda>b. b = 0x20 \<or> b = 0) bs))"

definition nonzero :: "nat option \<Rightarrow> nat option" where
  "nonzero v = (if v = Some 0 then None else v)"

definition parse_zfile_info :: "byte list \<Rightarrow> ZfileInfo option" where
  "parse_zfile_info data =
     (if 0 \<notin> set data then None
      else let name = takeWhile (\<lambda>b. b \<noteq> 0) data;
               tokens = info_tokens (drop (length name + 1) data);
               tok = (\<lambda>k. if k < length tokens then Some (tokens ! k) else None)
           in Some \<lparr>zi_filename = from_utf8_lossy name,
                zi_length = Option.bind (tok 0) (parse_uint 10 (2 ^ 64)),
                zi_modtime = nonzero (Option.bind (tok 1) (parse_uint 8 (2 ^ 64))),
                zi_mode = nonzero (Option.bind (tok 2) (parse_uint 8 (2 ^ 32)))\<rparr>)"

text \<open>
  Reading it: a damaged subpacket is answered with ZNAK, and the whole ZFILE frame is waited for
  again, its header first. One counter bounds every setback.
\<close>

datatype info_mode = ReadInfo | AwaitRetransmit

definition info_step :: "zmodem_settings \<Rightarrow> bool \<Rightarrow> info_mode \<times> CrcKind \<times> nat \<Rightarrow>
    (transfer_error, (info_mode \<times> CrcKind \<times> nat) + Subpacket) lk" where
  "info_step cfg is_tcp s l = (case s of
     (ReadInfo, kind, errors) \<Rightarrow>
       (case next_subpacket is_tcp kind MAX_SUBPACKET_DATA (z_frame_timeout cfg) l of
          (Inr sp, l1) \<Rightarrow> (Inr (Inr sp), l1)
        | (Inl e, l1) \<Rightarrow>
            if is_peer_cancel e then (Inl (TRead e), l1)
            else counted TInfoErrors cfg is_tcp errors (\<lambda>n.
                   lbind (send_znak is_tcp) (\<lambda>_. lpure (Inl (AwaitRetransmit, kind, n)))) l1)
   | (AwaitRetransmit, kind, errors) \<Rightarrow>
       (case timed_header (z_frame_timeout cfg) is_tcp l of
          (Inl e, l1) \<Rightarrow>
            if is_peer_cancel e then (Inl (TRead e), l1)
            else counted TRetransmitErrors cfg is_tcp errors (\<lambda>n.
                   lbind (send_znak is_tcp) (\<lambda>_. lpure (Inl (AwaitRetransmit, kind, n)))) l1
        | (Inr h, l1) \<Rightarrow>
            if frame h = ZFILE then (Inr (Inl (ReadInfo, crc_kind h, errors)), l1)
            else if frame h = ZABORT then (Inl TSenderAborted, l1)
            else counted TStrayFrames cfg is_tcp errors (\<lambda>n. lpure (Inl (AwaitRetransmit, kind, n))) l1))"

text \<open>A step that reads and then keeps what is left has used the wire up.\<close>

lemma read_then_keeps:
  assumes "link_rest l1 < link_rest l" "keeps_rest m" "m l1 = (r, l')"
  shows "link_rest l' < link_rest l"
  using keeps_restD [OF assms(2,3)] assms(1) by simp

lemma info_step_rest:
  assumes "info_step cfg t s l = (r, l')"
  shows "link_rest l' \<le> link_rest l" and "r = Inr x \<Longrightarrow> link_rest l' < link_rest l"
proof -
  obtain m k errs where s: "s = (m, k, errs)" by (cases s)
  have k1: "keeps_rest (counted err cfg t errs (\<lambda>n. lbind (send_znak t) (\<lambda>_. lpure (Inl (AwaitRetransmit, k, n)))))" for err
    by (intro invar_intros)
  have k2: "keeps_rest (counted TStrayFrames cfg t errs (\<lambda>n. lpure (Inl (AwaitRetransmit, k, n))))"
    by (intro invar_intros)
  have "link_rest l' \<le> link_rest l \<and> (r = Inr x \<longrightarrow> link_rest l' < link_rest l)"
  proof (cases m)
    case ReadInfo
    obtain y l1 where y: "next_subpacket t k MAX_SUBPACKET_DATA (z_frame_timeout cfg) l = (y, l1)"
      by (cases "next_subpacket t k MAX_SUBPACKET_DATA (z_frame_timeout cfg) l")
    show ?thesis
      using assms s ReadInfo y next_subpacket_rest [OF y]
      by (auto simp: info_step_def is_peer_cancel_def split: sum.splits if_splits dest: keeps_restD [OF k1])
  next
    case AwaitRetransmit
    obtain y l1 where y: "timed_header (z_frame_timeout cfg) t l = (y, l1)"
      by (cases "timed_header (z_frame_timeout cfg) t l")
    show ?thesis
      using assms s AwaitRetransmit y timed_header_rest [OF y]
      by (auto simp: info_step_def is_peer_cancel_def split: sum.splits if_splits dest: keeps_restD [OF k1] keeps_restD [OF k2])
  qed
  then show "link_rest l' \<le> link_rest l" "r = Inr x \<Longrightarrow> link_rest l' < link_rest l" by auto
qed

function info_loop :: "zmodem_settings \<Rightarrow> bool \<Rightarrow> info_mode \<times> CrcKind \<times> nat \<Rightarrow> (transfer_error, Subpacket) lk" where
  "info_loop cfg is_tcp s l = (case info_step cfg is_tcp s l of
     (Inl e, l') \<Rightarrow> (Inl e, l')
   | (Inr (Inl s'), l') \<Rightarrow> info_loop cfg is_tcp s' l'
   | (Inr (Inr sp), l') \<Rightarrow> (Inr sp, l'))"
  by pat_completeness auto
termination
  by (relation "measure (\<lambda>(cfg, t, s, l). link_rest l)") (auto dest!: info_step_rest(2) [OF sym])

declare info_loop.simps [simp del]


section \<open>The data phase\<close>

text \<open>\<open>ds_open\<close> is the check of the ZDATA frame being read, or \<open>None\<close> between frames.\<close>

record data_state =
  ds_data :: "byte list"
  ds_pos :: u32
  ds_errors :: nat
  ds_empty :: nat
  ds_eof_ignored :: bool
  ds_open :: "CrcKind option"

definition init_data :: data_state where
  "init_data = \<lparr>ds_data = [], ds_pos = 0, ds_errors = 0, ds_empty = 0, ds_eof_ignored = False, ds_open = None\<rparr>"

definition saturating_add32 :: "u32 \<Rightarrow> nat \<Rightarrow> u32" where
  "saturating_add32 p n = word_of_nat (min (unat p + unat (word_of_nat n :: u32)) (2 ^ 32 - 1))"

text \<open>The returned number is the raised error counter.\<close>

definition nak_or_abort :: "bool \<Rightarrow> nat \<Rightarrow> nat \<Rightarrow> u32 \<Rightarrow> (transfer_error, nat) lk" where
  "nak_or_abort is_tcp errors max_retries p =
     (if errors + 1 > max_retries then give_up is_tcp (TTooManyErrors (errors + 1))
      else lbind (send_zrpos p is_tcp) (\<lambda>_. lpure (errors + 1)))"

definition setback :: "zmodem_settings \<Rightarrow> bool \<Rightarrow> data_state \<Rightarrow> (transfer_error, data_state + byte list) lk" where
  "setback cfg is_tcp s = lbind (nak_or_abort is_tcp (ds_errors s) (z_max_retries cfg) (ds_pos s))
     (\<lambda>n. lpure (Inl (s\<lparr>ds_errors := n, ds_open := None\<rparr>)))"

definition take_subpacket :: "bool \<Rightarrow> Subpacket \<Rightarrow> data_state \<Rightarrow> (transfer_error, data_state + byte list) lk" where
  "take_subpacket is_tcp sp s =
     (let empty = (if sdata sp = [] then ds_empty s + 1 else 0);
          data = ds_data s @ sdata sp;
          pos = saturating_add32 (ds_pos s) (length (sdata sp));
          s' = s\<lparr>ds_data := data, ds_pos := pos, ds_errors := 0, ds_empty := empty,
                 ds_eof_ignored := (sdata sp = [] \<and> ds_eof_ignored s)\<rparr>
      in if empty > MAX_EMPTY_SUBPACKETS then give_up is_tcp TEmptySubpackets
         else if length data > MAX_FILE_SIZE then give_up is_tcp TFileTooLarge
         else if end_marker sp = ZCRCG then lpure (Inl s')
         else if end_marker sp = ZCRCQ then lbind (send_zack pos is_tcp) (\<lambda>_. lpure (Inl s'))
         else if end_marker sp = ZCRCW then lbind (send_zack pos is_tcp) (\<lambda>_. lpure (Inl (s'\<lparr>ds_open := None\<rparr>)))
         else if end_marker sp = ZCRCE then lpure (Inl (s'\<lparr>ds_open := None\<rparr>))
         else give_up is_tcp TUnexpectedMarker)"

text \<open>A header between the frames of the data phase; \<open>Inr (Inr data)\<close> is the end of the file.\<close>

definition data_header :: "zmodem_settings \<Rightarrow> bool \<Rightarrow> ZHeader \<Rightarrow> data_state \<Rightarrow>
    (transfer_error, data_state + byte list) lk" where
  "data_header cfg is_tcp h s =
     (if frame h = ZDATA then
        if position h \<noteq> ds_pos s then setback cfg is_tcp s
        else lpure (Inl (s\<lparr>ds_open := Some (crc_kind h)\<rparr>))
      else if frame h = ZEOF then
        if unat (position h) \<noteq> length (ds_data s) \<and> ds_eof_ignored s
        then setback cfg is_tcp (s\<lparr>ds_eof_ignored := False\<rparr>)
        else if unat (position h) \<noteq> length (ds_data s) then
          if ds_errors s + 1 > z_max_retries cfg then give_up is_tcp (TTooManyErrors (ds_errors s + 1))
          else lpure (Inl (s\<lparr>ds_eof_ignored := True, ds_errors := ds_errors s + 1\<rparr>))
        else lpure (Inr (ds_data s))
      else if frame h = ZRQINIT then
        if ds_errors s + 1 > z_max_retries cfg then give_up is_tcp (TTooManyErrors (ds_errors s + 1))
        else lbind (send_zrinit is_tcp) (\<lambda>_. lpure (Inl (s\<lparr>ds_errors := ds_errors s + 1\<rparr>)))
      else if frame h = ZABORT then lfail TSenderAborted
      else setback cfg is_tcp s)"

definition data_step :: "zmodem_settings \<Rightarrow> bool \<Rightarrow> data_state \<Rightarrow> (transfer_error, data_state + byte list) lk" where
  "data_step cfg is_tcp s l = (case ds_open s of
     Some kind \<Rightarrow>
       (case next_subpacket is_tcp kind MAX_SUBPACKET_DATA (z_frame_timeout cfg) l of
          (Inr sp, l1) \<Rightarrow> take_subpacket is_tcp sp s l1
        | (Inl e, l1) \<Rightarrow> if is_peer_cancel e then (Inl (TRead e), l1) else setback cfg is_tcp s l1)
   | None \<Rightarrow>
       (case timed_header (z_frame_timeout cfg) is_tcp l of
          (Inr h, l1) \<Rightarrow> data_header cfg is_tcp h s l1
        | (Inl e, l1) \<Rightarrow> if is_peer_cancel e then (Inl (TRead e), l1) else setback cfg is_tcp s l1))"

lemma keeps_rest_setback [invar_intros]: "keeps_rest (setback cfg t s)"
  unfolding setback_def nak_or_abort_def by (intro invar_intros)

lemma keeps_rest_take [invar_intros]: "keeps_rest (take_subpacket t sp s)"
  unfolding take_subpacket_def Let_def by (intro invar_intros)

lemma keeps_rest_data_header [invar_intros]: "keeps_rest (data_header cfg t h s)"
  unfolding data_header_def by (intro invar_intros)

lemma data_step_rest:
  assumes "data_step cfg t s l = (r, l')"
  shows "link_rest l' \<le> link_rest l" and "r = Inr x \<Longrightarrow> link_rest l' < link_rest l"
proof -
  note keeps = keeps_restD [OF keeps_rest_setback] keeps_restD [OF keeps_rest_take]
    keeps_restD [OF keeps_rest_data_header]
  have "link_rest l' \<le> link_rest l \<and> (r = Inr x \<longrightarrow> link_rest l' < link_rest l)"
  proof (cases "ds_open s")
    case (Some k)
    obtain y l1 where y: "next_subpacket t k MAX_SUBPACKET_DATA (z_frame_timeout cfg) l = (y, l1)"
      by (cases "next_subpacket t k MAX_SUBPACKET_DATA (z_frame_timeout cfg) l")
    show ?thesis
      using assms Some y next_subpacket_rest [OF y]
      by (auto simp: data_step_def is_peer_cancel_def split: sum.splits if_splits dest!: keeps)
  next
    case None
    obtain y l1 where y: "timed_header (z_frame_timeout cfg) t l = (y, l1)"
      by (cases "timed_header (z_frame_timeout cfg) t l")
    show ?thesis
      using assms None y timed_header_rest [OF y]
      by (auto simp: data_step_def is_peer_cancel_def split: sum.splits if_splits dest!: keeps)
  qed
  then show "link_rest l' \<le> link_rest l" "r = Inr x \<Longrightarrow> link_rest l' < link_rest l" by auto
qed

function data_loop :: "zmodem_settings \<Rightarrow> bool \<Rightarrow> data_state \<Rightarrow> (transfer_error, byte list) lk" where
  "data_loop cfg is_tcp s l = (case data_step cfg is_tcp s l of
     (Inl e, l') \<Rightarrow> (Inl e, l')
   | (Inr (Inl s'), l') \<Rightarrow> data_loop cfg is_tcp s' l'
   | (Inr (Inr data), l') \<Rightarrow> (Inr data, l'))"
  by pat_completeness auto
termination
  by (relation "measure (\<lambda>(cfg, t, s, l). link_rest l)") (auto dest!: data_step_rest(2) [OF sym])

declare data_loop.simps [simp del]


section \<open>One file\<close>

record ZmodemReceive =
  zr_filename :: str
  zr_data :: "byte list"
  zr_modtime :: "nat option"
  zr_mode :: "nat option"

text \<open>The caller's decision on an offered file: a closure with a state of its own.\<close>

type_synonym 'd decider = "'d \<Rightarrow> nat \<Rightarrow> str \<Rightarrow> nat option \<Rightarrow> bool \<times> 'd"

definition truncate_to :: "nat option \<Rightarrow> byte list \<Rightarrow> byte list" where
  "truncate_to announced data = (case announced of Some sz \<Rightarrow> take sz data | None \<Rightarrow> data)"

definition too_large :: "nat option \<Rightarrow> bool" where
  "too_large announced \<longleftrightarrow> (case announced of Some sz \<Rightarrow> sz > MAX_FILE_SIZE | None \<Rightarrow> False)"

definition receive_one_file :: "zmodem_settings \<Rightarrow> bool \<Rightarrow> 'd decider \<Rightarrow> 'd \<Rightarrow> nat \<Rightarrow> CrcKind \<Rightarrow>
    (transfer_error, ZmodemReceive option \<times> 'd) lk" where
  "receive_one_file cfg is_tcp decide caller index kind =
     lbind (info_loop cfg is_tcp (ReadInfo, kind, 0)) (\<lambda>sp.
       case parse_zfile_info (sdata sp) of
         None \<Rightarrow> lfail TMalformedZfile
       | Some info \<Rightarrow>
           (case decide caller index (zi_filename info) (zi_length info) of (accepted, caller') \<Rightarrow>
              if \<not> accepted \<or> too_large (zi_length info)
              then lbind (send_zskip is_tcp) (\<lambda>_. lpure (None, caller'))
              else lbind (send_zrpos 0 is_tcp) (\<lambda>_.
                   lbind (data_loop cfg is_tcp init_data) (\<lambda>data.
                     lpure (Some \<lparr>zr_filename = zi_filename info, zr_data = truncate_to (zi_length info) data,
                                  zr_modtime = zi_modtime info, zr_mode = zi_mode info\<rparr>, caller')))))"

lemma keeps_rest_info_loop [invar_intros]: "keeps_rest (info_loop cfg t s)"
proof (rule keeps_restI)
  fix l r l' assume "info_loop cfg t s l = (r, l')"
  then show "link_rest l' \<le> link_rest l"
  proof (induction cfg t s l arbitrary: r l' rule: info_loop.induct)
    case (1 cfg t s l)
    obtain y l1 where y: "info_step cfg t s l = (y, l1)" by (cases "info_step cfg t s l")
    with "1.prems" "1.IH" [OF y [symmetric]] info_step_rest(1) [OF y] show ?case
      by (subst (asm) info_loop.simps) (fastforce split: sum.splits)
  qed
qed

lemma keeps_rest_data_loop [invar_intros]: "keeps_rest (data_loop cfg t s)"
proof (rule keeps_restI)
  fix l r l' assume "data_loop cfg t s l = (r, l')"
  then show "link_rest l' \<le> link_rest l"
  proof (induction cfg t s l arbitrary: r l' rule: data_loop.induct)
    case (1 cfg t s l)
    obtain y l1 where y: "data_step cfg t s l = (y, l1)" by (cases "data_step cfg t s l")
    with "1.prems" "1.IH" [OF y [symmetric]] data_step_rest(1) [OF y] show ?case
      by (subst (asm) data_loop.simps) (fastforce split: sum.splits)
  qed
qed

lemma keeps_rest_one_file [invar_intros]: "keeps_rest (receive_one_file cfg t decide d i k)"
  unfolding receive_one_file_def
  by (intro invar_intros) (auto split: option.splits prod.splits intro!: invar_intros)


section \<open>The batch\<close>

record 'd batch_state =
  bs_seen :: nat
  bs_header_errors :: nat
  bs_chatty :: nat
  bs_files :: "ZmodemReceive list"
  bs_caller :: 'd

definition chatty_budget :: "zmodem_settings \<Rightarrow> nat" where
  "chatty_budget cfg = min (2 * z_max_retries cfg) (2 ^ 32 - 1)"

fun drain_oo :: "nat \<Rightarrow> bool \<Rightarrow> link \<Rightarrow> link" where
  "drain_oo 0 is_tcp l = l"
| "drain_oo (Suc n) is_tcp l =
     (case on_reader (nvt_read_byte (Some (now l + OO_TRAILER_TIMEOUT_SECS * 1000)) is_tcp) l of
        (Ok b, l1) \<Rightarrow> if b = 0x4F then drain_oo n is_tcp l1 else l1
      | (_, l1) \<Rightarrow> l1)"

text \<open>A subpacket that is read and thrown away; only a peer's cancel counts.\<close>

definition drain_subpacket :: "zmodem_settings \<Rightarrow> bool \<Rightarrow> CrcKind \<Rightarrow> nat \<Rightarrow> (transfer_error, unit) lk" where
  "drain_subpacket cfg is_tcp kind max_len l =
     (case next_subpacket is_tcp kind max_len (z_frame_timeout cfg) l of
        (Inl e, l1) \<Rightarrow> if is_peer_cancel e then (Inl (TRead e), l1) else (Inr (), l1)
      | (Inr _, l1) \<Rightarrow> (Inr (), l1))"

text \<open>A frame between the files; \<open>Inr (Inr ())\<close> is the end of the batch.\<close>

definition batch_frame :: "zmodem_settings \<Rightarrow> bool \<Rightarrow> 'd decider \<Rightarrow> ZHeader \<Rightarrow> 'd batch_state \<Rightarrow>
    (transfer_error, 'd batch_state + unit) lk" where
  "batch_frame cfg is_tcp decide h s =
     (if frame h = ZRQINIT \<or> frame h = ZEOF then lbind (send_zrinit is_tcp) (\<lambda>_. lpure (Inl s))
      else if frame h = ZFILE then
        if bs_seen s \<ge> MAX_BATCH_FILES
        then lbind (send_cancel is_tcp) (\<lambda>_. lfail TTooManyFiles)
        else lbind (receive_one_file cfg is_tcp decide (bs_caller s) (bs_seen s) (crc_kind h)) (\<lambda>(got, caller').
               let s' = s\<lparr>bs_chatty := 0, bs_seen := bs_seen s + 1, bs_caller := caller'\<rparr>
               in case got of
                    None \<Rightarrow> lpure (Inl s')
                  | Some file \<Rightarrow> lbind (send_zrinit is_tcp) (\<lambda>_. lpure (Inl (s'\<lparr>bs_files := bs_files s @ [file]\<rparr>))))
      else if frame h = ZFIN then
        (\<lambda>l. case send_zfin is_tcp l of
               (Inl _, l1) \<Rightarrow> (Inr (Inr ()), l1)
             | (Inr _, l1) \<Rightarrow> (Inr (Inr ()), drain_oo 2 is_tcp l1))
      else if frame h = ZABORT then lfail TSenderAborted
      else if frame h = ZFERR then lfail TSenderFileError
      else if frame h = ZSINIT then
        lbind (drain_subpacket cfg is_tcp (crc_kind h) 32) (\<lambda>_. lbind (send_zack 0 is_tcp) (\<lambda>_. lpure (Inl s)))
      else if frame h = ZFREECNT then lbind (send_zack ZFREECNT_REPLY is_tcp) (\<lambda>_. lpure (Inl s))
      else if frame h = ZCOMMAND then
        lbind (drain_subpacket cfg is_tcp (crc_kind h) MAX_SUBPACKET_DATA) (\<lambda>_.
        lbind (send_zcompl 1 is_tcp) (\<lambda>_. lfail TRefusedCommand))
      else if frame h = ZSTDERR then
        lbind (drain_subpacket cfg is_tcp (crc_kind h) MAX_SUBPACKET_DATA) (\<lambda>_. lpure (Inl s))
      else lpure (Inl s))"

text \<open>One turn of the loop; \<open>deadline\<close> is the end of the negotiation, and holds until a first ZFILE.\<close>

definition batch_step :: "zmodem_settings \<Rightarrow> bool \<Rightarrow> 'd decider \<Rightarrow> nat \<Rightarrow> 'd batch_state \<Rightarrow>
    (transfer_error, 'd batch_state + unit) lk" where
  "batch_step cfg is_tcp decide deadline s l =
     (let active = (bs_seen s = 0)
      in case timed_header (if active then z_retry_interval cfg else z_frame_timeout cfg) is_tcp l of
           (Inr h, l1) \<Rightarrow>
             (let s1 = s\<lparr>bs_header_errors := 0, bs_chatty := saturating_inc (bs_chatty s)\<rparr>
              in if bs_chatty s1 > chatty_budget cfg then give_up is_tcp TChatty l1
                 else batch_frame cfg is_tcp decide h s1 l1)
         | (Inl e, l1) \<Rightarrow>
             if is_peer_cancel e then (Inl (TRead e), l1)
             else if active then
               if deadline \<le> now l1 then give_up is_tcp TNoZfile l1
               else lbind (send_zrinit is_tcp) (\<lambda>_. lpure (Inl s)) l1
             else if e = ZElapsed then (Inr (Inr ()), l1)
             else counted THeaderErrors cfg is_tcp (bs_header_errors s) (\<lambda>n.
                    lbind (send_znak is_tcp) (\<lambda>_. lpure (Inl (s\<lparr>bs_header_errors := n\<rparr>)))) l1)"

lemma drain_oo_rest: "link_rest (drain_oo n t l) \<le> link_rest l"
proof (induction n arbitrary: l)
  case (Suc n)
  obtain r l1 where r: "on_reader (nvt_read_byte (Some (now l + OO_TRAILER_TIMEOUT_SECS * 1000)) t) l = (r, l1)"
    by (cases "on_reader (nvt_read_byte (Some (now l + OO_TRAILER_TIMEOUT_SECS * 1000)) t) l")
  then have "link_rest l1 \<le> link_rest l"
    by (auto simp: on_reader_def link_rest_def split: prod.splits dest: nvt_read_rest)
  with r Suc [of l1] show ?case by (auto split: outcome.splits intro: le_trans)
qed simp

lemma keeps_rest_drain_subpacket [invar_intros]: "keeps_rest (drain_subpacket cfg t k n)"
  by (rule keeps_restI)
    (auto simp: drain_subpacket_def split: prod.splits sum.splits if_splits dest: next_subpacket_rest(1))

lemma keeps_rest_batch_frame [invar_intros]: "keeps_rest (batch_frame cfg t decide h s)"
proof -
  have fin: "keeps_rest (\<lambda>l. case send_zfin t l of (Inl _, l1) \<Rightarrow> (Inr (Inr ()), l1)
      | (Inr _, l1) \<Rightarrow> (Inr (Inr ()), drain_oo 2 t l1))"
    by (rule keeps_restI)
      (auto split: prod.splits sum.splits dest: keeps_restD [OF keeps_rest_header(6)] intro: le_trans [OF drain_oo_rest])
  show ?thesis
    unfolding batch_frame_def
    by (intro invar_intros fin) (auto split: option.splits prod.splits simp: Let_def intro!: invar_intros)
qed

lemma batch_step_rest:
  assumes "batch_step cfg t decide nd s l = (r, l')" "r = Inr x"
  shows "link_rest l' < link_rest l"
proof -
  have k1: "keeps_rest (lbind (send_zrinit t) (\<lambda>_. lpure (Inl s :: 'a batch_state + unit)))" by (intro invar_intros)
  have k2: "keeps_rest (counted THeaderErrors cfg t (bs_header_errors s) (\<lambda>n.
      lbind (send_znak t) (\<lambda>_. lpure (Inl (s\<lparr>bs_header_errors := n\<rparr>) :: 'a batch_state + unit))))"
    by (intro invar_intros)
  note keeps = keeps_restD [OF k1] keeps_restD [OF k2] keeps_restD [OF keeps_rest_batch_frame]
    keeps_restD [OF keeps_rest_give_up]
  define secs where "secs = (if bs_seen s = 0 then z_retry_interval cfg else z_frame_timeout cfg)"
  have "0 < secs" by (simp add: secs_def)
  obtain y l1 where y: "timed_header secs t l = (y, l1)" by (cases "timed_header secs t l")
  show ?thesis
    using assms y timed_header_rest(2) [OF y \<open>0 < secs\<close>]
    by (auto simp: batch_step_def secs_def [symmetric] is_peer_cancel_def Let_def
        split: sum.splits if_splits dest!: keeps)
qed

text \<open>The files confirmed before a failure are kept.\<close>

record ('f, 'e) BatchReceipt =
  br_files :: "'f list"
  br_error :: "'e option"

function batch_loop :: "zmodem_settings \<Rightarrow> bool \<Rightarrow> 'd decider \<Rightarrow> nat \<Rightarrow> 'd batch_state \<Rightarrow> link \<Rightarrow> (ZmodemReceive, transfer_error) BatchReceipt \<times> link" where
  "batch_loop cfg is_tcp decide deadline s l = (case batch_step cfg is_tcp decide deadline s l of
     (Inl e, l') \<Rightarrow> (\<lparr>br_files = bs_files s, br_error = Some e\<rparr>, l')
   | (Inr (Inl s'), l') \<Rightarrow> batch_loop cfg is_tcp decide deadline s' l'
   | (Inr (Inr _), l') \<Rightarrow>
       (\<lparr>br_files = bs_files s, br_error = (if bs_seen s = 0 then Some TNoFiles else None)\<rparr>, l'))"
  by pat_completeness auto
termination
  by (relation "measure (\<lambda>(cfg, t, d, nd, s, l). link_rest l)") (auto dest!: batch_step_rest [OF sym])

declare batch_loop.simps [simp del]

definition zmodem_receive_keeping :: "zmodem_settings \<Rightarrow> bool \<Rightarrow> 'd decider \<Rightarrow> 'd \<Rightarrow> wire \<Rightarrow> writer \<Rightarrow>
    (ZmodemReceive, transfer_error) BatchReceipt \<times> link" where
  "zmodem_receive_keeping cfg is_tcp decide caller w wr =
     (let l0 = \<lparr>rst = default_ReadState, inw = w, outw = wr\<rparr>;
          deadline = now l0 + z_negotiation_timeout cfg * 1000
      in case lbind (on_writer TWrite is_tcp [0x72, 0x7A, 0x0D]) (\<lambda>_. send_zrinit is_tcp) l0 of
           (Inl e, l) \<Rightarrow> (\<lparr>br_files = [], br_error = Some e\<rparr>, l)
         | (Inr _, l) \<Rightarrow> batch_loop cfg is_tcp decide deadline
             \<lparr>bs_seen = 0, bs_header_errors = 0, bs_chatty = 0, bs_files = [], bs_caller = caller\<rparr> l)"


section \<open>Sending: negotiation\<close>

definition buffer_length :: "ZHeader \<Rightarrow> nat" where
  "buffer_length h = unat (hdata h ! 0) OR push_bit 8 (unat (hdata h ! 1))"

definition negotiate_step :: "zmodem_settings \<Rightarrow> bool \<Rightarrow> nat \<Rightarrow> nat \<Rightarrow>
    (transfer_error, nat + EscapeMode \<times> RxWindow) lk" where
  "negotiate_step cfg is_tcp deadline attempts l =
     (if deadline \<le> now l then (Inl TNoZrinit, l)
      else case timed_header (z_retry_interval cfg) is_tcp l of
        (Inr h, l1) \<Rightarrow>
          if frame h = ZRINIT then (Inr (Inr (from_zrinit_zf0 (zf0 h), from_zrinit (buffer_length h))), l1)
          else if frame h = ZCHALLENGE
          then lbind (send_zack (position h) is_tcp) (\<lambda>_. lpure (Inl attempts)) l1
          else (Inr (Inl attempts), l1)
      | (Inl e, l1) \<Rightarrow>
          if is_peer_cancel e then (Inl (TRead ZPeerCancel), l1)
          else if retries_exhausted (attempts + 1) (z_max_retries cfg) then (Inl TNoZrinit, l1)
          else lbind (send_zrqinit is_tcp) (\<lambda>_. lpure (Inl (attempts + 1))) l1)"

lemma negotiate_step_rest:
  assumes "negotiate_step cfg t nd n l = (r, l')" "r = Inr x"
  shows "link_rest l' < link_rest l"
proof -
  have k1: "keeps_rest (lbind (send_zack p t) (\<lambda>_. lpure (Inl n :: nat + EscapeMode \<times> RxWindow)))" for p
    by (intro invar_intros)
  have k2: "keeps_rest (lbind (send_zrqinit t) (\<lambda>_. lpure (Inl (Suc n) :: nat + EscapeMode \<times> RxWindow)))"
    by (intro invar_intros)
  obtain y l1 where y: "timed_header (z_retry_interval cfg) t l = (y, l1)"
    by (cases "timed_header (z_retry_interval cfg) t l")
  show ?thesis
    using assms y timed_header_rest(2) [OF y]
    by (auto simp: negotiate_step_def is_peer_cancel_def split: sum.splits if_splits
        dest!: keeps_restD [OF k1] keeps_restD [OF k2])
qed

function negotiate_loop :: "zmodem_settings \<Rightarrow> bool \<Rightarrow> nat \<Rightarrow> nat \<Rightarrow> (transfer_error, EscapeMode \<times> RxWindow) lk" where
  "negotiate_loop cfg is_tcp deadline attempts l = (case negotiate_step cfg is_tcp deadline attempts l of
     (Inl e, l') \<Rightarrow> (Inl e, l')
   | (Inr (Inl n), l') \<Rightarrow> negotiate_loop cfg is_tcp deadline n l'
   | (Inr (Inr r), l') \<Rightarrow> (Inr r, l'))"
  by pat_completeness auto
termination
  by (relation "measure (\<lambda>(cfg, t, nd, n, l). link_rest l)") (auto dest!: negotiate_step_rest [OF sym])

declare negotiate_loop.simps [simp del]


section \<open>Sending: the offer of a file\<close>

definition zfile_info :: "str \<Rightarrow> byte list \<Rightarrow> byte list" where
  "zfile_info filename data =
     filename @ [0] @ dec_string (length data) @ str_of '' 0 0 0 0 '' @ dec_string (length data) @ [0]"

text \<open>Attempts so far, ZCRC answers so far, and the stale ZRINITs drained since the last ZFILE (or
  \<open>None\<close> when ZFILE is to be sent). The result is the position asked for, \<open>None\<close> for ZSKIP.\<close>

type_synonym offer_state = "nat \<times> nat \<times> nat option"

definition offer_step :: "zmodem_settings \<Rightarrow> bool \<Rightarrow> EscapeMode \<Rightarrow> str \<Rightarrow> byte list \<Rightarrow> offer_state \<Rightarrow>
    (transfer_error, offer_state + nat option) lk" where
  "offer_step cfg is_tcp esc filename data s l = (case s of
     (attempts, answers, None) \<Rightarrow>
       if retries_exhausted attempts (z_max_retries cfg) then give_up is_tcp TNoZrpos l
       else lbind (on_writer TWrite is_tcp (build_bin16_header_mode ZFILE [0, 0, 0, ZCBIN] esc
                     @ build_subpacket_mode (zfile_info filename data) ZCRCW esc))
              (\<lambda>_. lpure (Inl (attempts + 1, answers, Some 0))) l
   | (attempts, answers, Some drains) \<Rightarrow>
       (case timed_header (z_frame_timeout cfg) is_tcp l of
          (Inr h, l1) \<Rightarrow>
            if frame h = ZRPOS then (Inr (Inr (Some (unat (position h)))), l1)
            else if frame h = ZSKIP then (Inr (Inr None), l1)
            else if frame h = ZRINIT then
              (Inr (Inl (attempts, answers, if drains + 1 > z_max_retries cfg then None else Some (drains + 1))), l1)
            else if frame h = ZABORT then (Inl TReceiverAborted, l1)
            else if frame h = ZCRC then
              (if answers + 1 > z_max_retries cfg then give_up is_tcp TTooManyZcrc l1
               else let want = unat (position h);
                        n = (if want = 0 \<or> want > length data then length data else want)
                    in lbind (send_zcrc (crc32 (take n data)) is_tcp)
                         (\<lambda>_. lpure (Inl (attempts, answers + 1, Some drains))) l1)
            else (Inr (Inl (attempts, answers, None)), l1)
        | (Inl e, l1) \<Rightarrow>
            if is_peer_cancel e then (Inl (TRead ZPeerCancel), l1)
            else (Inr (Inl (attempts, answers, None)), l1)))"

definition offer_waits :: "offer_state \<Rightarrow> nat" where
  "offer_waits s = (if snd (snd s) = None then 1 else 0)"

lemma offer_step_rest:
  assumes "offer_step cfg t esc name data s l = (r, l')"
  shows "link_rest l' \<le> link_rest l"
    and "r = Inr (Inl s') \<Longrightarrow> link_rest l' < link_rest l \<or> link_rest l' = link_rest l \<and> offer_waits s' < offer_waits s"
proof -
  obtain a b c where s: "s = (a, b, c)" by (cases s)
  have "link_rest l' \<le> link_rest l \<and> (r = Inr (Inl s') \<longrightarrow>
      link_rest l' < link_rest l \<or> link_rest l' = link_rest l \<and> offer_waits s' < offer_waits s)"
  proof (cases c)
    case None
    have "on_writer TWrite t bytes l = (x, l1) \<Longrightarrow> link_rest l1 = link_rest l" for bytes x l1
      by (auto simp: on_writer_def link_rest_def split: prod.splits outcome.splits)
    with assms s None keeps_restD [OF keeps_rest_give_up] show ?thesis
      by (fastforce simp: offer_step_def offer_waits_def lbind_def lpure_def give_up_def
          split: if_splits prod.splits sum.splits)
  next
    case (Some d)
    have k: "keeps_rest (lbind (send_zcrc p t) (\<lambda>_. lpure (Inl (a, Suc b, Some d) :: offer_state + nat option)))" for p
      by (intro invar_intros)
    obtain y l1 where y: "timed_header (z_frame_timeout cfg) t l = (y, l1)"
      by (cases "timed_header (z_frame_timeout cfg) t l")
    show ?thesis
      using assms s Some y timed_header_rest [OF y]
      by (auto simp: offer_step_def is_peer_cancel_def Let_def split: sum.splits if_splits
          dest!: keeps_restD [OF k] keeps_restD [OF keeps_rest_give_up])
  qed
  then show "link_rest l' \<le> link_rest l" "r = Inr (Inl s') \<Longrightarrow>
      link_rest l' < link_rest l \<or> link_rest l' = link_rest l \<and> offer_waits s' < offer_waits s" by auto
qed

function offer_loop :: "zmodem_settings \<Rightarrow> bool \<Rightarrow> EscapeMode \<Rightarrow> str \<Rightarrow> byte list \<Rightarrow> offer_state \<Rightarrow>
    (transfer_error, nat option) lk" where
  "offer_loop cfg is_tcp esc filename data s l = (case offer_step cfg is_tcp esc filename data s l of
     (Inl e, l') \<Rightarrow> (Inl e, l')
   | (Inr (Inl s'), l') \<Rightarrow> offer_loop cfg is_tcp esc filename data s' l'
   | (Inr (Inr r), l') \<Rightarrow> (Inr r, l'))"
  by pat_completeness auto
termination
  by (relation "(\<lambda>(cfg, t, esc, n, d, s, l). link_rest l) <*mlex*> measure (\<lambda>(cfg, t, esc, n, d, s, l). offer_waits s)")
    (auto simp: mlex_prod_def wf_mlex dest!: offer_step_rest(2) [OF sym])

declare offer_loop.simps [simp del]


section \<open>Sending: the data run\<close>

text \<open>Where the run stands: a ZDATA header is due, a subpacket is due, or the acknowledgement of the
  subpacket just sent is waited for, with the stray ZACKs read past.\<close>

datatype run_phase = OpenFrame | SendChunk | AwaitAck nat

type_synonym run_state = "nat \<times> nat \<times> run_phase"

definition chunk_at :: "RxWindow \<Rightarrow> byte list \<Rightarrow> nat \<Rightarrow> nat" where
  "chunk_at win data pos = min (length data - pos) (rw_chunk win)"

definition run_step :: "zmodem_settings \<Rightarrow> bool \<Rightarrow> EscapeMode \<Rightarrow> RxWindow \<Rightarrow> byte list \<Rightarrow> run_state \<Rightarrow>
    (transfer_error, run_state + unit) lk" where
  "run_step cfg is_tcp esc win data s l = (case s of
     (pos, attempts, OpenFrame) \<Rightarrow>
       if pos \<ge> length data then (Inr (Inr ()), l)
       else if retries_exhausted attempts (z_max_retries cfg) then give_up is_tcp TRetransmissions l
       else lbind (on_writer TWrite is_tcp (build_bin16_header_mode ZDATA (to_le_bytes (word_of_nat pos)) esc))
              (\<lambda>_. lpure (Inl (pos, attempts + 1, SendChunk))) l
   | (pos, attempts, SendChunk) \<Rightarrow>
       if pos \<ge> length data then (Inr (Inr ()), l)
       else let n = chunk_at win data pos;
                is_last = (pos + n = length data);
                mark = (if is_last then ZCRCE else mid_file_marker win)
            in lbind (on_writer TWrite is_tcp (build_subpacket_mode (take n (drop pos data)) mark esc))
                 (\<lambda>_. lpure (if is_last then Inr () else Inl (pos, attempts, AwaitAck 0))) l
   | (pos, attempts, AwaitAck strays) \<Rightarrow>
       let n = chunk_at win data pos
       in case timed_header (z_frame_timeout cfg) is_tcp l of
            (Inr h, l1) \<Rightarrow>
              if frame h = ZACK then
                if unat (position h) = pos + n
                then (Inr (Inl (pos + n, 0, if segmented win then OpenFrame else SendChunk)), l1)
                else if strays + 1 > z_max_retries cfg then (Inr (Inl (pos, attempts, OpenFrame)), l1)
                else (Inr (Inl (pos, attempts, AwaitAck (strays + 1))), l1)
              else if frame h = ZRPOS
              then (Inr (Inl (min (unat (position h)) (length data), attempts, OpenFrame)), l1)
              else if frame h = ZABORT then (Inl TReceiverAborted, l1)
              else (Inr (Inl (pos, attempts, OpenFrame)), l1)
          | (Inl e, l1) \<Rightarrow>
              if is_peer_cancel e then (Inl (TRead ZPeerCancel), l1)
              else (Inr (Inl (pos, attempts, OpenFrame)), l1))"

definition run_ahead :: "run_state \<Rightarrow> nat" where
  "run_ahead s = (case snd (snd s) of OpenFrame \<Rightarrow> 2 | SendChunk \<Rightarrow> 1 | AwaitAck _ \<Rightarrow> 0)"

lemma write_rest: "on_writer err t bytes l = (x, l1) \<Longrightarrow> link_rest l1 = link_rest l"
  by (auto simp: on_writer_def link_rest_def split: prod.splits outcome.splits)

lemma run_step_rest:
  assumes "run_step cfg t esc win data s l = (r, l')"
  shows "link_rest l' \<le> link_rest l"
    and "r = Inr (Inl s') \<Longrightarrow> link_rest l' < link_rest l \<or> link_rest l' = link_rest l \<and> run_ahead s' < run_ahead s"
proof -
  obtain a b c where s: "s = (a, b, c)" by (cases s)
  have "link_rest l' \<le> link_rest l \<and> (r = Inr (Inl s') \<longrightarrow>
      link_rest l' < link_rest l \<or> link_rest l' = link_rest l \<and> run_ahead s' < run_ahead s)"
  proof (cases c)
    case OpenFrame
    with assms s keeps_restD [OF keeps_rest_give_up] write_rest show ?thesis
      by (fastforce simp: run_step_def run_ahead_def lbind_def lpure_def give_up_def
          split: if_splits prod.splits sum.splits)
  next
    case SendChunk
    with assms s write_rest show ?thesis
      by (fastforce simp: run_step_def run_ahead_def lbind_def lpure_def Let_def
          split: if_splits prod.splits sum.splits)
  next
    case (AwaitAck d)
    obtain y l1 where y: "timed_header (z_frame_timeout cfg) t l = (y, l1)"
      by (cases "timed_header (z_frame_timeout cfg) t l")
    show ?thesis
      using assms s AwaitAck y timed_header_rest [OF y]
      by (auto simp: run_step_def is_peer_cancel_def Let_def split: sum.splits if_splits)
  qed
  then show "link_rest l' \<le> link_rest l" "r = Inr (Inl s') \<Longrightarrow>
      link_rest l' < link_rest l \<or> link_rest l' = link_rest l \<and> run_ahead s' < run_ahead s" by auto
qed

function run_loop :: "zmodem_settings \<Rightarrow> bool \<Rightarrow> EscapeMode \<Rightarrow> RxWindow \<Rightarrow> byte list \<Rightarrow> run_state \<Rightarrow>
    (transfer_error, unit) lk" where
  "run_loop cfg is_tcp esc win data s l = (case run_step cfg is_tcp esc win data s l of
     (Inl e, l') \<Rightarrow> (Inl e, l')
   | (Inr (Inl s'), l') \<Rightarrow> run_loop cfg is_tcp esc win data s' l'
   | (Inr (Inr r), l') \<Rightarrow> (Inr r, l'))"
  by pat_completeness auto
termination
  by (relation "(\<lambda>(cfg, t, esc, w, d, s, l). link_rest l) <*mlex*> measure (\<lambda>(cfg, t, esc, w, d, s, l). run_ahead s)")
    (auto simp: mlex_prod_def wf_mlex dest!: run_step_rest(2) [OF sym])

declare run_loop.simps [simp del]

definition send_zdata_run :: "zmodem_settings \<Rightarrow> bool \<Rightarrow> EscapeMode \<Rightarrow> RxWindow \<Rightarrow> byte list \<Rightarrow> nat \<Rightarrow>
    (transfer_error, unit) lk" where
  "send_zdata_run cfg is_tcp esc win data start = run_loop cfg is_tcp esc win data (start, 0, OpenFrame)"

lemma keeps_rest_run_loop [invar_intros]: "keeps_rest (run_loop cfg t esc win data s)"
proof (rule keeps_restI)
  fix l r l' assume "run_loop cfg t esc win data s l = (r, l')"
  then show "link_rest l' \<le> link_rest l"
  proof (induction cfg t esc win data s l arbitrary: r l' rule: run_loop.induct)
    case (1 cfg t esc win data s l)
    obtain y l1 where y: "run_step cfg t esc win data s l = (y, l1)" by (cases "run_step cfg t esc win data s l")
    with "1.prems" "1.IH" [OF y [symmetric]] run_step_rest(1) [OF y] show ?case
      by (subst (asm) run_loop.simps) (fastforce split: sum.splits)
  qed
qed

lemma keeps_rest_run [invar_intros]: "keeps_rest (send_zdata_run cfg t esc win data start)"
  unfolding send_zdata_run_def by (intro invar_intros)


section \<open>Sending: end of file, end of session\<close>

definition eof_step :: "zmodem_settings \<Rightarrow> bool \<Rightarrow> EscapeMode \<Rightarrow> RxWindow \<Rightarrow> byte list \<Rightarrow> nat \<Rightarrow>
    (transfer_error, nat + unit) lk" where
  "eof_step cfg is_tcp esc win data attempts l =
     (if retries_exhausted attempts (z_max_retries cfg) then give_up is_tcp TNoZeofReply l
      else lbind (send_zeof (word_of_nat (length data)) is_tcp) (\<lambda>_ l1.
        case timed_header (max POST_ZEOF_ZRINIT_FLOOR_SECS (z_frame_timeout cfg)) is_tcp l1 of
          (Inr h, l2) \<Rightarrow>
            if frame h = ZRINIT then (Inr (Inr ()), l2)
            else if frame h = ZRPOS
            then lbind (send_zdata_run cfg is_tcp esc win data (min (unat (position h)) (length data)))
                   (\<lambda>_. lpure (Inl (attempts + 1))) l2
            else (Inr (Inl (attempts + 1)), l2)
        | (Inl e, l2) \<Rightarrow>
            if is_peer_cancel e then (Inl (TRead ZPeerCancel), l2) else (Inr (Inl (attempts + 1)), l2)) l)"

lemma eof_step_budget: "eof_step cfg t esc win data n l = (Inr (Inl m), l') \<Longrightarrow> n \<le> z_max_retries cfg \<and> m = n + 1"
  by (auto simp: eof_step_def retries_exhausted_def give_up_def lbind_def lpure_def
      split: if_splits prod.splits sum.splits)

function eof_loop :: "zmodem_settings \<Rightarrow> bool \<Rightarrow> EscapeMode \<Rightarrow> RxWindow \<Rightarrow> byte list \<Rightarrow> nat \<Rightarrow> (transfer_error, unit) lk" where
  "eof_loop cfg is_tcp esc win data attempts l = (case eof_step cfg is_tcp esc win data attempts l of
     (Inl e, l') \<Rightarrow> (Inl e, l')
   | (Inr (Inl n), l') \<Rightarrow> eof_loop cfg is_tcp esc win data n l'
   | (Inr (Inr r), l') \<Rightarrow> (Inr r, l'))"
  by pat_completeness auto
termination
  by (relation "measure (\<lambda>(cfg, t, esc, w, d, n, l). z_max_retries cfg + 1 - n)")
    (auto dest!: eof_step_budget [OF sym])

declare eof_loop.simps [simp del]

fun send_files :: "zmodem_settings \<Rightarrow> bool \<Rightarrow> EscapeMode \<Rightarrow> RxWindow \<Rightarrow> (str \<times> byte list) list \<Rightarrow> (transfer_error, unit) lk" where
  "send_files cfg is_tcp esc win [] = lpure ()"
| "send_files cfg is_tcp esc win ((filename, data) # files) =
     lbind (offer_loop cfg is_tcp esc filename data (0, 0, None)) (\<lambda>r. case r of
         None \<Rightarrow> send_files cfg is_tcp esc win files
       | Some start \<Rightarrow>
           lbind (send_zdata_run cfg is_tcp esc win data (min start (length data))) (\<lambda>_.
           lbind (eof_loop cfg is_tcp esc win data 0) (\<lambda>_.
             send_files cfg is_tcp esc win files)))"

text \<open>Waiting for the receiver's ZFIN under one deadline; nothing here can fail the transfer.\<close>

function await_zfin :: "bool \<Rightarrow> nat \<Rightarrow> link \<Rightarrow> link" where
  "await_zfin is_tcp deadline l =
     (if deadline \<le> now l then l
      else case on_reader (read_header (Some deadline) is_tcp) l of
        (Inr h, l1) \<Rightarrow> if frame h = ZFIN then l1 else await_zfin is_tcp deadline l1
      | (Inl _, l1) \<Rightarrow> l1)"
  by pat_completeness auto
termination
  by (relation "measure (\<lambda>(t, d, l). link_rest l)")
    (auto simp: on_reader_def link_rest_def ahead_def split: prod.splits dest!: read_header_rest_less)

declare await_zfin.simps [simp del]

definition zmodem_send :: "zmodem_settings \<Rightarrow> bool \<Rightarrow> (str \<times> byte list) list \<Rightarrow> wire \<Rightarrow> writer \<Rightarrow>
    (transfer_error + unit) \<times> link" where
  "zmodem_send cfg is_tcp files w wr =
     (let l0 = \<lparr>rst = default_ReadState, inw = w, outw = wr\<rparr>
      in case find (\<lambda>(name, data). length data > 2 ^ 32 - 1) files of
           Some (name, data) \<Rightarrow> (Inl (TUnsupportedSize name), l0)
         | None \<Rightarrow>
             lbind (send_zrqinit is_tcp) (\<lambda>_.
             lbind (negotiate_loop cfg is_tcp (now l0 + z_negotiation_timeout cfg * 1000) 0) (\<lambda>(esc, win).
             lbind (send_files cfg is_tcp esc win files) (\<lambda>_.
             lbind (send_zfin is_tcp) (\<lambda>_ l.
               (Inr (), snd (on_writer TWrite is_tcp [0x4F, 0x4F]
                  (await_zfin is_tcp (now l + z_frame_timeout cfg * 1000) l))))))) l0)"

end
