(* ===== verification/Bursts.thy ===== *)
theory Bursts
  imports Wire_Progress
begin

text \<open>
  A healthy line as the correctness theorems of the ZMODEM and XMODEM engines assume it: each frame
  arrives whole, soon after the one before and without long gaps inside. The lemmas split a burst at
  a read and give the link before and after an engine step on it.
\<close>

section \<open>Frames that arrive in one go\<close>

text \<open>
  A burst is one frame: its first byte comes after at most five seconds, the others at most 200 ms
  after the one before, and the last at most \<open>T\<close> milliseconds after the start.
\<close>

definition burst :: "nat \<Rightarrow> bool \<Rightarrow> byte list \<Rightarrow> wire \<Rightarrow> wire \<Rightarrow> bool" where
  "burst T t bs w v \<longleftrightarrow> clock v \<le> clock w + T \<and>
     (case wire_form t bs of [] \<Rightarrow> False
      | b # rest \<Rightarrow> \<exists>u. steady 5000 [b] w u \<and> steady 200 rest u v)"

fun bursts :: "nat \<Rightarrow> bool \<Rightarrow> byte list list \<Rightarrow> wire \<Rightarrow> wire \<Rightarrow> bool" where
  "bursts T t [] w w' \<longleftrightarrow> w' = w"
| "bursts T t (f # fs) w w' \<longleftrightarrow> (\<exists>v. burst T t f w v \<and> bursts T t fs v w')"

lemma bursts_append: "bursts T t (fs @ gs) w w' \<longleftrightarrow> (\<exists>v. bursts T t fs w v \<and> bursts T t gs v w')"
  by (induction fs arbitrary: w) auto

lemma steady_mono: "steady g bs w v \<Longrightarrow> g \<le> h \<Longrightarrow> steady h bs w v"
  by (induction bs arbitrary: w) (auto split: list.splits)

lemma steady_delivers_by:
  "steady 5000 bs w v \<Longrightarrow> clock v \<le> u \<Longrightarrow> delivers (Some u) bs w v"
proof (induction bs arbitrary: w)
  case (Cons b bs)
  then obtain d r where r: "feed w = (d, RxByte b) # r" "d \<le> 5000"
      "steady 5000 bs \<lparr>clock = clock w + d, feed = r\<rparr> v"
    by (auto split: list.splits)
  from Cons.IH [OF r(3) Cons.prems(2)] have "delivers (Some u) bs \<lparr>clock = clock w + d, feed = r\<rparr> v" .
  moreover from delivers_clock_mono [OF this] have "clock w + d \<le> u" using Cons.prems(2) by simp
  ultimately show ?case using r by (simp add: IAC_SEQUENCE_TIMEOUT_MS_def)
qed simp

text \<open>The two parts of a burst: the first arrives in time, the gaps in the second are short.\<close>

lemma burst_split:
  assumes "burst T t (xs @ ys) w v" "xs \<noteq> []" "clock w + T \<le> u"
  obtains m where "delivers (Some u) (wire_form t xs) w m" "steady 200 (wire_form t ys) m v" "clock v \<le> u"
proof -
  obtain b rest where b: "wire_form t xs = b # rest"
    using assms(2) by (cases "wire_form t xs"; cases xs) (auto simp: wire_form_Cons split: if_splits)
  with assms(1) obtain a where a: "steady 5000 [b] w a" "steady 200 (rest @ wire_form t ys) a v"
    by (auto simp: burst_def wire_form_append)
  then obtain m where m: "steady 200 rest a m" "steady 200 (wire_form t ys) m v"
    by (auto simp: steady_append)
  have v: "clock v \<le> u" using assms(1,3) by (simp add: burst_def)
  have "steady 5000 ([b] @ rest) w m" using a(1) steady_mono [OF m(1), of 5000] by (auto simp only: steady_append)
  moreover have "clock m \<le> u"
    using steady_delivers_by [OF steady_mono [OF m(2)] order_refl] v by (auto dest: delivers_clock_mono)
  ultimately have "delivers (Some u) (wire_form t xs) w m"
    unfolding b by (intro steady_delivers_by) auto
  with m(2) v show thesis by (intro that)
qed


lemma delivers_later: "delivers (Some u) bs w w' \<Longrightarrow> u \<le> u' \<Longrightarrow> delivers (Some u') bs w w'"
  by (induction bs arbitrary: w) (auto split: list.splits)

lemma wire_form_plain: "IAC \<notin> set bs \<Longrightarrow> wire_form t bs = bs"
  by (induction bs) (auto simp: wire_form_Cons)


section \<open>Links with a working writer\<close>

definition line :: "ReadState \<Rightarrow> wire \<Rightarrow> byte list \<Rightarrow> link" where
  "line st w out = \<lparr>rst = st, inw = w, outw = \<lparr>sent = out, broken = None\<rparr>\<rparr>"

lemma line_simps [simp]: "rst (line st w out) = st" "inw (line st w out) = w" "sent (outw (line st w out)) = out" "(line st w out)\<lparr>inw := v\<rparr> = line st v out"
  by (simp_all add: line_def)

lemma write_line: "on_writer err t bs (line st w out) = (Inr (), line st w (out @ wire_form t bs))"
  by (simp add: on_writer_def line_def raw_write_bytes_def wire_form_def)


text \<open>What the other side of frames has written.\<close>

definition written :: "bool \<Rightarrow> byte list list \<Rightarrow> byte list" where
  "written t fs = wire_form t (concat fs)"

lemma written_simps [simp]:
  "written t [] = []" "written t (f # fs) = wire_form t f @ written t fs"
  "written t (fs @ gs) = written t fs @ written t gs"
  by (simp_all add: written_def wire_form_append)


section \<open>Concrete lines\<close>

text \<open>A line that carries a byte each millisecond.\<close>

lemma steady_paced_on: "0 < g \<Longrightarrow> steady g bs (paced c (bs @ onward)) (paced (c + length bs) onward)"
  by (induction bs arbitrary: c) (auto simp: paced_def, metis add_Suc)

lemma burst_paced:
  assumes "f \<noteq> []" "2 * length f \<le> T"
  shows "burst T t f (paced c (wire_form t f @ onward)) (paced (c + length (wire_form t f)) onward)"
proof -
  obtain b rest where b: "wire_form t f = b # rest"
    using assms(1) by (cases "wire_form t f"; cases f) (auto simp: wire_form_Cons split: if_splits)
  have "length (wire_form t f) \<le> T" using wire_form_length [of t f] assms(2) by simp
  moreover have "steady 5000 [b] (paced c ([b] @ rest @ onward)) (paced (c + length [b]) (rest @ onward))"
    by (rule steady_paced_on) simp
  moreover have "steady 200 rest (paced (c + length [b]) (rest @ onward)) (paced (c + length [b] + length rest) onward)"
    by (rule steady_paced_on) simp
  moreover have "c + length [b] + length rest = c + length (wire_form t f)" by (simp add: b)
  moreover have "clock (paced (c + length (wire_form t f)) onward) \<le> clock (paced c (wire_form t f @ onward)) + T"
    using calculation(1) by (simp add: paced_def)
  ultimately show ?thesis unfolding burst_def b by (simp only: append.simps list.case) blast
qed

lemma bursts_paced:
  "list_all (\<lambda>f. f \<noteq> [] \<and> 2 * length f \<le> T) fs \<Longrightarrow>
   bursts T t fs (paced c (written t fs)) (paced (c + length (written t fs)) [])"
proof (induction fs arbitrary: c)
  case (Cons f fs)
  then have "burst T t f (paced c (wire_form t f @ written t fs)) (paced (c + length (wire_form t f)) (written t fs))"
    by (intro burst_paced) simp_all
  with Cons.IH [of "c + length (wire_form t f)"] Cons.prems show ?case by (auto simp: add.assoc)
qed simp


section \<open>Silence\<close>

text \<open>
  A line that stays quiet for more than \<open>k\<close> milliseconds, and the same line after that time: what
  comes next is a burst still.
\<close>

definition quiet :: "nat \<Rightarrow> wire \<Rightarrow> bool" where
  "quiet k w \<longleftrightarrow> (case feed w of [] \<Rightarrow> False | (d, x) # r \<Rightarrow> k < d)"

definition delayed :: "nat \<Rightarrow> wire \<Rightarrow> wire" where
  "delayed k w = (case feed w of [] \<Rightarrow> w | (d, x) # r \<Rightarrow> \<lparr>clock = clock w + k, feed = (d - k, x) # r\<rparr>)"

lemma burst_delayed:
  assumes "burst T t f w v" "quiet k w"
  shows "burst T t f (delayed k w) v"
proof -
  obtain b rest where b: "wire_form t f = b # rest" using assms(1) by (auto simp: burst_def split: list.splits)
  then obtain u where u: "steady 5000 [b] w u" "steady 200 rest u v" "clock v \<le> clock w + T"
    using assms(1) by (auto simp: burst_def)
  from assms(2) obtain d x r where f: "feed w = (d, x) # r" "k < d" by (auto simp: quiet_def split: list.splits)
  have "steady 5000 [b] (delayed k w) u" "clock v \<le> clock (delayed k w) + T" using u f by (auto simp: delayed_def)
  with u(2) b show ?thesis unfolding burst_def by auto
qed

lemma bursts_delayed: "bursts T t (f # fs) w v \<Longrightarrow> quiet k w \<Longrightarrow> bursts T t (f # fs) (delayed k w) v"
  by (auto intro: burst_delayed)

lemma read_nothing:
  assumes "quiet k w" "pushback st = None"
  shows "nvt_read_byte (Some (clock w + k)) t st w = (Elapsed, st, delayed k w)"
proof -
  obtain d x r where f: "feed w = (d, x) # r" "k < d" using assms(1) by (auto simp: quiet_def split: list.splits)
  then have "rx (Some (clock w + k)) w = (Elapsed, delayed k w)" by (auto simp: rx_def delayed_def Let_def)
  then show ?thesis using assms(2) by (simp add: nvt_read_byte_fresh raw_read_byte.simps [of _ t w])
qed

end
