(* ===== verification/Zmodem_Correct.thy ===== *)
theory Zmodem_Correct
  imports Zmodem_Transfer Bursts
begin

text \<open>
  What the ZMODEM engines guarantee. Two gateways whose frames reach each other in time transfer
  the batch: the receiver ends up with exactly the files its caller accepted, the sender learns of
  each of them, and each side writes what the other side was shown to read. Whatever the peer
  sends, the files a receiver returns are within its limits and made of checked subpackets only.
\<close>

section \<open>Headers, exactly\<close>

lemma bin16_exact:
  assumes "delivers dl (wire_form t (escape_all mode (fr # data @ [ucast (drop_bit 8 (crc16 (fr # data))), ucast (crc16 (fr # data))]))) w w'"
    and "pushback st = None" "length data = 4"
  shows "read_bin16_body dl t st w = (Inr \<lparr>frame = fr, hdata = data, crc_kind = Crc16\<rparr>, st, w')"
proof -
  let ?hi = "ucast (drop_bit 8 (crc16 (fr # data))) :: byte" and ?lo = "ucast (crc16 (fr # data)) :: byte"
  have "delivers dl (wire_form t (escape_all mode ((fr # data) @ [?hi, ?lo]) @ [])) w w'"
    using assms(1) by simp
  from escaped_source.times_get [OF this assms(2)] obtain v where v:
      "rtimes 5 (read_escaped_byte dl t) st w = (Inr (fr # data), st, v)"
      "delivers dl (wire_form t (escape_all mode (?hi # [?lo]) @ [])) v w'"
    using assms(3) by auto
  from v(2) assms(2) obtain v1 where v1: "read_escaped_byte dl t st v = (Inr ?hi, st, v1)"
      "delivers dl (wire_form t (escape_all mode (?lo # []) @ [])) v1 w'"
    by (rule escaped_source.get_first)
  from v1(2) assms(2) obtain v2 where "read_escaped_byte dl t st v1 = (Inr ?lo, st, v2)"
      "delivers dl (wire_form t (escape_all mode [] @ [])) v2 w'"
    by (rule escaped_source.get_first)
  with v(1) v1(1) assms(3) show ?thesis
    by (auto simp: read_bin16_body_def rbind_Inr crc16_halves header_of_def rpure_def)
qed

text \<open>A line end that arrives is swallowed to its last byte.\<close>

lemma trailer_exact:
  "steady 200 tr w v \<Longrightarrow> set tr \<subseteq> {0x0A, 0x8A, 0x0D, 0x11} \<Longrightarrow> clock v \<le> u \<Longrightarrow> pushback st = None \<Longrightarrow>
   hex_trailer (length tr) (Some u) t st w = (Inr (), st, v)"
proof (induction tr arbitrary: w)
  case (Cons b tr)
  then obtain d r where r: "feed w = (d, RxByte b) # r" "d \<le> 200"
      "steady 200 tr \<lparr>clock = clock w + d, feed = r\<rparr> v"
    by (auto split: list.splits)
  let ?w1 = "\<lparr>clock = clock w + d, feed = r\<rparr>"
  have "clock ?w1 \<le> clock v"
    using steady_delivers_by [OF steady_mono [OF r(3)], of "clock v"] by (auto dest: delivers_clock_mono)
  then have late: "clock w + d \<le> u" using Cons.prems(3) by simp
  have b: "b \<noteq> IAC" using Cons.prems(2) by auto
  have rd: "zget (if in_time (Some u) (clock w + 200) then Some (clock w + 200) else Some u) t st w = (Inr b, st, ?w1)"
    using r(1,2) late Cons.prems(4) b
    by (auto simp: zget_def nvt_read_byte_def raw_read_byte.simps [of _ t w] rx_def)
  have "hex_trailer (length tr) (Some u) t st ?w1 = (Inr (), st, v)"
    using Cons.prems(2-4) by (intro Cons.IH [OF r(3)]) auto
  with rd Cons.prems(2) show ?case by (auto simp: Let_def)
qed simp

lemma hex_exact:
  assumes "delivers (Some u) (wire_form t (concat (map hex_byte (fr # data @ [ucast (drop_bit 8 (crc16 (fr # data))), ucast (crc16 (fr # data))])))) w m"
    and "steady 200 tr m v" "tr = [0x0D, 0x0A] @ (if fr \<noteq> ZACK \<and> fr \<noteq> ZFIN then [0x11] else [])"
    and "clock v \<le> u" "pushback st = None" "length data = 4"
  shows "read_hex_body (Some u) t st w = (Inr \<lparr>frame = fr, hdata = data, crc_kind = Crc16\<rparr>, st, v)"
proof -
  define raw where "raw = fr # data @ [ucast (drop_bit 8 (crc16 (fr # data))), ucast (crc16 (fr # data))]"
  have raw: "length raw = 7" "raw ! 0 = fr" "take 5 raw = fr # data" "take 4 (drop (Suc 0) raw) = data"
    "push_bit 8 (ucast (raw ! 5)) OR ucast (raw ! 6) = crc16 (fr # data)"
    using assms(6) by (simp_all add: raw_def nth_append crc16_halves)
  have "delivers (Some u) (wire_form t (concat (map hex_byte (raw @ [])) @ [])) w m"
    using assms(1) by (simp add: raw_def)
  from hex_source.times_get [OF this assms(5), unfolded raw(1)] have
      x: "rtimes 7 (read_hex_pair (Some u) t) st w = (Inr raw, st, m)"
    by auto
  have len: "length tr = (if fr = ZACK \<or> fr = ZFIN then 2 else 3)" and "set tr \<subseteq> {0x0A, 0x8A, 0x0D, 0x11}"
    by (auto simp: assms(3))
  from trailer_exact [OF assms(2) this(2) assms(4,5), of t]
  have "hex_trailer (if fr = ZACK \<or> fr = ZFIN then 2 else 3) (Some u) t st m = (Inr (), st, v)"
    unfolding len .
  then show ?thesis
    unfolding read_hex_body_def rbind_def x by (simp add: raw header_of_def rpure_def)
qed

lemma read_header_burst:
  assumes "hdr \<in> header_forms fr data mode" "burst T t (ns @ hdr) w v"
    and "list_all (\<lambda>b. b \<noteq> ZPAD \<and> b \<noteq> ZDLE) ns" "length ns < 40000" "pushback st = None" "length data = 4"
    and "clock w + T \<le> u"
  shows "read_header (Some u) t st w = (Inr \<lparr>frame = fr, hdata = data, crc_kind = Crc16\<rparr>, st, v)"
proof -
  define n where "n = HEADER_HUNT_BUDGET - length ns - 1"
  have n: "HEADER_HUNT_BUDGET = length ns + Suc n" "1 < n"
    using assms(4) by (simp_all add: n_def HEADER_HUNT_BUDGET_def)
  let ?crc = "[ucast (drop_bit 8 (crc16 (fr # data))), ucast (crc16 (fr # data))]"
  show ?thesis
  proof (cases "hdr = build_hex_header fr data")
    case True
    let ?digits = "concat (map hex_byte (fr # data @ ?crc))"
    define tr :: "byte list" where "tr = [0x0D, 0x0A] @ (if fr \<noteq> ZACK \<and> fr \<noteq> ZFIN then [0x11] else [])"
    have "burst T t ((ns @ [ZPAD, ZPAD, ZDLE, ZHEX] @ ?digits) @ tr) w v"
      using assms(2) by (simp add: True build_hex_header_bytes tr_def)
    from burst_split [OF this _ assms(7)] obtain m where m:
      "delivers (Some u) (wire_form t (ns @ [ZPAD, ZPAD, ZDLE, ZHEX] @ ?digits)) w m"
      "steady 200 (wire_form t tr) m v" "clock v \<le> u" by auto
    have tr: "wire_form t tr = tr" by (rule wire_form_plain) (simp add: tr_def)
    from header_loop_noise [OF assms(3) m(1) assms(5), of "Suc n"] obtain x where
      x: "read_header (Some u) t st w = header_loop (Suc n) 0 (Some u) t st x"
      "delivers (Some u) (wire_form t (replicate (Suc 1) ZPAD @ ZDLE # ZHEX # ?digits)) x m"
      by (auto simp: read_header_def n(1))
    from header_loop_prologue [OF x(2) assms(5) n(2)] obtain y where
      "header_loop (Suc n) 0 (Some u) t st x = read_hex_body (Some u) t st y"
      "delivers (Some u) (wire_form t ?digits) y m" by auto
    with hex_exact [OF _ m(2) [unfolded tr] tr_def m(3) assms(5,6)] x(1) show ?thesis by simp
  next
    case False
    have e: "hdr = replicate (Suc 0) ZPAD @ ZDLE # ZBIN # escape_all mode (fr # data @ ?crc)"
      using assms(1) False by (simp add: header_forms_def build_bin16_header_mode_def escape_all_def Let_def)
    have "burst T t ((ns @ hdr) @ []) w v" using assms(2) by simp
    from burst_split [OF this _ assms(7)] have d: "delivers (Some u) (wire_form t (ns @ hdr)) w v"
      using e by auto
    from header_loop_noise [OF assms(3) d assms(5), of "Suc n"] obtain x where
      x: "read_header (Some u) t st w = header_loop (Suc n) 0 (Some u) t st x" "delivers (Some u) (wire_form t hdr) x v"
      by (auto simp: read_header_def n(1))
    from header_loop_prologue [OF x(2) [unfolded e] assms(5), of n] n(2) obtain y where
      "header_loop (Suc n) 0 (Some u) t st x = read_bin16_body (Some u) t st y"
      "delivers (Some u) (wire_form t (escape_all mode (fr # data @ ?crc))) y v" by auto
    with bin16_exact [OF _ assms(5,6)] x(1) show ?thesis by simp
  qed
qed

lemma timed_header_burst:
  assumes "hdr \<in> header_forms fr data mode" "burst T t (ns @ hdr) (inw l) v"
    and "list_all (\<lambda>b. b \<noteq> ZPAD \<and> b \<noteq> ZDLE) ns" "length ns < 40000" "pushback (rst l) = None" "length data = 4"
    and "T \<le> secs * 1000"
  shows "timed_header secs t l = (Inr \<lparr>frame = fr, hdata = data, crc_kind = Crc16\<rparr>, l\<lparr>inw := v\<rparr>)"
proof -
  have "clock (inw l) + T \<le> now l + secs * 1000" using assms(7) by simp
  from read_header_burst [OF assms(1-6) this] show ?thesis by (simp add: timed_header_def on_reader_def)
qed


section \<open>Subpackets, exactly\<close>

text \<open>Under a deadline that every unit's own timer allows.\<close>

lemma frame_unit:
  assumes "delivers (Some u) (wire_form t (b # bs)) w w'" "u \<le> clock w + secs * 1000" "pushback st = None" "b \<notin> flow"
  obtains v where "read_subpacket_byte (\<lambda>dl. read_frame_byte dl t) secs st w = (Inr b, st, v)"
    "delivers (Some u) (wire_form t bs) v w'" "u \<le> clock v + secs * 1000"
proof -
  have "delivers (Some u) (wire_form t [b] @ wire_form t bs) w w'"
    using assms(1) by (simp add: wire_form_append [symmetric])
  then obtain v where v: "delivers (Some u) (wire_form t (b # [])) w v" "delivers (Some u) (wire_form t bs) v w'"
    by (auto simp: delivers_append)
  from read_frame [OF delivers_later [OF v(1) assms(2)] assms(3,4)]
  have "read_frame_byte (Some (clock w + secs * 1000)) t st w = (Inr b, st, v)" by auto
  then have "read_subpacket_byte (\<lambda>dl. read_frame_byte dl t) secs st w = (Inr b, st, v)"
    by (simp add: read_subpacket_byte_def)
  moreover have "u \<le> clock v + secs * 1000" using delivers_clock_mono [OF v(1)] assms(2) by simp
  ultimately show thesis using v(2) by (intro that)
qed

lemma escaped_unit:
  assumes "delivers (Some u) (wire_form t (push_escaped_mode b mode @ bs)) w w'" "u \<le> clock w + secs * 1000"
    and "pushback st = None"
  obtains v where "read_subpacket_byte (\<lambda>dl. read_escaped_byte dl t) secs st w = (Inr b, st, v)"
    "delivers (Some u) (wire_form t bs) v w'" "u \<le> clock v + secs * 1000"
proof -
  from assms(1) obtain v where v: "delivers (Some u) (wire_form t (push_escaped_mode b mode @ [])) w v"
      "delivers (Some u) (wire_form t bs) v w'"
    by (auto simp: wire_form_append delivers_append)
  from read_escaped [OF delivers_later [OF v(1) assms(2)] assms(3)]
  have "read_escaped_byte (Some (clock w + secs * 1000)) t st w = (Inr b, st, v)" by auto
  then have "read_subpacket_byte (\<lambda>dl. read_escaped_byte dl t) secs st w = (Inr b, st, v)"
    by (simp add: read_subpacket_byte_def)
  moreover have "u \<le> clock v + secs * 1000" using delivers_clock_mono [OF v(1)] assms(2) by simp
  ultimately show thesis using v(2) by (intro that)
qed

lemma data_unit:
  assumes "delivers (Some u) (wire_form t (push_escaped_mode b mode @ bs)) w w'" "u \<le> clock w + secs * 1000"
    and "pushback st = None"
  obtains v where "subpacket_loop (Suc room) t k secs acc st w = subpacket_loop room t k secs (acc @ [b]) st v"
    "delivers (Some u) (wire_form t bs) v w'" "u \<le> clock v + secs * 1000"
proof (cases "needs_zdle_escape_mode b mode")
  case True
  with assms(1) have "delivers (Some u) (wire_form t (ZDLE # (b XOR 0x40) # bs)) w w'" by (simp add: push_escaped_mode_def)
  then obtain x where x: "read_subpacket_byte (\<lambda>dl. read_frame_byte dl t) secs st w = (Inr ZDLE, st, x)"
      "delivers (Some u) (wire_form t ((b XOR 0x40) # bs)) x w'" "u \<le> clock x + secs * 1000"
    using assms(2,3) ZDLE_not_flow by (rule frame_unit)
  from x(2,3) assms(3) escaped_byte(1) [OF True] obtain v where
      "read_subpacket_byte (\<lambda>dl. read_frame_byte dl t) secs st x = (Inr (b XOR 0x40), st, v)"
      "delivers (Some u) (wire_form t bs) v w'" "u \<le> clock v + secs * 1000"
    by (rule frame_unit)
  with x(1) escaped_byte(2,3) [OF True] show thesis
    by (intro that [of v]) (auto simp: rbind_Inr rlift_def rpure_def Let_def)
next
  case False
  with assms(1) have "delivers (Some u) (wire_form t (b # bs)) w w'" by (simp add: push_escaped_mode_def)
  then obtain v where "read_subpacket_byte (\<lambda>dl. read_frame_byte dl t) secs st w = (Inr b, st, v)"
      "delivers (Some u) (wire_form t bs) v w'" "u \<le> clock v + secs * 1000"
    using assms(2,3) unescaped_byte(2) [OF False] by (rule frame_unit)
  with unescaped_byte(1) [OF False] show thesis
    by (intro that [of v]) (auto simp: rbind_Inr Let_def)
qed

lemma data_units:
  "delivers (Some u) (wire_form t (escape_all mode data @ bs)) w w' \<Longrightarrow> u \<le> clock w + secs * 1000 \<Longrightarrow> pushback st = None \<Longrightarrow>
   \<exists>v. subpacket_loop (length data + room) t k secs acc st w = subpacket_loop room t k secs (acc @ data) st v \<and>
     delivers (Some u) (wire_form t bs) v w' \<and> u \<le> clock v + secs * 1000"
proof (induction data arbitrary: acc w)
  case (Cons b data)
  from Cons.prems(1) have "delivers (Some u) (wire_form t (push_escaped_mode b mode @ (escape_all mode data @ bs))) w w'" by simp
  then obtain v where v: "subpacket_loop (Suc (length data + room)) t k secs acc st w
        = subpacket_loop (length data + room) t k secs (acc @ [b]) st v"
      "delivers (Some u) (wire_form t (escape_all mode data @ bs)) v w'" "u \<le> clock v + secs * 1000"
    using Cons.prems(2,3) by (rule data_unit)
  from Cons.IH [OF v(2,3) Cons.prems(3), of "acc @ [b]"] v(1) show ?case by simp
qed auto

lemma subpacket_built:
  "build_subpacket_mode data e mode = escape_all mode data @ ZDLE # e #
     push_escaped_mode (ucast (drop_bit 8 (crc16 (data @ [e])))) mode @ push_escaped_mode (ucast (crc16 (data @ [e]))) mode @ []"
  by (simp add: build_subpacket_mode_def crc16_append escape_all_def Let_def)

lemma next_subpacket_raw:
  assumes "burst T t (escape_all mode data @ ZDLE # e # push_escaped_mode hi mode @ push_escaped_mode lo mode) (inw l) v"
    and "T \<le> secs * 1000" "pushback (rst l) = None"
    and "e \<in> {ZCRCE, ZCRCG, ZCRCQ, ZCRCW}" "length data \<le> max_len"
  shows "next_subpacket t Crc16 max_len secs l =
    (if crc16 (data @ [e]) \<noteq> (push_bit 8 (ucast hi) OR ucast lo) then Inl ZSubCrc
     else Inr \<lparr>sdata = data, end_marker = e\<rparr>, l\<lparr>inw := v\<rparr>)"
proof -
  define u where "u = now l + T"
  let ?st = "rst l" and ?tail = "push_escaped_mode hi mode @ push_escaped_mode lo mode @ []"
  let ?get = "read_subpacket_byte (\<lambda>dl. read_escaped_byte dl t) secs"
  let ?res = "if crc16 (data @ [e]) \<noteq> (push_bit 8 (ucast hi) OR ucast lo) then Inl ZSubCrc
     else Inr \<lparr>sdata = data, end_marker = e\<rparr>"
  have "burst T t ((escape_all mode data @ ZDLE # e # ?tail) @ []) (inw l) v" using assms(1) by simp
  from burst_split [OF this, of u] have d: "delivers (Some u) (wire_form t (escape_all mode data @ ZDLE # e # ?tail)) (inw l) v"
    by (auto simp: u_def)
  have u: "u \<le> now l + secs * 1000" using assms(2) by (simp add: u_def)
  from data_units [OF d u assms(3), of "Suc (max_len - length data)" Crc16 "[]"] obtain a where
    a: "subpacket_loop (Suc max_len) t Crc16 secs [] ?st (inw l) = subpacket_loop (Suc (max_len - length data)) t Crc16 secs data ?st a"
    "delivers (Some u) (wire_form t (ZDLE # e # ?tail)) a v" "u \<le> clock a + secs * 1000"
    using assms(5) by auto
  from a(2,3) assms(3) ZDLE_not_flow obtain b where
    b: "read_subpacket_byte (\<lambda>dl. read_frame_byte dl t) secs ?st a = (Inr ZDLE, ?st, b)"
    "delivers (Some u) (wire_form t (e # ?tail)) b v" "u \<le> clock b + secs * 1000" by (rule frame_unit)
  have "e \<notin> flow" using assms(4) by auto
  with b(2,3) assms(3) obtain c where
    c: "read_subpacket_byte (\<lambda>dl. read_frame_byte dl t) secs ?st b = (Inr e, ?st, c)"
    "delivers (Some u) (wire_form t ?tail) c v" "u \<le> clock c + secs * 1000" by (rule frame_unit)
  from c(2,3) assms(3) obtain f where
    f: "?get ?st c = (Inr hi, ?st, f)" "delivers (Some u) (wire_form t (push_escaped_mode lo mode @ [])) f v"
    "u \<le> clock f + secs * 1000" by (rule escaped_unit)
  from f(2,3) assms(3) obtain g where "?get ?st f = (Inr lo, ?st, g)" "delivers (Some u) (wire_form t []) g v"
    by (rule escaped_unit)
  then have "finish_subpacket t Crc16 secs data e ?st c = (?res, ?st, v)"
    using f(1) by (simp add: finish_subpacket_def rbind_Inr rpure_def rfail_def Let_def)
  with a(1) b(1) c(1) assms(4) have "read_subpacket t Crc16 max_len secs ?st (inw l) = (?res, ?st, v)"
    by (auto simp: read_subpacket_def rbind_Inr Let_def)
  then show ?thesis by (simp add: next_subpacket_def on_reader_def)
qed

lemma next_subpacket_burst:
  assumes "burst T t (build_subpacket_mode data e mode) (inw l) v" "T \<le> secs * 1000" "pushback (rst l) = None"
    and "e \<in> {ZCRCE, ZCRCG, ZCRCQ, ZCRCW}" "length data \<le> max_len"
  shows "next_subpacket t Crc16 max_len secs l = (Inr \<lparr>sdata = data, end_marker = e\<rparr>, l\<lparr>inw := v\<rparr>)"
proof -
  have "burst T t (escape_all mode data @ ZDLE # e # push_escaped_mode (ucast (drop_bit 8 (crc16 (data @ [e])))) mode
      @ push_escaped_mode (ucast (crc16 (data @ [e]))) mode) (inw l) v"
    using assms(1) by (simp add: subpacket_built)
  from next_subpacket_raw [OF this assms(2-5)] show ?thesis by (simp add: crc16_halves)
qed

text \<open>A subpacket one of whose data bytes was replaced on the way.\<close>

definition damaged_subpacket :: "byte list \<Rightarrow> nat \<Rightarrow> byte \<Rightarrow> byte \<Rightarrow> EscapeMode \<Rightarrow> byte list" where
  "damaged_subpacket data i b e mode = escape_all mode (data[i := b]) @ ZDLE # e #
     push_escaped_mode (ucast (drop_bit 8 (crc16 (data @ [e])))) mode @ push_escaped_mode (ucast (crc16 (data @ [e]))) mode"

lemma next_subpacket_damaged:
  assumes "burst T t (damaged_subpacket data i b e mode) (inw l) v" "T \<le> secs * 1000" "pushback (rst l) = None"
    and "e \<in> {ZCRCE, ZCRCG, ZCRCQ, ZCRCW}" "length data \<le> max_len" "i < length data" "b \<noteq> data ! i"
  shows "next_subpacket t Crc16 max_len secs l = (Inl ZSubCrc, l\<lparr>inw := v\<rparr>)"
proof -
  have "crc16 ((data @ [e])[i := b]) \<noteq> crc16 (data @ [e])"
    using assms(6,7) by (intro crc16_detects) (auto simp: nth_append)
  then have "crc16 (data[i := b] @ [e]) \<noteq> crc16 (data @ [e])"
    using assms(6) by (simp add: list_update_append)
  with next_subpacket_raw [OF assms(1) [unfolded damaged_subpacket_def] assms(2-4), of max_len] assms(5)
  show ?thesis by (simp add: crc16_halves)
qed


section \<open>The file information survives\<close>

lemma split_by_field:
  "(\<forall>b\<in>set xs. \<not> sep b) \<Longrightarrow> sep c \<Longrightarrow> split_by sep (xs @ c # ys) = xs # split_by sep ys"
  by (induction xs) auto

lemma from_utf8_digits: "from_utf8 (dec_string n) = Some (dec_string n)"
  using radix_string_digits(3) [of 10 n] by (simp add: from_utf8_def digits_ascii ascii_valid)

lemma dec_string_no_sep: "\<forall>b\<in>set (dec_string n). \<not> (b = 0x20 \<or> b = 0)"
  using radix_string_digits(3) [of 10 n] by (auto simp: list_all_iff)

lemma info_fields:
  "str_of '' 0 0 0 0 '' = [0x20, 0x30, 0x20, 0x30, 0x20, 0x30, 0x20, 0x30, 0x20]"
  by (simp add: str_of_def)

lemma info_tokens_built:
  "info_tokens (dec_string n @ str_of '' 0 0 0 0 '' @ dec_string m @ [0]) =
     [dec_string n, [0x30], [0x30], [0x30], [0x30], dec_string m]"
proof -
  have z: "from_utf8 [0x30] = Some [0x30]" by (simp add: from_utf8_def utf8_valid.simps(2) utf8_next_def)
  have "split_by (\<lambda>b. b = 0x20 \<or> b = 0) (dec_string n @ 0x20 # [0x30, 0x20, 0x30, 0x20, 0x30, 0x20, 0x30, 0x20] @ dec_string m @ [0]) =
     dec_string n # [0x30] # [0x30] # [0x30] # [0x30] # dec_string m # [[]]"
    by (subst split_by_field [OF dec_string_no_sep], simp)
      (simp add: split_by_field [where c = 0 and ys = "[]", OF dec_string_no_sep])
  then show ?thesis
    using radix_string_digits(1) [of 10]
    by (simp add: info_tokens_def info_fields List.map_filter_simps from_utf8_digits z)
qed

lemma zfile_info_parsed:
  assumes "utf8_valid name" "0 \<notin> set name" "length data < 2 ^ 64"
  shows "parse_zfile_info (zfile_info name data) =
    Some \<lparr>zi_filename = name, zi_length = Some (length data), zi_modtime = None, zi_mode = None\<rparr>"
proof -
  have tw: "takeWhile (\<lambda>b. b \<noteq> 0) (zfile_info name data) = name"
    unfolding zfile_info_def using assms(2) by (subst takeWhile_append2) auto
  have dr: "drop (length name + 1) (zfile_info name data)
      = dec_string (length data) @ str_of '' 0 0 0 0 '' @ dec_string (length data) @ [0]"
    by (simp add: zfile_info_def)
  have z: "parse_uint 8 b [0x30] = Some 0" if "0 < b" for b
    using that by (simp add: parse_uint_def is_radix_digit_def digit_value_def)
  have "0 \<in> set (zfile_info name data)" by (simp add: zfile_info_def)
  with assms(1,3) show ?thesis
    unfolding parse_zfile_info_def Let_def tw dr info_tokens_built
    by (simp add: parse_radix_string lossy_valid z nonzero_def)
qed


section \<open>The frames of a batch\<close>

definition plain :: EscapeMode where "plain = \<lparr>escctl = False, esc8 = False\<rparr>"
definition streaming :: RxWindow where "streaming = \<lparr>rw_chunk = 1024, segmented = False\<rparr>"

definition hex_u32 :: "byte \<Rightarrow> nat \<Rightarrow> byte list" where
  "hex_u32 fr n = build_hex_header fr (to_le_bytes (word_of_nat n))"

definition zrinit_frame :: "byte list" where
  "zrinit_frame = build_hex_header ZRINIT [0, 0, 0, CANFDX OR CANOVIO OR CANFC32]"

text \<open>The data of a file: subpackets of 1024 bytes, each acknowledged, and a last one that is not.\<close>

function chunk_frames :: "byte list \<Rightarrow> byte list list" where
  "chunk_frames data =
     (if length data \<le> 1024 then [build_subpacket_mode data ZCRCE plain]
      else build_subpacket_mode (take 1024 data) ZCRCQ plain # chunk_frames (drop 1024 data))"
  by pat_completeness auto
termination by (relation "measure length") auto

function ack_frames :: "nat \<Rightarrow> byte list \<Rightarrow> byte list list" where
  "ack_frames p data =
     (if length data \<le> 1024 then [] else hex_u32 ZACK (p + 1024) # ack_frames (p + 1024) (drop 1024 data))"
  by pat_completeness auto
termination by (relation "measure (\<lambda>(p, d). length d)") auto

declare chunk_frames.simps [simp del] ack_frames.simps [simp del]

definition offer_frames :: "str \<Rightarrow> byte list \<Rightarrow> byte list list" where
  "offer_frames name data =
     [build_bin16_header_mode ZFILE [0, 0, 0, ZCBIN] plain, build_subpacket_mode (zfile_info name data) ZCRCW plain]"

definition data_frames :: "byte list \<Rightarrow> byte list list" where
  "data_frames data =
     (if data = [] then [] else build_bin16_header_mode ZDATA (to_le_bytes 0) plain # chunk_frames data)"

fun sender_file :: "(str \<times> byte list) \<times> bool \<Rightarrow> byte list list" where
  "sender_file ((name, data), accepted) = offer_frames name data @
     (if accepted then data_frames data @ [hex_u32 ZEOF (length data)] else [])"

fun receiver_file :: "(str \<times> byte list) \<times> bool \<Rightarrow> byte list list" where
  "receiver_file ((name, data), accepted) =
     (if accepted then [hex_u32 ZRPOS 0] @ ack_frames 0 data @ [zrinit_frame] else [build_hex_header ZSKIP [0, 0, 0, 0]])"

definition sender_frames :: "((str \<times> byte list) \<times> bool) list \<Rightarrow> byte list list" where
  "sender_frames files = [build_hex_header ZRQINIT [0, 0, 0, 0]] @ concat (map sender_file files)
     @ [build_hex_header ZFIN [0, 0, 0, 0]]"

definition receiver_frames :: "((str \<times> byte list) \<times> bool) list \<Rightarrow> byte list list" where
  "receiver_frames files = [[0x72, 0x7A, 0x0D] @ zrinit_frame, zrinit_frame] @ concat (map receiver_file files)
     @ [build_hex_header ZFIN [0, 0, 0, 0]]"

text \<open>What a caller answers to the files of a batch, one after the other.\<close>

fun choices :: "'d decider \<Rightarrow> 'd \<Rightarrow> nat \<Rightarrow> (str \<times> byte list) list \<Rightarrow> bool list" where
  "choices decide caller i [] = []"
| "choices decide caller i ((name, data) # files) =
     (case decide caller i name (Some (length data)) of (accepted, caller') \<Rightarrow>
        (accepted \<and> length data \<le> MAX_FILE_SIZE) # choices decide caller' (i + 1) files)"

lemma length_choices [simp]: "length (choices decide c i files) = length files"
  by (induction files arbitrary: c i) (auto split: prod.splits)


section \<open>Steps of a healthy link\<close>

lemma header_line:
  assumes "burst T t hdr w v" "hdr \<in> header_forms fr data mode" "pushback st = None" "length data = 4" "T \<le> secs * 1000"
  shows "timed_header secs t (line st w out) = (Inr \<lparr>frame = fr, hdata = data, crc_kind = Crc16\<rparr>, line st v out)"
  using timed_header_burst [of hdr fr data mode T t "[]" "line st w out" v secs] assms by simp

lemma hex_line:
  assumes "burst T t (build_hex_header fr data) w v" "pushback st = None" "length data = 4" "T \<le> secs * 1000"
  shows "timed_header secs t (line st w out) = (Inr \<lparr>frame = fr, hdata = data, crc_kind = Crc16\<rparr>, line st v out)"
  using header_line [OF assms(1) _ assms(2-4)] by (simp add: header_forms_def)

lemma subpacket_line:
  assumes "burst T t (build_subpacket_mode data e mode) w v" "pushback st = None" "T \<le> secs * 1000"
    and "e \<in> {ZCRCE, ZCRCG, ZCRCQ, ZCRCW}" "length data \<le> max_len"
  shows "next_subpacket t Crc16 max_len secs (line st w out) = (Inr \<lparr>sdata = data, end_marker = e\<rparr>, line st v out)"
  using next_subpacket_burst [of T t data e mode "line st w out" v secs max_len] assms by simp

lemma length_to_le [simp]: "length (to_le_bytes p) = 4"
  by (simp add: to_le_bytes_def)

lemma position_to_le: "position \<lparr>frame = fr, hdata = to_le_bytes p, crc_kind = k\<rparr> = p"
proof -
  have "from_le_bytes (to_le_bytes p) = p"
  proof (rule bit_word_eqI)
    fix n assume "n < LENGTH(32)"
    then consider "n < 8" | "8 \<le> n" "n < 16" | "16 \<le> n" "n < 24" | "24 \<le> n" "n < 32" by fastforce
    then show "bit (from_le_bytes (to_le_bytes p)) n \<longleftrightarrow> bit p n"
      by cases (auto simp: from_le_bytes_def to_le_bytes_def bit_simps)
  qed
  then show ?thesis by (simp add: position_def)
qed

lemma to_le_0: "to_le_bytes 0 = [0, 0, 0, 0]"
  by (simp add: to_le_bytes_def)

lemma unat_pos: "n \<le> MAX_FILE_SIZE \<Longrightarrow> unat (word_of_nat n :: u32) = n"
  by (simp add: MAX_FILE_SIZE_def unsigned_of_nat take_bit_nat_eq_self)


section \<open>The receiver on a sender's frames\<close>

lemma data_loop_on: "data_step cfg t s l = (Inr (Inl s'), l') \<Longrightarrow> data_loop cfg t s l = data_loop cfg t s' l'"
  by (simp add: data_loop.simps [of cfg t s l])

lemma data_loop_done: "data_step cfg t s l = (Inr (Inr data), l') \<Longrightarrow> data_loop cfg t s l = (Inr data, l')"
  by (simp add: data_loop.simps [of cfg t s l])

text \<open>Between frames the receiver has what came so far, and expects the position after it.\<close>

definition holds :: "data_state \<Rightarrow> byte list \<Rightarrow> bool" where
  "holds s data \<longleftrightarrow> ds_data s = data \<and> ds_pos s = word_of_nat (length data)"

lemma saturating_add32_exact:
  "n + k \<le> MAX_FILE_SIZE \<Longrightarrow> saturating_add32 (word_of_nat n) k = word_of_nat (n + k)"
  by (simp add: saturating_add32_def unat_pos) (simp add: MAX_FILE_SIZE_def)

lemma take_good:
  assumes "holds s have" "data \<noteq> []" "length have + length data \<le> MAX_FILE_SIZE" "e = ZCRCQ \<or> e = ZCRCE"
  obtains s' where "holds s' (have @ data)" "ds_open s' = (if e = ZCRCQ then ds_open s else None)"
    "take_subpacket t \<lparr>sdata = data, end_marker = e\<rparr> s (line st w out) =
       (Inr (Inl s'), line st w (out @ (if e = ZCRCQ then wire_form t (hex_u32 ZACK (length have + length data)) else [])))"
proof -
  define s' where "s' = s\<lparr>ds_data := have @ data, ds_pos := word_of_nat (length have + length data),
    ds_errors := 0, ds_empty := 0, ds_eof_ignored := False, ds_open := if e = ZCRCQ then ds_open s else None\<rparr>"
  have "holds s' (have @ data)" by (simp add: s'_def holds_def)
  moreover have "ds_open s' = (if e = ZCRCQ then ds_open s else None)" by (simp add: s'_def)
  moreover have "saturating_add32 (ds_pos s) (length data) = word_of_nat (length have + length data)"
    using assms(1,3) by (simp add: holds_def saturating_add32_exact)
  then have "take_subpacket t \<lparr>sdata = data, end_marker = e\<rparr> s (line st w out) =
       (Inr (Inl s'), line st w (out @ (if e = ZCRCQ then wire_form t (hex_u32 ZACK (length have + length data)) else [])))"
    using assms by (auto simp: take_subpacket_def s'_def holds_def lbind_def lpure_def send_zack_def send_hex_def
        write_line hex_u32_def MAX_EMPTY_SUBPACKETS_def Let_def)
  ultimately show thesis by (rule that)
qed

lemma data_chunk:
  assumes "burst T t (build_subpacket_mode data e plain) w v" "T \<le> z_frame_timeout cfg * 1000" "pushback st = None"
    and "holds s have" "data \<noteq> []" "length data \<le> 1024" "length have + length data \<le> MAX_FILE_SIZE"
    and "e = ZCRCQ \<or> e = ZCRCE" "ds_open s = Some Crc16"
  shows "\<exists>s'. holds s' (have @ data) \<and> ds_open s' = (if e = ZCRCQ then Some Crc16 else None) \<and>
    data_loop cfg t s (line st w out) = data_loop cfg t s'
       (line st v (out @ (if e = ZCRCQ then wire_form t (hex_u32 ZACK (length have + length data)) else [])))"
proof -
  have "next_subpacket t Crc16 MAX_SUBPACKET_DATA (z_frame_timeout cfg) (line st w out)
      = (Inr \<lparr>sdata = data, end_marker = e\<rparr>, line st v out)"
    using assms(6,8) by (intro subpacket_line [OF assms(1,3,2)]) (auto simp: MAX_SUBPACKET_DATA_def)
  moreover obtain s' where s': "holds s' (have @ data)" "ds_open s' = (if e = ZCRCQ then Some Crc16 else None)"
    "take_subpacket t \<lparr>sdata = data, end_marker = e\<rparr> s (line st v out) =
       (Inr (Inl s'), line st v (out @ (if e = ZCRCQ then wire_form t (hex_u32 ZACK (length have + length data)) else [])))"
    using take_good [OF assms(4,5,7,8), where w = v] assms(9) by metis
  ultimately have "data_loop cfg t s (line st w out) = data_loop cfg t s'
       (line st v (out @ (if e = ZCRCQ then wire_form t (hex_u32 ZACK (length have + length data)) else [])))"
    using assms(9) by (intro data_loop_on) (simp add: data_step_def)
  with s'(1,2) show ?thesis by blast
qed

lemma data_chunks:
  assumes "T \<le> z_frame_timeout cfg * 1000" "pushback st = None"
  shows "bursts T t (chunk_frames data) w v \<Longrightarrow> holds s have \<Longrightarrow> data \<noteq> [] \<Longrightarrow>
    length have + length data \<le> MAX_FILE_SIZE \<Longrightarrow> ds_open s = Some Crc16 \<Longrightarrow>
    \<exists>s'. holds s' (have @ data) \<and> ds_open s' = None \<and>
      data_loop cfg t s (line st w out) = data_loop cfg t s' (line st v (out @ written t (ack_frames (length have) data)))"
proof (induction data arbitrary: s "have" w out rule: chunk_frames.induct)
  case (1 data)
  show ?case
  proof (cases "length data \<le> 1024")
    case True
    with "1.prems"(1) have b: "burst T t (build_subpacket_mode data ZCRCE plain) w v"
      by (simp add: chunk_frames.simps [of data])
    obtain s' where "holds s' (have @ data)" "ds_open s' = None"
      "data_loop cfg t s (line st w out) = data_loop cfg t s' (line st v out)"
      using data_chunk [OF b assms "1.prems"(2,3) True "1.prems"(4) _ "1.prems"(5), where out = out] by auto
    with True show ?thesis by (auto simp: ack_frames.simps [of _ data])
  next
    case False
    let ?d = "take 1024 data"
    have len: "length ?d = 1024" using False by simp
    from "1.prems"(1) False obtain x where x: "burst T t (build_subpacket_mode ?d ZCRCQ plain) w x"
        "bursts T t (chunk_frames (drop 1024 data)) x v"
      by (auto simp: chunk_frames.simps [of data])
    have "?d \<noteq> []" "length ?d \<le> 1024" "length have + length ?d \<le> MAX_FILE_SIZE"
      using False len "1.prems"(4) by auto
    then obtain s1 where s1: "holds s1 (have @ ?d)" "ds_open s1 = Some Crc16"
      "data_loop cfg t s (line st w out) = data_loop cfg t s1 (line st x (out @ wire_form t (hex_u32 ZACK (length have + 1024))))"
      using data_chunk [OF x(1) assms "1.prems"(2) _ _ _ _ "1.prems"(5), where out = out] len by auto
    from "1.IH" [OF False x(2) s1(1) _ _ s1(2), of "out @ wire_form t (hex_u32 ZACK (length have + 1024))"] len
      False "1.prems"(4) s1(3)
    show ?thesis by (auto simp: ack_frames.simps [of _ data])
  qed
qed

text \<open>The settings leave every frame the time it takes.\<close>

definition in_time_for :: "nat \<Rightarrow> zmodem_settings \<Rightarrow> bool" where
  "in_time_for T cfg \<longleftrightarrow> T \<le> z_frame_timeout cfg * 1000 \<and> T \<le> z_retry_interval cfg * 1000"

lemma eof_received:
  assumes "burst T t (hex_u32 ZEOF (length data)) w v" "in_time_for T cfg" "pushback st = None"
    and "holds s data" "ds_open s = None" "length data \<le> MAX_FILE_SIZE"
  shows "data_loop cfg t s (line st w out) = (Inr data, line st v out)"
proof (rule data_loop_done)
  have "timed_header (z_frame_timeout cfg) t (line st w out)
      = (Inr \<lparr>frame = ZEOF, hdata = to_le_bytes (word_of_nat (length data)), crc_kind = Crc16\<rparr>, line st v out)"
    using assms(2) by (intro hex_line [OF assms(1) [unfolded hex_u32_def] assms(3)]) (simp_all add: in_time_for_def)
  with assms(4-6) show "data_step cfg t s (line st w out) = (Inr (Inr data), line st v out)"
    by (simp add: data_step_def data_header_def position_to_le unat_pos holds_def lpure_def)
qed

lemma file_received:
  assumes "bursts T t (data_frames data @ [hex_u32 ZEOF (length data)]) w v" "in_time_for T cfg" "pushback st = None"
    and "length data \<le> MAX_FILE_SIZE"
  shows "data_loop cfg t init_data (line st w out) = (Inr data, line st v (out @ written t (ack_frames 0 data)))"
proof (cases "data = []")
  case True
  have "holds init_data []" "ds_open init_data = None" by (simp_all add: holds_def init_data_def)
  moreover from True assms(1) have "burst T t (hex_u32 ZEOF (length ([] :: byte list))) w v"
    by (simp add: data_frames_def)
  ultimately show ?thesis
    using eof_received [OF _ assms(2,3), of t "[]" w v init_data] assms(4) True by (simp add: ack_frames.simps)
next
  case False
  let ?hdr = "build_bin16_header_mode ZDATA (to_le_bytes 0) plain"
  from assms(1) False obtain a b where a: "burst T t ?hdr w a" "bursts T t (chunk_frames data) a b"
      "burst T t (hex_u32 ZEOF (length data)) b v"
    by (auto simp: data_frames_def bursts_append)
  define s0 where "s0 = init_data\<lparr>ds_open := Some Crc16\<rparr>"
  have s0: "holds s0 []" "ds_open s0 = Some Crc16" by (simp_all add: s0_def holds_def init_data_def)
  have "timed_header (z_frame_timeout cfg) t (line st w out)
      = (Inr \<lparr>frame = ZDATA, hdata = to_le_bytes 0, crc_kind = Crc16\<rparr>, line st a out)"
    using assms(2) by (intro header_line [OF a(1) _ assms(3), of _ _ plain]) (simp_all add: header_forms_def in_time_for_def)
  then have "data_loop cfg t init_data (line st w out) = data_loop cfg t s0 (line st a out)"
    by (intro data_loop_on)
      (simp add: data_step_def data_header_def position_to_le lpure_def s0_def init_data_def)
  moreover obtain s1 where s1: "holds s1 data" "ds_open s1 = None"
      "data_loop cfg t s0 (line st a out) = data_loop cfg t s1 (line st b (out @ written t (ack_frames 0 data)))"
    using data_chunks [OF _ assms(3) a(2) s0(1) False _ s0(2), of cfg out] assms(2,4) by (auto simp: in_time_for_def)
  ultimately show ?thesis using eof_received [OF a(3) assms(2,3) s1(1,2) assms(4)] by simp
qed

definition sendable :: "str \<times> byte list \<Rightarrow> bool" where
  "sendable file \<longleftrightarrow> utf8_valid (fst file) \<and> 0 \<notin> set (fst file) \<and> length (fst file) \<le> 8000 \<and> length (snd file) < 2 ^ 32"

lemma zfile_info_length: "sendable (name, data) \<Longrightarrow> length (zfile_info name data) \<le> MAX_SUBPACKET_DATA"
  using radix_string_length [of 10 "length data" 10]
  by (simp add: zfile_info_def sendable_def MAX_SUBPACKET_DATA_def info_fields)

lemma info_received:
  assumes "burst T t (build_subpacket_mode (zfile_info name data) ZCRCW plain) w v" "in_time_for T cfg"
    and "pushback st = None" "sendable (name, data)"
  shows "info_loop cfg t (ReadInfo, Crc16, 0) (line st w out)
     = (Inr \<lparr>sdata = zfile_info name data, end_marker = ZCRCW\<rparr>, line st v out)"
proof -
  have "next_subpacket t Crc16 MAX_SUBPACKET_DATA (z_frame_timeout cfg) (line st w out)
     = (Inr \<lparr>sdata = zfile_info name data, end_marker = ZCRCW\<rparr>, line st v out)"
    using assms(2) zfile_info_length [OF assms(4)]
    by (intro subpacket_line [OF assms(1,3)]) (simp_all add: in_time_for_def)
  then show ?thesis by (simp add: info_loop.simps [of cfg] info_step_def)
qed

definition received :: "str \<times> byte list \<Rightarrow> ZmodemReceive" where
  "received file = \<lparr>zr_filename = fst file, zr_data = snd file, zr_modtime = None, zr_mode = None\<rparr>"

lemma one_file_received:
  assumes "burst T t (build_subpacket_mode (zfile_info name data) ZCRCW plain) w x" "in_time_for T cfg"
    and "bursts T t (if ok then data_frames data @ [hex_u32 ZEOF (length data)] else []) x v"
    and "pushback st = None" "sendable (name, data)"
    and "decide c i name (Some (length data)) = (acc, c')" "ok = (acc \<and> length data \<le> MAX_FILE_SIZE)"
  shows "receive_one_file cfg t decide c i Crc16 (line st w out) =
    (Inr (if ok then Some (received (name, data)) else None, c'),
     line st v (out @ written t (if ok then hex_u32 ZRPOS 0 # ack_frames 0 data else [build_hex_header ZSKIP [0, 0, 0, 0]])))"
proof -
  have info: "parse_zfile_info (zfile_info name data) =
      Some \<lparr>zi_filename = name, zi_length = Some (length data), zi_modtime = None, zi_mode = None\<rparr>"
    using assms(5) by (intro zfile_info_parsed) (auto simp: sendable_def)
  note start = info_received [OF assms(1,2,4,5), of out]
  show ?thesis
  proof (cases ok)
    case True
    with assms(3,7) have d: "bursts T t (data_frames data @ [hex_u32 ZEOF (length data)]) x v"
      and len: "length data \<le> MAX_FILE_SIZE" by auto
    note body = file_received [OF d assms(2,4) len, of "out @ wire_form t (hex_u32 ZRPOS 0)"]
    show ?thesis
      using True assms(6,7) len start body
      by (simp add: receive_one_file_def lbind_def info too_large_def send_zrpos_def send_hex_def write_line lpure_def
          hex_u32_def truncate_to_def received_def)
  next
    case False
    with assms(3) have "v = x" by simp
    with False assms(6,7) start show ?thesis
      by (auto simp: receive_one_file_def lbind_def info too_large_def send_zskip_def send_hex_def write_line lpure_def)
  qed
qed

lemma chatty_room: "n \<le> 1 \<Longrightarrow> saturating_inc n = n + 1 \<and> n + 1 \<le> chatty_budget cfg"
  by (cases "z_max_retries cfg") (use settings_positive(3) [of cfg] in \<open>auto simp: saturating_inc_def chatty_budget_def\<close>)

lemma batch_on:
  assumes "timed_header (if bs_seen s = 0 then z_retry_interval cfg else z_frame_timeout cfg) t l = (Inr h, l1)"
    and "bs_chatty s \<le> 1"
    and "batch_frame cfg t decide h (s\<lparr>bs_header_errors := 0, bs_chatty := bs_chatty s + 1\<rparr>) l1 = (Inr (Inl s'), l2)"
  shows "batch_loop cfg t decide nd s l = batch_loop cfg t decide nd s' l2"
proof -
  from chatty_room [OF assms(2), of cfg] have "batch_step cfg t decide nd s l = (Inr (Inl s'), l2)"
    using assms(1,3) by (auto simp: batch_step_def Let_def not_less)
  then show ?thesis by (simp add: batch_loop.simps [of cfg t decide nd s l])
qed

lemma drain_oo_outw: "outw (drain_oo n t l) = outw l"
proof (induction n arbitrary: l)
  case (Suc n)
  have "outw l1 = outw l" if "on_reader (nvt_read_byte (Some (now l + OO_TRAILER_TIMEOUT_SECS * 1000)) t) l = (r, l1)" for r l1
    using that by (auto simp: on_reader_def split: prod.splits)
  with Suc show ?case by (auto split: prod.splits outcome.splits)
qed simp

lemma fin_received:
  assumes "burst T t (build_hex_header ZFIN [0, 0, 0, 0]) w v" "in_time_for T cfg" "pushback st = None" "bs_chatty s \<le> 1"
  shows "\<exists>l. batch_loop cfg t decide nd s (line st w out) =
      (\<lparr>br_files = bs_files s, br_error = (if bs_seen s = 0 then Some TNoFiles else None)\<rparr>, l) \<and>
    sent (outw l) = out @ wire_form t (build_hex_header ZFIN [0, 0, 0, 0])"
proof -
  have h: "timed_header (if bs_seen s = 0 then z_retry_interval cfg else z_frame_timeout cfg) t (line st w out)
      = (Inr \<lparr>frame = ZFIN, hdata = [0, 0, 0, 0], crc_kind = Crc16\<rparr>, line st v out)"
    using assms(2) by (intro hex_line [OF assms(1,3)]) (auto simp: in_time_for_def)
  from chatty_room [OF assms(4), of cfg] h have "batch_step cfg t decide nd s (line st w out) =
      (Inr (Inr ()), drain_oo 2 t (line st v (out @ wire_form t (build_hex_header ZFIN [0, 0, 0, 0]))))"
    by (auto simp: batch_step_def batch_frame_def Let_def send_zfin_def send_hex_def write_line simp del: drain_oo.simps)
  then show ?thesis
    by (simp add: batch_loop.simps [of cfg t decide nd s "line st w out"] drain_oo_outw del: drain_oo.simps)
qed

lemma file_in_batch:
  assumes "bursts T t (sender_file ((name, data), ok)) w v" "in_time_for T cfg" "pushback st = None" "sendable (name, data)"
    and "decide (bs_caller s) (bs_seen s) name (Some (length data)) = (acc, c')" "ok = (acc \<and> length data \<le> MAX_FILE_SIZE)"
    and "bs_seen s < MAX_BATCH_FILES" "bs_chatty s \<le> 1"
  obtains s' where "bs_seen s' = bs_seen s + 1" "bs_caller s' = c'" "bs_chatty s' = 0"
    "bs_files s' = bs_files s @ (if ok then [received (name, data)] else [])"
    "batch_loop cfg t decide nd s (line st w out) =
     batch_loop cfg t decide nd s' (line st v (out @ written t (receiver_file ((name, data), ok))))"
proof -
  let ?hdr = "build_bin16_header_mode ZFILE [0, 0, 0, ZCBIN] plain"
  from assms(1) obtain a b where a: "burst T t ?hdr w a"
      "burst T t (build_subpacket_mode (zfile_info name data) ZCRCW plain) a b"
      "bursts T t (if ok then data_frames data @ [hex_u32 ZEOF (length data)] else []) b v"
    by (auto simp: offer_frames_def)
  define s0 where "s0 = s\<lparr>bs_header_errors := 0, bs_chatty := bs_chatty s + 1\<rparr>"
  define s1 where "s1 = s0\<lparr>bs_chatty := 0, bs_seen := bs_seen s + 1, bs_caller := c',
      bs_files := bs_files s @ (if ok then [received (name, data)] else [])\<rparr>"
  have h: "timed_header (if bs_seen s = 0 then z_retry_interval cfg else z_frame_timeout cfg) t (line st w out)
      = (Inr \<lparr>frame = ZFILE, hdata = [0, 0, 0, ZCBIN], crc_kind = Crc16\<rparr>, line st a out)"
    using assms(2) by (intro header_line [OF a(1) _ assms(3), of _ _ plain]) (auto simp: header_forms_def in_time_for_def)
  note one = one_file_received [where decide = decide and c = "bs_caller s" and i = "bs_seen s", OF a(2) assms(2) a(3) assms(3,4,5,6), of out]
  have "batch_frame cfg t decide \<lparr>frame = ZFILE, hdata = [0, 0, 0, ZCBIN], crc_kind = Crc16\<rparr> s0 (line st a out) =
      (Inr (Inl s1), line st v (out @ written t (receiver_file ((name, data), ok))))"
    using one assms(7) by (auto simp: batch_frame_def lbind_def lpure_def s0_def s1_def send_zrinit_def send_hex_def
        write_line zrinit_frame_def Let_def)
  from batch_on [OF h assms(8) this [unfolded s0_def]]
  have "batch_loop cfg t decide nd s (line st w out) =
      batch_loop cfg t decide nd s1 (line st v (out @ written t (receiver_file ((name, data), ok))))" .
  then show thesis by (intro that [of s1]) (simp_all add: s1_def s0_def)
qed

lemma batch_received:
  assumes "in_time_for T cfg" "pushback st = None"
  shows "bursts T t (concat (map sender_file (zip files (choices decide (bs_caller s) (bs_seen s) files)))
       @ [build_hex_header ZFIN [0, 0, 0, 0]]) w v \<Longrightarrow> list_all sendable files \<Longrightarrow>
     bs_seen s + length files \<le> MAX_BATCH_FILES \<Longrightarrow> bs_chatty s \<le> 1 \<Longrightarrow>
     \<exists>l. batch_loop cfg t decide nd s (line st w out) =
        (\<lparr>br_files = bs_files s @ map (received \<circ> fst) (filter snd (zip files (choices decide (bs_caller s) (bs_seen s) files))),
          br_error = (if bs_seen s + length files = 0 then Some TNoFiles else None)\<rparr>, l) \<and>
       sent (outw l) = out @ written t (concat (map receiver_file (zip files (choices decide (bs_caller s) (bs_seen s) files)))
         @ [build_hex_header ZFIN [0, 0, 0, 0]])"
proof (induction files arbitrary: s w out)
  case Nil
  then show ?case using fin_received [OF _ assms, of t w v s decide nd out] by simp
next
  case (Cons entry files)
  obtain name data where f: "entry = (name, data)" by (cases entry)
  obtain acc c' where d: "decide (bs_caller s) (bs_seen s) name (Some (length data)) = (acc, c')" by fastforce
  define ok where "ok = (acc \<and> length data \<le> MAX_FILE_SIZE)"
  define rest where "rest = zip files (choices decide c' (Suc (bs_seen s)) files)"
  have z: "zip (entry # files) (choices decide (bs_caller s) (bs_seen s) (entry # files)) = ((name, data), ok) # rest"
    by (simp add: f d ok_def rest_def)
  from Cons.prems(1) [unfolded z] obtain x where x: "bursts T t (sender_file ((name, data), ok)) w x"
      "bursts T t (concat (map sender_file rest) @ [build_hex_header ZFIN [0, 0, 0, 0]]) x v"
    by (auto simp: bursts_append simp del: sender_file.simps)
  have "sendable (name, data)" "bs_seen s < MAX_BATCH_FILES" using Cons.prems(2,3) f by auto
  from file_in_batch [where decide = decide, OF x(1) assms this(1) d ok_def this(2) Cons.prems(4), of nd out] obtain s' where s':
    "bs_seen s' = bs_seen s + 1" "bs_caller s' = c'" "bs_chatty s' = 0"
    "bs_files s' = bs_files s @ (if ok then [received (name, data)] else [])"
    "batch_loop cfg t decide nd s (line st w out) =
     batch_loop cfg t decide nd s' (line st x (out @ written t (receiver_file ((name, data), ok))))" by blast
  have r: "zip files (choices decide (bs_caller s') (bs_seen s') files) = rest" by (simp add: rest_def s'(1,2))
  have "\<exists>l. batch_loop cfg t decide nd s' (line st x (out @ written t (receiver_file ((name, data), ok)))) =
        (\<lparr>br_files = bs_files s' @ map (received \<circ> fst) (filter snd rest), br_error = None\<rparr>, l) \<and>
       sent (outw l) = (out @ written t (receiver_file ((name, data), ok))) @
         written t (concat (map receiver_file rest) @ [build_hex_header ZFIN [0, 0, 0, 0]])"
    using Cons.IH [of s' x "out @ written t (receiver_file ((name, data), ok))", unfolded r, OF x(2)]
      Cons.prems(2,3) s'(1,3) by (simp add: comp_def del: receiver_file.simps)
  then show ?case unfolding z s'(5) by (auto simp: s'(4) simp del: receiver_file.simps)
qed

text \<open>The receiving gateway on everything a sending gateway writes.\<close>

lemma gateway_receives:
  assumes "in_time_for T cfg" "list_all sendable files" "length files \<le> MAX_BATCH_FILES" "files \<noteq> []"
    and "bursts T t (sender_frames (zip files (choices decide caller 0 files))) w v"
  shows "\<exists>l. zmodem_receive_keeping cfg t decide caller w \<lparr>sent = [], broken = None\<rparr> =
      (\<lparr>br_files = map (received \<circ> fst) (filter snd (zip files (choices decide caller 0 files))), br_error = None\<rparr>, l) \<and>
    sent (outw l) = written t (receiver_frames (zip files (choices decide caller 0 files)))"
proof -
  let ?st = default_ReadState and ?files = "zip files (choices decide caller 0 files)"
  have st: "pushback ?st = None" by (simp add: default_ReadState_def)
  define s0 where "s0 = \<lparr>bs_seen = 0, bs_header_errors = 0, bs_chatty = 0, bs_files = [], bs_caller = caller\<rparr>"
  define s1 where "s1 = s0\<lparr>bs_chatty := 1\<rparr>"
  define nd where "nd = clock w + z_negotiation_timeout cfg * 1000"
  define out where "out = wire_form t [0x72, 0x7A, 0x0D] @ wire_form t zrinit_frame"
  have "zmodem_receive_keeping cfg t decide caller w \<lparr>sent = [], broken = None\<rparr> = batch_loop cfg t decide nd s0 (line ?st w out)"
    using write_line [of TWrite t "[0x72, 0x7A, 0x0D]" ?st w "[]"] write_line [of TWrite t zrinit_frame ?st w]
    by (simp add: zmodem_receive_keeping_def lbind_def send_zrinit_def send_hex_def zrinit_frame_def
        line_def nd_def s0_def out_def)
  moreover from assms(5) obtain x where x: "burst T t (build_hex_header ZRQINIT [0, 0, 0, 0]) w x"
      "bursts T t (concat (map sender_file ?files) @ [build_hex_header ZFIN [0, 0, 0, 0]]) x v"
    by (auto simp: sender_frames_def)
  moreover have "batch_loop cfg t decide nd s0 (line ?st w out) = batch_loop cfg t decide nd s1 (line ?st x (out @ wire_form t zrinit_frame))"
  proof (rule batch_on)
    show "timed_header (if bs_seen s0 = 0 then z_retry_interval cfg else z_frame_timeout cfg) t (line ?st w out)
        = (Inr \<lparr>frame = ZRQINIT, hdata = [0, 0, 0, 0], crc_kind = Crc16\<rparr>, line ?st x out)"
      using assms(1) by (intro hex_line [OF x(1) st]) (auto simp: in_time_for_def)
    show "batch_frame cfg t decide \<lparr>frame = ZRQINIT, hdata = [0, 0, 0, 0], crc_kind = Crc16\<rparr>
        (s0\<lparr>bs_header_errors := 0, bs_chatty := bs_chatty s0 + 1\<rparr>) (line ?st x out) =
        (Inr (Inl s1), line ?st x (out @ wire_form t zrinit_frame))"
      by (simp add: batch_frame_def lbind_def lpure_def send_zrinit_def send_hex_def write_line zrinit_frame_def s1_def s0_def)
  qed (simp add: s0_def)
  moreover have "bs_seen s1 = 0" "bs_caller s1 = caller" "bs_chatty s1 = 1" "bs_files s1 = []"
    by (simp_all add: s1_def s0_def)
  ultimately show ?thesis
    using batch_received [OF assms(1) st, of t files decide s1 x v nd "out @ wire_form t zrinit_frame"] assms(2,3,4)
    by (simp add: receiver_frames_def out_def wire_form_append wire_form_Cons)
qed


section \<open>The sender on a receiver's frames\<close>

lemma run_on: "run_step cfg t esc win data s l = (Inr (Inl s'), l') \<Longrightarrow>
    run_loop cfg t esc win data s l = run_loop cfg t esc win data s' l'"
  by (simp add: run_loop.simps [of cfg t esc win data s l])

lemma run_done: "run_step cfg t esc win data s l = (Inr (Inr r), l') \<Longrightarrow> run_loop cfg t esc win data s l = (Inr r, l')"
  by (simp add: run_loop.simps [of cfg t esc win data s l])

lemma streaming_simps [simp]: "rw_chunk streaming = 1024" "segmented streaming = False" "mid_file_marker streaming = ZCRCQ"
  by (simp_all add: streaming_def mid_file_marker_def)

lemma acked:
  assumes "burst T t (hex_u32 ZACK (pos + chunk_at streaming data pos)) w v" "in_time_for T cfg" "pushback st = None"
    and "pos + chunk_at streaming data pos \<le> MAX_FILE_SIZE"
  shows "run_loop cfg t esc streaming data (pos, a, AwaitAck k) (line st w out) =
    run_loop cfg t esc streaming data (pos + chunk_at streaming data pos, 0, SendChunk) (line st v out)"
proof (rule run_on)
  have "timed_header (z_frame_timeout cfg) t (line st w out)
      = (Inr \<lparr>frame = ZACK, hdata = to_le_bytes (word_of_nat (pos + chunk_at streaming data pos)), crc_kind = Crc16\<rparr>, line st v out)"
    using assms(2) by (intro hex_line [OF assms(1) [unfolded hex_u32_def] assms(3)]) (simp_all add: in_time_for_def)
  then show "run_step cfg t esc streaming data (pos, a, AwaitAck k) (line st w out) =
      (Inr (Inl (pos + chunk_at streaming data pos, 0, SendChunk)), line st v out)"
    using assms(4) by (simp add: run_step_def Let_def position_to_le unat_pos del: of_nat_add)
qed

lemma run_acked:
  assumes "in_time_for T cfg" "pushback st = None" "length data \<le> MAX_FILE_SIZE"
  shows "pos < length data \<Longrightarrow> bursts T t (ack_frames pos (drop pos data)) w v \<Longrightarrow>
    run_loop cfg t plain streaming data (pos, a, SendChunk) (line st w out) =
      (Inr (), line st v (out @ written t (chunk_frames (drop pos data))))"
proof (induction "length data - pos" arbitrary: pos a w out rule: less_induct)
  case less
  show ?case
  proof (cases "length data - pos \<le> 1024")
    case True
    then have "chunk_at streaming data pos = length data - pos" by (simp add: chunk_at_def)
    with less.prems True show ?thesis
      by (intro run_done) (simp add: run_step_def Let_def lbind_def lpure_def write_line ack_frames.simps chunk_frames.simps)
  next
    case False
    then have n: "chunk_at streaming data pos = 1024" by (simp add: chunk_at_def)
    let ?sub = "wire_form t (build_subpacket_mode (take 1024 (drop pos data)) ZCRCQ plain)"
    from less.prems(2) False obtain x where x: "burst T t (hex_u32 ZACK (pos + chunk_at streaming data pos)) w x"
        "bursts T t (ack_frames (pos + 1024) (drop (pos + 1024) data)) x v"
      by (auto simp: ack_frames.simps [of pos] n add.commute)
    have "run_loop cfg t plain streaming data (pos, a, SendChunk) (line st w out) =
        run_loop cfg t plain streaming data (pos, a, AwaitAck 0) (line st w (out @ ?sub))"
      using less.prems(1) False by (intro run_on) (simp add: run_step_def n Let_def lbind_def lpure_def write_line)
    also have "\<dots> = run_loop cfg t plain streaming data (pos + 1024, 0, SendChunk) (line st x (out @ ?sub))"
      using acked [OF x(1) assms(1,2), of plain a 0 "out @ ?sub"] False assms(3) by (simp add: n)
    also have "\<dots> = (Inr (), line st v ((out @ ?sub) @ written t (chunk_frames (drop (pos + 1024) data))))"
      using False by (intro less.hyps x(2)) auto
    finally show ?thesis using False by (simp add: chunk_frames.simps [of "drop pos data"] add.commute)
  qed
qed

lemma zdata_run_acked:
  assumes "in_time_for T cfg" "pushback st = None" "length data \<le> MAX_FILE_SIZE" "bursts T t (ack_frames 0 data) w v"
  shows "send_zdata_run cfg t plain streaming data 0 (line st w out) = (Inr (), line st v (out @ written t (data_frames data)))"
proof (cases "data = []")
  case True
  with assms(4) have "v = w" by (simp add: ack_frames.simps)
  with True show ?thesis
    by (auto simp: send_zdata_run_def run_step_def data_frames_def intro!: run_done)
next
  case False
  let ?hdr = "wire_form t (build_bin16_header_mode ZDATA (to_le_bytes 0) plain)"
  have "send_zdata_run cfg t plain streaming data 0 (line st w out)
      = run_loop cfg t plain streaming data (0, 1, SendChunk) (line st w (out @ ?hdr))"
    unfolding send_zdata_run_def using False
    by (intro run_on) (simp add: run_step_def retries_exhausted_def lbind_def lpure_def write_line)
  also have "\<dots> = (Inr (), line st v ((out @ ?hdr) @ written t (chunk_frames (drop 0 data))))"
    using False assms(4) by (intro run_acked [OF assms(1-3)]) auto
  finally show ?thesis using False by (simp add: data_frames_def)
qed

lemma eof_acked:
  assumes "in_time_for T cfg" "pushback st = None" "burst T t zrinit_frame w v"
  shows "eof_loop cfg t esc win data 0 (line st w out) =
    (Inr (), line st v (out @ wire_form t (hex_u32 ZEOF (length data))))"
proof -
  have "timed_header (max POST_ZEOF_ZRINIT_FLOOR_SECS (z_frame_timeout cfg)) t (line st w (out @ wire_form t (hex_u32 ZEOF (length data))))
      = (Inr \<lparr>frame = ZRINIT, hdata = [0, 0, 0, CANFDX OR CANOVIO OR CANFC32], crc_kind = Crc16\<rparr>,
         line st v (out @ wire_form t (hex_u32 ZEOF (length data))))"
    using assms(1) by (intro hex_line [OF assms(3) [unfolded zrinit_frame_def] assms(2)]) (auto simp: in_time_for_def)
  then have "eof_step cfg t esc win data 0 (line st w out) = (Inr (Inr ()), line st v (out @ wire_form t (hex_u32 ZEOF (length data))))"
    by (simp add: eof_step_def retries_exhausted_def lbind_def send_zeof_def send_hex_def hex_u32_def write_line)
  then show ?thesis by (simp add: eof_loop.simps [of cfg t esc win data 0])
qed

lemma offer_on: "offer_step cfg t esc n d s l = (Inr (Inl s'), l') \<Longrightarrow>
    offer_loop cfg t esc n d s l = offer_loop cfg t esc n d s' l'"
  by (simp add: offer_loop.simps [of cfg t esc n d s l])

lemma offer_done: "offer_step cfg t esc n d s l = (Inr (Inr r), l') \<Longrightarrow> offer_loop cfg t esc n d s l = (Inr r, l')"
  by (simp add: offer_loop.simps [of cfg t esc n d s l])

text \<open>One ZRINIT that is still on the wire is read past.\<close>

lemma offer_answered:
  assumes "in_time_for T cfg" "pushback st = None" "stale = [] \<or> stale = [zrinit_frame]"
    and "bursts T t (stale @ [if ok then hex_u32 ZRPOS 0 else build_hex_header ZSKIP [0, 0, 0, 0]]) w v"
  shows "offer_loop cfg t plain name data (0, 0, None) (line st w out) =
    (Inr (if ok then Some 0 else None), line st v (out @ written t (offer_frames name data)))"
proof -
  let ?out = "out @ written t (offer_frames name data)"
  have reply: "offer_loop cfg t plain name data (1, 0, Some d) (line st x ?out) = (Inr (if ok then Some 0 else None), line st v ?out)"
    if b: "burst T t (if ok then hex_u32 ZRPOS 0 else build_hex_header ZSKIP [0, 0, 0, 0]) x v" for d x
  proof (rule offer_done)
    have "timed_header (z_frame_timeout cfg) t (line st x ?out) =
        (Inr (if ok then \<lparr>frame = ZRPOS, hdata = to_le_bytes 0, crc_kind = Crc16\<rparr>
              else \<lparr>frame = ZSKIP, hdata = [0, 0, 0, 0], crc_kind = Crc16\<rparr>), line st v ?out)"
    proof (cases ok)
      case True
      with b have "burst T t (build_hex_header ZRPOS (to_le_bytes 0)) x v" by (simp add: hex_u32_def)
      with assms(1,2) True show ?thesis by (simp add: in_time_for_def hex_line)
    next
      case False
      with b have "burst T t (build_hex_header ZSKIP [0, 0, 0, 0]) x v" by simp
      with assms(1,2) False show ?thesis by (simp add: in_time_for_def hex_line)
    qed
    then show "offer_step cfg t plain name data (1, 0, Some d) (line st x ?out) =
        (Inr (Inr (if ok then Some 0 else None)), line st v ?out)"
      by (simp add: offer_step_def position_to_le)
  qed
  have start: "offer_loop cfg t plain name data (0, 0, None) (line st w out) = offer_loop cfg t plain name data (1, 0, Some 0) (line st w ?out)"
    by (intro offer_on) (simp add: offer_step_def retries_exhausted_def lbind_def lpure_def write_line offer_frames_def wire_form_append)
  show ?thesis
  proof (cases "stale = []")
    case True
    with assms(4) start reply show ?thesis by simp
  next
    case False
    with assms(3,4) obtain x where x: "burst T t zrinit_frame w x"
        "burst T t (if ok then hex_u32 ZRPOS 0 else build_hex_header ZSKIP [0, 0, 0, 0]) x v"
      by auto
    have "timed_header (z_frame_timeout cfg) t (line st w ?out)
        = (Inr \<lparr>frame = ZRINIT, hdata = [0, 0, 0, CANFDX OR CANOVIO OR CANFC32], crc_kind = Crc16\<rparr>, line st x ?out)"
      using assms(1) by (intro hex_line [OF x(1) [unfolded zrinit_frame_def] assms(2)]) (auto simp: in_time_for_def)
    then have "offer_loop cfg t plain name data (1, 0, Some 0) (line st w ?out) = offer_loop cfg t plain name data (1, 0, Some 1) (line st x ?out)"
      using settings_positive(3) [of cfg] by (intro offer_on) (simp add: offer_step_def del: settings_positive)
    with start reply [OF x(2)] show ?thesis by simp
  qed
qed

lemma files_sent:
  assumes "in_time_for T cfg" "pushback st = None"
  shows "bursts T t (stale @ concat (map receiver_file files)) w v \<Longrightarrow> stale = [] \<or> stale = [zrinit_frame] \<and> files \<noteq> [] \<Longrightarrow>
    list_all (\<lambda>(file, ok). ok \<longrightarrow> length (snd file) \<le> MAX_FILE_SIZE) files \<Longrightarrow>
    send_files cfg t plain streaming (map fst files) (line st w out) =
      (Inr (), line st v (out @ written t (concat (map sender_file files))))"
proof (induction files arbitrary: stale w out)
  case Nil
  then show ?case by (simp add: lpure_def)
next
  case (Cons entry files)
  obtain name data ok where e: "entry = ((name, data), ok)" by (metis surj_pair)
  let ?offer = "out @ written t (offer_frames name data)"
  have stale: "stale = [] \<or> stale = [zrinit_frame]" using Cons.prems(2) by auto
  show ?case
  proof (cases ok)
    case False
    with Cons.prems(1) obtain x where x: "bursts T t (stale @ [build_hex_header ZSKIP [0, 0, 0, 0]]) w x"
        "bursts T t ([] @ concat (map receiver_file files)) x v"
      by (auto simp: e bursts_append)
    have "offer_loop cfg t plain name data (0, 0, None) (line st w out) = (Inr None, line st x ?offer)"
      using offer_answered [OF assms stale, of t False w x] x(1) False by simp
    with Cons.IH [OF x(2) _, of ?offer] Cons.prems(3) False show ?thesis
      by (simp add: e lbind_def)
  next
    case True
    with Cons.prems(1) obtain a b c where a: "bursts T t (stale @ [hex_u32 ZRPOS 0]) w a"
        "bursts T t (ack_frames 0 data) a b" "burst T t zrinit_frame b c"
        "bursts T t ([] @ concat (map receiver_file files)) c v"
      by (auto simp: e bursts_append)
    have len: "length data \<le> MAX_FILE_SIZE" using Cons.prems(3) True e by simp
    have "offer_loop cfg t plain name data (0, 0, None) (line st w out) = (Inr (Some 0), line st a ?offer)"
      using offer_answered [OF assms stale, of t True w a] a(1) True by simp
    with zdata_run_acked [OF assms len a(2), of ?offer] eof_acked [OF assms a(3), of plain streaming data "?offer @ written t (data_frames data)"]
      Cons.IH [OF a(4) _, of "(?offer @ written t (data_frames data)) @ wire_form t (hex_u32 ZEOF (length data))"] Cons.prems(3) True
    show ?thesis by (simp add: e lbind_def)
  qed
qed

lemma gateway_sends:
  assumes "in_time_for T cfg" "files \<noteq> []" "list_all (\<lambda>(file, ok). ok \<longrightarrow> length (snd file) \<le> MAX_FILE_SIZE) files"
    and "list_all (\<lambda>(file, ok). sendable file) files"
    and "bursts T t (receiver_frames files) w v"
  shows "\<exists>l. zmodem_send cfg t (map fst files) w \<lparr>sent = [], broken = None\<rparr> = (Inr (), l) \<and>
    sent (outw l) = written t (sender_frames files @ [[0x4F, 0x4F]])"
proof -
  let ?st = default_ReadState
  have st: "pushback ?st = None" by (simp add: default_ReadState_def)
  define q where "q = wire_form t (build_hex_header ZRQINIT [0, 0, 0, 0])"
  define data where "data = [0 :: byte, 0, 0, CANFDX OR CANOVIO OR CANFC32]"
  from assms(5) obtain x y where x: "burst T t ([0x72, 0x7A, 0x0D] @ zrinit_frame) w x"
      "bursts T t ([zrinit_frame] @ concat (map receiver_file files)) x y" "burst T t (build_hex_header ZFIN [0, 0, 0, 0]) y v"
    by (auto simp: receiver_frames_def bursts_append)
  have "timed_header (z_retry_interval cfg) t (line ?st w q) = (Inr \<lparr>frame = ZRINIT, hdata = data, crc_kind = Crc16\<rparr>, line ?st x q)"
    using timed_header_burst [of zrinit_frame ZRINIT data plain T t "[0x72, 0x7A, 0x0D]" "line ?st w q" x] x(1) st assms(1)
    by (simp add: header_forms_def zrinit_frame_def data_def in_time_for_def)
  moreover have "from_zrinit_zf0 (zf0 \<lparr>frame = ZRINIT, hdata = data, crc_kind = Crc16\<rparr>) = plain"
    by (simp add: from_zrinit_zf0_def zf0_def data_def plain_def)
  moreover have "from_zrinit (buffer_length \<lparr>frame = ZRINIT, hdata = data, crc_kind = Crc16\<rparr>) = streaming"
    by (simp add: from_zrinit_def buffer_length_def data_def streaming_def SUBPACKET_DATA_SIZE_def)
  ultimately have "negotiate_loop cfg t (clock w + z_negotiation_timeout cfg * 1000) 0 (line ?st w q) = (Inr (plain, streaming), line ?st x q)"
    by (simp add: negotiate_loop.simps [of cfg t _ 0] negotiate_step_def)
  moreover have "send_files cfg t plain streaming (map fst files) (line ?st x q) =
      (Inr (), line ?st y (q @ written t (concat (map sender_file files))))"
    using assms(2,3) by (intro files_sent [OF assms(1) st x(2)]) auto
  moreover define q' where "q' = q @ written t (concat (map sender_file files)) @ wire_form t (build_hex_header ZFIN [0, 0, 0, 0])"
  have "timed_header (z_frame_timeout cfg) t (line ?st y q') = (Inr \<lparr>frame = ZFIN, hdata = [0, 0, 0, 0], crc_kind = Crc16\<rparr>, line ?st v q')"
    using assms(1) by (intro hex_line [OF x(3) st]) (simp_all add: in_time_for_def)
  then have "await_zfin t (clock y + z_frame_timeout cfg * 1000) (line ?st y q') = line ?st v q'"
    by (simp add: await_zfin.simps [of t _ "line ?st y q'"] timed_header_def less_imp_neq [OF settings_positive(2), symmetric])
  moreover have "find (\<lambda>(name, data). length data > 2 ^ 32 - 1) (map fst files) = None"
    using assms(4) by (auto simp: find_None_iff list_all_iff sendable_def)
  moreover have "\<lparr>rst = ?st, inw = w, outw = \<lparr>sent = [], broken = None\<rparr>\<rparr> = line ?st w []" by (simp add: line_def)
  ultimately have "zmodem_send cfg t (map fst files) w \<lparr>sent = [], broken = None\<rparr> =
      (Inr (), line ?st v (q' @ wire_form t [0x4F, 0x4F]))"
    by (simp add: zmodem_send_def lbind_def send_zrqinit_def send_zfin_def send_hex_def write_line q_def q'_def Let_def)
  then show ?thesis by (simp add: sender_frames_def q_def q'_def wire_form_append)
qed


section \<open>A file over a bad line\<close>

text \<open>
  What a conforming sender may put on the line for a file whose first bytes \<open>have\<close> have arrived
  and whose other bytes are \<open>rest\<close>, when at most \<open>m\<close> frames in a row go wrong: a data frame that
  arrives, one whose subpacket is damaged, a header that is out of place, an early end of file, and in
  the end the true end of file. \<open>n\<close> counts what went wrong since the last data.
\<close>

inductive bad_line :: "nat \<Rightarrow> nat \<Rightarrow> byte list \<Rightarrow> byte list \<Rightarrow> byte list list \<Rightarrow> bool" for m where
  finished: "bad_line m n have [] [hex_u32 ZEOF (length have)]"
| arrives: "chunk \<noteq> [] \<Longrightarrow> length chunk \<le> 8192 \<Longrightarrow> e \<in> {ZCRCE, ZCRCW} \<Longrightarrow> bad_line m 0 (have @ chunk) rest fs \<Longrightarrow>
    bad_line m n have (chunk @ rest) (build_bin16_header_mode ZDATA (to_le_bytes (word_of_nat (length have))) mode #
      build_subpacket_mode chunk e mode # fs)"
| damaged: "n < m \<Longrightarrow> length chunk \<le> 8192 \<Longrightarrow> i < length chunk \<Longrightarrow> b \<noteq> chunk ! i \<Longrightarrow>
    e \<in> {ZCRCE, ZCRCG, ZCRCQ, ZCRCW} \<Longrightarrow> bad_line m (n + 1) have rest fs \<Longrightarrow>
    bad_line m n have rest (build_bin16_header_mode ZDATA (to_le_bytes (word_of_nat (length have))) mode #
      damaged_subpacket chunk i b e mode # fs)"
| stray: "n < m \<Longrightarrow> fr \<notin> {ZDATA, ZEOF, ZRQINIT, ZABORT} \<Longrightarrow> length hdr = 4 \<Longrightarrow> bad_line m (n + 1) have rest fs \<Longrightarrow>
    bad_line m n have rest (build_hex_header fr hdr # fs)"
| early_end: "n < m \<Longrightarrow> p \<noteq> length have \<Longrightarrow> p < 2 ^ 32 \<Longrightarrow> bad_line m (n + 1) have rest fs \<Longrightarrow>
    bad_line m n have rest (hex_u32 ZEOF p # fs)"

lemma setback_line:
  "ds_errors s < z_max_retries cfg \<Longrightarrow> setback cfg t s (line st w out) =
    (Inr (Inl (s\<lparr>ds_errors := ds_errors s + 1, ds_open := None\<rparr>)),
     line st w (out @ wire_form t (build_hex_header ZRPOS (to_le_bytes (ds_pos s)))))"
  by (simp add: setback_def nak_or_abort_def lbind_def lpure_def send_zrpos_def send_hex_def write_line)

lemma open_frame:
  assumes "burst T t (build_bin16_header_mode ZDATA (to_le_bytes (word_of_nat (length have))) mode) w v"
    and "in_time_for T cfg" "pushback st = None" "holds s have" "ds_open s = None"
  shows "data_loop cfg t s (line st w out) = data_loop cfg t (s\<lparr>ds_open := Some Crc16\<rparr>) (line st v out)"
proof (rule data_loop_on)
  have "timed_header (z_frame_timeout cfg) t (line st w out)
      = (Inr \<lparr>frame = ZDATA, hdata = to_le_bytes (word_of_nat (length have)), crc_kind = Crc16\<rparr>, line st v out)"
    using assms(2) by (intro header_line [OF assms(1) _ assms(3), of _ _ mode]) (simp_all add: header_forms_def in_time_for_def)
  with assms(4,5) show "data_step cfg t s (line st w out) = (Inr (Inl (s\<lparr>ds_open := Some Crc16\<rparr>)), line st v out)"
    by (simp add: data_step_def data_header_def position_to_le lpure_def holds_def)
qed

lemma bad_line_received:
  assumes "in_time_for T cfg" "pushback st = None"
  shows "bad_line (z_max_retries cfg) n have rest fs \<Longrightarrow> bursts T t fs w v \<Longrightarrow> holds s have \<Longrightarrow> ds_open s = None \<Longrightarrow>
    ds_errors s = n \<Longrightarrow> length have + length rest \<le> MAX_FILE_SIZE \<Longrightarrow>
    fst (data_loop cfg t s (line st w out)) = Inr (have @ rest)"
proof (induction n "have" rest fs arbitrary: s w out rule: bad_line.induct)
  case (finished n "have")
  from finished.prems show ?case by (auto dest: eof_received [OF _ assms, where out = out])
next
  case (arrives chunk e "have" rest fs n mode)
  from arrives.prems(1) obtain a b where a:
    "burst T t (build_bin16_header_mode ZDATA (to_le_bytes (word_of_nat (length have))) mode) w a"
    "burst T t (build_subpacket_mode chunk e mode) a b" "bursts T t fs b v" by auto
  note opened = open_frame [OF a(1) assms arrives.prems(2,3), of out]
  let ?s1 = "s\<lparr>ds_open := Some Crc16\<rparr>"
  have sub: "next_subpacket t Crc16 MAX_SUBPACKET_DATA (z_frame_timeout cfg) (line st a out)
      = (Inr \<lparr>sdata = chunk, end_marker = e\<rparr>, line st b out)"
    using assms(1) arrives.hyps by (intro subpacket_line [OF a(2) assms(2)]) (auto simp: in_time_for_def MAX_SUBPACKET_DATA_def)
  define s2 where "s2 = s\<lparr>ds_data := have @ chunk, ds_pos := word_of_nat (length (have @ chunk)), ds_errors := 0,
      ds_empty := 0, ds_eof_ignored := False, ds_open := None\<rparr>"
  have "length have + length chunk \<le> MAX_FILE_SIZE" using arrives.prems(5) by simp
  then have "\<exists>out'. take_subpacket t \<lparr>sdata = chunk, end_marker = e\<rparr> ?s1 (line st b out) = (Inr (Inl s2), line st b out')"
    using arrives.hyps(1,3) arrives.prems(2)
    by (auto simp: take_subpacket_def s2_def holds_def lbind_def lpure_def send_zack_def send_hex_def write_line
        MAX_EMPTY_SUBPACKETS_def saturating_add32_exact Let_def)
  then obtain out' where "take_subpacket t \<lparr>sdata = chunk, end_marker = e\<rparr> ?s1 (line st b out) = (Inr (Inl s2), line st b out')"
    by blast
  with sub have "data_step cfg t ?s1 (line st a out) = (Inr (Inl s2), line st b out')"
    by (simp add: data_step_def)
  then have "data_loop cfg t ?s1 (line st a out) = data_loop cfg t s2 (line st b out')" by (rule data_loop_on)
  moreover have "fst (data_loop cfg t s2 (line st b out')) = Inr ((have @ chunk) @ rest)"
    using arrives.prems(5) by (intro arrives.IH [OF a(3)]) (auto simp: s2_def holds_def)
  ultimately show ?case using opened by simp
next
  case (damaged n chunk i b e "have" rest fs mode)
  from damaged.prems(1) obtain x y where x:
    "burst T t (build_bin16_header_mode ZDATA (to_le_bytes (word_of_nat (length have))) mode) w x"
    "burst T t (damaged_subpacket chunk i b e mode) x y" "bursts T t fs y v" by auto
  note opened = open_frame [OF x(1) assms damaged.prems(2,3), of out]
  let ?s1 = "s\<lparr>ds_open := Some Crc16\<rparr>"
  have sub: "next_subpacket t Crc16 MAX_SUBPACKET_DATA (z_frame_timeout cfg) (line st x out) = (Inl ZSubCrc, line st y out)"
    using next_subpacket_damaged [of T t chunk i b e mode "line st x out" y "z_frame_timeout cfg" MAX_SUBPACKET_DATA]
      x(2) assms damaged.hyps by (auto simp: in_time_for_def MAX_SUBPACKET_DATA_def)
  define s2 where "s2 = s\<lparr>ds_errors := n + 1, ds_open := None\<rparr>"
  define out' where "out' = out @ wire_form t (build_hex_header ZRPOS (to_le_bytes (ds_pos s)))"
  have "data_loop cfg t ?s1 (line st x out) = data_loop cfg t s2 (line st y out')"
    using sub damaged.hyps(1) damaged.prems(4)
    by (intro data_loop_on) (simp add: data_step_def is_peer_cancel_def setback_line s2_def out'_def)
  moreover have "fst (data_loop cfg t s2 (line st y out')) = Inr (have @ rest)"
    using damaged.prems by (intro damaged.IH [OF x(3)]) (auto simp: s2_def holds_def)
  ultimately show ?case using opened by simp
next
  case (stray n fr hdr "have" rest fs)
  from stray.prems(1) obtain x where x: "burst T t (build_hex_header fr hdr) w x" "bursts T t fs x v" by auto
  have "timed_header (z_frame_timeout cfg) t (line st w out) = (Inr \<lparr>frame = fr, hdata = hdr, crc_kind = Crc16\<rparr>, line st x out)"
    using assms(1) stray.hyps by (intro hex_line [OF x(1) assms(2)]) (simp_all add: in_time_for_def)
  define s2 where "s2 = s\<lparr>ds_errors := n + 1, ds_open := None\<rparr>"
  have "\<exists>out'. data_loop cfg t s (line st w out) = data_loop cfg t s2 (line st x out')"
    using \<open>timed_header _ _ _ = _\<close> stray.hyps stray.prems(3,4)
    by (auto simp: data_step_def data_header_def setback_line s2_def intro!: exI data_loop_on)
  then obtain out' where "data_loop cfg t s (line st w out) = data_loop cfg t s2 (line st x out')" by blast
  moreover have "fst (data_loop cfg t s2 (line st x out')) = Inr (have @ rest)"
    using stray.prems by (intro stray.IH [OF x(2)]) (auto simp: s2_def holds_def)
  ultimately show ?case by simp
next
  case (early_end n p "have" rest fs)
  from early_end.prems(1) obtain x where x: "burst T t (hex_u32 ZEOF p) w x" "bursts T t fs x v" by auto
  have h: "timed_header (z_frame_timeout cfg) t (line st w out)
      = (Inr \<lparr>frame = ZEOF, hdata = to_le_bytes (word_of_nat p), crc_kind = Crc16\<rparr>, line st x out)"
    using assms(1) by (intro hex_line [OF x(1) [unfolded hex_u32_def] assms(2)]) (simp_all add: in_time_for_def)
  have p: "unat (word_of_nat p :: u32) \<noteq> length (ds_data s)"
    using early_end.hyps(2,3) early_end.prems(2) by (simp add: unsigned_of_nat take_bit_nat_eq_self holds_def)
  define s2 where "s2 = s\<lparr>ds_errors := n + 1, ds_open := None, ds_eof_ignored := \<not> ds_eof_ignored s\<rparr>"
  have "\<exists>out'. data_loop cfg t s (line st w out) = data_loop cfg t s2 (line st x out')"
    using h p early_end.hyps(1) early_end.prems(3,4)
    by (cases "ds_eof_ignored s")
      (auto simp: data_step_def data_header_def setback_line s2_def position_to_le lpure_def intro!: exI data_loop_on)
  then obtain out' where "data_loop cfg t s (line st w out) = data_loop cfg t s2 (line st x out')" by blast
  moreover have "fst (data_loop cfg t s2 (line st x out')) = Inr (have @ rest)"
    using early_end.prems by (intro early_end.IH [OF x(2)]) (auto simp: s2_def holds_def)
  ultimately show ?case by simp
qed


section \<open>Concrete lines\<close>

text \<open>The frames that fit a five second burst on a line with a byte each millisecond.\<close>

lemma escaped_length: "length (concat (map (\<lambda>b. push_escaped_mode b mode) bs)) \<le> 2 * length bs"
  by (induction bs) (auto simp: push_escaped_mode_def)

lemma hex_frame_short: "length d = 4 \<Longrightarrow> build_hex_header fr d \<noteq> [] \<and> length (build_hex_header fr d) \<le> 21"
  by (auto simp: build_hex_header_def Let_def length_concat comp_def sum_list_triv)

lemma push_escaped_length: "length (push_escaped_mode b mode) \<le> 2"
  by (simp add: push_escaped_mode_def)

lemma bin16_frame_short:
  assumes "length d = 4"
  shows "build_bin16_header_mode fr d mode \<noteq> [] \<and> length (build_bin16_header_mode fr d mode) \<le> 17"
  using escaped_length [of mode "fr # d"] assms
    push_escaped_length [of "ucast (drop_bit 8 (crc16 (fr # d)))" mode] push_escaped_length [of "ucast (crc16 (fr # d))" mode]
  unfolding build_bin16_header_mode_def Let_def by simp

lemma subpacket_short: "build_subpacket_mode d e mode \<noteq> [] \<and> length (build_subpacket_mode d e mode) \<le> 2 * length d + 6"
  using escaped_length [of mode d] push_escaped_length [of "ucast (drop_bit 8 (crc16_update (crc16 d) [e]))" mode]
    push_escaped_length [of "ucast (crc16_update (crc16 d) [e])" mode]
  unfolding build_subpacket_mode_def Let_def by simp

lemmas frames_short = hex_frame_short bin16_frame_short subpacket_short

lemma chosen_small: "list_all (\<lambda>(file, ok). ok \<longrightarrow> length (snd file) \<le> MAX_FILE_SIZE) (zip files (choices decide c i files))"
  by (induction files arbitrary: c i) (auto split: prod.splits)

lemma zipped_files: "list_all P files \<Longrightarrow> list_all (\<lambda>(file, ok). P file) (zip files (choices decide c i files))"
  by (induction files arbitrary: c i) (auto split: prod.splits)

lemma nonempty_choices: "files \<noteq> [] \<Longrightarrow> zip files (choices decide c i files) \<noteq> []"
  by (cases files) (auto split: prod.splits)

lemma chosen_files: "map fst (zip files (choices decide c i files)) = files"
  by (induction files arbitrary: c i) (auto split: prod.splits)


section \<open>The properties of the engines\<close>

definition demo_settings :: zmodem_settings where
  "demo_settings = \<lparr>key_negotiation_timeout = None, key_frame_timeout = None, key_max_retries = None,
     key_negotiation_retry_interval = None\<rparr>"

lemma demo_in_time: "in_time_for 5000 demo_settings" "z_max_retries demo_settings = 10"
  by (simp_all add: in_time_for_def demo_settings_def z_frame_timeout_def z_retry_interval_def z_max_retries_def at_least_one_def)

definition demo_decide :: "nat decider" where
  "demo_decide n i name announced = (n = 0, n + 1)"

lemma demo_choices:
  "choices demo_decide 0 0 [([0x61], [0xFF, 0x18]), ([0x62], [])] = [True, False]"
  by (simp add: demo_decide_def MAX_FILE_SIZE_def)

definition demo_batch :: "((str \<times> byte list) \<times> bool) list" where
  "demo_batch = [(([0x61], [0xFF, 0x18]), True), (([0x62], []), False)]"

lemma demo_batch: "demo_batch = zip [([0x61], [0xFF, 0x18]), ([0x62], [])] (choices demo_decide 0 0 [([0x61], [0xFF, 0x18]), ([0x62], [])])"
  unfolding demo_choices by (simp add: demo_batch_def)

lemma demo_sendable: "list_all sendable [([0x61], [0xFF, 0x18]), ([0x62], [])]"
  by (simp add: sendable_def ascii_valid ascii_def)

lemma demo_short:
  "list_all (\<lambda>f. f \<noteq> [] \<and> 2 * length f \<le> 5000) (sender_frames demo_batch)"
  "list_all (\<lambda>f. f \<noteq> [] \<and> 2 * length f \<le> 5000) (receiver_frames demo_batch)"
proof -
  have "length (zfile_info [0x61] [0xFF, 0x18]) \<le> 40" "length (zfile_info [0x62] []) \<le> 40"
    using radix_string_length [of 10 "Suc (Suc 0)" 10] radix_string_length [of 10 0 10]
    by (simp_all add: zfile_info_def info_fields)
  then show "list_all (\<lambda>f. f \<noteq> [] \<and> 2 * length f \<le> 5000) (sender_frames demo_batch)"
    "list_all (\<lambda>f. f \<noteq> [] \<and> 2 * length f \<le> 5000) (receiver_frames demo_batch)"
    by (auto simp: demo_batch_def sender_frames_def receiver_frames_def offer_frames_def data_frames_def hex_u32_def zrinit_frame_def
        chunk_frames.simps ack_frames.simps frames_short intro: order_trans [OF conjunct2 [OF frames_short(1)]]
        order_trans [OF conjunct2 [OF frames_short(2)]] order_trans [OF conjunct2 [OF frames_short(3)]])
qed

text \<open>Property C1: two gateways transfer a batch. When every frame of the one reaches the other whole and
  within the timeouts, the receiver returns exactly the files its caller accepted, in order, with names
  and bytes intact and no error; the sender succeeds; and each side has written exactly the frames the
  other one read (the sender's closing \<open>OO\<close> included).\<close>

theorem zmodem_gateways_transfer:
  assumes "in_time_for T scfg" "in_time_for T rcfg"
    and "list_all sendable files" "files \<noteq> []" "length files \<le> MAX_BATCH_FILES"
    and "ms = zip files (choices decide caller 0 files)"
    and "bursts T t (sender_frames ms) wr wr'" "bursts T t (receiver_frames ms) ws ws'"
  shows "\<exists>lr ls.
    zmodem_receive_keeping rcfg t decide caller wr \<lparr>sent = [], broken = None\<rparr> =
      (\<lparr>br_files = map (received \<circ> fst) (filter snd ms), br_error = None\<rparr>, lr) \<and>
    zmodem_send scfg t files ws \<lparr>sent = [], broken = None\<rparr> = (Inr (), ls) \<and>
    sent (outw ls) = written t (sender_frames ms @ [[0x4F, 0x4F]]) \<and>
    sent (outw lr) = written t (receiver_frames ms)"
  using gateway_receives [OF assms(2,3,5,4) assms(7) [unfolded assms(6)]]
    gateway_sends [OF assms(1) _ _ _ assms(8), unfolded assms(6), OF nonempty_choices [OF assms(4)] chosen_small zipped_files [OF assms(3)]]
  unfolding chosen_files assms(6) by blast

theorem zmodem_gateways_transfer_witness:
  "\<exists>lr ls.
    zmodem_receive_keeping demo_settings True demo_decide 0 (paced 0 (written True (sender_frames demo_batch))) \<lparr>sent = [], broken = None\<rparr> =
      (\<lparr>br_files = [received ([0x61], [0xFF, 0x18])], br_error = None\<rparr>, lr) \<and>
    zmodem_send demo_settings True [([0x61], [0xFF, 0x18]), ([0x62], [])]
      (paced 0 (written True (receiver_frames demo_batch))) \<lparr>sent = [], broken = None\<rparr> = (Inr (), ls)"
  using zmodem_gateways_transfer [OF demo_in_time(1) demo_in_time(1) demo_sendable _ _ demo_batch
      bursts_paced [OF demo_short(1), of True 0] bursts_paced [OF demo_short(2), of True 0]]
  by (auto simp: demo_batch_def MAX_BATCH_FILES_def)

text \<open>Property C5: a file survives a bad line. Whatever mixture of data frames that arrive, frames with a
  damaged subpacket, headers out of place and early ends of file a sender that answers the receiver's
  ZRPOS puts on the line, with fewer than the configured number of failures in a row, the receiver returns
  exactly the bytes of the file.\<close>

theorem zmodem_recovers:
  assumes "bad_line (z_max_retries cfg) 0 [] data fs" "bursts T t fs w w'" "in_time_for T cfg"
    and "pushback st = None" "length data \<le> MAX_FILE_SIZE"
  shows "fst (data_loop cfg t init_data \<lparr>rst = st, inw = w, outw = \<lparr>sent = out, broken = None\<rparr>\<rparr>) = Inr data"
proof -
  have "holds init_data []" "ds_open init_data = None" "ds_errors init_data = 0"
    by (simp_all add: holds_def init_data_def)
  from bad_line_received [OF assms(3,4,1,2) this] assms(5) show ?thesis by (simp add: line_def)
qed

theorem zmodem_recovers_witness:
  "\<exists>fs. length fs = 7 \<and> hd (tl fs) = damaged_subpacket [0x41, 0x42] 1 0x43 ZCRCW plain \<and>
    fst (data_loop demo_settings True init_data \<lparr>rst = default_ReadState, inw = paced 0 (written True fs),
      outw = \<lparr>sent = [], broken = None\<rparr>\<rparr>) = Inr [0x41, 0x42]"
proof -
  let ?zdata = "build_bin16_header_mode ZDATA (to_le_bytes (word_of_nat (length ([] :: byte list)))) plain"
  define fs where "fs = [?zdata, damaged_subpacket [0x41, 0x42] 1 0x43 ZCRCW plain,
      build_hex_header ZNAK [0, 0, 0, 0], hex_u32 ZEOF 7,
      ?zdata, build_subpacket_mode [0x41, 0x42] ZCRCW plain, hex_u32 ZEOF (length ([] @ [0x41, 0x42] :: byte list))]"
  have good: "bad_line 10 n [] ([0x41, 0x42] @ [])
      [?zdata, build_subpacket_mode [0x41, 0x42] ZCRCW plain, hex_u32 ZEOF (length ([] @ [0x41, 0x42] :: byte list))]" for n
    by (intro bad_line.arrives bad_line.finished) simp_all
  have "bad_line 10 0 [] ([0x41, 0x42] @ []) fs"
    unfolding fs_def by (intro bad_line.damaged bad_line.stray bad_line.early_end good) simp_all
  moreover have "list_all (\<lambda>f. f \<noteq> [] \<and> 2 * length f \<le> 5000) fs"
    using push_escaped_length [of "ucast (drop_bit 8 (crc16 [0x41, 0x42, ZCRCW]))" plain]
      push_escaped_length [of "ucast (crc16 [0x41, 0x42, ZCRCW])" plain] escaped_length [of plain "[0x41, 0x43]"]
    by (auto simp: fs_def hex_u32_def damaged_subpacket_def escape_all_def frames_short
        intro: order_trans [OF conjunct2 [OF frames_short(1)]]
        order_trans [OF conjunct2 [OF frames_short(2)]] order_trans [OF conjunct2 [OF frames_short(3)]])
  moreover have "pushback default_ReadState = None" "length ([0x41, 0x42] @ [] :: byte list) \<le> MAX_FILE_SIZE"
    by (simp_all add: default_ReadState_def MAX_FILE_SIZE_def)
  ultimately have "fst (data_loop demo_settings True init_data \<lparr>rst = default_ReadState, inw = paced 0 (written True fs),
      outw = \<lparr>sent = [], broken = None\<rparr>\<rparr>) = Inr ([0x41, 0x42] @ [])"
    by (intro zmodem_recovers [OF _ bursts_paced demo_in_time(1)]) (simp_all only: demo_in_time(2))
  then show ?thesis by (intro exI [of _ fs]) (simp add: fs_def)
qed

end
