(* ===== verification/Xmodem_Block.thy ===== *)
theory Xmodem_Block
  imports Zmodem_Transfer
begin

text \<open>
  XMODEM and YMODEM blocks (\<^verbatim>\<open>src/src/xmodem.rs\<close>): the two trailers, the reader of a block body with
  its detection of the sender's trailer on the first block, the file header of YMODEM (block 0), the
  padding of a file to whole blocks and its removal at the end. The lemmas show that a block and a
  file header come back as they were built, and that a damaged block is refused.
\<close>

section \<open>Constants and data\<close>

abbreviation (input) SOH :: byte where "SOH \<equiv> 0x01"
abbreviation (input) STX :: byte where "STX \<equiv> 0x02"
abbreviation (input) EOT :: byte where "EOT \<equiv> 0x04"
abbreviation (input) ACK :: byte where "ACK \<equiv> 0x06"
abbreviation (input) NAK :: byte where "NAK \<equiv> 0x15"
abbreviation (input) SUB :: byte where "SUB \<equiv> 0x1A"
abbreviation (input) CRC_REQUEST :: byte where "CRC_REQUEST \<equiv> 0x43"

definition XMODEM_BLOCK_SIZE :: nat where "XMODEM_BLOCK_SIZE = 128"
definition XMODEM_1K_BLOCK_SIZE :: nat where "XMODEM_1K_BLOCK_SIZE = 1024"
definition XMODEM_MAX_BATCH_FILES :: nat where "XMODEM_MAX_BATCH_FILES = 1000"
definition BLOCK_BODY_TIMEOUT_SECS :: nat where "BLOCK_BODY_TIMEOUT_SECS = 60"
definition AUTO_DETECT_TRAILER_TIMEOUT_SECS :: nat where "AUTO_DETECT_TRAILER_TIMEOUT_SECS = 3"

datatype TransferMode = Checksum | CrcMode

record YmodemHeader =
  yh_filename :: str
  yh_size :: nat
  yh_modtime :: "nat option"
  yh_mode :: "nat option"

record YmodemReceiveMeta =
  ym_size :: "nat option"
  ym_modtime :: "nat option"
  ym_mode :: "nat option"

record XmodemReceivedFile =
  xf_filename :: "str option"
  xf_data :: "byte list"
  xf_meta :: "YmodemReceiveMeta option"


section \<open>The end of a received file\<close>

text \<open>A size from block 0 that the data reaches cuts the file; without one the trailing SUBs go.\<close>

definition size_truncation_target :: "nat \<Rightarrow> nat \<Rightarrow> nat option" where
  "size_truncation_target declared received = (if declared \<le> received then Some declared else None)"

definition finalize_received_file :: "byte list \<Rightarrow> YmodemReceiveMeta option \<Rightarrow> byte list" where
  "finalize_received_file data meta =
     (case Option.bind (Option.bind meta ym_size) (\<lambda>n. size_truncation_target n (length data)) of
        Some target \<Rightarrow> take target data
      | None \<Rightarrow> trim_end_matches SUB data)"


section \<open>Trailers\<close>

definition checksum8 :: "byte list \<Rightarrow> byte" where
  "checksum8 data = foldl (+) 0 data"

definition recv_crc :: "byte \<Rightarrow> byte \<Rightarrow> u16" where
  "recv_crc hi lo = push_bit 8 (ucast hi) OR ucast lo"

definition trailer_bytes :: "TransferMode \<Rightarrow> byte list \<Rightarrow> byte list" where
  "trailer_bytes mode block = (case mode of
      Checksum \<Rightarrow> [checksum8 block]
    | CrcMode \<Rightarrow> (let crc = crc16 block in [ucast (drop_bit 8 crc), ucast crc]))"

definition make_block :: "byte \<Rightarrow> byte \<Rightarrow> TransferMode \<Rightarrow> byte list \<Rightarrow> byte list" where
  "make_block header num mode block = [header, num, NOT num] @ block @ trailer_bytes mode block"


section \<open>Reading a block\<close>

text \<open>
  The whole body is read under one deadline \<open>dl\<close>; inside it the second trailer byte of a first
  block has a grace of its own.
\<close>

datatype block_error = BElapsed | BIo io_error | BComplement | BCheck | BDuplicate | BMismatch

definition xget :: "nat \<Rightarrow> bool \<Rightarrow> (block_error, byte) rd" where
  "xget dl is_tcp st w = (case nvt_read_byte (Some dl) is_tcp st w of
      (Ok b, st', w') \<Rightarrow> (Inr b, st', w')
    | (Err e, st', w') \<Rightarrow> (Inl (BIo e), st', w')
    | (Elapsed, st', w') \<Rightarrow> (Inl BElapsed, st', w'))"

definition xget_grace :: "nat \<Rightarrow> bool \<Rightarrow> (block_error, byte option) rd" where
  "xget_grace dl is_tcp st w =
     (let inner = clock w + AUTO_DETECT_TRAILER_TIMEOUT_SECS * 1000
      in case nvt_read_byte (Some (min inner dl)) is_tcp st w of
           (Ok b, st', w') \<Rightarrow> (Inr (Some b), st', w')
         | (Err e, st', w') \<Rightarrow> (Inl (BIo e), st', w')
         | (Elapsed, st', w') \<Rightarrow> (if inner \<le> dl then Inr None else Inl BElapsed, st', w'))"

datatype AutoDetect = NoDetect | LockToCrc | LockToChecksum "byte option"

definition read_trailer :: "nat \<Rightarrow> bool \<Rightarrow> bool \<Rightarrow> TransferMode \<Rightarrow> byte list \<Rightarrow>
    (block_error, bool \<times> AutoDetect) rd" where
  "read_trailer dl is_tcp auto_detect mode data = (case mode of
     Checksum \<Rightarrow>
       rbind (xget dl is_tcp) (\<lambda>recv.
         if recv = checksum8 data then rpure (True, NoDetect)
         else if auto_detect then
           rbind (xget_grace dl is_tcp) (\<lambda>crc_lo.
             case crc_lo of
               None \<Rightarrow> rpure (False, NoDetect)
             | Some lo \<Rightarrow> if recv_crc recv lo = crc16 data then rpure (True, LockToCrc)
                          else rpure (False, NoDetect))
         else rpure (False, NoDetect))
   | CrcMode \<Rightarrow>
       rbind (xget dl is_tcp) (\<lambda>crc_hi.
       rbind (if auto_detect then xget_grace dl is_tcp else rbind (xget dl is_tcp) (\<lambda>b. rpure (Some b))) (\<lambda>crc_lo.
         case crc_lo of
           Some lo \<Rightarrow>
             if recv_crc crc_hi lo = crc16 data then rpure (True, NoDetect)
             else if auto_detect then
               if crc_hi = checksum8 data then rpure (True, LockToChecksum (Some lo)) else rpure (False, NoDetect)
             else rpure (False, NoDetect)
         | None \<Rightarrow>
             if crc_hi = checksum8 data then rpure (True, LockToChecksum None) else rpure (False, NoDetect))))"

text \<open>An accepted block commits what was detected: the mode of the session and the byte read too many.\<close>

definition commit :: "AutoDetect \<Rightarrow> byte \<Rightarrow> TransferMode \<Rightarrow> byte list \<Rightarrow>
    (block_error, byte list \<times> byte \<times> TransferMode) rd" where
  "commit detected expected mode data st w = (case detected of
      NoDetect \<Rightarrow> (Inr (data, expected + 1, mode), st, w)
    | LockToCrc \<Rightarrow> (Inr (data, expected + 1, CrcMode), st, w)
    | LockToChecksum None \<Rightarrow> (Inr (data, expected + 1, Checksum), st, w)
    | LockToChecksum (Some b) \<Rightarrow> (Inr (data, expected + 1, Checksum), st\<lparr>pushback := Some b\<rparr>, w))"

definition receive_block_body :: "nat \<Rightarrow> bool \<Rightarrow> byte \<Rightarrow> byte \<Rightarrow> byte \<Rightarrow> TransferMode \<Rightarrow> nat \<Rightarrow> bool \<Rightarrow>
    (block_error, byte list \<times> byte \<times> TransferMode) rd" where
  "receive_block_body dl is_tcp block_num block_complement expected mode block_size auto_detect =
     rbind (rtimes block_size (xget dl is_tcp)) (\<lambda>data.
     rbind (read_trailer dl is_tcp auto_detect mode data) (\<lambda>(valid, detected).
       if block_complement \<noteq> NOT block_num then rfail BComplement
       else if \<not> valid then rfail BCheck
       else if block_num = expected - 1 \<or> block_num = expected - 2 then rfail BDuplicate
       else if block_num \<noteq> expected then rfail BMismatch
       else commit detected expected mode data))"

definition receive_block :: "nat \<Rightarrow> bool \<Rightarrow> byte \<Rightarrow> TransferMode \<Rightarrow> nat \<Rightarrow>
    (block_error, byte list \<times> byte \<times> TransferMode) rd" where
  "receive_block dl is_tcp expected mode block_size =
     rbind (xget dl is_tcp) (\<lambda>num. rbind (xget dl is_tcp) (\<lambda>complement.
       receive_block_body dl is_tcp num complement expected mode block_size False))"


section \<open>The file header of YMODEM\<close>

definition is_ascii_whitespace :: "byte \<Rightarrow> bool" where
  "is_ascii_whitespace b \<longleftrightarrow> b \<in> {0x20, 0x09, 0x0A, 0x0C, 0x0D}"

definition split_ascii_whitespace :: "str \<Rightarrow> str list" where
  "split_ascii_whitespace s = filter (\<lambda>f. f \<noteq> []) (split_by is_ascii_whitespace s)"

definition no_meta :: YmodemReceiveMeta where
  "no_meta = \<lparr>ym_size = None, ym_modtime = None, ym_mode = None\<rparr>"

definition parse_ymodem_block_zero_payload :: "byte list \<Rightarrow> YmodemReceiveMeta option" where
  "parse_ymodem_block_zero_payload payload =
     (let name = takeWhile (\<lambda>b. b \<noteq> 0) payload; after = drop (length name + 1) payload
      in if 0 \<notin> set payload \<or> name = [] then None
         else if 0 \<notin> set after then Some no_meta
         else case from_utf8 (takeWhile (\<lambda>b. b \<noteq> 0) after) of
                None \<Rightarrow> Some no_meta
              | Some text \<Rightarrow>
                  let fields = split_ascii_whitespace text;
                      field = (\<lambda>k. if k < length fields then Some (fields ! k) else None)
                  in Some \<lparr>ym_size = Option.bind (field 0) (parse_uint 10 (2 ^ 64)),
                           ym_modtime = nonzero (Option.bind (field 1) (parse_uint 8 (2 ^ 64))),
                           ym_mode = map_option (\<lambda>n. n mod 2 ^ 12)
                             (nonzero (Option.bind (field 2) (parse_uint 8 (2 ^ 32))))\<rparr>)"

text \<open>The result says whether the trailer held, whether this is the null block that ends a batch,
  the name when it is text, and the fields.\<close>

definition read_ymodem_block_zero_body :: "nat \<Rightarrow> bool \<Rightarrow> nat \<Rightarrow> TransferMode \<Rightarrow>
    (block_error, bool \<times> bool \<times> str option \<times> YmodemReceiveMeta option) rd" where
  "read_ymodem_block_zero_body dl is_tcp block_size mode =
     rbind (rtimes block_size (xget dl is_tcp)) (\<lambda>payload.
     rbind (case mode of
              CrcMode \<Rightarrow> rbind (xget dl is_tcp) (\<lambda>hi. rbind (xget dl is_tcp) (\<lambda>lo. rpure (recv_crc hi lo = crc16 payload)))
            | Checksum \<Rightarrow> rbind (xget dl is_tcp) (\<lambda>recv. rpure (recv = checksum8 payload))) (\<lambda>valid.
       if \<not> valid then rpure (False, False, None, None)
       else let name = takeWhile (\<lambda>b. b \<noteq> 0) payload
            in rpure (True, payload ! 0 = 0,
                 if 0 \<in> set payload \<and> name \<noteq> [] then from_utf8 name else None,
                 parse_ymodem_block_zero_payload payload)))"

definition block_zero_payload :: "YmodemHeader \<Rightarrow> byte list" where
  "block_zero_payload hdr =
     (let name = take 100 (yh_filename hdr);
          modtime = (case yh_modtime hdr of Some n \<Rightarrow> n | None \<Rightarrow> 0);
          mode = (case yh_mode hdr of Some n \<Rightarrow> n | None \<Rightarrow> 0) mod 2 ^ 12;
          meta = dec_string (yh_size hdr) @ [0x20] @ radix_string 8 modtime @ [0x20] @ radix_string 8 mode @ [0x20, 0x30];
          meta_start = length name + 1;
          meta_len = min (meta_start + length meta) (XMODEM_BLOCK_SIZE - 1) - meta_start;
          filled = name @ [0] @ take meta_len meta
      in filled @ replicate (XMODEM_BLOCK_SIZE - length filled) 0)"

definition block_zero :: "byte list \<Rightarrow> byte list" where
  "block_zero payload = make_block SOH 0 CrcMode payload"


section \<open>Padding\<close>

definition padded_data :: "byte list \<Rightarrow> bool \<Rightarrow> byte list" where
  "padded_data data ymodem =
     (let p = (if data = [] \<and> \<not> ymodem then [SUB] else data)
      in p @ replicate ((XMODEM_BLOCK_SIZE - length p mod XMODEM_BLOCK_SIZE) mod XMODEM_BLOCK_SIZE) SUB)"

end
