(* ===== verification/Xmodem_Transfer.thy ===== *)
theory Xmodem_Transfer
  imports Xmodem_Block
begin

text \<open>
  The XMODEM and YMODEM engines (\<^verbatim>\<open>src/src/xmodem.rs\<close>): the receiver with its negotiation, its error
  recovery and the hand-over between the files of a batch, and the sender with its block loop and the
  two handshakes at the end. Every loop is a step function and a recursion over it, or a recursion
  that takes a byte or a retry each time round. Diagnostics (\<^verbatim>\<open>glog!\<close>) are left out.
\<close>

section \<open>Settings and errors\<close>

text \<open>The values of the four keys, when present and a number (\<^verbatim>\<open>src/src/config.rs\<close>).\<close>

record xmodem_settings =
  xkey_negotiation_timeout :: "nat option"
  xkey_block_timeout :: "nat option"
  xkey_max_retries :: "nat option"
  xkey_retry_interval :: "nat option"

definition x_negotiation_timeout :: "xmodem_settings \<Rightarrow> nat" where
  "x_negotiation_timeout cfg = at_least_one 45 (xkey_negotiation_timeout cfg)"

definition x_block_timeout :: "xmodem_settings \<Rightarrow> nat" where
  "x_block_timeout cfg = at_least_one 20 (xkey_block_timeout cfg)"

definition x_max_retries :: "xmodem_settings \<Rightarrow> nat" where
  "x_max_retries cfg = at_least_one 10 (xkey_max_retries cfg)"

definition x_retry_interval :: "xmodem_settings \<Rightarrow> nat" where
  "x_retry_interval cfg = at_least_one 7 (xkey_retry_interval cfg)"

lemma x_settings_positive [simp]:
  "0 < x_negotiation_timeout cfg" "0 < x_block_timeout cfg" "0 < x_max_retries cfg" "0 < x_retry_interval cfg"
  by (simp_all add: x_negotiation_timeout_def x_block_timeout_def x_max_retries_def x_retry_interval_def
      at_least_one_def split: option.splits)

datatype xmodem_error =
    XRead io_error | XWrite io_error
  | XNegotiationTimeout | XNoResponse | XBothReceiving | XCancelled | XCancelledBySender
  | XFirstHeaderTimeout | XTransferTimeout | XTooLarge | XBlockSequence | XTooManyBlockErrors | XTooManyFiles
  | XNoReceiver | XStartTimeout | XCancelledByReceiver | XBlockZeroRetries | XTooManyRetries
  | XEotRead io_error | XEotNotAcked nat

definition write_all :: "bool \<Rightarrow> byte list \<Rightarrow> (xmodem_error, unit) lk" where
  "write_all is_tcp bs = on_writer XWrite is_tcp bs"

definition raw_write_byte :: "bool \<Rightarrow> byte \<Rightarrow> (xmodem_error, unit) lk" where
  "raw_write_byte is_tcp b = write_all is_tcp [b]"

text \<open>One byte by a deadline, or within some milliseconds.\<close>

definition byte_by :: "nat \<Rightarrow> bool \<Rightarrow> link \<Rightarrow> byte outcome \<times> link" where
  "byte_by dl is_tcp = on_reader (nvt_read_byte (Some dl) is_tcp)"

definition byte_within :: "nat \<Rightarrow> bool \<Rightarrow> link \<Rightarrow> byte outcome \<times> link" where
  "byte_within ms is_tcp l = byte_by (now l + ms) is_tcp l"

definition can_abort :: "byte \<Rightarrow> link \<Rightarrow> bool \<times> link" where
  "can_abort b l = (case is_can_abort b (rst l) of (stop, st) \<Rightarrow> (stop, l\<lparr>rst := st\<rparr>))"

text \<open>Cancel with three CANs, and fail.\<close>

definition cancel_with :: "bool \<Rightarrow> xmodem_error \<Rightarrow> (xmodem_error, 'a) lk" where
  "cancel_with is_tcp e = lbind (write_all is_tcp [CAN, CAN, CAN]) (\<lambda>_. lfail e)"

definition block_size_of :: "byte \<Rightarrow> nat" where
  "block_size_of header = (if header = STX then XMODEM_1K_BLOCK_SIZE else XMODEM_BLOCK_SIZE)"


section \<open>What reading costs\<close>

lemma frugal_xget [invar_intros]: "frugal (xget dl t)"
  by (rule frugalI) (auto simp: xget_def split: prod.splits outcome.splits dest: nvt_read_rest)

lemma frugal_grace [invar_intros]: "frugal (xget_grace dl t)"
  by (rule frugalI) (auto simp: xget_grace_def Let_def split: prod.splits outcome.splits dest: nvt_read_rest)

lemma grace_push_back:
  "xget_grace dl t st w = (Inr (Some b), st', w') \<Longrightarrow> stream_rest (st'\<lparr>pushback := Some b\<rparr>) w' \<le> stream_rest st w"
  by (auto simp: xget_grace_def Let_def split: prod.splits outcome.splits if_splits dest: nvt_read_Ok_rest)

lemma frugal_trailer [invar_intros]: "frugal (read_trailer dl t auto mode data)"
  unfolding read_trailer_def
  by (cases mode) (auto intro!: invar_intros split: option.splits)

lemma trailer_push_back:
  assumes "read_trailer dl t auto mode data st w = (Inr (v, LockToChecksum (Some b)), st', w')"
  shows "stream_rest (st'\<lparr>pushback := Some b\<rparr>) w' \<le> stream_rest st w"
proof (cases mode)
  case Checksum
  with assms show ?thesis
    by (auto simp: read_trailer_def rpure_def elim!: rbind_InrE split: if_splits option.splits)
next
  case CrcMode
  with assms obtain hi st1 w1 lo where hi: "xget dl t st w = (Inr hi, st1, w1)"
      and lo: "xget_grace dl t st1 w1 = (Inr lo, st', w')" "lo = Some b"
    by (auto simp: read_trailer_def rpure_def elim!: rbind_InrE split: if_splits option.splits)
  from frugalD [OF frugal_xget hi] grace_push_back lo show ?thesis by (metis le_trans)
qed

lemma frugal_body [invar_intros]: "frugal (receive_block_body dl t num cpl expected mode sz auto)"
proof (rule frugalI)
  fix st w r st' w'
  assume r: "receive_block_body dl t num cpl expected mode sz auto st w = (r, st', w')"
  obtain x st1 w1 where x: "rtimes sz (xget dl t) st w = (x, st1, w1)" by (cases "rtimes sz (xget dl t) st w")
  have "frugal (rtimes sz (xget dl t))" by (intro invar_intros)
  from this x have le: "stream_rest st1 w1 \<le> stream_rest st w" by (rule frugalD)
  show "stream_rest st' w' \<le> stream_rest st w"
  proof (cases x)
    case (Inl e)
    with r x le show ?thesis by (simp add: receive_block_body_def rbind_def)
  next
    case (Inr data)
    obtain y st2 w2 where y: "read_trailer dl t auto mode data st1 w1 = (y, st2, w2)"
      by (cases "read_trailer dl t auto mode data st1 w1")
    from frugalD [OF frugal_trailer y] trailer_push_back y le r x Inr show ?thesis
      by (fastforce simp: receive_block_body_def rbind_def rfail_def commit_def split: sum.splits if_splits AutoDetect.splits option.splits)
  qed
qed

lemma frugal_block [invar_intros]: "frugal (receive_block dl t expected mode sz)"
  unfolding receive_block_def by (intro invar_intros)

lemma frugal_zero_body [invar_intros]: "frugal (read_ymodem_block_zero_body dl t sz mode)"
  unfolding read_ymodem_block_zero_body_def Let_def by (cases mode) (auto intro!: invar_intros)

lemma byte_by_rest:
  assumes "byte_by dl t l = (r, l')"
  shows "link_rest l' \<le> link_rest l" "r = Ok b \<Longrightarrow> link_rest l' < link_rest l"
    "now l < dl \<Longrightarrow> r \<noteq> Err PeerClosed \<Longrightarrow> link_rest l' < link_rest l"
proof -
  obtain st w where m: "nvt_read_byte (Some dl) t (rst l) (inw l) = (r, st, w)" and l': "l' = l\<lparr>rst := st, inw := w\<rparr>"
    using assms by (auto simp: byte_by_def on_reader_def split: prod.splits)
  from nvt_read_rest [OF m] l' show "link_rest l' \<le> link_rest l" by (simp add: link_rest_def)
  from nvt_read_rest_less [OF m] l' show "now l < dl \<Longrightarrow> r \<noteq> Err PeerClosed \<Longrightarrow> link_rest l' < link_rest l"
    by (simp add: link_rest_def ahead_def)
  assume "r = Ok b"
  with m nvt_read_Ok_rest [of "Some dl" t "rst l" "inw l" b st w]
  have "stream_rest (st\<lparr>pushback := Some b\<rparr>) w \<le> stream_rest (rst l) (inw l)" by simp
  moreover have "pushback st = None"
    using m \<open>r = Ok b\<close> by (auto simp: nvt_read_byte_def split: option.splits prod.splits)
  ultimately show "link_rest l' < link_rest l" using l' by (simp add: link_rest_def stream_rest_def)
qed

lemma byte_within_rest:
  assumes "byte_within ms t l = (r, l')"
  shows "link_rest l' \<le> link_rest l" "r = Ok b \<Longrightarrow> link_rest l' < link_rest l"
    "0 < ms \<Longrightarrow> r \<noteq> Err PeerClosed \<Longrightarrow> link_rest l' < link_rest l"
  using byte_by_rest [OF assms [unfolded byte_within_def]] by simp_all

lemma can_abort_rest: "can_abort b l = (stop, l') \<Longrightarrow> link_rest l' = link_rest l"
  by (auto simp: can_abort_def is_can_abort_def link_rest_def stream_rest_def split: if_splits)

lemma keeps_rest_writes [invar_intros]:
  "keeps_rest (write_all t bs)" "keeps_rest (raw_write_byte t b)" "keeps_rest (cancel_with t e)"
  by (simp_all add: write_all_def raw_write_byte_def cancel_with_def keeps_rest_write keeps_rest_lbind keeps_rest_lfail)


section \<open>The receiver: negotiation\<close>

text \<open>
  Where a receive stands: inside a file, or between two files of a YMODEM batch, where \<open>AskNext\<close>
  is about to request the next file header and \<open>Between k\<close> waits for it after \<open>k\<close> corrupt ones.
\<close>

datatype place = InFile | AskNext | Between nat

record xm_state =
  xs_place :: place
  xs_data :: "byte list"
  xs_expected :: byte
  xs_mode :: TransferMode
  xs_ymodem :: bool
  xs_meta :: "YmodemReceiveMeta option"
  xs_filename :: "str option"
  xs_files :: "XmodemReceivedFile list"
  xs_errors :: nat
  xs_eot_naked :: bool
  xs_awaiting :: bool
  xs_short_cancel :: bool

definition in_file :: "byte list \<Rightarrow> byte \<Rightarrow> TransferMode \<Rightarrow> xm_state" where
  "in_file data expected mode = \<lparr>xs_place = InFile, xs_data = data, xs_expected = expected, xs_mode = mode,
     xs_ymodem = False, xs_meta = None, xs_filename = None, xs_files = [], xs_errors = 0, xs_eot_naked = False,
     xs_awaiting = False, xs_short_cancel = False\<rparr>"

record negotiation =
  ng_attempt :: nat
  ng_mode :: TransferMode
  ng_mirrored :: nat
  ng_peer_receiving :: bool
  ng_eot_seen :: bool
  ng_request_sent :: bool

definition init_negotiation :: negotiation where
  "init_negotiation = \<lparr>ng_attempt = 0, ng_mode = CrcMode, ng_mirrored = 0, ng_peer_receiving = False,
     ng_eot_seen = False, ng_request_sent = False\<rparr>"

text \<open>How a negotiation ends well: with a file under way, or with the whole transfer over.\<close>

datatype opened = Begin xm_state | Finished "XmodemReceivedFile list"

definition as_u32 :: "nat \<Rightarrow> nat" where
  "as_u32 n = n mod 2 ^ 32"

definition crc_attempts :: "xmodem_settings \<Rightarrow> nat" where
  "crc_attempts cfg = as_u32 (max (x_negotiation_timeout cfg * 2 div 3 div max (x_retry_interval cfg) 1) 3)"

definition max_negotiation_attempts :: "xmodem_settings \<Rightarrow> nat" where
  "max_negotiation_attempts cfg = as_u32 (crc_attempts cfg + as_u32 (x_max_retries cfg))"

definition bump :: "negotiation \<Rightarrow> negotiation" where
  "bump n = n\<lparr>ng_attempt := saturating_inc (ng_attempt n)\<rparr>"

text \<open>Block 0, once its header bytes are in.\<close>

definition first_block_zero :: "bool \<Rightarrow> nat \<Rightarrow> negotiation \<Rightarrow> (xmodem_error, negotiation + opened) lk" where
  "first_block_zero is_tcp block_size n l =
     (case on_reader (read_ymodem_block_zero_body (now l + BLOCK_BODY_TIMEOUT_SECS * 1000) is_tcp block_size CrcMode) l of
        (Inr (True, True, _, _), l1) \<Rightarrow>
          lbind (raw_write_byte is_tcp ACK) (\<lambda>_. lpure (Inr (Finished []))) l1
      | (Inr (True, False, filename, meta), l1) \<Rightarrow>
          lbind (raw_write_byte is_tcp ACK) (\<lambda>_. lbind (raw_write_byte is_tcp CRC_REQUEST) (\<lambda>_.
            lpure (Inr (Begin ((in_file [] 1 CrcMode)\<lparr>xs_ymodem := True, xs_meta := meta, xs_filename := filename\<rparr>))))) l1
      | (_, l1) \<Rightarrow> lbind (raw_write_byte is_tcp NAK) (\<lambda>_. lpure (Inl (bump n))) l1)"

text \<open>The first data block, whose trailer also tells the mode of the sender.\<close>

definition first_data_block :: "bool \<Rightarrow> byte \<Rightarrow> byte \<Rightarrow> nat \<Rightarrow> negotiation \<Rightarrow> (xmodem_error, negotiation + opened) lk" where
  "first_data_block is_tcp num complement block_size n l =
     (case on_reader (receive_block_body (now l + BLOCK_BODY_TIMEOUT_SECS * 1000) is_tcp num complement 1
             (ng_mode n) block_size True) l of
        (Inr (data, expected, mode), l1) \<Rightarrow>
          lbind (raw_write_byte is_tcp ACK) (\<lambda>_. lpure (Inr (Begin (in_file data expected mode)))) l1
      | (Inl _, l1) \<Rightarrow> lbind (raw_write_byte is_tcp NAK) (\<lambda>_. lpure (Inr (Begin (in_file [] 1 (ng_mode n))))) l1)"

definition header_byte :: "bool \<Rightarrow> (xmodem_error, byte) lk" where
  "header_byte is_tcp l = (case byte_within (BLOCK_BODY_TIMEOUT_SECS * 1000) is_tcp l of
      (Ok b, l1) \<Rightarrow> (Inr b, l1)
    | (Err e, l1) \<Rightarrow> (Inl (XRead e), l1)
    | (Elapsed, l1) \<Rightarrow> (Inl XFirstHeaderTimeout, l1))"

definition negotiate_byte :: "bool \<Rightarrow> byte \<Rightarrow> negotiation \<Rightarrow> (xmodem_error, negotiation + opened) lk" where
  "negotiate_byte is_tcp b n =
     (if b = CAN then lpure (Inl n)
      else if b = SOH \<or> b = STX then
        lbind (header_byte is_tcp) (\<lambda>num. lbind (header_byte is_tcp) (\<lambda>complement.
          if num = 0 \<and> complement = 0xFF then first_block_zero is_tcp (block_size_of b) n
          else first_data_block is_tcp num complement (block_size_of b) n))
      else if b = EOT \<and> \<not> ng_eot_seen n then
        lbind (raw_write_byte is_tcp NAK) (\<lambda>_. lpure (Inl (n\<lparr>ng_eot_seen := True, ng_request_sent := True\<rparr>)))
      else if b = EOT then
        lbind (raw_write_byte is_tcp ACK) (\<lambda>_.
          lpure (Inr (Finished [\<lparr>xf_filename = None, xf_data = [], xf_meta = None\<rparr>])))
      else if b = CRC_REQUEST \<or> b = NAK then
        let mirrored = saturating_inc (ng_mirrored n)
        in lpure (Inl (bump (n\<lparr>ng_mirrored := mirrored, ng_peer_receiving := (ng_peer_receiving n \<or> mirrored \<ge> 2)\<rparr>)))
      else lpure (Inl (bump n)))"

definition negotiate_read :: "xmodem_settings \<Rightarrow> bool \<Rightarrow> bool \<Rightarrow> negotiation \<Rightarrow> (xmodem_error, negotiation + opened) lk" where
  "negotiate_read cfg is_tcp is_petscii n l =
     (case byte_within (x_retry_interval cfg * 1000) is_tcp l of
        (Ok b, l1) \<Rightarrow>
          if is_esc_key b is_petscii then (Inl XCancelled, l1)
          else (case can_abort b l1 of
                  (True, l2) \<Rightarrow> (Inl XCancelledBySender, l2)
                | (False, l2) \<Rightarrow> negotiate_byte is_tcp b n l2)
      | (Err e, l1) \<Rightarrow> (Inl (XRead e), l1)
      | (Elapsed, l1) \<Rightarrow> (Inr (Inl (bump n)), l1))"

definition negotiation_failure :: "xmodem_error \<Rightarrow> negotiation \<Rightarrow> xmodem_error" where
  "negotiation_failure e n = (if ng_peer_receiving n then XBothReceiving else e)"

definition receive_negotiate_step :: "xmodem_settings \<Rightarrow> bool \<Rightarrow> bool \<Rightarrow> nat \<Rightarrow> negotiation \<Rightarrow>
    (xmodem_error, negotiation + opened) lk" where
  "receive_negotiate_step cfg is_tcp is_petscii deadline n l =
     (if deadline \<le> now l then (Inl (negotiation_failure XNegotiationTimeout n), l)
      else if ng_attempt n \<ge> max_negotiation_attempts cfg then (Inl (negotiation_failure XNoResponse n), l)
      else let request = (if ng_attempt n < crc_attempts cfg then CRC_REQUEST else NAK);
               n1 = n\<lparr>ng_mode := (if ng_attempt n = crc_attempts cfg then Checksum else ng_mode n),
                      ng_request_sent := False\<rparr>
           in lbind (if ng_request_sent n then lpure () else raw_write_byte is_tcp request)
                (\<lambda>_. negotiate_read cfg is_tcp is_petscii n1) l)"

lemma keeps_rest_block_zero [invar_intros]: "keeps_rest (first_block_zero t sz n)"
proof (rule keeps_restI)
  fix l r l' assume r: "first_block_zero t sz n l = (r, l')"
  let ?m = "read_ymodem_block_zero_body (now l + BLOCK_BODY_TIMEOUT_SECS * 1000) t sz CrcMode"
  obtain x l1 where x: "on_reader ?m l = (x, l1)" by (cases "on_reader ?m l")
  have "keeps_rest (on_reader ?m)" by (intro keeps_rest_read invar_intros)
  from this x have le: "link_rest l1 \<le> link_rest l" by (rule keeps_restD)
  have tail: "keeps_rest (lbind (raw_write_byte t b) (\<lambda>_. lpure y))"
    "keeps_rest (lbind (raw_write_byte t b) (\<lambda>_. lbind (raw_write_byte t c) (\<lambda>_. lpure y)))"
    for b c and y :: "negotiation + opened"
    by (intro invar_intros)+
  show "link_rest l' \<le> link_rest l"
    using r x le
    by (auto simp: first_block_zero_def split: sum.splits prod.splits bool.splits dest!: keeps_restD [OF tail(1)] keeps_restD [OF tail(2)])
qed

lemma keeps_rest_data_block [invar_intros]: "keeps_rest (first_data_block t num cpl sz n)"
proof (rule keeps_restI)
  fix l r l' assume r: "first_data_block t num cpl sz n l = (r, l')"
  let ?m = "receive_block_body (now l + BLOCK_BODY_TIMEOUT_SECS * 1000) t num cpl 1 (ng_mode n) sz True"
  obtain x l1 where x: "on_reader ?m l = (x, l1)" by (cases "on_reader ?m l")
  have "keeps_rest (on_reader ?m)" by (intro keeps_rest_read invar_intros)
  from this x have le: "link_rest l1 \<le> link_rest l" by (rule keeps_restD)
  have tail: "keeps_rest (lbind (raw_write_byte t b) (\<lambda>_. lpure y))" for b and y :: "negotiation + opened"
    by (intro invar_intros)
  show "link_rest l' \<le> link_rest l"
    using r x le by (auto simp: first_data_block_def split: sum.splits prod.splits dest!: keeps_restD [OF tail])
qed

lemma keeps_rest_header_byte [invar_intros]: "keeps_rest (header_byte t)"
  by (rule keeps_restI) (auto simp: header_byte_def split: prod.splits outcome.splits dest: byte_within_rest)

lemma keeps_rest_negotiate_byte [invar_intros]: "keeps_rest (negotiate_byte t b n)"
  unfolding negotiate_byte_def Let_def by (intro invar_intros)

lemma negotiate_read_less:
  assumes "negotiate_read cfg t p n l = (Inr (Inl n'), l')"
  shows "link_rest l' < link_rest l"
proof -
  obtain x l1 where x: "byte_within (x_retry_interval cfg * 1000) t l = (x, l1)"
    by (cases "byte_within (x_retry_interval cfg * 1000) t l")
  have "x \<noteq> Err PeerClosed" using assms x by (auto simp: negotiate_read_def)
  with byte_within_rest(3) [OF x] have less: "link_rest l1 < link_rest l" by simp
  show ?thesis
    using assms x less keeps_restD [OF keeps_rest_negotiate_byte]
    by (fastforce simp: negotiate_read_def split: outcome.splits if_splits prod.splits bool.splits dest: can_abort_rest)
qed

lemma receive_negotiate_step_less:
  assumes "receive_negotiate_step cfg t p nd n l = (Inr (Inl n'), l')"
  shows "link_rest l' < link_rest l"
proof -
  let ?w = "if ng_request_sent n then lpure () else raw_write_byte t (if ng_attempt n < crc_attempts cfg then CRC_REQUEST else NAK)"
  let ?n = "n\<lparr>ng_mode := (if ng_attempt n = crc_attempts cfg then Checksum else ng_mode n), ng_request_sent := False\<rparr>"
  from assms have "lbind ?w (\<lambda>_. negotiate_read cfg t p ?n) l = (Inr (Inl n'), l')"
    by (auto simp: receive_negotiate_step_def Let_def split: if_splits)
  then obtain u l1 where u: "?w l = (Inr u, l1)" "negotiate_read cfg t p ?n l1 = (Inr (Inl n'), l')" by (rule lbind_InrE)
  have "keeps_rest ?w" by (intro invar_intros)
  from keeps_restD [OF this u(1)] negotiate_read_less [OF u(2)] show ?thesis by simp
qed

function receive_negotiate :: "xmodem_settings \<Rightarrow> bool \<Rightarrow> bool \<Rightarrow> nat \<Rightarrow> negotiation \<Rightarrow> (xmodem_error, opened) lk" where
  "receive_negotiate cfg is_tcp is_petscii deadline n l =
     (case receive_negotiate_step cfg is_tcp is_petscii deadline n l of
        (Inl e, l') \<Rightarrow> (Inl e, l')
      | (Inr (Inl n'), l') \<Rightarrow> receive_negotiate cfg is_tcp is_petscii deadline n' l'
      | (Inr (Inr opened), l') \<Rightarrow> (Inr opened, l'))"
  by pat_completeness auto
termination
  by (relation "measure (\<lambda>(cfg, t, p, nd, n, l). link_rest l)") (auto dest!: receive_negotiate_step_less [OF sym])

declare receive_negotiate.simps [simp del]


section \<open>The receiver: blocks and files\<close>

definition PURGE_MAX_BYTES :: nat where "PURGE_MAX_BYTES = 2 * 1029"
definition INTER_FILE_WAIT_SECS :: nat where "INTER_FILE_WAIT_SECS = 10"

text \<open>
  Reading until the line has been quiet for a second; \<open>cans\<close> counts the CANs the drained bytes
  end in, backspaces after them allowed. The result is whether it ended quiet on a short run.
\<close>

definition trailing_cans :: "nat \<Rightarrow> byte \<Rightarrow> nat" where
  "trailing_cans cans b = (if b = CAN then cans + 1 else if b = 0x08 \<and> cans \<ge> 2 then cans else 0)"

fun purge_loop :: "nat \<Rightarrow> nat \<Rightarrow> bool \<Rightarrow> nat \<Rightarrow> (xmodem_error, bool) lk" where
  "purge_loop 0 until is_tcp cans l = (Inr False, l)"
| "purge_loop (Suc budget) until is_tcp cans l =
     (if until \<le> now l then (Inr False, l)
      else case byte_within 1000 is_tcp l of
             (Ok b, l1) \<Rightarrow> purge_loop budget until is_tcp (trailing_cans cans b) l1
           | (Err e, l1) \<Rightarrow> (Inl (XRead e), l1)
           | (Elapsed, l1) \<Rightarrow> (if cans \<ge> 4 then Inl XCancelledBySender else Inr (cans \<ge> 2), l1))"

definition purge_line :: "bool \<Rightarrow> (xmodem_error, bool) lk" where
  "purge_line is_tcp l = purge_loop PURGE_MAX_BYTES (now l + 60 * 1000) is_tcp 0 l"

text \<open>One failed block: counted, drained, and asked for again.\<close>

definition block_failed :: "xmodem_settings \<Rightarrow> bool \<Rightarrow> xm_state \<Rightarrow> (xmodem_error, xm_state + XmodemReceivedFile list) lk" where
  "block_failed cfg is_tcp s =
     (if xs_errors s + 1 > x_max_retries cfg then cancel_with is_tcp XTooManyBlockErrors
      else lbind (purge_line is_tcp) (\<lambda>short. lbind (raw_write_byte is_tcp NAK) (\<lambda>_.
             lpure (Inl (s\<lparr>xs_errors := xs_errors s + 1, xs_short_cancel := short\<rparr>)))))"

definition take_data_block :: "xmodem_settings \<Rightarrow> bool \<Rightarrow> nat \<Rightarrow> xm_state \<Rightarrow> (xmodem_error, xm_state + XmodemReceivedFile list) lk" where
  "take_data_block cfg is_tcp block_size s l =
     (case on_reader (receive_block (now l + BLOCK_BODY_TIMEOUT_SECS * 1000) is_tcp (xs_expected s) (xs_mode s) block_size) l of
        (Inr (data, expected, mode), l1) \<Rightarrow>
          if length (xs_data s) + length data > MAX_FILE_SIZE then cancel_with is_tcp XTooLarge l1
          else lbind (raw_write_byte is_tcp ACK) (\<lambda>_. lpure (Inl (s\<lparr>xs_data := xs_data s @ data, xs_expected := expected,
                 xs_mode := mode, xs_errors := 0, xs_eot_naked := False, xs_awaiting := False\<rparr>))) l1
      | (Inl BDuplicate, l1) \<Rightarrow>
          lbind (raw_write_byte is_tcp ACK) (\<lambda>_. lpure (Inl (s\<lparr>xs_awaiting := False\<rparr>))) l1
      | (Inl BMismatch, l1) \<Rightarrow> cancel_with is_tcp XBlockSequence l1
      | (Inl _, l1) \<Rightarrow> block_failed cfg is_tcp s l1)"

text \<open>An end of file is verified, once, on plain XMODEM and when the file is well short of its size.\<close>

definition short_of_size :: "xm_state \<Rightarrow> bool" where
  "short_of_size s \<longleftrightarrow> xs_ymodem s \<and> (case Option.bind (xs_meta s) ym_size of
     None \<Rightarrow> False | Some declared \<Rightarrow> declared - length (xs_data s) > 254)"

definition take_eot :: "bool \<Rightarrow> xm_state \<Rightarrow> (xmodem_error, xm_state + XmodemReceivedFile list) lk" where
  "take_eot is_tcp s =
     (if (\<not> xs_ymodem s \<or> short_of_size s) \<and> \<not> xs_eot_naked s
      then lbind (raw_write_byte is_tcp NAK) (\<lambda>_. lpure (Inl (s\<lparr>xs_eot_naked := True, xs_awaiting := True\<rparr>)))
      else lbind (raw_write_byte is_tcp ACK) (\<lambda>_.
             let files = xs_files s @ [\<lparr>xf_filename = xs_filename s, xf_data = finalize_received_file (xs_data s) (xs_meta s),
                                         xf_meta = xs_meta s\<rparr>]
             in if \<not> xs_ymodem s then lpure (Inr files)
                else lpure (Inl (s\<lparr>xs_place := AskNext, xs_data := [], xs_meta := None, xs_filename := None,
                                   xs_files := files\<rparr>))))"

definition take_byte :: "xmodem_settings \<Rightarrow> bool \<Rightarrow> byte \<Rightarrow> xm_state \<Rightarrow> (xmodem_error, xm_state + XmodemReceivedFile list) lk" where
  "take_byte cfg is_tcp b s l =
     (let s1 = s\<lparr>xs_short_cancel := False\<rparr>
      in case can_abort b l of
           (True, l1) \<Rightarrow> (Inl XCancelledBySender, l1)
         | (False, l1) \<Rightarrow>
             if b = SOH \<or> b = STX then take_data_block cfg is_tcp (block_size_of b) s1 l1
             else if b = EOT then take_eot is_tcp s1 l1
             else if b = CAN then (Inr (Inl s1), l1)
             else block_failed cfg is_tcp (s1\<lparr>xs_eot_naked := False, xs_awaiting := False\<rparr>) l1)"

definition in_file_step :: "xmodem_settings \<Rightarrow> bool \<Rightarrow> xm_state \<Rightarrow> (xmodem_error, xm_state + XmodemReceivedFile list) lk" where
  "in_file_step cfg is_tcp s l =
     (case byte_within (x_block_timeout cfg * 1000) is_tcp l of
        (Ok b, l1) \<Rightarrow> take_byte cfg is_tcp b s l1
      | (Err e, l1) \<Rightarrow> (Inl (XRead e), l1)
      | (Elapsed, l1) \<Rightarrow>
          if xs_awaiting s \<and> xs_data s \<noteq> [] then take_byte cfg is_tcp EOT s l1
          else if xs_short_cancel s then cancel_with is_tcp XCancelledBySender l1
          else if xs_errors s + 1 > x_max_retries cfg then cancel_with is_tcp XTransferTimeout l1
          else lbind (raw_write_byte is_tcp NAK) (\<lambda>_. lpure (Inl (s\<lparr>xs_errors := xs_errors s + 1\<rparr>))) l1)"

datatype InterFileBlock0 = File "str option" "YmodemReceiveMeta option" | Terminator | Invalid | NotBlock0

definition inter_file_block :: "nat \<Rightarrow> bool \<Rightarrow> (block_error, InterFileBlock0) rd" where
  "inter_file_block dl is_tcp =
     rbind (xget dl is_tcp) (\<lambda>b.
       if b = SOH \<or> b = STX then
         rbind (xget dl is_tcp) (\<lambda>bn. rbind (xget dl is_tcp) (\<lambda>bc.
           if bn \<noteq> 0 \<or> bc \<noteq> 0xFF then rpure Invalid
           else rbind (read_ymodem_block_zero_body dl is_tcp (block_size_of b) CrcMode) (\<lambda>(valid, is_term, filename, meta).
                  rpure (if \<not> valid then Invalid else if is_term then Terminator else File filename meta))))
       else rpure NotBlock0)"

definition between_step :: "xmodem_settings \<Rightarrow> bool \<Rightarrow> nat \<Rightarrow> xm_state \<Rightarrow>
    (xmodem_error, xm_state + XmodemReceivedFile list) lk" where
  "between_step cfg is_tcp k s l =
     (case on_reader (inter_file_block (now l + min (x_block_timeout cfg) INTER_FILE_WAIT_SECS * 1000) is_tcp) l of
        (Inr Invalid, l1) \<Rightarrow>
          if k + 1 > x_max_retries cfg then (Inr (Inr (xs_files s)), l1)
          else lbind (raw_write_byte is_tcp NAK) (\<lambda>_. lpure (Inl (s\<lparr>xs_place := Between (k + 1)\<rparr>))) l1
      | (Inr (File filename meta), l1) \<Rightarrow>
          if length (xs_files s) \<ge> XMODEM_MAX_BATCH_FILES then cancel_with is_tcp XTooManyFiles l1
          else lbind (raw_write_byte is_tcp ACK) (\<lambda>_. lbind (raw_write_byte is_tcp CRC_REQUEST) (\<lambda>_.
                 lpure (Inl (s\<lparr>xs_place := InFile, xs_filename := filename, xs_meta := meta, xs_expected := 1,
                               xs_errors := 0, xs_eot_naked := False, xs_awaiting := False\<rparr>)))) l1
      | (Inr Terminator, l1) \<Rightarrow> lbind (raw_write_byte is_tcp ACK) (\<lambda>_. lpure (Inr (xs_files s))) l1
      | (_, l1) \<Rightarrow> (Inr (Inr (xs_files s)), l1))"

definition receive_step :: "xmodem_settings \<Rightarrow> bool \<Rightarrow> xm_state \<Rightarrow> (xmodem_error, xm_state + XmodemReceivedFile list) lk" where
  "receive_step cfg is_tcp s =
     (case xs_place s of
        InFile \<Rightarrow> in_file_step cfg is_tcp s
      | AskNext \<Rightarrow> lbind (raw_write_byte is_tcp CRC_REQUEST) (\<lambda>_. lpure (Inl (s\<lparr>xs_place := Between 0\<rparr>)))
      | Between k \<Rightarrow> between_step cfg is_tcp k s)"

lemma keeps_rest_purge [invar_intros]: "keeps_rest (purge_line t)"
proof (rule keeps_restI)
  fix l r l' assume "purge_line t l = (r, l')"
  moreover have "purge_loop n g t c l = (r, l') \<Longrightarrow> link_rest l' \<le> link_rest l" for n g c l
  proof (induction n g t c l arbitrary: r l' rule: purge_loop.induct)
    case (2 n g t c l)
    obtain x l1 where x: "byte_within 1000 t l = (x, l1)" by (cases "byte_within 1000 t l")
    from byte_within_rest(1) [OF x] 2 x show ?case
      by (cases x) (fastforce split: if_splits)+
  qed simp
  ultimately show "link_rest l' \<le> link_rest l" by (auto simp: purge_line_def)
qed

lemma keeps_rest_failed [invar_intros]: "keeps_rest (block_failed cfg t s)"
  unfolding block_failed_def by (intro invar_intros)

lemma keeps_rest_take_block [invar_intros]: "keeps_rest (take_data_block cfg t sz s)"
proof (rule keeps_restI)
  fix l r l' assume r: "take_data_block cfg t sz s l = (r, l')"
  let ?m = "receive_block (now l + BLOCK_BODY_TIMEOUT_SECS * 1000) t (xs_expected s) (xs_mode s) sz"
  obtain x l1 where x: "on_reader ?m l = (x, l1)" by (cases "on_reader ?m l")
  have "keeps_rest (on_reader ?m)" by (intro keeps_rest_read invar_intros)
  from this x have le: "link_rest l1 \<le> link_rest l" by (rule keeps_restD)
  have tail: "keeps_rest (lbind (raw_write_byte t b) (\<lambda>_. lpure y))" for b and y :: "xm_state + XmodemReceivedFile list"
    by (intro invar_intros)
  show "link_rest l' \<le> link_rest l"
    using r x le
    by (auto simp: take_data_block_def split: sum.splits prod.splits block_error.splits if_splits
        dest!: keeps_restD [OF tail] keeps_restD [OF keeps_rest_writes(3)] keeps_restD [OF keeps_rest_failed])
qed

lemma keeps_rest_take_eot [invar_intros]: "keeps_rest (take_eot t s)"
  unfolding take_eot_def Let_def by (intro invar_intros)

lemma keeps_rest_take_byte: "keeps_rest (take_byte cfg t b s)"
proof (rule keeps_restI)
  fix l r l' assume r: "take_byte cfg t b s l = (r, l')"
  obtain stop l1 where c: "can_abort b l = (stop, l1)" by (cases "can_abort b l")
  from can_abort_rest [OF c] r c show "link_rest l' \<le> link_rest l"
    by (auto simp: take_byte_def Let_def split: bool.splits if_splits dest!: keeps_restD [OF keeps_rest_take_block]
        keeps_restD [OF keeps_rest_take_eot] keeps_restD [OF keeps_rest_failed])
qed

lemma in_file_step_less:
  assumes "in_file_step cfg t s l = (Inr (Inl s'), l')"
  shows "link_rest l' < link_rest l"
proof -
  obtain x l1 where x: "byte_within (x_block_timeout cfg * 1000) t l = (x, l1)"
    by (cases "byte_within (x_block_timeout cfg * 1000) t l")
  have "x \<noteq> Err PeerClosed" using assms x by (auto simp: in_file_step_def)
  with byte_within_rest(3) [OF x] have less: "link_rest l1 < link_rest l" by simp
  have tail: "keeps_rest (lbind (raw_write_byte t b) (\<lambda>_. lpure y))" for b and y :: "xm_state + XmodemReceivedFile list"
    by (intro invar_intros)
  show ?thesis
    using assms x less
    by (auto simp: in_file_step_def split: outcome.splits if_splits dest!: keeps_restD [OF keeps_rest_take_byte]
        keeps_restD [OF tail] keeps_restD [OF keeps_rest_writes(3)])
qed

lemma inter_file_less:
  assumes "on_reader (inter_file_block dl t) l = (Inr x, l')"
  shows "link_rest l' < link_rest l"
proof -
  obtain st w where m: "inter_file_block dl t (rst l) (inw l) = (Inr x, st, w)" and l': "l' = l\<lparr>rst := st, inw := w\<rparr>"
    using assms by (auto simp: on_reader_def split: prod.splits)
  define rest where "rest = (\<lambda>b. if b = SOH \<or> b = STX then
         rbind (xget dl t) (\<lambda>bn. rbind (xget dl t) (\<lambda>bc.
           if bn \<noteq> 0 \<or> bc \<noteq> 0xFF then rpure Invalid
           else rbind (read_ymodem_block_zero_body dl t (block_size_of b) CrcMode) (\<lambda>(valid, is_term, filename, meta).
                  rpure (if \<not> valid then Invalid else if is_term then Terminator else File filename meta))))
       else rpure NotBlock0)"
  have "frugal (rest b)" for b
    unfolding rest_def by (auto intro!: invar_intros split: prod.splits)
  moreover from m obtain b st1 w1 where b: "xget dl t (rst l) (inw l) = (Inr b, st1, w1)" "rest b st1 w1 = (Inr x, st, w)"
    unfolding inter_file_block_def rest_def by (rule rbind_InrE)
  ultimately have "stream_rest st w \<le> stream_rest st1 w1" by (blast dest: frugalD)
  moreover from b(1) have "byte_by dl t l = (Ok b, l\<lparr>rst := st1, inw := w1\<rparr>)"
    by (auto simp: byte_by_def on_reader_def xget_def split: prod.splits outcome.splits)
  from byte_by_rest(2) [OF this refl] have "stream_rest st1 w1 < link_rest l" by (simp add: link_rest_def)
  ultimately show ?thesis using l' by (simp add: link_rest_def)
qed

lemma between_step_less:
  assumes "between_step cfg t k s l = (Inr (Inl s'), l')"
  shows "link_rest l' < link_rest l"
proof -
  let ?m = "inter_file_block (now l + min (x_block_timeout cfg) INTER_FILE_WAIT_SECS * 1000) t"
  obtain x l1 where x: "on_reader ?m l = (x, l1)" by (cases "on_reader ?m l")
  have tail: "keeps_rest (lbind (raw_write_byte t b) (\<lambda>_. lpure y))"
    "keeps_rest (lbind (raw_write_byte t b) (\<lambda>_. lbind (raw_write_byte t c) (\<lambda>_. lpure y)))"
    for b c and y :: "xm_state + XmodemReceivedFile list" by (intro invar_intros)+
  from assms x obtain y where y: "x = Inr y" by (auto simp: between_step_def split: sum.splits)
  from inter_file_less [OF x [unfolded y]] assms x y show ?thesis
    by (auto simp: between_step_def split: InterFileBlock0.splits if_splits dest!: keeps_restD [OF tail(1)]
        keeps_restD [OF tail(2)] keeps_restD [OF keeps_rest_writes(3)])
qed

definition place_rank :: "xm_state \<Rightarrow> nat" where
  "place_rank s = (if xs_place s = AskNext then 1 else 0)"

lemma receive_step_less:
  assumes "receive_step cfg t s l = (Inr (Inl s'), l')"
  shows "link_rest l' < link_rest l \<or> link_rest l' = link_rest l \<and> place_rank s' < place_rank s"
proof (cases "xs_place s")
  case AskNext
  with assms show ?thesis
    by (auto simp: receive_step_def place_rank_def raw_write_byte_def write_all_def on_writer_def lpure_def
        link_rest_def elim!: lbind_InrE split: prod.splits outcome.splits)
next
  case InFile
  with assms in_file_step_less show ?thesis by (simp add: receive_step_def)
next
  case (Between k)
  with assms between_step_less show ?thesis by (simp add: receive_step_def)
qed

text \<open>The receipt carries every file whose end of file was acknowledged, whatever happened after.\<close>

function receive_batch_loop :: "xmodem_settings \<Rightarrow> bool \<Rightarrow> xm_state \<Rightarrow> link \<Rightarrow>
    (XmodemReceivedFile, xmodem_error) BatchReceipt \<times> link" where
  "receive_batch_loop cfg is_tcp s l = (case receive_step cfg is_tcp s l of
     (Inl e, l') \<Rightarrow> (\<lparr>br_files = xs_files s, br_error = Some e\<rparr>, l')
   | (Inr (Inl s'), l') \<Rightarrow> receive_batch_loop cfg is_tcp s' l'
   | (Inr (Inr files), l') \<Rightarrow> (\<lparr>br_files = files, br_error = None\<rparr>, l'))"
  by pat_completeness auto
termination
  by (relation "measures [\<lambda>(cfg, t, s, l). link_rest l, \<lambda>(cfg, t, s, l). place_rank s]")
    (auto dest!: receive_step_less [OF sym])

declare receive_batch_loop.simps [simp del]

definition xmodem_receive_batch_keeping :: "xmodem_settings \<Rightarrow> bool \<Rightarrow> bool \<Rightarrow> wire \<Rightarrow> writer \<Rightarrow>
    (XmodemReceivedFile, xmodem_error) BatchReceipt \<times> link" where
  "xmodem_receive_batch_keeping cfg is_tcp is_petscii w wr =
     (let l0 = \<lparr>rst = default_ReadState, inw = w, outw = wr\<rparr>
      in case receive_negotiate cfg is_tcp is_petscii (now l0 + x_negotiation_timeout cfg * 1000) init_negotiation l0 of
           (Inl e, l) \<Rightarrow> (\<lparr>br_files = [], br_error = Some e\<rparr>, l)
         | (Inr (Finished files), l) \<Rightarrow> (\<lparr>br_files = files, br_error = None\<rparr>, l)
         | (Inr (Begin s), l) \<Rightarrow> receive_batch_loop cfg is_tcp s l)"

definition into_parts :: "('f, 'e) BatchReceipt \<Rightarrow> 'e + 'f list \<times> 'e option" where
  "into_parts r = (case br_error r of
      Some e \<Rightarrow> if br_files r = [] then Inl e else Inr (br_files r, Some e)
    | None \<Rightarrow> Inr (br_files r, None))"


section \<open>The sender\<close>

definition MAX_PRE_DATA_BYTES :: nat where "MAX_PRE_DATA_BYTES = 8"
definition DATA_PHASE_C_WAIT_SECS :: nat where "DATA_PHASE_C_WAIT_SECS = 10"
definition MAX_STRAY_START_REQUESTS :: nat where "MAX_STRAY_START_REQUESTS = 8"
definition EOB_TIMEOUT_SECS :: nat where "EOB_TIMEOUT_SECS = 3"
definition EOT_CAN_PAIR_MS :: nat where "EOT_CAN_PAIR_MS = 1000"
definition EOB_MAX_RETRIES :: nat where "EOB_MAX_RETRIES = 2"

text \<open>The start request of the receiver tells the trailer it wants.\<close>

function send_negotiate :: "bool \<Rightarrow> bool \<Rightarrow> nat \<Rightarrow> (xmodem_error, TransferMode) lk" where
  "send_negotiate is_tcp is_petscii deadline l =
     (if deadline \<le> now l then (Inl XNoReceiver, l)
      else case byte_by deadline is_tcp l of
             (Ok b, l1) \<Rightarrow>
               if is_esc_key b is_petscii then (Inl XCancelled, l1)
               else (case can_abort b l1 of
                       (True, l2) \<Rightarrow> (Inl XCancelledByReceiver, l2)
                     | (False, l2) \<Rightarrow>
                         if b = CRC_REQUEST then (Inr CrcMode, l2)
                         else if b = NAK then (Inr Checksum, l2)
                         else send_negotiate is_tcp is_petscii deadline l2)
           | (Err e, l1) \<Rightarrow> (Inl (XRead e), l1)
           | (Elapsed, l1) \<Rightarrow> (Inl XStartTimeout, l1))"
  by pat_completeness auto
termination
  by (relation "measure (\<lambda>(t, p, d, l). link_rest l)") (auto dest!: byte_by_rest(2) [OF sym] can_abort_rest [OF sym])

text \<open>Time passes without a read: what arrives meanwhile can be read at once afterwards.\<close>

fun arrived :: "nat \<Rightarrow> (nat \<times> inp) list \<Rightarrow> (nat \<times> inp) list" where
  "arrived ms [] = []"
| "arrived ms ((d, x) # r) = (if d \<le> ms then (0, x) # arrived (ms - d) r else (d - ms, x) # r)"

definition pause :: "nat \<Rightarrow> link \<Rightarrow> link" where
  "pause ms l = l\<lparr>inw := \<lparr>clock = now l + ms, feed = arrived ms (feed (inw l))\<rparr>\<rparr>"

function drain_requests :: "bool \<Rightarrow> link \<Rightarrow> link" where
  "drain_requests is_tcp l = (case byte_within 50 is_tcp l of
     (Ok b, l1) \<Rightarrow> drain_requests is_tcp l1
   | (_, l1) \<Rightarrow> l1)"
  by pat_completeness auto
termination
  by (relation "measure (\<lambda>(t, l). link_rest l)") (auto dest!: byte_within_rest(2) [OF sym])

text \<open>The answer to block 0: single CANs are line noise.\<close>

function block_zero_reply :: "nat \<Rightarrow> bool \<Rightarrow> (xmodem_error, byte option) lk" where
  "block_zero_reply secs is_tcp l = (case byte_within (secs * 1000) is_tcp l of
     (Ok b, l1) \<Rightarrow>
       (case can_abort b l1 of
          (True, l2) \<Rightarrow> (Inl XCancelledByReceiver, l2)
        | (False, l2) \<Rightarrow> if b = CAN then block_zero_reply secs is_tcp l2 else (Inr (Some b), l2))
   | (_, l1) \<Rightarrow> (Inr None, l1))"
  by pat_completeness auto
termination
  by (relation "measure (\<lambda>(s, t, l). link_rest l)") (auto dest!: byte_within_rest(2) [OF sym] can_abort_rest [OF sym])

fun block_zero_loop :: "nat \<Rightarrow> nat \<Rightarrow> bool \<Rightarrow> byte list \<Rightarrow> (xmodem_error, unit) lk" where
  "block_zero_loop 0 secs is_tcp packet = lfail XBlockZeroRetries"
| "block_zero_loop (Suc tries) secs is_tcp packet =
     lbind (write_all is_tcp packet) (\<lambda>_.
     lbind (block_zero_reply secs is_tcp) (\<lambda>reply.
       if reply = Some ACK then lpure () else block_zero_loop tries secs is_tcp packet))"

text \<open>The first send and \<open>max_retries\<close> more (\<^verbatim>\<open>retries_exhausted\<close>).\<close>

definition send_ymodem_block_zero :: "xmodem_settings \<Rightarrow> bool \<Rightarrow> YmodemHeader \<Rightarrow> (xmodem_error, unit) lk" where
  "send_ymodem_block_zero cfg is_tcp hdr =
     block_zero_loop (x_max_retries cfg + 1) (x_block_timeout cfg) is_tcp (block_zero (block_zero_payload hdr))"

text \<open>Waiting for the second \<open>C\<close>, which opens the data phase, through anything that is not one.\<close>

function await_data_request :: "bool \<Rightarrow> nat \<Rightarrow> nat \<Rightarrow> (xmodem_error, unit) lk" where
  "await_data_request is_tcp deadline absorbed l =
     (if deadline \<le> now l then (Inr (), l)
      else case byte_by deadline is_tcp l of
             (Ok b, l1) \<Rightarrow>
               if b = CRC_REQUEST then (Inr (), l1)
               else (case can_abort b l1 of
                       (True, l2) \<Rightarrow> (Inl XCancelledByReceiver, l2)
                     | (False, l2) \<Rightarrow> if absorbed + 1 \<ge> MAX_PRE_DATA_BYTES then (Inr (), l2)
                                      else await_data_request is_tcp deadline (absorbed + 1) l2)
           | (_, l1) \<Rightarrow> (Inr (), l1))"
  by pat_completeness auto
termination
  by (relation "measure (\<lambda>(t, d, a, l). link_rest l)") (auto dest!: byte_by_rest(2) [OF sym] can_abort_rest [OF sym])

text \<open>The answer to a data block: \<open>None\<close> when it timed out. Stray start requests are absorbed.\<close>

function block_reply :: "bool \<Rightarrow> nat \<Rightarrow> nat \<Rightarrow> (xmodem_error, byte option) lk" where
  "block_reply is_tcp deadline stray l =
     (if deadline \<le> now l then (Inr None, l)
      else case byte_by deadline is_tcp l of
             (Ok b, l1) \<Rightarrow>
               (case can_abort b l1 of
                  (True, l2) \<Rightarrow> (Inl XCancelledByReceiver, l2)
                | (False, l2) \<Rightarrow>
                    if b = CAN then block_reply is_tcp deadline stray l2
                    else if b = CRC_REQUEST then
                      if stray + 1 \<ge> MAX_STRAY_START_REQUESTS then (Inr None, l2)
                      else block_reply is_tcp deadline (stray + 1) l2
                    else (Inr (Some b), l2))
           | (Err e, l1) \<Rightarrow> (Inl (XRead e), l1)
           | (Elapsed, l1) \<Rightarrow> (Inr None, l1))"
  by pat_completeness auto
termination
  by (relation "measure (\<lambda>(t, d, a, l). link_rest l)") (auto dest!: byte_by_rest(2) [OF sym] can_abort_rest [OF sym])

declare send_negotiate.simps [simp del] drain_requests.simps [simp del] block_zero_reply.simps [simp del]
  await_data_request.simps [simp del] block_reply.simps [simp del]

text \<open>One block, sent until acknowledged; \<open>False\<close> when a first 1K block is refused outright.\<close>

fun send_block :: "nat \<Rightarrow> xmodem_settings \<Rightarrow> bool \<Rightarrow> bool \<Rightarrow> byte list \<Rightarrow> (xmodem_error, bool) lk" where
  "send_block 0 cfg is_tcp may_fall_back packet = cancel_with is_tcp XTooManyRetries"
| "send_block (Suc tries) cfg is_tcp may_fall_back packet =
     lbind (write_all is_tcp packet) (\<lambda>_ l.
     lbind (block_reply is_tcp (now l + x_block_timeout cfg * 1000) 0) (\<lambda>reply.
       if reply = Some ACK then lpure True
       else if reply = Some NAK \<and> may_fall_back then lpure False
       else send_block tries cfg is_tcp False packet) l)"

text \<open>
  The data phase from an offset: whole 1024 byte blocks while the receiver takes them, 128 byte
  blocks otherwise. Falling back sends the same bytes again in small blocks.
\<close>

function send_blocks :: "xmodem_settings \<Rightarrow> bool \<Rightarrow> TransferMode \<Rightarrow> byte list \<Rightarrow> nat \<Rightarrow> nat \<Rightarrow> byte \<Rightarrow> bool \<Rightarrow>
    (xmodem_error, unit) lk" where
  "send_blocks cfg is_tcp mode padded offset block_idx block_num use_1k l =
     (if offset \<ge> length padded then (Inr (), l)
      else let use_stx = (use_1k \<and> length padded - offset \<ge> XMODEM_1K_BLOCK_SIZE);
               len = (if use_stx then XMODEM_1K_BLOCK_SIZE else XMODEM_BLOCK_SIZE);
               packet = make_block (if use_stx then STX else SOH) block_num mode (take len (drop offset padded))
           in case send_block (x_max_retries cfg + 1) cfg is_tcp (use_stx \<and> block_idx = 0) packet l of
                (Inl e, l1) \<Rightarrow> (Inl e, l1)
              | (Inr acked, l1) \<Rightarrow>
                  if (use_1k \<and> acked) \<or> \<not> use_stx
                  then send_blocks cfg is_tcp mode padded (offset + len) (block_idx + 1) (block_num + 1) (use_1k \<and> acked) l1
                  else send_blocks cfg is_tcp mode padded offset block_idx block_num (use_1k \<and> acked) l1)"
  by pat_completeness auto
termination
  by (relation "measures [\<lambda>(cfg, t, m, p, off, i, n, k, l). length p - off, \<lambda>(cfg, t, m, p, off, i, n, k, l). if k then 1 else 0]")
    (auto simp: XMODEM_BLOCK_SIZE_def XMODEM_1K_BLOCK_SIZE_def split: if_splits)

declare send_blocks.simps [simp del]

text \<open>After the last file: an empty block 0, offered twice at most and never insisted on.\<close>

fun end_of_batch_loop :: "nat \<Rightarrow> bool \<Rightarrow> (xmodem_error, unit) lk" where
  "end_of_batch_loop 0 is_tcp = lpure ()"
| "end_of_batch_loop (Suc tries) is_tcp =
     lbind (write_all is_tcp (block_zero (replicate XMODEM_BLOCK_SIZE 0))) (\<lambda>_ l.
       case byte_within (EOB_TIMEOUT_SECS * 1000) is_tcp l of
         (Ok b, l1) \<Rightarrow> if b = ACK then (Inr (), l1) else end_of_batch_loop tries is_tcp l1
       | (_, l1) \<Rightarrow> (Inr (), l1))"

definition send_ymodem_end_of_batch :: "xmodem_settings \<Rightarrow> bool \<Rightarrow> bool \<Rightarrow> (xmodem_error, unit) lk" where
  "send_ymodem_end_of_batch cfg is_tcp prompted l =
     (if prompted then end_of_batch_loop EOB_MAX_RETRIES is_tcp l
      else case byte_within (x_block_timeout cfg * 1000) is_tcp l of
             (Ok b, l1) \<Rightarrow> if b = CRC_REQUEST then end_of_batch_loop EOB_MAX_RETRIES is_tcp l1 else (Inr (), l1)
           | (_, l1) \<Rightarrow> (Inr (), l1))"

text \<open>
  The answer to an EOT. A lone CAN gets a short time for a second one and is taken as an answer
  when none comes.
\<close>

function eot_reply :: "bool \<Rightarrow> nat \<Rightarrow> bool \<Rightarrow> (xmodem_error, byte option) lk" where
  "eot_reply is_tcp eot_deadline lone_can l =
     (let deadline = (if lone_can then min eot_deadline (now l + EOT_CAN_PAIR_MS) else eot_deadline)
      in case byte_by deadline is_tcp l of
           (Ok b, l1) \<Rightarrow>
             (case can_abort b l1 of
                (True, l2) \<Rightarrow> (Inl XCancelledByReceiver, l2)
              | (False, l2) \<Rightarrow> if b = CAN then eot_reply is_tcp eot_deadline True l2 else (Inr (Some b), l2))
         | (Err e, l1) \<Rightarrow> (if lone_can then Inr (Some CAN) else Inl (XEotRead e), l1)
         | (Elapsed, l1) \<Rightarrow> (Inr (if lone_can then Some CAN else None), l1))"
  by pat_completeness auto
termination
  by (relation "measure (\<lambda>(t, d, c, l). link_rest l)") (auto dest!: byte_by_rest(2) [OF sym] can_abort_rest [OF sym])

declare eot_reply.simps [simp del]

definition eot_attempts :: "xmodem_settings \<Rightarrow> nat" where
  "eot_attempts cfg = max (x_max_retries cfg + 1) 2"

fun eot_loop :: "nat \<Rightarrow> xmodem_settings \<Rightarrow> bool \<Rightarrow> bool \<Rightarrow> (xmodem_error, unit) lk" where
  "eot_loop 0 cfg is_tcp ymodem = lfail (XEotNotAcked (eot_attempts cfg))"
| "eot_loop (Suc tries) cfg is_tcp ymodem =
     lbind (raw_write_byte is_tcp EOT) (\<lambda>_ l.
     lbind (eot_reply is_tcp (now l + x_block_timeout cfg * 1000) False) (\<lambda>reply.
       if reply = Some ACK then
         (if ymodem then send_ymodem_end_of_batch cfg is_tcp False else lpure ())
       else if reply = Some NAK \<or> reply = None then eot_loop tries cfg is_tcp ymodem
       else (\<lambda>l1. (Inr (), if ymodem then snd (send_ymodem_end_of_batch cfg is_tcp (reply = Some CRC_REQUEST) l1) else l1)))
       (l\<lparr>rst := (rst l)\<lparr>pending_can := False\<rparr>\<rparr>))"

definition xmodem_send :: "xmodem_settings \<Rightarrow> bool \<Rightarrow> bool \<Rightarrow> byte list \<Rightarrow> bool \<Rightarrow> YmodemHeader option \<Rightarrow> wire \<Rightarrow> writer \<Rightarrow>
    (xmodem_error + unit) \<times> link" where
  "xmodem_send cfg is_tcp is_petscii data use_1k ymodem w wr =
     (let l0 = \<lparr>rst = default_ReadState, inw = w, outw = wr\<rparr>
      in lbind (send_negotiate is_tcp is_petscii (now l0 + x_negotiation_timeout cfg * 1000)) (\<lambda>mode l1.
           let l2 = drain_requests is_tcp (pause 200 l1)
           in lbind (case ymodem of
                  None \<Rightarrow> lpure ()
                | Some hdr \<Rightarrow> lbind (send_ymodem_block_zero cfg is_tcp hdr) (\<lambda>_ l.
                    await_data_request is_tcp (now l + min (x_block_timeout cfg) DATA_PHASE_C_WAIT_SECS * 1000) 0 l)) (\<lambda>_.
              lbind (send_blocks cfg is_tcp mode (padded_data data (ymodem \<noteq> None)) 0 0 1 use_1k) (\<lambda>_.
                eot_loop (eot_attempts cfg) cfg is_tcp (ymodem \<noteq> None))) l2) l0)"

end
