(* ===== verification/Xmodem_Correct.thy ===== *)
theory Xmodem_Correct
  imports Xmodem_Transfer Bursts
begin

text \<open>
  What the XMODEM and YMODEM engines guarantee. A block and a file header come back from the line
  as they were built; a damaged block is refused. Two gateways whose blocks and answers reach each
  other in time transfer the file: exactly with YMODEM, which sends the size, and up to the trailing
  SUB bytes with plain XMODEM, which pads with them.
\<close>

section \<open>Blocks on a steady line\<close>

interpretation xmodem_bytes: byte_source "xget dl t"
  "\<lambda>bs w w'. steady 200 (wire_form t bs) w w' \<and> clock w' \<le> dl" for dl t
proof
  fix b bs w w' and st :: ReadState
  assume a: "steady 200 (wire_form t (b # bs)) w w' \<and> clock w' \<le> dl" and st: "pushback st = None"
  have "wire_form t (b # bs) = wire_form t [b] @ wire_form t bs" by (simp add: wire_form_Cons)
  with a obtain v where v: "steady 200 (wire_form t [b]) w v" "steady 200 (wire_form t bs) v w'"
    by (auto simp: steady_append)
  have "clock v \<le> clock w'"
    using steady_delivers_by [OF steady_mono [OF v(2)] order_refl] by (auto dest: delivers_clock_mono)
  with a v(1) have "delivers (Some dl) (wire_form t [b]) w v" by (intro steady_delivers_by steady_mono [OF v(1)]) auto
  then obtain w1 where "raw_read_byte (Some dl) t w = (Ok b, w1)" "delivers (Some dl) (wire_form t []) w1 v"
    by (rule raw_read_wire_form)
  then have "xget dl t st w = (Inr b, st, v)" using st by (simp add: xget_def nvt_read_byte_fresh)
  with v(2) a show "\<exists>w1. xget dl t st w = (Inr b, st, w1) \<and> steady 200 (wire_form t bs) w1 w' \<and> clock w' \<le> dl" by blast
qed

lemma xget_last:
  assumes "steady 200 (wire_form t [b]) w v" "clock v \<le> dl" "pushback st = None"
  shows "xget dl t st w = (Inr b, st, v)"
  using xmodem_bytes.carries_Cons [of t b "[]" w v dl st] assms by auto

lemma grace_read:
  assumes "steady 200 (wire_form t [b]) w v" "clock v \<le> dl" "pushback st = None"
  shows "xget_grace dl t st w = (Inr (Some b), st, v)"
proof -
  have "length (wire_form t [b]) \<le> 2" using wire_form_length [of t "[b]"] by simp
  moreover have "clock v \<le> clock w + 200 * length (wire_form t [b])" using steady_clock [OF assms(1)] .
  ultimately have "clock v \<le> clock w + 3000" by linarith
  then have "clock v \<le> min (clock w + AUTO_DETECT_TRAILER_TIMEOUT_SECS * 1000) dl"
    using assms(2) by (simp add: AUTO_DETECT_TRAILER_TIMEOUT_SECS_def)
  from xget_last [OF assms(1) this assms(3)]
  have "nvt_read_byte (Some (min (clock w + AUTO_DETECT_TRAILER_TIMEOUT_SECS * 1000) dl)) t st w = (Ok b, st, v)"
    by (cases "nvt_read_byte (Some (min (clock w + AUTO_DETECT_TRAILER_TIMEOUT_SECS * 1000) dl)) t st w")
      (simp add: xget_def split: outcome.splits)
  then show ?thesis unfolding xget_grace_def Let_def by (simp only: prod.case outcome.case)
qed

lemma recv_crc_halves [simp]: "recv_crc (ucast (drop_bit 8 c)) (ucast c) = (c :: u16)"
  by (simp add: recv_crc_def crc16_halves)

lemma trailer_read:
  assumes "steady 200 (wire_form t (trailer_bytes mode data)) w v" "clock v \<le> dl" "pushback st = None"
  shows "read_trailer dl t auto mode data st w = (Inr (True, NoDetect), st, v)"
proof (cases mode)
  case Checksum
  with assms have "xget dl t st w = (Inr (checksum8 data), st, v)" by (intro xget_last) (simp_all add: trailer_bytes_def)
  with Checksum show ?thesis by (simp add: read_trailer_def rbind_def rpure_def)
next
  case CrcMode
  let ?hi = "ucast (drop_bit 8 (crc16 data)) :: byte" and ?lo = "ucast (crc16 data) :: byte"
  from assms(1) CrcMode have "steady 200 (wire_form t (?hi # [?lo])) w v" by (simp add: trailer_bytes_def Let_def)
  with assms(2,3) obtain m where m: "xget dl t st w = (Inr ?hi, st, m)" "steady 200 (wire_form t [?lo]) m v"
    using xmodem_bytes.get_first by meson
  from xget_last [OF m(2) assms(2,3)] grace_read [OF m(2) assms(2,3)] m(1) CrcMode show ?thesis
    by (simp add: read_trailer_def rbind_def rpure_def)
qed

lemma byte_not_pred [simp]: "(n :: byte) \<noteq> n - 1" "(n :: byte) \<noteq> n - 2"
  by (simp_all add: eq_diff_eq)

lemma body_read:
  assumes "steady 200 (wire_form t (data @ trailer_bytes mode data)) w v" "clock v \<le> dl" "pushback st = None"
    and "length data = sz"
  shows "receive_block_body dl t num (NOT num) num mode sz auto st w = (Inr (data, num + 1, mode), st, v)"
proof -
  from xmodem_bytes.times_get [of t data "trailer_bytes mode data" w v dl st] assms obtain m where
    m: "rtimes sz (xget dl t) st w = (Inr data, st, m)" "steady 200 (wire_form t (trailer_bytes mode data)) m v"
    by auto
  from trailer_read [OF m(2) assms(2,3)] m(1) show ?thesis
    by (simp add: receive_block_body_def rbind_def commit_def)
qed

lemma block_read:
  assumes "steady 200 (wire_form t ([num, NOT num] @ data @ trailer_bytes mode data)) w v" "clock v \<le> dl"
    and "pushback st = None" "length data = sz"
  shows "receive_block dl t num mode sz st w = (Inr (data, num + 1, mode), st, v)"
proof -
  from assms(1,2) have "steady 200 (wire_form t (num # NOT num # data @ trailer_bytes mode data)) w v \<and> clock v \<le> dl"
    by simp
  then obtain m where m: "xget dl t st w = (Inr num, st, m)"
      "steady 200 (wire_form t (NOT num # data @ trailer_bytes mode data)) m v \<and> clock v \<le> dl"
    using assms(3) by (rule xmodem_bytes.get_first)
  from m(2) assms(3) obtain n where n: "xget dl t st m = (Inr (NOT num), st, n)"
      "steady 200 (wire_form t (data @ trailer_bytes mode data)) n v \<and> clock v \<le> dl"
    by (rule xmodem_bytes.get_first)
  from body_read [OF conjunct1 [OF n(2)] assms(2-4)] m(1) n(1) show ?thesis
    by (simp add: receive_block_def rbind_def)
qed


section \<open>The file header survives\<close>

lemma split_by_token:
  "(\<forall>b\<in>set xs. \<not> sep b) \<Longrightarrow> sep c \<Longrightarrow> split_by sep (xs @ c # ys) = xs # split_by sep ys"
  by (induction xs) auto

definition header_text :: "YmodemHeader \<Rightarrow> str" where
  "header_text hdr = dec_string (yh_size hdr) @ [0x20] @
     radix_string 8 (case yh_modtime hdr of Some n \<Rightarrow> n | None \<Rightarrow> 0) @ [0x20] @
     radix_string 8 ((case yh_mode hdr of Some n \<Rightarrow> n | None \<Rightarrow> 0) mod 2 ^ 12) @ [0x20, 0x30]"

text \<open>A header that fits: a name that is text and a metadata field that is not cut.\<close>

definition header_fits :: "YmodemHeader \<Rightarrow> bool" where
  "header_fits hdr \<longleftrightarrow> utf8_valid (yh_filename hdr) \<and> yh_filename hdr \<noteq> [] \<and> 0 \<notin> set (yh_filename hdr) \<and>
     length (yh_filename hdr) \<le> 100 \<and> length (yh_filename hdr) + 1 + length (header_text hdr) \<le> 127 \<and>
     yh_size hdr < 2 ^ 64 \<and> (case yh_modtime hdr of Some n \<Rightarrow> n < 2 ^ 64 | None \<Rightarrow> True)"

definition header_meta :: "YmodemHeader \<Rightarrow> YmodemReceiveMeta" where
  "header_meta hdr = \<lparr>ym_size = Some (yh_size hdr), ym_modtime = nonzero (yh_modtime hdr),
     ym_mode = nonzero (map_option (\<lambda>n. n mod 2 ^ 12) (yh_mode hdr))\<rparr>"

lemma payload_layout:
  assumes "header_fits hdr"
  shows "block_zero_payload hdr = yh_filename hdr @ [0] @ header_text hdr @ [0] @
    replicate (126 - length (yh_filename hdr) - length (header_text hdr)) 0"
proof -
  define name where "name = yh_filename hdr"
  define fields where "fields = header_text hdr"
  have fits: "length name \<le> 100" "length name + 1 + length fields \<le> 127"
    using assms by (simp_all add: header_fits_def name_def fields_def)
  have "take 100 (yh_filename hdr) = name" using fits(1) by (simp add: name_def)
  then have "block_zero_payload hdr = (name @ [0] @ take (min (length name + 1 + length fields) (128 - 1) - (length name + 1)) fields) @
      replicate (128 - length (name @ [0] @ take (min (length name + 1 + length fields) (128 - 1) - (length name + 1)) fields)) 0"
    by (simp only: block_zero_payload_def Let_def XMODEM_BLOCK_SIZE_def header_text_def [symmetric] fields_def)
  also have "\<dots> = (name @ [0] @ fields) @ replicate (Suc (126 - length name - length fields)) 0"
  proof -
    have "min (length name + 1 + length fields) (128 - 1) - (length name + 1) = length fields" using fits(2) by simp
    moreover have "128 - length (name @ [0] @ fields) = Suc (126 - length name - length fields)" using fits(2) by simp
    ultimately show ?thesis by simp
  qed
  finally show ?thesis by (simp add: name_def fields_def)
qed

lemma payload_length: "header_fits hdr \<Longrightarrow> length (block_zero_payload hdr) = 128"
  by (simp add: payload_layout) (simp add: header_fits_def)

lemma radix_no_sep:
  assumes "1 < r" "r \<le> 10"
  shows "\<forall>b\<in>set (radix_string r n). \<not> is_ascii_whitespace b" "0 \<notin> set (radix_string r n)"
  using radix_string_digits(3) [OF assms, of n] by (auto simp: list_all_iff is_ascii_whitespace_def)

lemma header_text_ascii: "ascii (header_text hdr)" "0 \<notin> set (header_text hdr)"
  using digits_ascii [OF radix_string_digits(3) [of 10]] digits_ascii [OF radix_string_digits(3) [of 8]]
    radix_no_sep(2) [of 10] radix_no_sep(2) [of 8]
  by (simp_all add: header_text_def ascii_def)

lemma header_text_fields:
  "split_ascii_whitespace (header_text hdr) = [dec_string (yh_size hdr),
     radix_string 8 (case yh_modtime hdr of Some n \<Rightarrow> n | None \<Rightarrow> 0),
     radix_string 8 ((case yh_mode hdr of Some n \<Rightarrow> n | None \<Rightarrow> 0) mod 2 ^ 12), [0x30]]"
proof -
  have sp: "is_ascii_whitespace 0x20" by (simp add: is_ascii_whitespace_def)
  note split = split_by_token [OF radix_no_sep(1) sp]
  have last: "\<not> is_ascii_whitespace 0x30" by (simp add: is_ascii_whitespace_def)
  show ?thesis
    using radix_string_digits(1) [of 10] radix_string_digits(1) [of 8]
    by (simp add: split_ascii_whitespace_def header_text_def split last)
qed

lemma header_parsed:
  assumes "header_fits hdr"
  shows "parse_ymodem_block_zero_payload (block_zero_payload hdr) = Some (header_meta hdr)"
    and "takeWhile (\<lambda>b. b \<noteq> 0) (block_zero_payload hdr) = yh_filename hdr"
    and "0 \<in> set (block_zero_payload hdr)" "block_zero_payload hdr ! 0 \<noteq> 0"
proof -
  note layout = payload_layout [OF assms]
  have name: "yh_filename hdr \<noteq> []" "0 \<notin> set (yh_filename hdr)" using assms by (simp_all add: header_fits_def)
  show tw: "takeWhile (\<lambda>b. b \<noteq> 0) (block_zero_payload hdr) = yh_filename hdr"
    unfolding layout using name(2) by (subst takeWhile_append2) auto
  show z: "0 \<in> set (block_zero_payload hdr)" by (simp add: layout)
  show "block_zero_payload hdr ! 0 \<noteq> 0" using name by (cases "yh_filename hdr") (auto simp: layout)
  have dr: "drop (length (yh_filename hdr) + 1) (block_zero_payload hdr) = header_text hdr @ [0] @
      replicate (126 - length (yh_filename hdr) - length (header_text hdr)) 0" by (simp add: layout)
  have tx: "takeWhile (\<lambda>b. b \<noteq> 0) (header_text hdr @ [0] @
      replicate (126 - length (yh_filename hdr) - length (header_text hdr)) 0) = header_text hdr"
    using header_text_ascii(2) [of hdr] by (subst takeWhile_append2) auto
  have "from_utf8 (header_text hdr) = Some (header_text hdr)"
    using header_text_ascii(1) by (simp add: from_utf8_def ascii_valid)
  moreover have "(case yh_modtime hdr of Some n \<Rightarrow> n | None \<Rightarrow> 0) < 2 ^ 64" "yh_size hdr < 2 ^ 64"
    using assms by (auto simp: header_fits_def split: option.splits)
  moreover have "n mod 2 ^ 12 < (2 ^ 32 :: nat)" for n
    using mod_less_divisor [of "2 ^ 12" n] by simp
  ultimately show "parse_ymodem_block_zero_payload (block_zero_payload hdr) = Some (header_meta hdr)"
    unfolding parse_ymodem_block_zero_payload_def Let_def tw dr tx using z name
    by (simp add: header_text_fields parse_radix_string header_meta_def nonzero_def split: option.splits)
qed


lemma zero_read:
  assumes "steady 200 (wire_form t (payload @ trailer_bytes CrcMode payload)) w v" "clock v \<le> dl" "pushback st = None"
    and "length payload = sz"
  shows "read_ymodem_block_zero_body dl t sz CrcMode st w = (Inr (True, payload ! 0 = 0,
     if 0 \<in> set payload \<and> takeWhile (\<lambda>b. b \<noteq> 0) payload \<noteq> [] then from_utf8 (takeWhile (\<lambda>b. b \<noteq> 0) payload) else None,
     parse_ymodem_block_zero_payload payload), st, v)"
proof -
  let ?hi = "ucast (drop_bit 8 (crc16 payload)) :: byte" and ?lo = "ucast (crc16 payload) :: byte"
  from xmodem_bytes.times_get [of t payload "[?hi, ?lo]" w v dl st] assms obtain m where
    m: "rtimes sz (xget dl t) st w = (Inr payload, st, m)" "steady 200 (wire_form t [?hi, ?lo]) m v \<and> clock v \<le> dl"
    by (auto simp: trailer_bytes_def Let_def)
  from m(2) assms(3) obtain n where n: "xget dl t st m = (Inr ?hi, st, n)" "steady 200 (wire_form t [?lo]) n v \<and> clock v \<le> dl"
    by (rule xmodem_bytes.get_first)
  from xget_last [OF conjunct1 [OF n(2)] assms(2,3)] m(1) n(1) show ?thesis
    by (simp add: read_ymodem_block_zero_body_def rbind_def rpure_def Let_def)
qed

definition header_body :: "byte list \<Rightarrow> byte list" where
  "header_body payload = payload @ trailer_bytes CrcMode payload"

text \<open>The header of a file, and the null block that ends a batch.\<close>

lemma header_read:
  assumes "steady 200 (wire_form t (header_body (block_zero_payload hdr))) w v" "clock v \<le> dl" "pushback st = None"
    and "header_fits hdr" "sz = 128"
  shows "read_ymodem_block_zero_body dl t sz CrcMode st w =
    (Inr (True, False, Some (yh_filename hdr), Some (header_meta hdr)), st, v)"
proof -
  have "utf8_valid (yh_filename hdr)" "yh_filename hdr \<noteq> []" using assms(4) by (simp_all add: header_fits_def)
  then show ?thesis
    using zero_read [OF assms(1) [unfolded header_body_def] assms(2,3) payload_length [OF assms(4)]] header_parsed [OF assms(4)] assms(5)
    by (simp add: from_utf8_def)
qed

lemma null_read:
  assumes "steady 200 (wire_form t (header_body (replicate 128 0))) w v" "clock v \<le> dl" "pushback st = None" "sz = 128"
  shows "\<exists>f m. read_ymodem_block_zero_body dl t sz CrcMode st w = (Inr (True, True, f, m), st, v)"
  using zero_read [OF assms(1) [unfolded header_body_def] assms(2,3), of sz] assms(4) by simp


section \<open>Damaged blocks and old senders\<close>

interpretation sum8: checksum_register "(+) :: byte \<Rightarrow> byte \<Rightarrow> byte"
  by unfold_locales auto

lemma checksum8_detects: "i < length data \<Longrightarrow> b \<noteq> data ! i \<Longrightarrow> checksum8 (data[i := b]) \<noteq> checksum8 data"
  by (simp add: checksum8_def sum8.detects_update)

lemma recv_crc_eq: "recv_crc (ucast (drop_bit 8 c)) (ucast c) = d \<longleftrightarrow> d = (c :: u16)"
  by auto

lemma damaged_trailer:
  assumes "steady 200 (wire_form t (trailer_bytes mode data)) w v" "clock v \<le> dl" "pushback st = None"
    and "length got = length data" "checksum8 got \<noteq> checksum8 data" "crc16 got \<noteq> crc16 data"
  shows "read_trailer dl t False mode got st w = (Inr (False, NoDetect), st, v)"
proof (cases mode)
  case Checksum
  with assms have "xget dl t st w = (Inr (checksum8 data), st, v)" by (intro xget_last) (simp_all add: trailer_bytes_def)
  with Checksum assms(5) show ?thesis by (simp add: read_trailer_def rbind_def rpure_def)
next
  case CrcMode
  let ?hi = "ucast (drop_bit 8 (crc16 data)) :: byte" and ?lo = "ucast (crc16 data) :: byte"
  from assms(1,2) CrcMode have "steady 200 (wire_form t (?hi # [?lo])) w v \<and> clock v \<le> dl" by (simp add: trailer_bytes_def Let_def)
  then obtain m where m: "xget dl t st w = (Inr ?hi, st, m)" "steady 200 (wire_form t [?lo]) m v \<and> clock v \<le> dl"
    using assms(3) by (rule xmodem_bytes.get_first)
  from xget_last [OF conjunct1 [OF m(2)] assms(2,3)] m(1) CrcMode assms(6) show ?thesis
    by (simp add: read_trailer_def rbind_def rpure_def)
qed

lemma damaged_body:
  assumes "steady 200 (wire_form t (data[i := b] @ trailer_bytes mode data)) w v" "clock v \<le> dl" "pushback st = None"
    and "i < length data" "b \<noteq> data ! i" "length data = sz"
  shows "receive_block_body dl t num (NOT num) expected mode sz False st w = (Inl BCheck, st, v)"
proof -
  from xmodem_bytes.times_get [of t "data[i := b]" "trailer_bytes mode data" w v dl st] assms obtain m where
    m: "rtimes sz (xget dl t) st w = (Inr (data[i := b]), st, m)" "steady 200 (wire_form t (trailer_bytes mode data)) m v"
    by auto
  from damaged_trailer [OF m(2) assms(2,3), of "data[i := b]"] checksum8_detects [OF assms(4,5)] crc16_detects [OF assms(4,5)] m(1)
  show ?thesis by (simp add: receive_block_body_def rbind_def rfail_def)
qed

text \<open>
  A sender that still uses the checksum although \<open>C\<close> was sent: the byte read too many is kept for
  the next read, and the session goes on with checksums.
\<close>

lemma checksum_sender_detected:
  assumes "steady 200 (wire_form t (data @ [checksum8 data, nxt])) w v" "clock v \<le> dl" "pushback st = None"
    and "length data = sz" "recv_crc (checksum8 data) nxt \<noteq> crc16 data"
  shows "receive_block_body dl t num (NOT num) num CrcMode sz True st w =
    (Inr (data, num + 1, Checksum), st\<lparr>pushback := Some nxt\<rparr>, v)"
proof -
  from xmodem_bytes.times_get [of t data "[checksum8 data, nxt]" w v dl st] assms obtain m where
    m: "rtimes sz (xget dl t) st w = (Inr data, st, m)"
      "steady 200 (wire_form t [checksum8 data, nxt]) m v \<and> clock v \<le> dl"
    by auto
  from m(2) assms(3) obtain n where n: "xget dl t st m = (Inr (checksum8 data), st, n)"
      "steady 200 (wire_form t [nxt]) n v \<and> clock v \<le> dl"
    by (rule xmodem_bytes.get_first)
  from grace_read [OF conjunct1 [OF n(2)] assms(2,3)] m(1) n(1) assms(5) show ?thesis
    by (simp add: receive_block_body_def read_trailer_def rbind_def rpure_def commit_def)
qed



section \<open>Steps of a healthy link\<close>

definition calm :: "ReadState \<Rightarrow> bool" where
  "calm st \<longleftrightarrow> pushback st = None \<and> \<not> pending_can st"

definition x_in_time :: "nat \<Rightarrow> xmodem_settings \<Rightarrow> bool" where
  "x_in_time T cfg \<longleftrightarrow> T \<le> 3000 \<and> T \<le> x_block_timeout cfg * 1000 \<and> T \<le> x_retry_interval cfg * 1000 \<and>
     T < x_negotiation_timeout cfg * 1000 \<and> x_negotiation_timeout cfg < 2 ^ 31 \<and> x_max_retries cfg < 2 ^ 31"

lemma raw_write_line: "raw_write_byte t b (line st w out) = (Inr (), line st w (out @ wire_form t [b]))"
  by (simp add: raw_write_byte_def write_all_def write_line)

lemma write_all_line: "write_all t bs (line st w out) = (Inr (), line st w (out @ wire_form t bs))"
  by (simp add: write_all_def write_line)

lemma can_abort_line: "calm st \<Longrightarrow> b \<noteq> CAN \<Longrightarrow> can_abort b (line st w out) = (False, line st w out)"
  by (cases st) (simp add: can_abort_def is_can_abort_def calm_def line_def)

lemma byte_by_line:
  assumes "burst T t (b # rest) w v" "calm st" "clock w + T \<le> dl"
  shows "\<exists>m. byte_by dl t (line st w out) = (Ok b, line st m out) \<and> steady 200 (wire_form t rest) m v \<and>
    clock m \<le> clock v \<and> clock v \<le> clock w + T \<and> clock w \<le> clock m \<and> (rest = [] \<longrightarrow> m = v)"
proof -
  have "burst T t ([b] @ rest) w v" using assms(1) by simp
  then obtain m where m: "delivers (Some dl) (wire_form t [b]) w m" "steady 200 (wire_form t rest) m v"
    using burst_split [OF _ _ assms(3)] by blast
  from m(1) obtain w1 where "raw_read_byte (Some dl) t w = (Ok b, w1)" "delivers (Some dl) (wire_form t []) w1 m"
    by (rule raw_read_wire_form)
  then have "byte_by dl t (line st w out) = (Ok b, line st m out)"
    using assms(2) by (simp add: byte_by_def on_reader_def nvt_read_byte_fresh calm_def line_def)
  moreover have "clock m \<le> clock v"
    using steady_delivers_by [OF steady_mono [OF m(2)] order_refl] by (auto dest: delivers_clock_mono)
  moreover have "clock w \<le> clock m" using m(1) by (auto dest: delivers_clock_mono)
  moreover have "clock v \<le> clock w + T" using assms(1) by (simp add: burst_def)
  moreover have "rest = [] \<longrightarrow> m = v" using m(2) by auto
  ultimately show ?thesis using m(2) by blast
qed

lemma byte_within_line:
  assumes "burst T t (b # rest) w v" "calm st" "T \<le> ms"
  shows "\<exists>m. byte_within ms t (line st w out) = (Ok b, line st m out) \<and> steady 200 (wire_form t rest) m v \<and>
    clock m \<le> clock v \<and> clock v \<le> clock m + T \<and> (rest = [] \<longrightarrow> m = v)"
  using byte_by_line [OF assms(1,2), of "clock w + ms" out] assms(3)
  unfolding byte_within_def by (fastforce simp: line_def)

lemma byte_line:
  assumes "burst T t [b] w v" "calm st" "T \<le> ms"
  shows "byte_within ms t (line st w out) = (Ok b, line st v out)"
  using byte_within_line [OF assms, of out] by auto


section \<open>The receiver on a sender's blocks\<close>

lemma receive_on: "receive_step cfg t s l = (Inr (Inl s'), l') \<Longrightarrow> receive_batch_loop cfg t s l = receive_batch_loop cfg t s' l'"
  by (simp add: receive_batch_loop.simps [of cfg t s l])

lemma receive_done: "receive_step cfg t s l = (Inr (Inr files), l') \<Longrightarrow>
    receive_batch_loop cfg t s l = (\<lparr>br_files = files, br_error = None\<rparr>, l')"
  by (simp add: receive_batch_loop.simps [of cfg t s l])

definition block_header_ok :: "byte \<Rightarrow> byte list \<Rightarrow> bool" where
  "block_header_ok h data \<longleftrightarrow> h = SOH \<and> length data = 128 \<or> h = STX \<and> length data = 1024"

lemma block_header_size: "block_header_ok h data \<Longrightarrow> block_size_of h = length data \<and> (h = SOH \<or> h = STX) \<and> h \<noteq> CAN"
  by (auto simp: block_header_ok_def block_size_of_def XMODEM_BLOCK_SIZE_def XMODEM_1K_BLOCK_SIZE_def)

text \<open>The state after good data: nothing is owed to earlier errors.\<close>

definition with_data :: "xm_state \<Rightarrow> byte list \<Rightarrow> byte \<Rightarrow> xm_state" where
  "with_data s data num = s\<lparr>xs_data := xs_data s @ data, xs_expected := num, xs_errors := 0, xs_eot_naked := False,
     xs_awaiting := False, xs_short_cancel := False\<rparr>"

lemma block_taken:
  assumes "burst T t (make_block h (xs_expected s) (xs_mode s) data) w v" "x_in_time T cfg" "calm st"
    and "block_header_ok h data" "xs_place s = InFile" "length (xs_data s) + length data \<le> MAX_FILE_SIZE"
  shows "receive_batch_loop cfg t s (line st w out) =
    receive_batch_loop cfg t (with_data s data (xs_expected s + 1)) (line st v (out @ wire_form t [ACK]))"
proof (rule receive_on)
  note h = block_header_size [OF assms(4)]
  have "burst T t (h # [xs_expected s, NOT (xs_expected s)] @ data @ trailer_bytes (xs_mode s) data) w v"
    using assms(1) by (simp add: make_block_def)
  moreover have "T \<le> x_block_timeout cfg * 1000" "T \<le> 60000" using assms(2) by (simp_all add: x_in_time_def)
  ultimately obtain m where m: "byte_within (x_block_timeout cfg * 1000) t (line st w out) = (Ok h, line st m out)"
      "steady 200 (wire_form t ([xs_expected s, NOT (xs_expected s)] @ data @ trailer_bytes (xs_mode s) data)) m v"
      "clock v \<le> clock m + BLOCK_BODY_TIMEOUT_SECS * 1000"
    using byte_within_line [of T t h _ w v st "x_block_timeout cfg * 1000" out] assms(3)
    by (fastforce simp: BLOCK_BODY_TIMEOUT_SECS_def)
  have "pushback st = None" using assms(3) by (simp add: calm_def)
  from block_read [OF m(2,3) this refl]
  have "on_reader (receive_block (clock m + BLOCK_BODY_TIMEOUT_SECS * 1000) t (xs_expected s) (xs_mode s) (block_size_of h))
      (line st m out) = (Inr (data, xs_expected s + 1, xs_mode s), line st v out)"
    using h by (simp add: on_reader_def line_def)
  then have "take_data_block cfg t (block_size_of h) (s\<lparr>xs_short_cancel := False\<rparr>) (line st m out) =
      (Inr (Inl (with_data s data (xs_expected s + 1))), line st v (out @ wire_form t [ACK]))"
    using assms(6) by (simp add: take_data_block_def lbind_def lpure_def raw_write_line with_data_def)
  then show "receive_step cfg t s (line st w out) =
      (Inr (Inl (with_data s data (xs_expected s + 1))), line st v (out @ wire_form t [ACK]))"
    using m(1) h assms(3,5) by (auto simp: receive_step_def in_file_step_def take_byte_def Let_def can_abort_line)
qed

text \<open>The blocks of padded data, and what a receiver does with them.\<close>

function block_frames :: "bool \<Rightarrow> TransferMode \<Rightarrow> byte \<Rightarrow> byte list \<Rightarrow> byte list list" where
  "block_frames use_1k mode num padded =
     (if padded = [] then []
      else let use_stx = (use_1k \<and> length padded \<ge> 1024); n = (if use_stx then 1024 else 128)
           in make_block (if use_stx then STX else SOH) num mode (take n padded) #
              block_frames use_1k mode (num + 1) (drop n padded))"
  by pat_completeness auto
termination by (relation "measure (\<lambda>(k, m, n, p). length p)") (auto split: if_splits)

declare block_frames.simps [simp del]

lemma no_blocks [simp]: "block_frames k m n [] = []"
  by (simp add: block_frames.simps)

lemma blocks_taken:
  "bursts T t (block_frames use_1k (xs_mode s) (xs_expected s) padded) w v \<Longrightarrow> 128 dvd length padded \<Longrightarrow>
   x_in_time T cfg \<Longrightarrow> calm st \<Longrightarrow> xs_place s = InFile \<Longrightarrow> length (xs_data s) + length padded \<le> MAX_FILE_SIZE \<Longrightarrow>
   with_data s [] (xs_expected s) = s \<Longrightarrow>
   \<exists>num. receive_batch_loop cfg t s (line st w out) = receive_batch_loop cfg t (with_data s padded num)
     (line st v (out @ wire_form t (replicate (length (block_frames use_1k (xs_mode s) (xs_expected s) padded)) ACK)))"
proof (induction use_1k "xs_mode s" "xs_expected s" padded arbitrary: s w out rule: block_frames.induct)
  case (1 use_1k padded)
  show ?case
  proof (cases "padded = []")
    case True
    with "1.prems" show ?thesis by (auto intro!: exI [of _ "xs_expected s"])
  next
    case False
    define use_stx where "use_stx = (use_1k \<and> length padded \<ge> 1024)"
    define n where "n = (if use_stx then 1024 else 128 :: nat)"
    define h where "h = (if use_stx then STX else SOH)"
    define s1 where "s1 = with_data s (take n padded) (xs_expected s + 1)"
    have "128 \<le> length padded" using False "1.prems"(2) by (auto dest: dvd_imp_le)
    then have n: "n \<le> length padded" "block_header_ok h (take n padded)"
      by (auto simp: n_def h_def use_stx_def block_header_ok_def)
    have fr: "block_frames use_1k (xs_mode s) (xs_expected s) padded = make_block h (xs_expected s) (xs_mode s) (take n padded) #
        block_frames use_1k (xs_mode s1) (xs_expected s1) (drop n padded)"
      using False by (simp add: block_frames.simps [of use_1k _ _ padded] Let_def use_stx_def n_def h_def s1_def with_data_def)
    with "1.prems"(1) obtain x where x: "burst T t (make_block h (xs_expected s) (xs_mode s) (take n padded)) w x"
        "bursts T t (block_frames use_1k (xs_mode s1) (xs_expected s1) (drop n padded)) x v" by auto
    have "receive_batch_loop cfg t s (line st w out) = receive_batch_loop cfg t s1 (line st x (out @ wire_form t [ACK]))"
      using n "1.prems"(6) unfolding s1_def by (intro block_taken [OF x(1) "1.prems"(3,4) n(2) "1.prems"(5)]) simp
    moreover have "\<exists>num. receive_batch_loop cfg t s1 (line st x (out @ wire_form t [ACK])) = receive_batch_loop cfg t (with_data s1 (drop n padded) num)
     (line st v ((out @ wire_form t [ACK]) @ wire_form t (replicate (length (block_frames use_1k (xs_mode s1) (xs_expected s1) (drop n padded))) ACK)))"
    proof (rule "1.hyps" [OF False use_stx_def n_def])
      show "bursts T t (block_frames use_1k (xs_mode s1) (xs_expected s1) (drop n padded)) x v" by (rule x(2))
      have "128 dvd n" by (simp add: n_def)
      with "1.prems"(2) show "128 dvd length (drop n padded)" by (simp add: dvd_diff_nat)
      show "xs_place s1 = InFile" "length (xs_data s1) + length (drop n padded) \<le> MAX_FILE_SIZE"
        "with_data s1 [] (xs_expected s1) = s1"
        using "1.prems"(5,6) n(1) by (simp_all add: s1_def with_data_def)
    qed (use "1.prems"(3,4) in \<open>simp_all add: s1_def with_data_def\<close>)
    moreover have "with_data s1 (drop n padded) num = with_data s padded num" for num
      by (simp add: s1_def with_data_def)
    ultimately show ?thesis by (simp add: fr wire_form_Cons [of t ACK] wire_form_append)
  qed
qed


lemma take_byte_line:
  assumes "burst T t [b] w v" "x_in_time T cfg" "calm st" "xs_place s = InFile" "b = EOT"
  shows "receive_step cfg t s (line st w out) = take_eot t (s\<lparr>xs_short_cancel := False\<rparr>) (line st v out)"
proof -
  have "byte_within (x_block_timeout cfg * 1000) t (line st w out) = (Ok b, line st v out)"
    using assms(2) by (intro byte_line [OF assms(1,3)]) (simp add: x_in_time_def)
  with assms(3,4,5) show ?thesis
    by (simp add: receive_step_def in_file_step_def take_byte_def Let_def can_abort_line)
qed

text \<open>The end of a plain file is asked for twice, the end of a YMODEM file of full size once.\<close>

lemma plain_end:
  assumes "bursts T t [[EOT], [EOT]] w v" "x_in_time T cfg" "calm st" "xs_place s = InFile" "\<not> xs_ymodem s"
    and "\<not> xs_eot_naked s" "xs_files s = []" "xs_meta s = None" "xs_filename s = None"
  shows "receive_batch_loop cfg t s (line st w out) =
    (\<lparr>br_files = [\<lparr>xf_filename = None, xf_data = finalize_received_file (xs_data s) None, xf_meta = None\<rparr>], br_error = None\<rparr>,
     line st v (out @ wire_form t [NAK, ACK]))"
proof -
  from assms(1) obtain x where x: "burst T t [EOT] w x" "burst T t [EOT] x v" by auto
  define s1 where "s1 = s\<lparr>xs_short_cancel := False, xs_eot_naked := True, xs_awaiting := True\<rparr>"
  have "receive_batch_loop cfg t s (line st w out) = receive_batch_loop cfg t s1 (line st x (out @ wire_form t [NAK]))"
    using take_byte_line [OF x(1) assms(2-4) refl, of out] assms(5,6)
    by (intro receive_on) (simp add: take_eot_def lbind_def lpure_def raw_write_line s1_def)
  also have "\<dots> = (\<lparr>br_files = [\<lparr>xf_filename = None, xf_data = finalize_received_file (xs_data s) None, xf_meta = None\<rparr>], br_error = None\<rparr>,
     line st v ((out @ wire_form t [NAK]) @ wire_form t [ACK]))"
    using take_byte_line [OF x(2) assms(2,3), of s1 "out @ wire_form t [NAK]"] assms(4-9)
    by (intro receive_done) (simp add: take_eot_def lbind_def lpure_def raw_write_line s1_def short_of_size_def)
  finally show ?thesis by (simp add: wire_form_Cons [of t NAK])
qed

lemma null_block_between:
  assumes "burst T t (block_zero (replicate 128 0)) w v" "x_in_time T cfg" "calm st"
  shows "between_step cfg t k s (line st w out) = (Inr (Inr (xs_files s)), line st v (out @ wire_form t [ACK]))"
proof -
  define dl where "dl = clock w + min (x_block_timeout cfg) INTER_FILE_WAIT_SECS * 1000"
  have T: "clock w + T \<le> dl" using assms(2) by (auto simp: dl_def x_in_time_def INTER_FILE_WAIT_SECS_def min_def)
  have "burst T t ([SOH, 0, NOT 0] @ header_body (replicate 128 0)) w v"
    using assms(1) by (simp add: block_zero_def make_block_def header_body_def)
  then obtain m where m: "delivers (Some dl) (wire_form t [SOH, 0, NOT 0]) w m"
      "steady 200 (wire_form t (header_body (replicate 128 0))) m v" "clock v \<le> dl"
    using burst_split [OF _ _ T] by blast
  have st: "pushback st = None" using assms(3) by (simp add: calm_def)
  have get: "\<exists>y. xget dl t st x = (Inr b, st, y) \<and> delivers (Some dl) (wire_form t bs) y z"
    if "delivers (Some dl) (wire_form t (b # bs)) x z" for b bs x z
    using that st by (auto simp: xget_def nvt_read_byte_fresh elim!: raw_read_wire_form)
  obtain a where a: "xget dl t st w = (Inr SOH, st, a)" "delivers (Some dl) (wire_form t [0, NOT 0]) a m"
    using get [OF m(1)] by blast
  obtain b where b: "xget dl t st a = (Inr 0, st, b)" "delivers (Some dl) (wire_form t [NOT 0]) b m"
    using get [OF a(2)] by blast
  obtain c where c: "xget dl t st b = (Inr (NOT 0), st, c)" "delivers (Some dl) (wire_form t []) c m"
    using get [OF b(2)] by blast
  from c(2) have "c = m" by simp
  note a(1) b(1) c(1) this
  moreover obtain f me where "read_ymodem_block_zero_body dl t 128 CrcMode st m = (Inr (True, True, f, me), st, v)"
    using null_read [OF m(2,3) st refl] by blast
  ultimately have "inter_file_block dl t st w = (Inr Terminator, st, v)"
    by (simp add: inter_file_block_def rbind_def rpure_def block_size_of_def XMODEM_BLOCK_SIZE_def)
  then have "on_reader (inter_file_block dl t) (line st w out) = (Inr Terminator, line st v out)"
    by (simp add: on_reader_def line_def)
  then show ?thesis
    by (simp add: between_step_def dl_def [symmetric] lbind_def lpure_def raw_write_line)
qed

lemma ymodem_end:
  assumes "bursts T t [[EOT], block_zero (replicate 128 0)] w v" "x_in_time T cfg" "calm st" "xs_place s = InFile" "xs_ymodem s"
    and "xs_files s = []" "xs_meta s = Some meta" "ym_size meta = Some n" "n \<le> length (xs_data s)"
  shows "receive_batch_loop cfg t s (line st w out) =
    (\<lparr>br_files = [\<lparr>xf_filename = xs_filename s, xf_data = take n (xs_data s), xf_meta = Some meta\<rparr>], br_error = None\<rparr>,
     line st v (out @ wire_form t [ACK, CRC_REQUEST, ACK]))"
proof -
  from assms(1) obtain x where x: "burst T t [EOT] w x" "burst T t (block_zero (replicate 128 0)) x v" by auto
  define files where "files = [\<lparr>xf_filename = xs_filename s, xf_data = take n (xs_data s), xf_meta = Some meta\<rparr>]"
  define s1 where "s1 = s\<lparr>xs_short_cancel := False, xs_place := AskNext, xs_data := [], xs_meta := None, xs_filename := None, xs_files := files\<rparr>"
  have fin: "finalize_received_file (xs_data s) (Some meta) = take n (xs_data s)"
    using assms(8,9) by (simp add: finalize_received_file_def size_truncation_target_def)
  have "receive_batch_loop cfg t s (line st w out) = receive_batch_loop cfg t s1 (line st x (out @ wire_form t [ACK]))"
    using take_byte_line [OF x(1) assms(2-4) refl, of out] assms(5-9) fin
    by (intro receive_on) (simp add: take_eot_def lbind_def lpure_def raw_write_line s1_def files_def short_of_size_def)
  also have "\<dots> = receive_batch_loop cfg t (s1\<lparr>xs_place := Between 0\<rparr>) (line st x ((out @ wire_form t [ACK]) @ wire_form t [CRC_REQUEST]))"
    by (intro receive_on) (simp add: receive_step_def s1_def lbind_def lpure_def raw_write_line)
  also have "\<dots> = (\<lparr>br_files = files, br_error = None\<rparr>,
      line st v (((out @ wire_form t [ACK]) @ wire_form t [CRC_REQUEST]) @ wire_form t [ACK]))"
    using null_block_between [OF x(2) assms(2,3), of 0 "s1\<lparr>xs_place := Between 0\<rparr>" "(out @ wire_form t [ACK]) @ wire_form t [CRC_REQUEST]"]
    by (intro receive_done) (simp add: receive_step_def s1_def)
  finally show ?thesis by (simp add: files_def wire_form_Cons [of t ACK] wire_form_Cons [of t CRC_REQUEST])
qed


lemma negotiation_room:
  assumes "x_in_time T cfg"
  shows "0 < crc_attempts cfg" "0 < max_negotiation_attempts cfg"
proof -
  define q where "q = x_negotiation_timeout cfg * 2 div 3 div max (x_retry_interval cfg) 1"
  have "q \<le> x_negotiation_timeout cfg * 2 div 3" unfolding q_def by (rule div_le_dividend)
  moreover have "x_negotiation_timeout cfg * 2 div 3 \<le> x_negotiation_timeout cfg" by linarith
  moreover have "x_negotiation_timeout cfg < 2 ^ 31" using assms by (simp add: x_in_time_def)
  ultimately have q: "max q 3 \<le> 2 ^ 31" by simp
  then have "as_u32 (max q 3) = max q 3" by (simp add: as_u32_def)
  then have c: "crc_attempts cfg = max q 3" by (simp add: crc_attempts_def q_def)
  then show "0 < crc_attempts cfg" by simp
  have r: "x_max_retries cfg < 2 ^ 31" using assms by (simp add: x_in_time_def)
  then have "as_u32 (x_max_retries cfg) = x_max_retries cfg" by (simp add: as_u32_def)
  moreover have "max q 3 + x_max_retries cfg < 2 ^ 32" using q r by simp
  ultimately show "0 < max_negotiation_attempts cfg" by (simp add: max_negotiation_attempts_def c as_u32_def)
qed

lemma header_byte_line:
  assumes "steady 200 (wire_form t (b # bs)) w v" "calm st" "clock v \<le> clock w + 60000"
  shows "\<exists>m. header_byte t (line st w out) = (Inr b, line st m out) \<and> steady 200 (wire_form t bs) m v \<and> clock v \<le> clock m + 60000"
proof -
  have st: "pushback st = None" using assms(2) by (simp add: calm_def)
  have "wire_form t (b # bs) = wire_form t [b] @ wire_form t bs" by (simp add: wire_form_Cons)
  with assms(1) obtain m where m: "steady 200 (wire_form t [b]) w m" "steady 200 (wire_form t bs) m v"
    by (auto simp: steady_append)
  have mono: "clock w \<le> clock m" "clock m \<le> clock v"
    using steady_delivers_by [OF steady_mono [OF m(1)] order_refl] steady_delivers_by [OF steady_mono [OF m(2)] order_refl]
    by (auto dest: delivers_clock_mono)
  have "xget (clock w + 60000) t st w = (Inr b, st, m)" using mono assms(3) by (intro xget_last [OF m(1) _ st]) simp
  then have "nvt_read_byte (Some (clock w + 60000)) t st w = (Ok b, st, m)"
    by (auto simp: xget_def split: prod.splits outcome.splits)
  with m(2) mono assms(3) show ?thesis
    by (intro exI [of _ m]) (auto simp: header_byte_def byte_within_def byte_by_def on_reader_def line_def BLOCK_BODY_TIMEOUT_SECS_def)
qed

lemma negotiate_opened:
  assumes "burst T t (h # rest) w v" "x_in_time T cfg" "calm st" "h = SOH \<or> h = STX"
    and "\<And>m. steady 200 (wire_form t rest) m v \<Longrightarrow> clock v \<le> clock m + 60000 \<Longrightarrow>
      negotiate_byte t h init_negotiation (line st m (out @ wire_form t [CRC_REQUEST])) = (Inr (Inr opened), line st v out')"
  shows "receive_negotiate cfg t p (clock w + x_negotiation_timeout cfg * 1000) init_negotiation (line st w out) =
    (Inr opened, line st v out')"
proof -
  let ?out = "out @ wire_form t [CRC_REQUEST]"
  have "T \<le> x_retry_interval cfg * 1000" using assms(2) by (simp add: x_in_time_def)
  then obtain m where m: "byte_within (x_retry_interval cfg * 1000) t (line st w ?out) = (Ok h, line st m ?out)"
      "steady 200 (wire_form t rest) m v" "clock v \<le> clock m + T"
    using byte_within_line [OF assms(1,3), of "x_retry_interval cfg * 1000" ?out] by blast
  have "clock v \<le> clock m + 60000" using m(3) assms(2) by (simp add: x_in_time_def)
  note byte = assms(5) [OF m(2) this]
  have esc: "\<not> is_esc_key h p" "h \<noteq> CAN" using assms(4) by (auto simp: is_esc_key_def)
  have "negotiate_read cfg t p init_negotiation (line st w ?out) = (Inr (Inr opened), line st v out')"
    using m(1) esc byte by (simp add: negotiate_read_def can_abort_line [OF assms(3)])
  moreover have "init_negotiation\<lparr>ng_mode := CrcMode, ng_request_sent := False\<rparr> = init_negotiation"
    by (simp add: init_negotiation_def)
  ultimately have "receive_negotiate_step cfg t p (clock w + x_negotiation_timeout cfg * 1000) init_negotiation (line st w out) =
      (Inr (Inr opened), line st v out')"
    using negotiation_room [OF assms(2)] less_imp_neq [OF x_settings_positive(1) [of cfg]]
    by (simp add: receive_negotiate_step_def lbind_def raw_write_line init_negotiation_def)
  then show ?thesis by (simp add: receive_negotiate.simps [of cfg t p _ init_negotiation])
qed

text \<open>A first data block, and a first file header.\<close>

lemma data_opened:
  assumes "burst T t (make_block h 1 CrcMode data) w v" "x_in_time T cfg" "calm st" "block_header_ok h data"
  shows "receive_negotiate cfg t p (clock w + x_negotiation_timeout cfg * 1000) init_negotiation (line st w out) =
    (Inr (Begin (in_file data 2 CrcMode)), line st v (out @ wire_form t [CRC_REQUEST, ACK]))"
proof -
  note h = block_header_size [OF assms(4)]
  have "burst T t (h # [1, NOT 1] @ data @ trailer_bytes CrcMode data) w v" using assms(1) by (simp add: make_block_def)
  from this assms(2,3) show ?thesis
  proof (rule negotiate_opened)
    show "h = SOH \<or> h = STX" using h by simp
    fix m
    let ?out = "out @ wire_form t [CRC_REQUEST]"
    assume m: "steady 200 (wire_form t ([1, NOT 1] @ data @ trailer_bytes CrcMode data)) m v" "clock v \<le> clock m + 60000"
    from m obtain a where a: "header_byte t (line st m ?out) = (Inr 1, line st a ?out)"
        "steady 200 (wire_form t (NOT 1 # data @ trailer_bytes CrcMode data)) a v" "clock v \<le> clock a + 60000"
      using header_byte_line [of t 1 "NOT 1 # data @ trailer_bytes CrcMode data" m v st ?out] assms(3) by auto
    from a obtain b where b: "header_byte t (line st a ?out) = (Inr (NOT 1), line st b ?out)"
        "steady 200 (wire_form t (data @ trailer_bytes CrcMode data)) b v" "clock v \<le> clock b + 60000"
      using header_byte_line [OF a(2) assms(3) a(3), of ?out] by blast
    have "pushback st = None" using assms(3) by (simp add: calm_def)
    from body_read [OF b(2) b(3) this refl, of 1 True]
    have "on_reader (receive_block_body (clock b + BLOCK_BODY_TIMEOUT_SECS * 1000) t 1 (NOT 1) 1 CrcMode (block_size_of h) True)
        (line st b ?out) = (Inr (data, 2, CrcMode), line st v ?out)"
      using h by (simp add: on_reader_def line_def BLOCK_BODY_TIMEOUT_SECS_def)
    then have "first_data_block t 1 (NOT 1) (block_size_of h) init_negotiation (line st b ?out) =
        (Inr (Inr (Begin (in_file data 2 CrcMode))), line st v (out @ wire_form t [CRC_REQUEST, ACK]))"
      by (simp add: first_data_block_def init_negotiation_def lbind_def lpure_def raw_write_line wire_form_Cons)
    then show "negotiate_byte t h init_negotiation (line st m ?out) =
        (Inr (Inr (Begin (in_file data 2 CrcMode))), line st v (out @ wire_form t [CRC_REQUEST, ACK]))"
      using h a(1) b(1) by (auto simp: negotiate_byte_def lbind_def)
  qed
qed


lemma header_opened:
  assumes "burst T t (block_zero (block_zero_payload hdr)) w v" "x_in_time T cfg" "calm st" "header_fits hdr"
  shows "receive_negotiate cfg t p (clock w + x_negotiation_timeout cfg * 1000) init_negotiation (line st w out) =
    (Inr (Begin ((in_file [] 1 CrcMode)\<lparr>xs_ymodem := True, xs_meta := Some (header_meta hdr), xs_filename := Some (yh_filename hdr)\<rparr>)),
     line st v (out @ wire_form t [CRC_REQUEST, ACK, CRC_REQUEST]))"
    (is "_ = (Inr (Begin ?s), line st v ?end)")
proof -
  have "burst T t (SOH # [0, NOT 0] @ header_body (block_zero_payload hdr)) w v"
    using assms(1) by (simp add: block_zero_def make_block_def header_body_def)
  from this assms(2,3) show ?thesis
  proof (rule negotiate_opened)
    fix m
    let ?out = "out @ wire_form t [CRC_REQUEST]"
    assume m: "steady 200 (wire_form t ([0, NOT 0] @ header_body (block_zero_payload hdr))) m v" "clock v \<le> clock m + 60000"
    from m obtain a where a: "header_byte t (line st m ?out) = (Inr 0, line st a ?out)"
        "steady 200 (wire_form t (NOT 0 # header_body (block_zero_payload hdr))) a v" "clock v \<le> clock a + 60000"
      using header_byte_line [of t 0 "NOT 0 # header_body (block_zero_payload hdr)" m v st ?out] assms(3) by auto
    from a obtain b where b: "header_byte t (line st a ?out) = (Inr (NOT 0), line st b ?out)"
        "steady 200 (wire_form t (header_body (block_zero_payload hdr))) b v" "clock v \<le> clock b + 60000"
      using header_byte_line [OF a(2) assms(3) a(3), of ?out] by blast
    have "pushback st = None" using assms(3) by (simp add: calm_def)
    from header_read [OF b(2,3) this assms(4) refl]
    have "on_reader (read_ymodem_block_zero_body (clock b + BLOCK_BODY_TIMEOUT_SECS * 1000) t (block_size_of SOH) CrcMode)
        (line st b ?out) = (Inr (True, False, Some (yh_filename hdr), Some (header_meta hdr)), line st v ?out)"
      by (simp add: on_reader_def line_def BLOCK_BODY_TIMEOUT_SECS_def block_size_of_def XMODEM_BLOCK_SIZE_def)
    then have "first_block_zero t (block_size_of SOH) init_negotiation (line st b ?out) = (Inr (Inr (Begin ?s)), line st v ?end)"
      by (simp add: first_block_zero_def lbind_def lpure_def raw_write_line wire_form_Cons)
    then show "negotiate_byte t SOH init_negotiation (line st m ?out) = (Inr (Inr (Begin ?s)), line st v ?end)"
      using a(1) b(1) by (simp add: negotiate_byte_def lbind_def)
  qed simp
qed


section \<open>Whole transfers\<close>

text \<open>What a sending gateway writes for a file, and what a receiving one answers.\<close>

definition send_frames :: "byte list \<Rightarrow> bool \<Rightarrow> YmodemHeader option \<Rightarrow> byte list list" where
  "send_frames data use_1k header =
     (let blocks = block_frames use_1k CrcMode 1 (padded_data data (header \<noteq> None))
      in case header of
           None \<Rightarrow> blocks @ [[EOT], [EOT]]
         | Some hdr \<Rightarrow> [block_zero (block_zero_payload hdr)] @ blocks @ [[EOT], block_zero (replicate 128 0)])"

definition answers :: "byte list \<Rightarrow> bool \<Rightarrow> YmodemHeader option \<Rightarrow> byte list" where
  "answers data use_1k header =
     (let acks = replicate (length (block_frames use_1k CrcMode 1 (padded_data data (header \<noteq> None)))) ACK
      in case header of
           None \<Rightarrow> acks @ [NAK, ACK]
         | Some hdr \<Rightarrow> [ACK, CRC_REQUEST] @ acks @ [ACK, CRC_REQUEST, ACK])"

definition x_received :: "byte list \<Rightarrow> YmodemHeader option \<Rightarrow> XmodemReceivedFile" where
  "x_received data header = (case header of
      None \<Rightarrow> \<lparr>xf_filename = None, xf_data = trim_end_matches SUB data, xf_meta = None\<rparr>
    | Some hdr \<Rightarrow> \<lparr>xf_filename = Some (yh_filename hdr), xf_data = data, xf_meta = Some (header_meta hdr)\<rparr>)"

definition announces :: "YmodemHeader option \<Rightarrow> byte list \<Rightarrow> bool" where
  "announces header data \<longleftrightarrow> (\<forall>hdr. header = Some hdr \<longrightarrow> header_fits hdr \<and> yh_size hdr = length data)"

lemma padded_facts:
  assumes "length data \<le> MAX_FILE_SIZE"
  shows "128 dvd length (padded_data data y)" "length (padded_data data y) \<le> MAX_FILE_SIZE"
    "\<exists>k. padded_data data y = data @ replicate k SUB" "\<not> y \<Longrightarrow> padded_data data y \<noteq> []"
proof -
  define p where "p = (if data = [] \<and> \<not> y then [SUB] else data)"
  define k where "k = (128 - length p mod 128) mod 128"
  have eq: "padded_data data y = p @ replicate k SUB" by (simp add: padded_data_def p_def k_def Let_def XMODEM_BLOCK_SIZE_def)
  define q r where "q = length p div 128" and "r = length p mod 128"
  have p: "length p = 128 * q + r" "r < 128" by (simp_all add: q_def r_def)
  have k: "k = (if r = 0 then 0 else 128 - r)" using p(2) by (simp add: k_def r_def)
  have sum: "length p + k = 128 * (if r = 0 then q else q + 1)" using p k by simp
  then show "128 dvd length (padded_data data y)" by (simp add: eq)
  have "length p \<le> MAX_FILE_SIZE" using assms by (simp add: p_def MAX_FILE_SIZE_def)
  with p have "(if r = 0 then q else q + 1) \<le> 65536" by (auto simp: MAX_FILE_SIZE_def)
  then show "length (padded_data data y) \<le> MAX_FILE_SIZE" using sum by (simp add: eq MAX_FILE_SIZE_def)
  show "\<exists>k. padded_data data y = data @ replicate k SUB"
    unfolding eq by (cases "data = [] \<and> \<not> y") (auto simp: p_def replicate_Suc [symmetric] simp del: replicate_Suc)
  show "\<not> y \<Longrightarrow> padded_data data y \<noteq> []" using eq by (auto simp: p_def split: if_splits)
qed

lemma trim_padding: "trim_end_matches c (data @ replicate k c) = trim_end_matches c data"
  unfolding trim_end_matches_def rev_append by (subst dropWhile_append2) auto


lemma first_block:
  assumes "padded \<noteq> []" "128 dvd length padded"
  obtains h d rest where "block_frames use_1k mode num padded = make_block h num mode d # block_frames use_1k mode (num + 1) rest"
    "padded = d @ rest" "block_header_ok h d" "128 dvd length rest"
proof -
  define n where "n = (if use_1k \<and> length padded \<ge> 1024 then 1024 else 128 :: nat)"
  have "128 \<le> length padded" using assms by (auto dest: dvd_imp_le)
  then have n: "n \<le> length padded" "128 dvd n" by (auto simp: n_def)
  show thesis
  proof
    show "block_frames use_1k mode num padded =
        make_block (if use_1k \<and> length padded \<ge> 1024 then STX else SOH) num mode (take n padded) # block_frames use_1k mode (num + 1) (drop n padded)"
      using assms(1) by (simp add: block_frames.simps [of use_1k mode num padded] n_def Let_def)
    show "padded = take n padded @ drop n padded" by simp
    show "block_header_ok (if use_1k \<and> length padded \<ge> 1024 then STX else SOH) (take n padded)"
      using n(1) by (auto simp: block_header_ok_def n_def)
    show "128 dvd length (drop n padded)" using assms(2) n by (simp add: dvd_diff_nat)
  qed
qed

lemma in_file_settled: "with_data (in_file data num mode) [] num = in_file data num mode"
  by (simp add: with_data_def in_file_def)

lemma xmodem_gateway_receives:
  assumes "x_in_time T cfg" "length data \<le> MAX_FILE_SIZE" "announces header data"
    and "bursts T t (send_frames data use_1k header) w v"
  shows "\<exists>l. xmodem_receive_batch_keeping cfg t p w \<lparr>sent = [], broken = None\<rparr> =
      (\<lparr>br_files = [x_received data header], br_error = None\<rparr>, l) \<and>
    sent (outw l) = wire_form t (CRC_REQUEST # answers data use_1k header)"
proof -
  let ?st = default_ReadState and ?p = "padded_data data (header \<noteq> None)"
  have st: "calm ?st" by (simp add: default_ReadState_def calm_def)
  note pad = padded_facts [OF assms(2), of "header \<noteq> None"]
  have l0: "\<lparr>rst = ?st, inw = w, outw = \<lparr>sent = [], broken = None\<rparr>\<rparr> = line ?st w []" by (simp add: line_def)
  show ?thesis
  proof (cases header)
    case None
    from pad(1,4) None obtain h d rest where b: "block_frames use_1k CrcMode 1 ?p = make_block h 1 CrcMode d # block_frames use_1k CrcMode 2 rest"
      "?p = d @ rest" "block_header_ok h d" "128 dvd length rest"
      using first_block [of ?p use_1k CrcMode 1] by auto
    from assms(4) None b(1) obtain x y where x: "burst T t (make_block h 1 CrcMode d) w x"
        "bursts T t (block_frames use_1k CrcMode 2 rest) x y" "bursts T t [[EOT], [EOT]] y v"
      by (auto simp: send_frames_def Let_def bursts_append)
    define s where "s = in_file d 2 CrcMode"
    have s: "xs_mode s = CrcMode" "xs_expected s = 2" "xs_place s = InFile" "xs_data s = d" "\<not> xs_ymodem s"
      "xs_files s = []" "xs_meta s = None" "xs_filename s = None" by (simp_all add: s_def in_file_def)
    have open_: "receive_negotiate cfg t p (clock w + x_negotiation_timeout cfg * 1000) init_negotiation (line ?st w []) =
        (Inr (Begin s), line ?st x (wire_form t [CRC_REQUEST, ACK]))"
      using data_opened [OF x(1) assms(1) st b(3), of p "[]"] by (simp add: s_def)
    have "length d + length rest \<le> MAX_FILE_SIZE" using pad(2) b(2) by simp
    then obtain num where "receive_batch_loop cfg t s (line ?st x (wire_form t [CRC_REQUEST, ACK])) =
        receive_batch_loop cfg t (with_data s rest num) (line ?st y (wire_form t [CRC_REQUEST, ACK] @
          wire_form t (replicate (length (block_frames use_1k CrcMode 2 rest)) ACK)))"
      using blocks_taken [of T t use_1k s rest x y cfg ?st "wire_form t [CRC_REQUEST, ACK]"] x(2) b(4) assms(1) st s
        in_file_settled [of d 2 CrcMode] by (auto simp: s_def [symmetric])
    also have "\<dots> = (\<lparr>br_files = [\<lparr>xf_filename = None, xf_data = finalize_received_file ?p None, xf_meta = None\<rparr>], br_error = None\<rparr>,
        line ?st v ((wire_form t [CRC_REQUEST, ACK] @ wire_form t (replicate (length (block_frames use_1k CrcMode 2 rest)) ACK)) @ wire_form t [NAK, ACK]))"
      using plain_end [OF x(3) assms(1) st, of "with_data s rest num"] s b(2) by (simp add: with_data_def)
    finally have run: "receive_batch_loop cfg t s (line ?st x (wire_form t [CRC_REQUEST, ACK])) = \<dots>" .
    have "finalize_received_file ?p None = trim_end_matches SUB data"
      using pad(3) by (auto simp: finalize_received_file_def trim_padding)
    with open_ run show ?thesis
      unfolding xmodem_receive_batch_keeping_def Let_def l0
      by (simp add: None x_received_def answers_def b(1) [unfolded None, simplified] wire_form_append wire_form_Cons)
  next
    case (Some hdr)
    with assms(3) have hdr: "header_fits hdr" "yh_size hdr = length data" by (simp_all add: announces_def)
    from assms(4) Some obtain x y where x: "burst T t (block_zero (block_zero_payload hdr)) w x"
        "bursts T t (block_frames use_1k CrcMode 1 ?p) x y" "bursts T t [[EOT], block_zero (replicate 128 0)] y v"
      by (auto simp: send_frames_def Let_def bursts_append)
    define s where "s = (in_file [] 1 CrcMode)\<lparr>xs_ymodem := True, xs_meta := Some (header_meta hdr), xs_filename := Some (yh_filename hdr)\<rparr>"
    have s: "xs_mode s = CrcMode" "xs_expected s = 1" "xs_place s = InFile" "xs_data s = []" "xs_ymodem s"
      "xs_files s = []" "xs_meta s = Some (header_meta hdr)" "xs_filename s = Some (yh_filename hdr)" "with_data s [] 1 = s"
      by (simp_all add: s_def in_file_def with_data_def)
    have open_: "receive_negotiate cfg t p (clock w + x_negotiation_timeout cfg * 1000) init_negotiation (line ?st w []) =
        (Inr (Begin s), line ?st x (wire_form t [CRC_REQUEST, ACK, CRC_REQUEST]))"
      using header_opened [OF x(1) assms(1) st hdr(1), of p "[]"] by (simp add: s_def)
    obtain num where "receive_batch_loop cfg t s (line ?st x (wire_form t [CRC_REQUEST, ACK, CRC_REQUEST])) =
        receive_batch_loop cfg t (with_data s ?p num) (line ?st y (wire_form t [CRC_REQUEST, ACK, CRC_REQUEST] @
          wire_form t (replicate (length (block_frames use_1k CrcMode 1 ?p)) ACK)))"
      using blocks_taken [of T t use_1k s ?p x y cfg ?st "wire_form t [CRC_REQUEST, ACK, CRC_REQUEST]"] x(2) pad(1,2) assms(1) st s by auto
    also have "\<dots> = (\<lparr>br_files = [\<lparr>xf_filename = Some (yh_filename hdr), xf_data = take (length data) ?p, xf_meta = Some (header_meta hdr)\<rparr>], br_error = None\<rparr>,
        line ?st v ((wire_form t [CRC_REQUEST, ACK, CRC_REQUEST] @ wire_form t (replicate (length (block_frames use_1k CrcMode 1 ?p)) ACK)) @ wire_form t [ACK, CRC_REQUEST, ACK]))"
      using ymodem_end [OF x(3) assms(1) st, of "with_data s ?p num" "header_meta hdr" "length data"] s pad(3) hdr(2)
      by (auto simp: with_data_def header_meta_def)
    finally have run: "receive_batch_loop cfg t s (line ?st x (wire_form t [CRC_REQUEST, ACK, CRC_REQUEST])) = \<dots>" .
    have "take (length data) ?p = data" using pad(3) by auto
    with open_ run show ?thesis
      unfolding xmodem_receive_batch_keeping_def Let_def l0
      by (simp add: Some x_received_def answers_def wire_form_append wire_form_Cons)
  qed
qed



section \<open>The sender on a receiver's answers\<close>

lemma block_acked:
  assumes "burst T t [ACK] w v" "x_in_time T cfg" "calm st"
  shows "send_block (Suc n) cfg t back packet (line st w out) = (Inr True, line st v (out @ wire_form t packet))"
proof -
  let ?dl = "clock w + x_block_timeout cfg * 1000" and ?out = "out @ wire_form t packet"
  have "clock w + T \<le> ?dl" using assms(2) by (simp add: x_in_time_def)
  then have "byte_by ?dl t (line st w ?out) = (Ok ACK, line st v ?out)"
    using byte_by_line [OF assms(1,3), of ?dl ?out] by auto
  then have "block_reply t ?dl 0 (line st w ?out) = (Inr (Some ACK), line st v ?out)"
    using less_imp_neq [OF x_settings_positive(2) [of cfg]] assms(3)
    by (simp add: block_reply.simps [of t ?dl 0 "line st w ?out"] can_abort_line)
  then show ?thesis by (simp add: lbind_def lpure_def write_all_line)
qed

lemma blocks_acked:
  assumes "x_in_time T cfg" "calm st"
  shows "bursts T t (replicate (length (block_frames use_1k mode num (drop offset padded))) [ACK]) w v \<Longrightarrow>
    128 dvd length (drop offset padded) \<Longrightarrow>
    send_blocks cfg t mode padded offset idx num use_1k (line st w out) =
      (Inr (), line st v (out @ written t (block_frames use_1k mode num (drop offset padded))))"
proof (induction "length padded - offset" arbitrary: offset idx num w out rule: less_induct)
  case less
  show ?case
  proof (cases "offset \<ge> length padded")
    case True
    with less.prems show ?thesis by (simp add: send_blocks.simps [of cfg t mode padded offset])
  next
    case False
    define stx where "stx = (use_1k \<and> length padded - offset \<ge> 1024)"
    define n where "n = (if stx then 1024 else 128 :: nat)"
    define packet where "packet = make_block (if stx then STX else SOH) num mode (take n (drop offset padded))"
    have "128 \<le> length padded - offset" using False less.prems(2) by (auto dest: dvd_imp_le)
    then have n: "n \<le> length padded - offset" "0 < n" "128 dvd n" by (auto simp: n_def stx_def)
    have fr: "block_frames use_1k mode num (drop offset padded) = packet # block_frames use_1k mode (num + 1) (drop (offset + n) padded)"
      using False by (simp add: block_frames.simps [of use_1k mode num "drop offset padded"] packet_def n_def stx_def Let_def add.commute)
    with less.prems(1) obtain x where x: "burst T t [ACK] w x"
        "bursts T t (replicate (length (block_frames use_1k mode (num + 1) (drop (offset + n) padded))) [ACK]) x v" by auto
    have "send_blocks cfg t mode padded offset idx num use_1k (line st w out) =
        send_blocks cfg t mode padded (offset + n) (idx + 1) (num + 1) use_1k (line st x (out @ wire_form t packet))"
    proof -
      have "send_block (x_max_retries cfg + 1) cfg t (stx \<and> idx = 0) packet (line st w out) = (Inr True, line st x (out @ wire_form t packet))"
        using block_acked [OF x(1) assms] by (simp del: send_block.simps)
      then show ?thesis
        using False unfolding send_blocks.simps [of cfg t mode padded offset idx num use_1k "line st w out"] Let_def XMODEM_BLOCK_SIZE_def XMODEM_1K_BLOCK_SIZE_def
          stx_def [symmetric] n_def [symmetric] packet_def [symmetric]
        by (auto simp: stx_def simp del: send_block.simps)
    qed
    also have "\<dots> = (Inr (), line st v ((out @ wire_form t packet) @ written t (block_frames use_1k mode (num + 1) (drop (offset + n) padded))))"
    proof (rule less.hyps)
      have "length (drop offset padded) - n = length (drop (offset + n) padded)" by simp
      then show "128 dvd length (drop (offset + n) padded)" using less.prems(2) n(3) by (metis dvd_diff_nat)
    qed (use n x(2) False in auto)
    finally show ?thesis by (simp add: fr)
  qed
qed

lemma calm_pending [simp]: "calm st \<Longrightarrow> st\<lparr>pending_can := False\<rparr> = st"
  by (cases st) (simp add: calm_def)

lemma eot_answered:
  assumes "burst T t [b] w v" "x_in_time T cfg" "calm st" "b \<noteq> CAN"
  shows "eot_reply t (clock w + x_block_timeout cfg * 1000) False (line st w out) = (Inr (Some b), line st v out)"
proof -
  have "clock w + T \<le> clock w + x_block_timeout cfg * 1000" using assms(2) by (simp add: x_in_time_def)
  from byte_by_line [OF assms(1,3) this, of out] assms(3,4) show ?thesis
    by (auto simp: eot_reply.simps [of t "clock w + x_block_timeout cfg * 1000" False] can_abort_line)
qed

lemma rst_line [simp]: "(line st w out)\<lparr>rst := st'\<rparr> = line st' w out"
  by (simp add: line_def)

lemma eot_refused:
  assumes "burst T t [NAK] w v" "x_in_time T cfg" "calm st"
  shows "eot_loop (Suc n) cfg t y (line st w out) = eot_loop n cfg t y (line st v (out @ wire_form t [EOT]))"
  using eot_answered [OF assms, of "out @ wire_form t [EOT]"] assms(3)
  by (simp add: lbind_def raw_write_line)

lemma eot_accepted:
  assumes "burst T t [ACK] w v" "x_in_time T cfg" "calm st"
  shows "eot_loop (Suc n) cfg t y (line st w out) =
    (if y then send_ymodem_end_of_batch cfg t False else lpure ()) (line st v (out @ wire_form t [EOT]))"
  using eot_answered [OF assms, of "out @ wire_form t [EOT]"] assms(3)
  by (simp add: lbind_def raw_write_line)

lemma batch_ended:
  assumes "bursts T t [[CRC_REQUEST], [ACK]] w v" "x_in_time T cfg" "calm st"
  shows "send_ymodem_end_of_batch cfg t False (line st w out) =
    (Inr (), line st v (out @ wire_form t (block_zero (replicate 128 0))))"
proof -
  let ?out = "out @ wire_form t (block_zero (replicate 128 0))"
  from assms(1) obtain x where x: "burst T t [CRC_REQUEST] w x" "burst T t [ACK] x v" by auto
  have "byte_within (x_block_timeout cfg * 1000) t (line st w out) = (Ok CRC_REQUEST, line st x out)"
    using assms(2) by (intro byte_line [OF x(1) assms(3)]) (simp add: x_in_time_def)
  moreover have "byte_within (EOB_TIMEOUT_SECS * 1000) t (line st x ?out) = (Ok ACK, line st v ?out)"
    using assms(2) by (intro byte_line [OF x(2) assms(3)]) (simp add: x_in_time_def EOB_TIMEOUT_SECS_def)
  ultimately show ?thesis
    by (simp add: send_ymodem_end_of_batch_def lbind_def write_all_line XMODEM_BLOCK_SIZE_def EOB_MAX_RETRIES_def numeral_2_eq_2)
qed

lemma header_acked:
  assumes "bursts T t [[ACK], [CRC_REQUEST]] w v" "x_in_time T cfg" "calm st"
  shows "lbind (send_ymodem_block_zero cfg t hdr) (\<lambda>_ l.
      await_data_request t (now l + min (x_block_timeout cfg) DATA_PHASE_C_WAIT_SECS * 1000) 0 l) (line st w out) =
    (Inr (), line st v (out @ wire_form t (block_zero (block_zero_payload hdr))))"
proof -
  let ?out = "out @ wire_form t (block_zero (block_zero_payload hdr))"
  from assms(1) obtain x where x: "burst T t [ACK] w x" "burst T t [CRC_REQUEST] x v" by auto
  have "byte_within (x_block_timeout cfg * 1000) t (line st w ?out) = (Ok ACK, line st x ?out)"
    using assms(2) by (intro byte_line [OF x(1) assms(3)]) (simp add: x_in_time_def)
  then have "block_zero_reply (x_block_timeout cfg) t (line st w ?out) = (Inr (Some ACK), line st x ?out)"
    using assms(3) by (simp add: block_zero_reply.simps [of _ t] can_abort_line)
  then have z: "send_ymodem_block_zero cfg t hdr (line st w out) = (Inr (), line st x ?out)"
    by (simp add: send_ymodem_block_zero_def lbind_def lpure_def write_all_line)
  define dl where "dl = clock x + min (x_block_timeout cfg) DATA_PHASE_C_WAIT_SECS * 1000"
  have T: "clock x + T \<le> dl" "clock x < dl" using assms(2) x_settings_positive(2) [of cfg]
    by (auto simp: dl_def x_in_time_def DATA_PHASE_C_WAIT_SECS_def min_def simp del: x_settings_positive)
  from byte_by_line [OF x(2) assms(3) T(1), of ?out] T(2)
  have "await_data_request t dl 0 (line st x ?out) = (Inr (), line st v ?out)"
    by (auto simp: await_data_request.simps [of t dl 0])
  with z show ?thesis by (simp add: lbind_def dl_def)
qed


text \<open>
  The sender waits a quarter of a second after the first \<open>C\<close> and drops what comes meanwhile; a
  receiver that does not repeat itself by then loses nothing.
\<close>

lemma nothing_drained:
  assumes "quiet 250 w" "calm st"
  shows "drain_requests t (pause 200 (line st w out)) = line st (delayed 250 w) out"
proof -
  obtain d x r where f: "feed w = (d, x) # r" "250 < d" using assms(1) by (auto simp: quiet_def split: list.splits)
  define v where "v = \<lparr>clock = clock w + 200, feed = (d - 200, x) # r\<rparr>"
  have p: "pause 200 (line st w out) = line st v out" using f by (simp add: pause_def v_def)
  have "quiet 50 v" "delayed 50 v = delayed 250 w" using f by (simp_all add: quiet_def v_def delayed_def)
  with read_nothing [of 50 v st t] assms(2) have "byte_within 50 t (line st v out) = (Elapsed, line st (delayed 250 w) out)"
    by (simp add: byte_within_def byte_by_def on_reader_def calm_def line_def)
  then show ?thesis unfolding p by (simp add: drain_requests.simps [of t "line st v out"])
qed

lemma answers_Cons: "\<exists>a as. answers data use_1k header = a # as"
proof (cases "answers data use_1k header")
  case Nil
  then show ?thesis by (simp add: answers_def Let_def split: option.splits)
qed blast

lemma xmodem_gateway_sends:
  assumes "x_in_time T cfg" "length data \<le> MAX_FILE_SIZE" "burst T t [CRC_REQUEST] w m" "quiet 250 m"
    and "bursts T t (map (\<lambda>b. [b]) (answers data use_1k header)) m v"
  shows "\<exists>l. xmodem_send cfg t p data use_1k header w \<lparr>sent = [], broken = None\<rparr> = (Inr (), l) \<and>
    sent (outw l) = written t (send_frames data use_1k header)"
proof -
  let ?st = default_ReadState and ?p = "padded_data data (header \<noteq> None)" and ?m = "delayed 250 m"
  have st: "calm ?st" by (simp add: default_ReadState_def calm_def)
  note pad = padded_facts [OF assms(2), of "header \<noteq> None"]
  have l0: "\<lparr>rst = ?st, inw = w, outw = \<lparr>sent = [], broken = None\<rparr>\<rparr> = line ?st w []" by (simp add: line_def)
  define nd where "nd = clock w + x_negotiation_timeout cfg * 1000"
  have T: "clock w + T \<le> nd" "clock w < nd" using assms(1) by (auto simp: nd_def x_in_time_def)
  from byte_by_line [OF assms(3) st T(1), of "[]"] T(2)
  have neg: "send_negotiate t p nd (line ?st w []) = (Inr CrcMode, line ?st m [])"
    by (auto simp: send_negotiate.simps [of t p nd] is_esc_key_def can_abort_line [OF st])
  have drained: "drain_requests t (pause 200 (line ?st m [])) = line ?st ?m []" by (rule nothing_drained [OF assms(4) st])
  from answers_Cons assms(4,5) have ans: "bursts T t (map (\<lambda>b. [b]) (answers data use_1k header)) ?m v"
    using bursts_delayed by (metis list.simps(9))
  define tail where "tail = (\<lambda>l. lbind (send_blocks cfg t CrcMode ?p 0 0 1 use_1k) (\<lambda>_. eot_loop (eot_attempts cfg) cfg t (header \<noteq> None)) l)"
  have run: "xmodem_send cfg t p data use_1k header w \<lparr>sent = [], broken = None\<rparr> =
      lbind (case header of None \<Rightarrow> lpure () | Some hdr \<Rightarrow> lbind (send_ymodem_block_zero cfg t hdr) (\<lambda>_ l.
          await_data_request t (now l + min (x_block_timeout cfg) DATA_PHASE_C_WAIT_SECS * 1000) 0 l)) (\<lambda>_. tail) (line ?st ?m [])"
    unfolding xmodem_send_def Let_def l0 tail_def
    using neg drained by (simp add: nd_def lbind_def fun_eq_iff)
  obtain k where k: "eot_attempts cfg = Suc (Suc k)" 
    by (metis One_nat_def Suc_le_D eot_attempts_def max.cobounded2 numeral_2_eq_2 Suc_le_mono)
  define n where "n = length (block_frames use_1k CrcMode 1 ?p)"
  show ?thesis
  proof (cases header)
    case None
    from ans None obtain x y where x: "bursts T t (replicate n [ACK]) ?m x" "burst T t [NAK] x y" "burst T t [ACK] y v"
      by (auto simp: answers_def n_def bursts_append)
    have "send_blocks cfg t CrcMode ?p 0 0 1 use_1k (line ?st ?m []) = (Inr (), line ?st x (written t (block_frames use_1k CrcMode 1 ?p)))"
      using blocks_acked [OF assms(1) st, of t use_1k CrcMode 1 0 ?p ?m x 0 "[]"] x(1) pad(1) by (simp add: n_def)
    then have "tail (line ?st ?m []) = (Inr (), line ?st v (written t (block_frames use_1k CrcMode 1 ?p) @ wire_form t [EOT] @ wire_form t [EOT]))"
      unfolding tail_def k
      by (simp add: lbind_Inr None eot_refused [OF x(2) assms(1) st] eot_accepted [OF x(3) assms(1) st] lpure_def del: eot_loop.simps)
    then show ?thesis unfolding run by (simp add: None lbind_def lpure_def send_frames_def)
  next
    case (Some hdr)
    from ans Some obtain a x y where a: "bursts T t [[ACK], [CRC_REQUEST]] ?m a"
        "bursts T t (replicate n [ACK]) a x" "burst T t [ACK] x y" "bursts T t [[CRC_REQUEST], [ACK]] y v"
      by (auto simp: answers_def n_def bursts_append)
    let ?h = "wire_form t (block_zero (block_zero_payload hdr))"
    have "send_blocks cfg t CrcMode ?p 0 0 1 use_1k (line ?st a ?h) = (Inr (), line ?st x (?h @ written t (block_frames use_1k CrcMode 1 ?p)))"
      using blocks_acked [OF assms(1) st, of t use_1k CrcMode 1 0 ?p a x 0 ?h] a(2) pad(1) by (simp add: n_def)
    then have "tail (line ?st a ?h) = (Inr (), line ?st v (?h @ written t (block_frames use_1k CrcMode 1 ?p) @ wire_form t [EOT] @
        wire_form t (block_zero (replicate 128 0))))"
      unfolding tail_def k
      by (simp add: lbind_Inr Some eot_accepted [OF a(3) assms(1) st] batch_ended [OF a(4) assms(1) st] del: eot_loop.simps)
    moreover have "lbind (send_ymodem_block_zero cfg t hdr) (\<lambda>_ l.
          await_data_request t (now l + min (x_block_timeout cfg) DATA_PHASE_C_WAIT_SECS * 1000) 0 l) (line ?st ?m []) = (Inr (), line ?st a ?h)"
      using header_acked [OF a(1) assms(1) st, of hdr "[]"] by simp
    ultimately show ?thesis unfolding run by (simp add: Some lbind_Inr send_frames_def)
  qed
qed



section \<open>The properties of the engines\<close>

lemma make_block_length: "make_block h num mode block \<noteq> [] \<and> length (make_block h num mode block) \<le> length block + 5"
  by (simp add: make_block_def trailer_bytes_def Let_def split: TransferMode.splits)

lemma block_frames_short:
  "f \<in> set (block_frames use_1k mode num padded) \<Longrightarrow> f \<noteq> [] \<and> length f \<le> 1029"
proof (induction use_1k mode num padded rule: block_frames.induct)
  case (1 use_1k mode num padded)
  define n where "n = (if use_1k \<and> length padded \<ge> 1024 then 1024 else 128 :: nat)"
  show ?case
  proof (cases "f \<in> set (block_frames use_1k mode (num + 1) (drop n padded))")
    case True
    then have "padded \<noteq> []" using "1.prems" by auto
    from "1.IH" [OF this refl refl] True show ?thesis by (simp add: n_def)
  next
    case False
    with "1.prems" obtain h where "f = make_block h num mode (take n padded)"
      by (auto simp: block_frames.simps [of use_1k mode num padded] n_def Let_def split: if_splits)
    with make_block_length [of h num mode "take n padded"] show ?thesis
      by (auto simp: n_def split: if_splits)
  qed
qed

lemma send_frames_short:
  assumes "announces header data"
  shows "list_all (\<lambda>f. f \<noteq> [] \<and> 2 * length f \<le> 3000) (send_frames data use_1k header)"
proof -
  have blocks: "list_all (\<lambda>f. f \<noteq> [] \<and> 2 * length f \<le> 3000) (block_frames use_1k CrcMode 1 p)" for p
    using block_frames_short by (fastforce simp: list_all_iff)
  have zero: "block_zero p \<noteq> [] \<and> 2 * length (block_zero p) \<le> 3000" if "length p = 128" for p
    using make_block_length [of SOH 0 CrcMode p] that by (simp add: block_zero_def)
  show ?thesis
    using blocks assms zero [of "replicate 128 0"] zero [OF payload_length]
    by (auto simp: send_frames_def announces_def Let_def split: option.splits)
qed

definition demo_xmodem :: xmodem_settings where
  "demo_xmodem = \<lparr>xkey_negotiation_timeout = None, xkey_block_timeout = None, xkey_max_retries = None, xkey_retry_interval = None\<rparr>"

lemma demo_xmodem_in_time: "x_in_time 3000 demo_xmodem" "x_max_retries demo_xmodem = 10"
  by (simp_all add: x_in_time_def demo_xmodem_def x_negotiation_timeout_def x_block_timeout_def x_max_retries_def
      x_retry_interval_def at_least_one_def)

definition demo_header :: YmodemHeader where
  "demo_header = \<lparr>yh_filename = [0x61], yh_size = 2, yh_modtime = Some 8, yh_mode = Some 420\<rparr>"

lemma demo_header_ok: "announces (Some demo_header) [0x41, 0x1A]"
  using radix_string_length [of 10 2 1] radix_string_length [of 8 8 2] radix_string_length [of 8 420 3]
  by (simp add: announces_def header_fits_def demo_header_def header_text_def ascii_valid ascii_def)

text \<open>A receiver's line: its first \<open>C\<close>, a pause, then one answer per millisecond.\<close>

definition answer_wire :: "byte list \<Rightarrow> wire" where
  "answer_wire as = \<lparr>clock = 1, feed = (300, RxByte (hd as)) # map (\<lambda>b. (1, RxByte b)) (wire_form True (tl as))\<rparr>"

lemma answer_wire_ok:
  assumes "as \<noteq> []" "hd as \<noteq> IAC"
  shows "quiet 250 (answer_wire as)" "\<exists>v. bursts 3000 True (map (\<lambda>b. [b]) as) (answer_wire as) v"
    "burst 3000 True [CRC_REQUEST] \<lparr>clock = 0, feed = (1, RxByte CRC_REQUEST) # feed (answer_wire as)\<rparr> (answer_wire as)"
proof -
  obtain a bs where a: "as = a # bs" "a \<noteq> IAC" using assms by (cases as) auto
  show "quiet 250 (answer_wire as)" by (simp add: quiet_def answer_wire_def)
  have "wire_form True [b] = [b]" if "b \<noteq> IAC" for b using that by (simp add: wire_form_Cons)
  note one = this [OF a(2)] this [of CRC_REQUEST]
  have "burst 3000 True [a] (answer_wire as) (paced 301 (wire_form True bs))"
    unfolding burst_def one(1) by (simp add: a answer_wire_def paced_def)
  moreover have "written True (map (\<lambda>b. [b]) bs) = wire_form True bs" by (simp add: written_def)
  then have "\<exists>v. bursts 3000 True (map (\<lambda>b. [b]) bs) (paced 301 (wire_form True bs)) v"
    using bursts_paced [of 3000 "map (\<lambda>b. [b]) bs" True 301] by (auto simp: list_all_iff)
  ultimately show "\<exists>v. bursts 3000 True (map (\<lambda>b. [b]) as) (answer_wire as) v" by (auto simp: a)
  show "burst 3000 True [CRC_REQUEST] \<lparr>clock = 0, feed = (1, RxByte CRC_REQUEST) # feed (answer_wire as)\<rparr> (answer_wire as)"
    unfolding burst_def by (simp add: one(2) answer_wire_def)
qed

text \<open>Property C3: two gateways transfer a file. When every block and every answer of the one reaches the
  other within the timeouts, a YMODEM receiver returns exactly the sender's bytes, name and metadata, a
  plain XMODEM receiver the bytes up to trailing SUBs; the sender succeeds; and each side has written
  exactly what the other one read.\<close>

theorem xmodem_gateways_transfer:
  assumes "x_in_time T scfg" "x_in_time T rcfg" "length data \<le> MAX_FILE_SIZE" "announces header data"
    and "bursts T t (send_frames data use_1k header) wr wr'"
    and "burst T t [CRC_REQUEST] ws m" "quiet 250 m" "bursts T t (map (\<lambda>b. [b]) (answers data use_1k header)) m ws'"
  shows "\<exists>lr ls.
    xmodem_receive_batch_keeping rcfg t pr wr \<lparr>sent = [], broken = None\<rparr> =
      (\<lparr>br_files = [x_received data header], br_error = None\<rparr>, lr) \<and>
    xmodem_send scfg t ps data use_1k header ws \<lparr>sent = [], broken = None\<rparr> = (Inr (), ls) \<and>
    sent (outw ls) = written t (send_frames data use_1k header) \<and>
    sent (outw lr) = wire_form t (CRC_REQUEST # answers data use_1k header)"
  using xmodem_gateway_receives [OF assms(2-5), of pr] xmodem_gateway_sends [OF assms(1,3,6-8), of ps] by blast

theorem xmodem_gateways_transfer_witness:
  "\<exists>wr ws lr ls.
    xmodem_receive_batch_keeping demo_xmodem True False wr \<lparr>sent = [], broken = None\<rparr> =
      (\<lparr>br_files = [\<lparr>xf_filename = Some [0x61], xf_data = [0x41, 0x1A],
         xf_meta = Some \<lparr>ym_size = Some 2, ym_modtime = Some 8, ym_mode = Some 420\<rparr>\<rparr>], br_error = None\<rparr>, lr) \<and>
    xmodem_send demo_xmodem True False [0x41, 0x1A] False (Some demo_header) ws \<lparr>sent = [], broken = None\<rparr> = (Inr (), ls) \<and>
    sent (outw lr) = wire_form True (CRC_REQUEST # answers [0x41, 0x1A] False (Some demo_header))"
proof -
  let ?data = "[0x41, 0x1A] :: byte list" and ?h = "Some demo_header"
  let ?as = "answers ?data False ?h"
  have as: "?as \<noteq> []" "hd ?as \<noteq> IAC" by (simp_all add: answers_def Let_def)
  from answer_wire_ok(2) [OF as] obtain v where v: "bursts 3000 True (map (\<lambda>b. [b]) ?as) (answer_wire ?as) v" by blast
  have "length ?data \<le> MAX_FILE_SIZE" by (simp add: MAX_FILE_SIZE_def)
  from xmodem_gateways_transfer [OF demo_xmodem_in_time(1) demo_xmodem_in_time(1) this demo_header_ok
      bursts_paced [OF send_frames_short [OF demo_header_ok], where t = True and c = 0] answer_wire_ok(3,1) [OF as] v, of False False]
  show ?thesis by (auto simp: x_received_def demo_header_def header_meta_def nonzero_def)
qed

end
