(* ===== verification/Xmodem_Recovery.thy ===== *)
theory Xmodem_Recovery
  imports Xmodem_Correct
begin

text \<open>
  An XMODEM file over a bad line: it arrives intact through damaged and repeated blocks and ends of
  file that are only noise.
\<close>

section \<open>A file over a bad line\<close>

text \<open>
  What a conforming sender may put on the line for the bytes \<open>rest\<close> when block \<open>num\<close> is next and \<open>n\<close>
  blocks in a row have gone wrong: a block that arrives; one with a damaged byte, after which the
  sender waits for the answer; one of the last two blocks again; an end of file that is line noise,
  whose refusal makes the sender repeat its block; and the end of file, repeated when refused. A
  frame comes with whether the line is quiet after it.
\<close>

inductive bad_blocks :: "nat \<Rightarrow> TransferMode \<Rightarrow> nat \<Rightarrow> byte \<Rightarrow> byte list \<Rightarrow> (bool \<times> byte list) list \<Rightarrow> bool" for m mode where
  finished: "bad_blocks m mode n num [] [(False, [EOT]), (False, [EOT])]"
| arrives: "block_header_ok h data \<Longrightarrow> bad_blocks m mode 0 (num + 1) rest fs \<Longrightarrow>
    bad_blocks m mode n num (data @ rest) ((False, make_block h num mode data) # fs)"
| damaged: "n < m \<Longrightarrow> block_header_ok h data \<Longrightarrow> i < length data \<Longrightarrow> b \<noteq> data ! i \<Longrightarrow>
    bad_blocks m mode (n + 1) num rest fs \<Longrightarrow>
    bad_blocks m mode n num rest ((True, [h, num, NOT num] @ data[i := b] @ trailer_bytes mode data) # fs)"
| repeated: "block_header_ok h data \<Longrightarrow> k \<in> {1, 2} \<Longrightarrow> bad_blocks m mode n num rest fs \<Longrightarrow>
    bad_blocks m mode n num rest ((False, make_block h (num - k) mode data) # fs)"
| noise: "block_header_ok h data \<Longrightarrow> bad_blocks m mode 0 (num + 1) rest fs \<Longrightarrow>
    bad_blocks m mode n num (data @ rest) ((False, [EOT]) # (False, make_block h num mode data) # fs)"

fun spaced :: "nat \<Rightarrow> bool \<Rightarrow> (bool \<times> byte list) list \<Rightarrow> wire \<Rightarrow> wire \<Rightarrow> bool" where
  "spaced T t [] w w' \<longleftrightarrow> w' = w"
| "spaced T t ((q, f) # fs) w w' \<longleftrightarrow> (\<exists>v. burst T t f w v \<and> (q \<longrightarrow> quiet 1000 v) \<and> spaced T t fs v w')"

lemma bad_blocks_nonempty: "bad_blocks m mode n num rest fs \<Longrightarrow> \<exists>f fs'. fs = f # fs'"
  by (induction rule: bad_blocks.induct) auto

lemma spaced_delayed: "spaced T t (f # fs) w v \<Longrightarrow> quiet k w \<Longrightarrow> spaced T t (f # fs) (delayed k w) v"
  by (cases f) (auto intro: burst_delayed)

definition expecting :: "xm_state \<Rightarrow> byte \<Rightarrow> TransferMode \<Rightarrow> byte list \<Rightarrow> nat \<Rightarrow> bool" where
  "expecting s num mode have n \<longleftrightarrow> xs_place s = InFile \<and> xs_expected s = num \<and> xs_mode s = mode \<and> xs_data s = have \<and>
     xs_errors s = n \<and> \<not> xs_ymodem s \<and> \<not> xs_eot_naked s \<and> xs_files s = [] \<and> xs_meta s = None \<and> xs_filename s = None"

text \<open>What the main loop reads as the body of a block, on the healthy part of the line.\<close>

lemma block_step:
  assumes "burst T t ([h, num, NOT num] @ body) w v" "x_in_time T cfg" "calm st" "h = SOH \<or> h = STX" "xs_place s = InFile"
    and "\<And>m dl. steady 200 (wire_form t body) m v \<Longrightarrow> clock v \<le> dl \<Longrightarrow>
      receive_block_body dl t num (NOT num) (xs_expected s) (xs_mode s) (block_size_of h) False st m = (r, st, v)"
  shows "\<exists>m. receive_step cfg t s (line st w out) = take_data_block cfg t (block_size_of h) (s\<lparr>xs_short_cancel := False\<rparr>) (line st m out) \<and>
    on_reader (receive_block (clock m + BLOCK_BODY_TIMEOUT_SECS * 1000) t (xs_expected s) (xs_mode s) (block_size_of h)) (line st m out) =
      (r, line st v out)"
proof -
  have T: "T \<le> x_block_timeout cfg * 1000" "T \<le> 60000" using assms(2) by (simp_all add: x_in_time_def)
  have st: "pushback st = None" using assms(3) by (simp add: calm_def)
  have "burst T t (h # [num, NOT num] @ body) w v" using assms(1) by simp
  then obtain m where m: "byte_within (x_block_timeout cfg * 1000) t (line st w out) = (Ok h, line st m out)"
      "steady 200 (wire_form t ([num, NOT num] @ body)) m v" "clock v \<le> clock m + T"
    using byte_within_line [of T t h _ w v st "x_block_timeout cfg * 1000" out] assms(3) T by blast
  define dl where "dl = clock m + BLOCK_BODY_TIMEOUT_SECS * 1000"
  have dl: "clock v \<le> dl" using m(3) T(2) by (simp add: dl_def BLOCK_BODY_TIMEOUT_SECS_def)
  from m(2) dl have "steady 200 (wire_form t (num # NOT num # body)) m v \<and> clock v \<le> dl" by simp
  then obtain a where a: "xget dl t st m = (Inr num, st, a)" "steady 200 (wire_form t (NOT num # body)) a v \<and> clock v \<le> dl"
    using st by (rule xmodem_bytes.get_first)
  from a(2) st obtain b where b: "xget dl t st a = (Inr (NOT num), st, b)" "steady 200 (wire_form t body) b v \<and> clock v \<le> dl"
    by (rule xmodem_bytes.get_first)
  from a(1) b assms(6) [of b dl]
  have "receive_block dl t (xs_expected s) (xs_mode s) (block_size_of h) st m = (r, st, v)"
    by (simp add: receive_block_def rbind_def)
  then have "on_reader (receive_block dl t (xs_expected s) (xs_mode s) (block_size_of h)) (line st m out) = (r, line st v out)"
    by (simp add: on_reader_def line_def)
  moreover have "h \<noteq> CAN" using assms(4) by auto
  then have "receive_step cfg t s (line st w out) = take_data_block cfg t (block_size_of h) (s\<lparr>xs_short_cancel := False\<rparr>) (line st m out)"
    using m(1) assms(3-5) by (auto simp: receive_step_def in_file_step_def take_byte_def Let_def can_abort_line)
  ultimately show ?thesis by (intro exI [of _ m]) (simp add: dl_def)
qed

text \<open>A damaged block: the receiver waits for silence and asks again.\<close>

lemma purge_quiet:
  assumes "quiet 1000 w" "calm st"
  shows "purge_line t (line st w out) = (Inr False, line st (delayed 1000 w) out)"
proof -
  from read_nothing [OF assms(1), of st t] assms(2)
  have "byte_within 1000 t (line st w out) = (Elapsed, line st (delayed 1000 w) out)"
    by (simp add: byte_within_def byte_by_def on_reader_def calm_def line_def)
  then have "purge_loop (Suc 2057) (clock w + 60 * 1000) t 0 (line st w out) = (Inr False, line st (delayed 1000 w) out)"
    by (simp only: purge_loop.simps) simp
  then show ?thesis by (simp add: purge_line_def PURGE_MAX_BYTES_def)
qed

lemma damaged_refused:
  assumes "burst T t ([h, num, NOT num] @ data[i := b] @ trailer_bytes mode data) w v" "quiet 1000 v" "x_in_time T cfg" "calm st"
    and "block_header_ok h data" "i < length data" "b \<noteq> data ! i" "expecting s num mode have n" "n < x_max_retries cfg"
  shows "\<exists>s'. expecting s' num mode have (n + 1) \<and>
    receive_batch_loop cfg t s (line st w out) = receive_batch_loop cfg t s' (line st (delayed 1000 v) (out @ wire_form t [NAK]))"
proof -
  note h = block_header_size [OF assms(5)]
  have s: "xs_place s = InFile" "xs_expected s = num" "xs_mode s = mode" "xs_errors s = n"
    using assms(8) by (simp_all add: expecting_def)
  have st: "pushback st = None" using assms(4) by (simp add: calm_def)
  have "receive_block_body dl t num (NOT num) (xs_expected s) (xs_mode s) (block_size_of h) False st m = (Inl BCheck, st, v)"
    if "steady 200 (wire_form t (data[i := b] @ trailer_bytes mode data)) m v" "clock v \<le> dl" for m dl
    using damaged_body [OF that st assms(6,7)] h s by simp
  then obtain m where m: "receive_step cfg t s (line st w out) = take_data_block cfg t (block_size_of h) (s\<lparr>xs_short_cancel := False\<rparr>) (line st m out)"
      "on_reader (receive_block (clock m + BLOCK_BODY_TIMEOUT_SECS * 1000) t (xs_expected s) (xs_mode s) (block_size_of h)) (line st m out) =
        (Inl BCheck, line st v out)"
    using block_step [OF assms(1,3,4) _ s(1), of "Inl BCheck"] h by blast
  let ?s = "s\<lparr>xs_short_cancel := False, xs_errors := n + 1\<rparr>"
  have "receive_step cfg t s (line st w out) = (Inr (Inl ?s), line st (delayed 1000 v) (out @ wire_form t [NAK]))"
    unfolding m(1) using m(2) assms(9) s(4)
    by (simp add: take_data_block_def block_failed_def lbind_def lpure_def purge_quiet [OF assms(2,4)] raw_write_line)
  then have "receive_batch_loop cfg t s (line st w out) = receive_batch_loop cfg t ?s (line st (delayed 1000 v) (out @ wire_form t [NAK]))"
    by (rule receive_on)
  moreover have "expecting ?s num mode have (n + 1)" using assms(8) by (simp add: expecting_def)
  ultimately show ?thesis by blast
qed

text \<open>One of the last two blocks again: acknowledged, its data ignored.\<close>

lemma repeated_body:
  assumes "steady 200 (wire_form t (data @ trailer_bytes mode data)) w v" "clock v \<le> dl" "pushback st = None"
    and "length data = sz" "num = expected - 1 \<or> num = expected - 2"
  shows "receive_block_body dl t num (NOT num) expected mode sz False st w = (Inl BDuplicate, st, v)"
proof -
  from xmodem_bytes.times_get [of t data "trailer_bytes mode data" w v dl st] assms obtain m where
    m: "rtimes sz (xget dl t) st w = (Inr data, st, m)" "steady 200 (wire_form t (trailer_bytes mode data)) m v"
    by auto
  from trailer_read [OF m(2) assms(2,3)] m(1) assms(5) show ?thesis
    by (simp add: receive_block_body_def rbind_def rfail_def)
qed

lemma repeat_acknowledged:
  assumes "burst T t (make_block h (num - k) mode data) w v" "x_in_time T cfg" "calm st"
    and "block_header_ok h data" "k \<in> {1, 2}" "expecting s num mode have n"
  shows "\<exists>s'. expecting s' num mode have n \<and>
    receive_batch_loop cfg t s (line st w out) = receive_batch_loop cfg t s' (line st v (out @ wire_form t [ACK]))"
proof -
  note h = block_header_size [OF assms(4)]
  have s: "xs_place s = InFile" "xs_expected s = num" "xs_mode s = mode" using assms(6) by (simp_all add: expecting_def)
  have st: "pushback st = None" using assms(3) by (simp add: calm_def)
  have wire: "burst T t ([h, num - k, NOT (num - k)] @ data @ trailer_bytes mode data) w v"
    using assms(1) by (simp add: make_block_def)
  have "receive_block_body dl t (num - k) (NOT (num - k)) (xs_expected s) (xs_mode s) (block_size_of h) False st m = (Inl BDuplicate, st, v)"
    if "steady 200 (wire_form t (data @ trailer_bytes mode data)) m v" "clock v \<le> dl" for m dl
    using repeated_body [OF that st] h s assms(5) by auto
  then obtain m where m: "receive_step cfg t s (line st w out) = take_data_block cfg t (block_size_of h) (s\<lparr>xs_short_cancel := False\<rparr>) (line st m out)"
      "on_reader (receive_block (clock m + BLOCK_BODY_TIMEOUT_SECS * 1000) t (xs_expected s) (xs_mode s) (block_size_of h)) (line st m out) =
        (Inl BDuplicate, line st v out)"
    using block_step [OF wire assms(2,3) _ s(1), of "Inl BDuplicate"] h by blast
  let ?s = "s\<lparr>xs_short_cancel := False, xs_awaiting := False\<rparr>"
  have "receive_step cfg t s (line st w out) = (Inr (Inl ?s), line st v (out @ wire_form t [ACK]))"
    unfolding m(1) using m(2) by (simp add: take_data_block_def lbind_def lpure_def raw_write_line)
  then have "receive_batch_loop cfg t s (line st w out) = receive_batch_loop cfg t ?s (line st v (out @ wire_form t [ACK]))"
    by (rule receive_on)
  moreover have "expecting ?s num mode have n" using assms(6) by (simp add: expecting_def)
  ultimately show ?thesis by blast
qed


lemma bad_blocks_received:
  assumes "x_in_time T cfg" "calm st"
  shows "bad_blocks (x_max_retries cfg) mode n num rest fs \<Longrightarrow> spaced T t fs w v \<Longrightarrow> expecting s num mode sofar n \<Longrightarrow>
    length sofar + length rest \<le> MAX_FILE_SIZE \<Longrightarrow>
    fst (receive_batch_loop cfg t s (line st w out)) = \<lparr>br_files =
      [\<lparr>xf_filename = None, xf_data = finalize_received_file (sofar @ rest) None, xf_meta = None\<rparr>], br_error = None\<rparr>"
proof (induction arbitrary: s w sofar out rule: bad_blocks.induct)
  case (finished n num)
  then have "bursts T t [[EOT], [EOT]] w v" by auto
  from plain_end [OF this assms, of s] finished(2) show ?case by (simp add: expecting_def)
next
  case (arrives h data num rest fs n)
  from arrives.prems(1) obtain x where x: "burst T t (make_block h num mode data) w x" "spaced T t fs x v" by auto
  have s: "xs_place s = InFile" "xs_expected s = num" "xs_mode s = mode" "xs_data s = sofar"
    using arrives.prems(2) by (simp_all add: expecting_def)
  have "receive_batch_loop cfg t s (line st w out) =
      receive_batch_loop cfg t (with_data s data (xs_expected s + 1)) (line st x (out @ wire_form t [ACK]))"
    using x(1) s arrives.prems(3) by (intro block_taken [OF _ assms arrives.hyps(1)]) simp_all
  moreover have "expecting (with_data s data (xs_expected s + 1)) (num + 1) mode (sofar @ data) 0"
    using arrives.prems(2) by (simp add: expecting_def with_data_def)
  ultimately show ?case using arrives.IH [OF x(2)] arrives.prems(3) by simp
next
  case (damaged n h data i b num rest fs)
  from damaged.prems(1) obtain x where x: "burst T t ([h, num, NOT num] @ data[i := b] @ trailer_bytes mode data) w x"
      "quiet 1000 x" "spaced T t fs x v" by auto
  from bad_blocks_nonempty [OF damaged.hyps(5)] x(2,3) have "spaced T t fs (delayed 1000 x) v"
    by (auto intro: spaced_delayed simp del: spaced.simps)
  moreover from damaged_refused [OF x(1,2) assms damaged.hyps(2-4) damaged.prems(2) damaged.hyps(1), of out] obtain s'
    where "expecting s' num mode sofar (n + 1)"
      "receive_batch_loop cfg t s (line st w out) = receive_batch_loop cfg t s' (line st (delayed 1000 x) (out @ wire_form t [NAK]))" by blast
  ultimately show ?case using damaged.IH damaged.prems(3) by simp
next
  case (repeated h data k n num rest fs)
  from repeated.prems(1) obtain x where x: "burst T t (make_block h (num - k) mode data) w x" "spaced T t fs x v" by auto
  from repeat_acknowledged [OF x(1) assms repeated.hyps(1) _ repeated.prems(2), of out] repeated.hyps(2) obtain s'
    where "expecting s' num mode sofar n"
      "receive_batch_loop cfg t s (line st w out) = receive_batch_loop cfg t s' (line st x (out @ wire_form t [ACK]))" by auto
  with repeated.IH [OF x(2)] repeated.prems(3) show ?case by simp
next
  case (noise h data num rest fs n)
  from noise.prems(1) obtain x y where x: "burst T t [EOT] w x" "burst T t (make_block h num mode data) x y" "spaced T t fs y v" by auto
  have s: "xs_place s = InFile" "xs_expected s = num" "xs_mode s = mode" "xs_data s = sofar" "\<not> xs_ymodem s" "\<not> xs_eot_naked s"
    using noise.prems(2) by (simp_all add: expecting_def)
  define s1 where "s1 = s\<lparr>xs_short_cancel := False, xs_eot_naked := True, xs_awaiting := True\<rparr>"
  have "receive_batch_loop cfg t s (line st w out) = receive_batch_loop cfg t s1 (line st x (out @ wire_form t [NAK]))"
    using take_byte_line [OF x(1) assms s(1) refl, of out] s
    by (intro receive_on) (simp add: take_eot_def lbind_def lpure_def raw_write_line s1_def)
  also have "\<dots> = receive_batch_loop cfg t (with_data s1 data (xs_expected s1 + 1)) (line st y ((out @ wire_form t [NAK]) @ wire_form t [ACK]))"
    using x(2) s noise.prems(3) by (intro block_taken [OF _ assms noise.hyps(1)]) (simp_all add: s1_def)
  finally have run: "receive_batch_loop cfg t s (line st w out) = \<dots>" .
  have "expecting (with_data s1 data (xs_expected s1 + 1)) (num + 1) mode (sofar @ data) 0"
    using noise.prems(2) by (simp add: expecting_def with_data_def s1_def)
  with run noise.IH [OF x(3)] noise.prems(3) show ?case by simp
qed


text \<open>A line on which every frame comes after two seconds of silence, its bytes a millisecond apart.\<close>

fun spread :: "bool \<Rightarrow> byte list list \<Rightarrow> (nat \<times> inp) list" where
  "spread t [] = []"
| "spread t (f # fs) = (case wire_form t f of [] \<Rightarrow> []
     | b # r \<Rightarrow> (2000, RxByte b) # map (\<lambda>b. (1, RxByte b)) r) @ spread t fs"

lemma steady_at_once: "0 < g \<Longrightarrow>
  steady g bs \<lparr>clock = c, feed = map (\<lambda>b. (1, RxByte b)) bs @ r\<rparr> \<lparr>clock = c + length bs, feed = r\<rparr>"
  by (induction bs arbitrary: c) (simp_all, metis add_Suc)

lemma burst_spread:
  assumes "f \<noteq> []" "2 * length f \<le> 1000"
  shows "burst 3000 t f \<lparr>clock = c, feed = spread t (f # fs)\<rparr> \<lparr>clock = c + 1999 + length (wire_form t f), feed = spread t fs\<rparr>"
proof -
  obtain b r where b: "wire_form t f = b # r"
    using assms(1) by (cases "wire_form t f"; cases f) (auto simp: wire_form_Cons split: if_splits)
  have "length (wire_form t f) \<le> 1000" using wire_form_length [of t f] assms(2) by simp
  with b steady_at_once [of 200 r "c + 2000" "spread t fs"] show ?thesis by (simp add: burst_def add_ac)
qed

lemma spaced_spread:
  "list_all (\<lambda>(q, f). f \<noteq> [] \<and> 2 * length f \<le> 1000) fs \<Longrightarrow> fs \<noteq> [] \<Longrightarrow> \<not> fst (last fs) \<Longrightarrow>
   \<exists>v. spaced 3000 t fs \<lparr>clock = c, feed = spread t (map snd fs)\<rparr> v"
proof (induction fs arbitrary: c)
  case (Cons x fs)
  obtain q f where x: "x = (q, f)" by (cases x)
  let ?v = "\<lparr>clock = c + 1999 + length (wire_form t f), feed = spread t (map snd fs)\<rparr>"
  have burst: "burst 3000 t f \<lparr>clock = c, feed = spread t (f # map snd fs)\<rparr> ?v"
    using Cons.prems(1) x by (intro burst_spread) auto
  show ?case
  proof (cases fs)
    case Nil
    with Cons.prems(3) x burst show ?thesis by auto
  next
    case (Cons y ys)
    then have "\<exists>v. spaced 3000 t fs ?v v" using Cons.IH Cons.prems by simp
    moreover have "quiet 1000 ?v"
    proof -
      obtain b r where "wire_form t (snd y) = b # r"
        using Cons Cons.prems(1) by (cases "wire_form t (snd y)"; cases "snd y") (auto simp: wire_form_Cons split: if_splits)
      then show ?thesis by (simp add: quiet_def Cons)
    qed
    ultimately show ?thesis using burst by (auto simp: x simp del: spread.simps)
  qed
qed simp

text \<open>Property C6: an XMODEM receiver gets the whole file over a bad line. Through damaged blocks that the
  sender repeats, as many in a row as the retry limit allows, blocks that come again, and ends of
  file that are only line noise, it returns without an error one file: the bytes of the blocks
  that were sent, in order and once each, up to their trailing SUBs.\<close>

theorem xmodem_recovers:
  assumes "x_in_time T cfg" "block_header_ok h d" "length d + length rest \<le> MAX_FILE_SIZE"
    and "bad_blocks (x_max_retries cfg) CrcMode 0 2 rest fs"
    and "burst T t (make_block h 1 CrcMode d) w m" "spaced T t fs m v"
  shows "fst (xmodem_receive_batch_keeping cfg t p w \<lparr>sent = [], broken = None\<rparr>) = \<lparr>br_files =
    [\<lparr>xf_filename = None, xf_data = trim_end_matches SUB (d @ rest), xf_meta = None\<rparr>], br_error = None\<rparr>"
proof -
  let ?st = default_ReadState
  have st: "calm ?st" by (simp add: default_ReadState_def calm_def)
  have l0: "\<lparr>rst = ?st, inw = w, outw = \<lparr>sent = [], broken = None\<rparr>\<rparr> = line ?st w []" by (simp add: line_def)
  have "expecting (in_file d 2 CrcMode) 2 CrcMode d 0" by (simp add: expecting_def in_file_def)
  from bad_blocks_received [OF assms(1) st assms(4,6) this assms(3)] data_opened [OF assms(5,1) st assms(2), of p "[]"]
  show ?thesis
    unfolding xmodem_receive_batch_keeping_def Let_def l0 by (simp add: finalize_received_file_def)
qed

definition demo_block :: "byte list" where "demo_block = replicate 128 0x41"

definition demo_noise :: "(bool \<times> byte list) list" where
  "demo_noise = [(True, [SOH, 2, NOT 2] @ demo_block[7 := 0x42] @ trailer_bytes CrcMode demo_block),
     (False, make_block SOH 1 CrcMode demo_block), (False, [EOT]), (False, make_block SOH 2 CrcMode demo_block),
     (False, [EOT]), (False, [EOT])]"

theorem xmodem_recovers_witness:
  "\<exists>w. fst (xmodem_receive_batch_keeping demo_xmodem True False w \<lparr>sent = [], broken = None\<rparr>) = \<lparr>br_files =
    [\<lparr>xf_filename = None, xf_data = trim_end_matches SUB (demo_block @ demo_block), xf_meta = None\<rparr>], br_error = None\<rparr>"
proof -
  have ok: "block_header_ok SOH demo_block" by (simp add: block_header_ok_def demo_block_def)
  have last: "bad_blocks 10 CrcMode 0 3 [] [(False, [EOT]), (False, [EOT])]" by (rule finished)
  have "bad_blocks 10 CrcMode 1 2 (demo_block @ []) ((False, [EOT]) # (False, make_block SOH 2 CrcMode demo_block) # [(False, [EOT]), (False, [EOT])])"
    using last by (intro noise ok) simp
  then have "bad_blocks 10 CrcMode 1 2 demo_block ((False, make_block SOH (2 - 1) CrcMode demo_block) #
      (False, [EOT]) # (False, make_block SOH 2 CrcMode demo_block) # [(False, [EOT]), (False, [EOT])])"
    by (intro repeated ok) simp_all
  then have bad: "bad_blocks (x_max_retries demo_xmodem) CrcMode 0 2 demo_block demo_noise"
    unfolding demo_noise_def demo_xmodem_in_time(2)
    by (intro damaged [OF _ ok]) (simp_all add: demo_block_def)
  let ?fs = "(False, make_block SOH 1 CrcMode demo_block) # demo_noise"
  have "length (make_block SOH n CrcMode demo_block) \<le> 133" "make_block SOH n CrcMode demo_block \<noteq> []" for n
    using make_block_length [of SOH n CrcMode demo_block] by (simp_all add: demo_block_def)
  then have short: "list_all (\<lambda>(q, f). f \<noteq> [] \<and> 2 * length f \<le> 1000) ?fs"
    by (simp add: demo_noise_def order_trans [of _ 133 500] trailer_bytes_def Let_def) (simp add: demo_block_def)
  have "?fs \<noteq> []" "\<not> fst (last ?fs)" by (simp_all add: demo_noise_def)
  from spaced_spread [OF short this] obtain v where "spaced 3000 True ?fs \<lparr>clock = 0, feed = spread True (map snd ?fs)\<rparr> v"
    by blast
  then obtain m where m: "burst 3000 True (make_block SOH 1 CrcMode demo_block) \<lparr>clock = 0, feed = spread True (map snd ?fs)\<rparr> m"
      "spaced 3000 True demo_noise m v" by (simp only: spaced.simps(2)) blast
  have "length demo_block + length demo_block \<le> MAX_FILE_SIZE" by (simp add: demo_block_def MAX_FILE_SIZE_def)
  from xmodem_recovers [OF demo_xmodem_in_time(1) ok this bad m, of False] show ?thesis by blast
qed

end
