(* ===== verification/Xmodem_Limits.thy ===== *)
theory Xmodem_Limits
  imports Xmodem_Recovery
begin

text \<open>
  What an XMODEM or YMODEM receiver can be made to return. A block is accepted exactly when the
  bytes read are the ones a sender writes for it; whatever the peer sends, a receipt holds at most
  the batch limit of files, every file is within the file limit and the size announced for it, and
  every name is text without a NUL.
\<close>

section \<open>What a receiver takes for a block\<close>

lemma rbind_assoc: "rbind (rbind m f) g = rbind m (\<lambda>x. rbind (f x) g)"
  by (simp add: fun_eq_iff rbind_def split: prod.splits sum.splits)

lemma rbind_rpure [simp]: "rbind (rpure x) f = f x" "rbind m rpure = m"
  by (simp_all add: fun_eq_iff rbind_def rpure_def split: prod.splits sum.splits)

lemma rtimes_add: "rtimes (m + n) g = rbind (rtimes m g) (\<lambda>xs. rbind (rtimes n g) (\<lambda>ys. rpure (xs @ ys)))"
  by (induction m) (simp_all add: rbind_assoc)

lemma trailer_length: "length (trailer_bytes mode data) = (case mode of Checksum \<Rightarrow> 1 | CrcMode \<Rightarrow> 2)"
  by (simp add: trailer_bytes_def Let_def split: TransferMode.splits)

lemma recv_crc_bytes: "recv_crc hi lo = c \<longleftrightarrow> hi = ucast (drop_bit 8 c) \<and> lo = ucast (c :: u16)"
proof
  assume "recv_crc hi lo = c"
  moreover have "ucast (drop_bit 8 (recv_crc hi lo)) = hi"
    by (rule bit_word_eqI) (auto simp: recv_crc_def bit_simps dest: bit_imp_le_length)
  moreover have "ucast (recv_crc hi lo) = lo"
    by (rule bit_word_eqI) (auto simp: recv_crc_def bit_simps)
  ultimately show "hi = ucast (drop_bit 8 c) \<and> lo = ucast c" by auto
qed simp

lemma trailer_holds_iff:
  "(\<exists>detected. read_trailer dl t False mode data st w = (Inr (True, detected), st', w')) \<longleftrightarrow>
   rtimes (length (trailer_bytes mode data)) (xget dl t) st w = (Inr (trailer_bytes mode data), st', w')"
proof (cases mode)
  case Checksum
  then show ?thesis
    by (cases "xget dl t st w") (auto simp: read_trailer_def trailer_bytes_def rbind_def rpure_def split: sum.splits)
next
  case CrcMode
  obtain x st1 w1 where x: "xget dl t st w = (x, st1, w1)" by (cases "xget dl t st w")
  obtain y st2 w2 where y: "xget dl t st1 w1 = (y, st2, w2)" by (cases "xget dl t st1 w1")
  from CrcMode x y show ?thesis
    by (cases x; cases y) (auto simp: read_trailer_def trailer_bytes_def rbind_def rpure_def Let_def numeral_2_eq_2 recv_crc_bytes)
qed

lemma trailer_plain: "read_trailer dl t False mode data st w = (Inr (valid, detected), st', w') \<Longrightarrow> detected = NoDetect"
  by (cases mode) (auto simp: read_trailer_def rpure_def elim!: rbind_InrE split: if_splits)

lemma body_accepted_iff:
  "receive_block_body dl t num cpl expected mode sz False st w = (Inr (data, e, m), st', w') \<longleftrightarrow>
   num = expected \<and> cpl = NOT num \<and> e = expected + 1 \<and> m = mode \<and> length data = sz \<and>
   rtimes (sz + length (trailer_bytes mode data)) (xget dl t) st w = (Inr (data @ trailer_bytes mode data), st', w')"
  (is "?run \<longleftrightarrow> ?ok")
proof
  assume ?run
  then obtain d st1 w1 valid det st2 w2 where d: "rtimes sz (xget dl t) st w = (Inr d, st1, w1)"
      and tr: "read_trailer dl t False mode d st1 w1 = (Inr (valid, det), st2, w2)"
      and rest: "(if cpl \<noteq> NOT num then rfail BComplement
       else if \<not> valid then rfail BCheck
       else if num = expected - 1 \<or> num = expected - 2 then rfail BDuplicate
       else if num \<noteq> expected then rfail BMismatch
       else commit det expected mode d) st2 w2 = (Inr (data, e, m), st', w')"
    unfolding receive_block_body_def by (auto elim!: rbind_InrE)
  from rest trailer_plain [OF tr] have ok: "cpl = NOT num" valid "num = expected" "data = d" "e = expected + 1" "m = mode"
      "st' = st2" "w' = w2"
    by (auto simp: commit_def split: if_splits)
  with tr have "\<exists>detected. read_trailer dl t False mode d st1 w1 = (Inr (True, detected), st2, w2)" by auto
  then have "rtimes (length (trailer_bytes mode d)) (xget dl t) st1 w1 = (Inr (trailer_bytes mode d), st2, w2)"
    unfolding trailer_holds_iff .
  with d ok rtimes_length [OF d] show ?ok by (simp add: rtimes_add rbind_def rpure_def)
next
  assume ok: ?ok
  then obtain d st1 w1 ys where d: "rtimes sz (xget dl t) st w = (Inr d, st1, w1)"
      "rtimes (length (trailer_bytes mode data)) (xget dl t) st1 w1 = (Inr ys, st', w')" "d @ ys = data @ trailer_bytes mode data"
    by (auto simp: rtimes_add elim!: rbind_InrE dest!: rpure_InrE)
  with rtimes_length [OF d(1)] ok have "d = data" "ys = trailer_bytes mode data" by auto
  with d(2) have "rtimes (length (trailer_bytes mode data)) (xget dl t) st1 w1 = (Inr (trailer_bytes mode data), st', w')" by simp
  then obtain det where "read_trailer dl t False mode data st1 w1 = (Inr (True, det), st', w')"
    unfolding trailer_holds_iff [symmetric] by blast
  with trailer_plain [OF this] d(1) ok \<open>d = data\<close> show ?run
    by (simp add: receive_block_body_def rbind_def commit_def)
qed

text \<open>Property C9: the receiver accepts a block, once its header byte is read, exactly when the bytes that
  follow are the ones a sender writes for the expected number, some data of the block's size and
  the trailer of the session; then it returns that data, expects the next number modulo 256 and keeps the trailer.
  Every other read is an error, a repetition or a mismatch.\<close>

theorem xmodem_accepts_what_senders_write:
  "receive_block dl t expected mode sz st w = (Inr (data, e, m), st', w') \<longleftrightarrow>
   length data = sz \<and> e = expected + 1 \<and> m = mode \<and>
   rtimes (length (tl (make_block h expected mode data))) (xget dl t) st w = (Inr (tl (make_block h expected mode data)), st', w')"
proof -
  obtain x st1 w1 where x: "xget dl t st w = (x, st1, w1)" by (cases "xget dl t st w")
  obtain y st2 w2 where y: "xget dl t st1 w1 = (y, st2, w2)" by (cases "xget dl t st1 w1")
  have "rtimes (length (tl (make_block h expected mode data))) (xget dl t) =
      rbind (xget dl t) (\<lambda>a. rbind (xget dl t) (\<lambda>b. rbind (rtimes (length data + length (trailer_bytes mode data)) (xget dl t)) (\<lambda>xs.
        rpure (a # b # xs))))"
    by (simp add: make_block_def rbind_assoc)
  with x y show ?thesis
    by (cases x; cases y) (auto simp: receive_block_def make_block_def rbind_def rpure_def body_accepted_iff split: prod.splits sum.splits)
qed


section \<open>What a receipt can hold\<close>

definition name_ok :: "str option \<Rightarrow> bool" where
  "name_ok name \<longleftrightarrow> (\<forall>n. name = Some n \<longrightarrow> utf8_valid n \<and> n \<noteq> [] \<and> 0 \<notin> set n)"

definition meta_ok :: "YmodemReceiveMeta option \<Rightarrow> bool" where
  "meta_ok meta \<longleftrightarrow> (\<forall>m. meta = Some m \<longrightarrow> (\<forall>n. ym_size m = Some n \<longrightarrow> n < 2 ^ 64) \<and>
     (\<forall>n. ym_modtime m = Some n \<longrightarrow> 0 < n \<and> n < 2 ^ 64) \<and> (\<forall>n. ym_mode m = Some n \<longrightarrow> n < 2 ^ 12))"

definition file_ok :: "XmodemReceivedFile \<Rightarrow> bool" where
  "file_ok f \<longleftrightarrow> length (xf_data f) \<le> MAX_FILE_SIZE \<and> name_ok (xf_filename f) \<and> meta_ok (xf_meta f) \<and>
     (case Option.bind (xf_meta f) ym_size of
        Some n \<Rightarrow> length (xf_data f) \<le> n
      | None \<Rightarrow> xf_data f = [] \<or> last (xf_data f) \<noteq> SUB)"

definition xm_ok :: "xm_state \<Rightarrow> bool" where
  "xm_ok s \<longleftrightarrow> list_all file_ok (xs_files s) \<and> length (xs_files s) \<le> XMODEM_MAX_BATCH_FILES \<and>
     (xs_place s = InFile \<longrightarrow> length (xs_files s) < XMODEM_MAX_BATCH_FILES) \<and>
     length (xs_data s) \<le> MAX_FILE_SIZE \<and> name_ok (xs_filename s) \<and> meta_ok (xs_meta s)"

lemma trim_last: "trim_end_matches c xs = [] \<or> last (trim_end_matches c xs) \<noteq> c"
  by (cases "dropWhile (\<lambda>b. b = c) (rev xs)") (auto simp: trim_end_matches_def dest: dropWhile_eq_Cons_conv [THEN iffD1])

lemma trim_length: "length (trim_end_matches c xs) \<le> length xs"
  using length_dropWhile_le [of "\<lambda>b. b = c" "rev xs"] by (simp add: trim_end_matches_def)

lemma finalized_ok:
  assumes "length data \<le> MAX_FILE_SIZE" "name_ok name" "meta_ok meta"
  shows "file_ok \<lparr>xf_filename = name, xf_data = finalize_received_file data meta, xf_meta = meta\<rparr>"
proof (cases "Option.bind meta ym_size")
  case None
  then have "finalize_received_file data meta = trim_end_matches SUB data"
    by (simp add: finalize_received_file_def del: Option.bind_assoc)
  with None assms trim_length [of SUB data] trim_last [of SUB data] show ?thesis by (auto simp: file_ok_def)
next
  case (Some n)
  then have "finalize_received_file data meta = (if n \<le> length data then take n data else trim_end_matches SUB data)"
    by (simp add: finalize_received_file_def size_truncation_target_def del: Option.bind_assoc)
  with Some assms trim_length [of SUB data] show ?thesis by (auto simp: file_ok_def)
qed

lemma parse_uint_bound: "parse_uint r bound s = Some n \<Longrightarrow> n < bound"
  by (auto simp: parse_uint_def Let_def split: if_splits list.splits)

lemma nonzero_Some: "nonzero v = Some n \<longleftrightarrow> v = Some n \<and> n \<noteq> 0"
  by (auto simp: nonzero_def)

lemma parsed_meta_ok: "meta_ok (parse_ymodem_block_zero_payload payload)"
  by (auto simp: parse_ymodem_block_zero_payload_def meta_ok_def Let_def no_meta_def nonzero_Some bind_eq_Some_conv
      split: option.splits if_splits dest: parse_uint_bound)

lemma zero_body_ok:
  assumes "read_ymodem_block_zero_body dl t sz mode st w = (Inr (valid, terminator, name, meta), st', w')"
  shows "name_ok name" "meta_ok meta"
proof -
  have none: "name_ok None" "meta_ok None" by (simp_all add: name_ok_def meta_ok_def)
  have named: "name_ok (from_utf8 (takeWhile (\<lambda>b. b \<noteq> 0) xs))" if "takeWhile (\<lambda>b. b \<noteq> 0) xs \<noteq> []" for xs
    using that by (auto simp: name_ok_def from_utf8_def dest: set_takeWhileD split: if_splits)
  have "name_ok name \<and> meta_ok meta"
    using assms none named parsed_meta_ok
    by (fastforce simp: read_ymodem_block_zero_body_def Let_def elim!: rbind_InrE dest!: rpure_InrE split: if_splits)
  then show "name_ok name" "meta_ok meta" by simp_all
qed

lemma body_length:
  "receive_block_body dl t num cpl expected mode sz auto st w = (Inr (data, e, m), st', w') \<Longrightarrow> length data = sz"
  by (auto simp: receive_block_body_def commit_def elim!: rbind_InrE dest!: rtimes_length split: if_splits AutoDetect.splits option.splits)


lemma block_length: "receive_block dl t expected mode sz st w = (Inr (data, e, m), st', w') \<Longrightarrow> length data = sz"
  by (auto simp: receive_block_def elim!: rbind_InrE dest!: body_length)


section \<open>Every step keeps it so\<close>

definition files_ok :: "XmodemReceivedFile list \<Rightarrow> bool" where
  "files_ok fs \<longleftrightarrow> list_all file_ok fs \<and> length fs \<le> XMODEM_MAX_BATCH_FILES"

definition opened_ok :: "opened \<Rightarrow> bool" where
  "opened_ok r \<longleftrightarrow> (case r of Begin s \<Rightarrow> xm_ok s | Finished fs \<Rightarrow> files_ok fs)"

lemma none_ok [simp]: "name_ok None" "meta_ok None"
  by (simp_all add: name_ok_def meta_ok_def)

lemma files_ok_empty [simp]: "files_ok []"
  by (simp add: files_ok_def)

lemma in_file_ok: "length data \<le> MAX_FILE_SIZE \<Longrightarrow> xm_ok (in_file data num mode)"
  by (simp add: xm_ok_def in_file_def XMODEM_MAX_BATCH_FILES_def)

lemma small_block: "block_size_of h \<le> MAX_FILE_SIZE"
  by (simp add: block_size_of_def MAX_FILE_SIZE_def XMODEM_BLOCK_SIZE_def XMODEM_1K_BLOCK_SIZE_def)

lemma on_reader_InrE:
  assumes "on_reader m l = (Inr x, l')"
  obtains st w where "m (rst l) (inw l) = (Inr x, st, w)"
  using assms by (auto simp: on_reader_def split: prod.splits)

lemma block_zero_opened:
  assumes "first_block_zero t sz n l = (Inr (Inr r), l')"
  shows "opened_ok r"
proof -
  let ?m = "read_ymodem_block_zero_body (now l + BLOCK_BODY_TIMEOUT_SECS * 1000) t sz CrcMode"
  obtain x l1 where x: "on_reader ?m l = (x, l1)" by (cases "on_reader ?m l")
  show ?thesis
  proof (cases x)
    case (Inr y)
    obtain valid ends name meta where y: "y = (valid, ends, name, meta)" by (cases y)
    from x Inr y have "name_ok name" "meta_ok meta" by (auto elim!: on_reader_InrE dest: zero_body_ok)
    with assms x Inr y show ?thesis
      by (auto simp: first_block_zero_def lpure_def opened_ok_def xm_ok_def in_file_def XMODEM_MAX_BATCH_FILES_def
          elim!: lbind_InrE split: bool.splits)
  qed (use assms x in \<open>auto simp: first_block_zero_def lpure_def elim!: lbind_InrE\<close>)
qed

lemma data_block_opened:
  assumes "first_data_block t num cpl (block_size_of h) n l = (Inr (Inr r), l')"
  shows "opened_ok r"
proof -
  let ?m = "receive_block_body (now l + BLOCK_BODY_TIMEOUT_SECS * 1000) t num cpl 1 (ng_mode n) (block_size_of h) True"
  obtain x l1 where x: "on_reader ?m l = (x, l1)" by (cases "on_reader ?m l")
  show ?thesis
  proof (cases x)
    case (Inr y)
    obtain data e m where y: "y = (data, e, m)" by (cases y)
    from x Inr y have "length data \<le> MAX_FILE_SIZE" using small_block by (auto elim!: on_reader_InrE dest!: body_length)
    with assms x Inr y show ?thesis
      by (auto simp: first_data_block_def lpure_def opened_ok_def in_file_ok elim!: lbind_InrE)
  qed (use assms x in \<open>auto simp: first_data_block_def lpure_def opened_ok_def in_file_ok elim!: lbind_InrE\<close>)
qed

lemma negotiate_byte_opened:
  "negotiate_byte t b n l = (Inr (Inr r), l') \<Longrightarrow> opened_ok r"
  by (auto simp: negotiate_byte_def Let_def lpure_def opened_ok_def [of "Finished _"] files_ok_def file_ok_def XMODEM_MAX_BATCH_FILES_def
      elim!: lbind_InrE split: if_splits dest: block_zero_opened data_block_opened)

lemma negotiate_step_opened:
  "receive_negotiate_step cfg t p nd n l = (Inr (Inr r), l') \<Longrightarrow> opened_ok r"
  by (auto simp: receive_negotiate_step_def negotiate_read_def Let_def lpure_def
      elim!: lbind_InrE split: if_splits prod.splits outcome.splits bool.splits dest: negotiate_byte_opened)

lemma negotiate_opened_ok: "receive_negotiate cfg t p nd n l = (Inr r, l') \<Longrightarrow> opened_ok r"
proof (induction cfg t p nd n l arbitrary: r l' rule: receive_negotiate.induct)
  case (1 cfg t p nd n l)
  obtain x l1 where x: "receive_negotiate_step cfg t p nd n l = (x, l1)" by (cases "receive_negotiate_step cfg t p nd n l")
  show ?case
  proof (cases "\<exists>n'. x = Inr (Inl n')")
    case True
    with x "1.IH" [OF x [symmetric]] "1.prems" show ?thesis by (auto simp: receive_negotiate.simps [of cfg t p nd n])
  next
    case False
    with x "1.prems" negotiate_step_opened show ?thesis
      by (auto simp: receive_negotiate.simps [of cfg t p nd n] split: sum.splits)
  qed
qed

definition step_ok :: "xm_state + XmodemReceivedFile list \<Rightarrow> bool" where
  "step_ok r \<longleftrightarrow> (case r of Inl s \<Rightarrow> xm_ok s | Inr fs \<Rightarrow> files_ok fs)"

lemma block_failed_ok: "block_failed cfg t s l = (Inr r, l') \<Longrightarrow> xm_ok s \<Longrightarrow> step_ok r"
  by (auto simp: block_failed_def cancel_with_def lpure_def lfail_def step_ok_def xm_ok_def elim!: lbind_InrE split: if_splits)

lemma take_block_ok:
  assumes "take_data_block cfg t sz s l = (Inr r, l')" "xm_ok s"
  shows "step_ok r"
proof -
  let ?m = "receive_block (now l + BLOCK_BODY_TIMEOUT_SECS * 1000) t (xs_expected s) (xs_mode s) sz"
  obtain x l1 where x: "on_reader ?m l = (x, l1)" by (cases "on_reader ?m l")
  from assms x show ?thesis
    by (auto simp: take_data_block_def cancel_with_def lpure_def lfail_def step_ok_def [of "Inl _"] xm_ok_def [of "_\<lparr>xs_awaiting := _\<rparr>"]
        xm_ok_def [of "_\<lparr>xs_data := _, xs_expected := _, xs_mode := _, xs_errors := _, xs_eot_naked := _, xs_awaiting := _\<rparr>"]
        elim!: lbind_InrE split: sum.splits if_splits block_error.splits dest: block_failed_ok)
      (auto simp: xm_ok_def)
qed

lemma take_eot_ok: "take_eot t s l = (Inr r, l') \<Longrightarrow> xm_ok s \<Longrightarrow> xs_place s = InFile \<Longrightarrow> step_ok r"
  by (auto simp: take_eot_def Let_def lpure_def step_ok_def xm_ok_def files_ok_def finalized_ok elim!: lbind_InrE split: if_splits)


lemma take_byte_ok: "take_byte cfg t b s l = (Inr r, l') \<Longrightarrow> xm_ok s \<Longrightarrow> xs_place s = InFile \<Longrightarrow> step_ok r"
  by (auto simp: take_byte_def Let_def step_ok_def [of "Inl _"] xm_ok_def split: bool.splits if_splits prod.splits
      elim!: take_block_ok take_eot_ok block_failed_ok)

lemma in_file_step_ok: "in_file_step cfg t s l = (Inr r, l') \<Longrightarrow> xm_ok s \<Longrightarrow> xs_place s = InFile \<Longrightarrow> step_ok r"
  by (auto simp: in_file_step_def cancel_with_def lpure_def lfail_def step_ok_def [of "Inl _"] xm_ok_def
      elim!: lbind_InrE take_byte_ok split: prod.splits outcome.splits if_splits)

lemma inter_file_named: "inter_file_block dl t st w = (Inr (File name meta), st', w') \<Longrightarrow> name_ok name \<and> meta_ok meta"
  by (auto simp: inter_file_block_def elim!: rbind_InrE dest!: rpure_InrE split: if_splits)
    (blast dest: zero_body_ok)+

lemma between_step_ok:
  assumes "between_step cfg t k s l = (Inr r, l')" "xm_ok s"
  shows "step_ok r"
proof -
  let ?m = "inter_file_block (now l + min (x_block_timeout cfg) INTER_FILE_WAIT_SECS * 1000) t"
  obtain x l1 where x: "on_reader ?m l = (x, l1)" by (cases "on_reader ?m l")
  have "name_ok name \<and> meta_ok meta" if "x = Inr (File name meta)" for name meta
    using x that by (auto elim!: on_reader_InrE dest: inter_file_named)
  with assms x show ?thesis
    by (auto simp: between_step_def cancel_with_def lpure_def lfail_def step_ok_def xm_ok_def files_ok_def
        elim!: lbind_InrE split: sum.splits if_splits InterFileBlock0.splits)
qed

lemma receive_step_ok: "receive_step cfg t s l = (Inr r, l') \<Longrightarrow> xm_ok s \<Longrightarrow> step_ok r"
  by (cases "xs_place s")
    (auto simp: receive_step_def lpure_def step_ok_def [of "Inl _"] xm_ok_def elim!: lbind_InrE in_file_step_ok between_step_ok)

lemma receive_loop_ok: "receive_batch_loop cfg t s l = (receipt, l') \<Longrightarrow> xm_ok s \<Longrightarrow> files_ok (br_files receipt)"
proof (induction cfg t s l arbitrary: receipt l' rule: receive_batch_loop.induct)
  case (1 cfg t s l)
  obtain x l1 where x: "receive_step cfg t s l = (x, l1)" by (cases "receive_step cfg t s l")
  show ?case
  proof (cases "\<exists>s'. x = Inr (Inl s')")
    case True
    then obtain s' where s': "x = Inr (Inl s')" by blast
    with "1.prems"(1) x have "receive_batch_loop cfg t s' l1 = (receipt, l')" by (simp add: receive_batch_loop.simps [of cfg t s l])
    moreover from receive_step_ok x s' "1.prems"(2) have "xm_ok s'" by (force simp: step_ok_def)
    ultimately show ?thesis using "1.IH" [OF x [symmetric] s' refl] by blast
  next
    case False
    with "1.prems" x receive_step_ok show ?thesis
      by (force simp: receive_batch_loop.simps [of cfg t s l] step_ok_def xm_ok_def files_ok_def split: sum.splits)
  qed
qed

text \<open>Property C8: whatever the peer sends and whatever the line does, the receipt of an XMODEM or YMODEM
  receiver is well formed. It holds at most the batch limit of files; no file is longer than
  the file limit or than the size its header announced, one without a size does not end in a
  SUB; every name is non-empty text without a NUL; and the times and modes are within their widths.\<close>

theorem xmodem_receipts_well_formed:
  assumes "xmodem_receive_batch_keeping cfg t p w wr = (receipt, l)"
  shows "files_ok (br_files receipt)"
proof -
  obtain l0 where l0: "l0 = \<lparr>rst = default_ReadState, inw = w, outw = wr\<rparr>" by blast
  obtain x l1 where x: "receive_negotiate cfg t p (now l0 + x_negotiation_timeout cfg * 1000) init_negotiation l0 = (x, l1)"
    by (cases "receive_negotiate cfg t p (now l0 + x_negotiation_timeout cfg * 1000) init_negotiation l0")
  from assms x l0 have run: "(case x of Inl e \<Rightarrow> (\<lparr>br_files = [], br_error = Some e\<rparr>, l1)
      | Inr (Finished files) \<Rightarrow> (\<lparr>br_files = files, br_error = None\<rparr>, l1)
      | Inr (Begin s) \<Rightarrow> receive_batch_loop cfg t s l1) = (receipt, l)"
    by (simp add: xmodem_receive_batch_keeping_def Let_def split: sum.splits opened.splits)
  from x have "opened_ok r" if "x = Inr r" for r using that negotiate_opened_ok by blast
  with run show ?thesis
    by (auto simp: opened_ok_def split: sum.splits opened.splits dest: receive_loop_ok)
qed

theorem xmodem_receipts_well_formed_witness:
  "\<exists>w receipt l. xmodem_receive_batch_keeping demo_xmodem True False w \<lparr>sent = [], broken = None\<rparr> = (receipt, l) \<and>
     map xf_filename (br_files receipt) = [Some [0x61]] \<and> files_ok (br_files receipt)"
proof -
  let ?data = "[0x41, 0x1A] :: byte list" and ?h = "Some demo_header"
  have "length ?data \<le> MAX_FILE_SIZE" by (simp add: MAX_FILE_SIZE_def)
  from xmodem_gateway_receives [OF demo_xmodem_in_time(1) this demo_header_ok
      bursts_paced [OF send_frames_short [OF demo_header_ok], where t = True and c = 0], of False]
  obtain l where run: "xmodem_receive_batch_keeping demo_xmodem True False (paced 0 (written True (send_frames ?data False ?h)))
      \<lparr>sent = [], broken = None\<rparr> = (\<lparr>br_files = [x_received ?data ?h], br_error = None\<rparr>, l)" by blast
  from xmodem_receipts_well_formed [OF run] run show ?thesis
    by (intro exI conjI) (assumption | simp add: x_received_def demo_header_def)+
qed

end
