(* ===== verification/Punter_Block.thy ===== *)
theory Punter_Block
  imports Wire_Reader Checksum_Register Rust_Std
begin

text \<open>
  Punter C1 blocks (first half of \<^verbatim>\<open>src/src/punter.rs\<close>): the handshake codes, the file-type byte,
  the two checksums, the layout of one block, and the splitting of a file into the block sequence
  of a phase. The lemmas show that every block built here passes the receiver's check, that any
  one-byte corruption of it does not, and that the sequence carries exactly the file.
\<close>

section \<open>Constants and handshake codes\<close>

definition SIZEPOS :: nat where "SIZEPOS = 4"
definition NUMPOS :: nat where "NUMPOS = 5"
definition DATAPOS :: nat where "DATAPOS = 7"
definition MAX_BLOCK :: nat where "MAX_BLOCK = 255"
definition MAX_PAYLOAD :: nat where "MAX_PAYLOAD = MAX_BLOCK - DATAPOS"
definition DATA_PHASE_FIRST_SIZE :: byte where "DATA_PHASE_FIRST_SIZE = word_of_nat DATAPOS"
definition TYPE_PHASE_SIZE :: byte where "TYPE_PHASE_SIZE = word_of_nat DATAPOS + 1"
definition MAX_DATA_BLOCK_INDEX :: u16 where "MAX_DATA_BLOCK_INDEX = 0xFEFF"

lemmas punter_layout = SIZEPOS_def NUMPOS_def DATAPOS_def MAX_BLOCK_def MAX_PAYLOAD_def

datatype Code = Goo | Bad | Ack | Sb | Syn

fun code_bytes :: "Code \<Rightarrow> byte list" where
  "code_bytes Goo = [0x47, 0x4F, 0x4F]"
| "code_bytes Bad = [0x42, 0x41, 0x44]"
| "code_bytes Ack = [0x41, 0x43, 0x4B]"
| "code_bytes Sb = [0x53, 0x2F, 0x42]"
| "code_bytes Syn = [0x53, 0x59, 0x4E]"

definition from_window :: "byte list \<Rightarrow> Code option" where
  "from_window w = (let up = to_ascii_uppercase w in find (\<lambda>c. up = code_bytes c) [Goo, Bad, Ack, Sb, Syn])"


section \<open>File types\<close>

datatype PunterFileType = Prg | Seq | Usr | Unknown

fun to_byte :: "PunterFileType \<Rightarrow> byte" where
  "to_byte Prg = 1"
| "to_byte Seq = 2"
| "to_byte Usr = 3"
| "to_byte Unknown = 0"

definition from_byte :: "byte \<Rightarrow> PunterFileType" where
  "from_byte b = (if b = 1 then Prg else if b = 2 then Seq else if b = 3 then Usr else Unknown)"

fun extension :: "PunterFileType \<Rightarrow> str option" where
  "extension Prg = Some (str_of ''prg'')"
| "extension Seq = Some (str_of ''seq'')"
| "extension Usr = Some (str_of ''usr'')"
| "extension Unknown = None"

definition ends_with :: "str \<Rightarrow> str \<Rightarrow> bool" where
  "ends_with suffix s \<longleftrightarrow> length suffix \<le> length s \<and> drop (length s - length suffix) s = suffix"

definition autodetect :: "str \<Rightarrow> PunterFileType" where
  "autodetect filename =
     (let lower = to_ascii_lowercase filename
      in if ends_with (str_of ''.seq'') lower \<or> ends_with (str_of ''.txt'') lower
            \<or> ends_with (str_of ''.doc'') lower then Seq
         else if ends_with (str_of ''.usr'') lower then Usr
         else Prg)"


section \<open>Checksums and single blocks\<close>

definition add_step :: "u16 \<Rightarrow> byte \<Rightarrow> u16" where
  "add_step acc b = acc + ucast b"

definition cyc_step :: "u16 \<Rightarrow> byte \<Rightarrow> u16" where
  "cyc_step acc b = word_rotl 1 (acc XOR ucast b)"

definition punter_checksums :: "byte list \<Rightarrow> u16 \<times> u16" where
  "punter_checksums body = (foldl add_step 0 body, foldl cyc_step 0 body)"

definition le16 :: "u16 \<Rightarrow> byte list" where
  "le16 v = [ucast (v AND 0xFF), ucast (drop_bit 8 v)]"

definition from_le16 :: "byte \<Rightarrow> byte \<Rightarrow> u16" where
  "from_le16 lo hi = push_bit 8 (ucast hi) OR ucast lo"

text \<open>Recompute the checksum fields of a block over its bytes from \<open>SIZEPOS\<close> on.\<close>

definition sign_block :: "byte list \<Rightarrow> byte list" where
  "sign_block blk = (case punter_checksums (drop SIZEPOS blk) of
      (add, cyc) \<Rightarrow> le16 add @ le16 cyc @ drop SIZEPOS blk)"

definition build_block :: "byte \<Rightarrow> u16 \<Rightarrow> byte list \<Rightarrow> byte list" where
  "build_block next_size block_index payload =
     sign_block ([0, 0, 0, 0, next_size] @ le16 block_index @ payload)"

definition checksum_ok :: "byte list \<Rightarrow> bool" where
  "checksum_ok blk \<longleftrightarrow> \<not> length blk < DATAPOS \<and>
     (case punter_checksums (drop SIZEPOS blk) of (add, cyc) \<Rightarrow>
        add = from_le16 (blk ! 0) (blk ! 1) \<and> cyc = from_le16 (blk ! 2) (blk ! 3))"

definition is_final_block :: "byte list \<Rightarrow> bool" where
  "is_final_block blk \<longleftrightarrow> length blk > NUMPOS + 1 \<and> blk ! (NUMPOS + 1) = 0xFF"


section \<open>The blocks of a phase\<close>

datatype punter_build_error = TooManyBlocks

fun backpatch_from :: "byte list list \<Rightarrow> byte list list" where
  "backpatch_from [] = []"
| "backpatch_from [blk] = [sign_block (blk[SIZEPOS := word_of_nat (length blk)])]"
| "backpatch_from (blk # nxt # rest) =
     sign_block (blk[SIZEPOS := word_of_nat (length nxt)]) # backpatch_from (nxt # rest)"

definition backpatch_next_sizes :: "byte list list \<Rightarrow> byte list list" where
  "backpatch_next_sizes blocks = backpatch_from blocks"

function chunks :: "nat \<Rightarrow> 'a list \<Rightarrow> 'a list list" where
  "chunks n xs = (if xs = [] \<or> n = 0 then [] else take n xs # chunks n (drop n xs))"
  by pat_completeness auto
termination by (relation "measure (\<lambda>(n, xs). length xs)") auto

declare chunks.simps [simp del]

text \<open>The payload-bearing blocks: indices from \<open>i + 1\<close> on, the last one flagged 0xFFFF.\<close>

fun number_chunks :: "nat \<Rightarrow> byte list list \<Rightarrow> byte list list" where
  "number_chunks i [] = []"
| "number_chunks i [c] = [build_block 0 0xFFFF c]"
| "number_chunks i (c # cs) = build_block 0 (word_of_nat i + 1) c # number_chunks (Suc i) cs"

definition div_ceil :: "nat \<Rightarrow> nat \<Rightarrow> nat" where
  "div_ceil a b = (a + b - 1) div b"

definition build_data_blocks :: "byte list \<Rightarrow> nat \<Rightarrow> punter_build_error + byte list list" where
  "build_data_blocks data block_payload =
     (let payload_cap = max 1 (min block_payload MAX_PAYLOAD);
          block0 = build_block 0 0 []
      in if data = [] then Inr (backpatch_next_sizes [block0, build_block 0 0xFFFF []])
         else if div_ceil (length data) payload_cap - 1 > unat MAX_DATA_BLOCK_INDEX then Inl TooManyBlocks
         else Inr (backpatch_next_sizes (block0 # number_chunks 0 (chunks payload_cap data))))"

definition build_type_block :: "PunterFileType \<Rightarrow> byte list list" where
  "build_type_block file_type = backpatch_next_sizes [build_block TYPE_PHASE_SIZE 0xFFFF [to_byte file_type]]"


section \<open>Checksum contract\<close>

lemma word_rotl_inj: "word_rotl n a = word_rotl n b \<Longrightarrow> a = (b :: 'a::len word)"
  by (metis word_rot_gal')

interpretation additive: checksum_register add_step
proof
  show "r = r'" if "add_step r b = add_step r' b" for r r' b
    using that by (simp add: add_step_def)
  show "b = b'" if "add_step r b = add_step r b'" for r b b'
    using that by (simp add: add_step_def ucast_byte_eq_iff)
qed

interpretation cyclic: checksum_register cyc_step
proof
  show "r = r'" if "cyc_step r b = cyc_step r' b" for r r' b
    using that by (auto simp: cyc_step_def dest!: word_rotl_inj) (metis u16_xor_cancel)
  show "b = b'" if "cyc_step r b = cyc_step r b'" for r b b'
  proof -
    from that have "r XOR ucast b = r XOR ucast b'" by (auto simp: cyc_step_def dest: word_rotl_inj)
    then have "(ucast b :: u16) = ucast b'" by (metis xor.left_neutral xor.assoc xor_self_eq)
    then show ?thesis by (simp add: ucast_byte_eq_iff)
  qed
qed

lemma punter_checksums_detect:
  "i < length body \<Longrightarrow> b \<noteq> body ! i \<Longrightarrow>
   fst (punter_checksums (body[i := b])) \<noteq> fst (punter_checksums body) \<and>
   snd (punter_checksums (body[i := b])) \<noteq> snd (punter_checksums body)"
  by (simp add: punter_checksums_def additive.detects_update cyclic.detects_update)

lemma from_le16_le16 [simp]: "from_le16 (ucast (v AND 0xFF)) (ucast (drop_bit 8 v)) = v"
  by (simp add: from_le16_def u16_eq_iff bit_simps)

lemma word_bit_beyond: "LENGTH('a) \<le> n \<Longrightarrow> \<not> bit (b :: 'a::len word) n"
  by (auto dest: bit_imp_le_length)

lemma from_le16_eq_iff: "from_le16 a b = from_le16 c d \<longleftrightarrow> a = c \<and> b = d"
proof
  assume eq: "from_le16 a b = from_le16 c d"
  have "a = ucast (from_le16 a b)" "b = ucast (drop_bit 8 (from_le16 a b))" for a b
    by (simp_all add: from_le16_def byte_eq_iff bit_simps word_bit_beyond)
  then show "a = c \<and> b = d" using eq by metis
qed simp

lemma length_le16 [simp]: "length (le16 v) = 2"
  by (simp add: le16_def)

lemma drop_sign_block [simp]: "4 \<le> n \<Longrightarrow> drop n (sign_block blk) = drop n blk"
  by (simp add: sign_block_def SIZEPOS_def drop_append split: prod.splits)

lemma length_sign_block [simp]: "4 \<le> length blk \<Longrightarrow> length (sign_block blk) = length blk"
  by (simp add: sign_block_def SIZEPOS_def split: prod.splits)

lemma nth_sign_block: "4 \<le> i \<Longrightarrow> i < length blk \<Longrightarrow> sign_block blk ! i = blk ! i"
  using drop_sign_block [of 4 blk] nth_drop [of 4 "sign_block blk" "i - 4"] nth_drop [of 4 blk "i - 4"]
  by simp

lemma checksum_ok_sign_block: "DATAPOS \<le> length blk \<Longrightarrow> checksum_ok (sign_block blk)"
  by (cases "punter_checksums (drop SIZEPOS blk)")
    (simp add: checksum_ok_def DATAPOS_def, simp add: sign_block_def SIZEPOS_def le16_def)

text \<open>Both sums see a change of any body byte; a change of a stored sum is seen as well.\<close>

lemma checksum_ok_rejects:
  assumes "checksum_ok blk" "i < length blk" "b \<noteq> blk ! i"
  shows "\<not> checksum_ok (blk[i := b])"
proof (cases "i < 4")
  case True
  then have "i \<in> {0, 1, 2, 3}" by auto
  with assms show ?thesis
    by (auto simp: checksum_ok_def SIZEPOS_def DATAPOS_def from_le16_eq_iff
        drop_update_cancel split: prod.splits)
next
  case False
  then have d: "drop 4 (blk[i := b]) = (drop 4 blk)[i - 4 := b]" "drop 4 blk ! (i - 4) = blk ! i"
    using assms(2) by (simp_all add: drop_update_swap)
  have "fst (punter_checksums (drop 4 (blk[i := b]))) \<noteq> fst (punter_checksums (drop 4 blk))"
    using punter_checksums_detect [of "i - 4" "drop 4 blk" b] assms(2,3) False d by simp
  with assms(1) False show ?thesis
    by (auto simp: checksum_ok_def SIZEPOS_def split: prod.splits)
qed


section \<open>What the blocks of a phase carry\<close>

definition blk_index :: "byte list \<Rightarrow> u16" where
  "blk_index blk = from_le16 (blk ! NUMPOS) (blk ! (NUMPOS + 1))"

definition sized :: "byte list \<Rightarrow> bool" where
  "sized blk \<longleftrightarrow> DATAPOS \<le> length blk \<and> length blk \<le> MAX_BLOCK"

text \<open>
  \<open>well_chained sz bs\<close> is what a receiver that was told to expect \<open>sz\<close> bytes needs of the blocks
  to come: each has the announced length and passes the check, only the last one is flagged, and
  no block repeats the index of the one before it.
\<close>

fun well_chained :: "byte \<Rightarrow> byte list list \<Rightarrow> bool" where
  "well_chained sz [] \<longleftrightarrow> False"
| "well_chained sz [b] \<longleftrightarrow> sized b \<and> length b = unat sz \<and> checksum_ok b \<and> is_final_block b"
| "well_chained sz (b # c # bs) \<longleftrightarrow> sized b \<and> length b = unat sz \<and> checksum_ok b \<and> \<not> is_final_block b \<and>
     blk_index b \<noteq> blk_index c \<and> well_chained (b ! SIZEPOS) (c # bs)"

fun numbered :: "byte list list \<Rightarrow> bool" where
  "numbered [] \<longleftrightarrow> False"
| "numbered [b] \<longleftrightarrow> sized b \<and> is_final_block b"
| "numbered (b # c # bs) \<longleftrightarrow> sized b \<and> \<not> is_final_block b \<and> blk_index b \<noteq> blk_index c \<and> numbered (c # bs)"

lemma build_block_facts:
  "length (build_block nx idx pl) = DATAPOS + length pl"
  "drop DATAPOS (build_block nx idx pl) = pl"
  "blk_index (build_block nx idx pl) = idx"
  "checksum_ok (build_block nx idx pl)"
  "is_final_block (build_block nx idx pl) \<longleftrightarrow> drop_bit 8 idx = 0xFF"
proof -
  let ?raw = "[0, 0, 0, 0, nx] @ le16 idx @ pl"
  have len: "length ?raw = DATAPOS + length pl" by (simp add: DATAPOS_def le16_def)
  have top: "build_block nx idx pl ! 5 = ucast (idx AND 0xFF)" "build_block nx idx pl ! 6 = ucast (drop_bit 8 idx)"
    by (simp_all add: build_block_def nth_sign_block le16_def)
  show l: "length (build_block nx idx pl) = DATAPOS + length pl"
    using len by (simp add: build_block_def DATAPOS_def)
  show "drop DATAPOS (build_block nx idx pl) = pl"
    by (simp add: build_block_def DATAPOS_def le16_def)
  show "blk_index (build_block nx idx pl) = idx"
    by (simp add: blk_index_def NUMPOS_def top)
  show "checksum_ok (build_block nx idx pl)"
    unfolding build_block_def by (rule checksum_ok_sign_block) (use len in simp)
  have "(ucast (drop_bit 8 idx) :: byte) = 0xFF \<longleftrightarrow> drop_bit 8 idx = 0xFF"
    by (simp add: byte_eq_iff u16_eq_iff bit_simps word_bit_beyond)
  then show "is_final_block (build_block nx idx pl) \<longleftrightarrow> drop_bit 8 idx = 0xFF"
    by (simp add: is_final_block_def NUMPOS_def l DATAPOS_def top)
qed

text \<open>Patching the size field keeps the length, the index, the flag and the payload.\<close>

lemma patch_facts:
  fixes v :: byte
  assumes "DATAPOS \<le> length blk"
  defines "p \<equiv> sign_block (blk[SIZEPOS := v])"
  shows "length p = length blk" "drop DATAPOS p = drop DATAPOS blk" "blk_index p = blk_index blk"
    "is_final_block p = is_final_block blk" "checksum_ok p" "p ! SIZEPOS = v"
proof -
  have len: "DATAPOS \<le> length (blk[SIZEPOS := v])" using assms(1) by simp
  have n: "p ! i = blk ! i" if "i = 5 \<or> i = 6" for i
    using that assms(1) by (auto simp: p_def nth_sign_block DATAPOS_def SIZEPOS_def)
  show l: "length p = length blk" using assms(1) by (simp add: p_def DATAPOS_def)
  show "drop DATAPOS p = drop DATAPOS blk" by (simp add: p_def DATAPOS_def SIZEPOS_def)
  show "blk_index p = blk_index blk" by (simp add: blk_index_def NUMPOS_def n)
  show "is_final_block p = is_final_block blk" by (simp add: is_final_block_def NUMPOS_def n l)
  show "checksum_ok p" unfolding p_def using len by (rule checksum_ok_sign_block)
  show "p ! SIZEPOS = v" using assms(1) by (simp add: p_def SIZEPOS_def nth_sign_block DATAPOS_def)
qed

lemma numbered_sized: "numbered bs \<Longrightarrow> list_all sized bs"
  by (induction bs rule: numbered.induct) auto

lemma sized_facts: "sized b \<Longrightarrow> DATAPOS \<le> length b" "sized b \<Longrightarrow> unat (word_of_nat (length b) :: byte) = length b"
  by (simp_all add: sized_def MAX_BLOCK_def)

lemma backpatch_index: "bs \<noteq> [] \<Longrightarrow> list_all sized bs \<Longrightarrow> blk_index (hd (backpatch_from bs)) = blk_index (hd bs)"
  by (induction bs rule: backpatch_from.induct) (simp_all add: patch_facts sized_facts)

lemma backpatch_Cons: "\<exists>c bs'. backpatch_from (nxt # rest) = c # bs'"
  by (cases rest) auto

lemma backpatch_chained:
  "numbered bs \<Longrightarrow> well_chained (word_of_nat (length (hd bs))) (backpatch_from bs)"
proof (induction bs rule: numbered.induct)
  case (2 b)
  then show ?case by (simp add: sized_def patch_facts MAX_BLOCK_def)
next
  case (3 b c bs)
  let ?p = "sign_block (b[SIZEPOS := word_of_nat (length c)])"
  from "3.prems" have b: "sized b" "\<not> is_final_block b" "blk_index b \<noteq> blk_index c" "numbered (c # bs)" by auto
  from b(4) have c: "sized c" "list_all sized (c # bs)" by (auto dest: numbered_sized)
  obtain d ds where d: "backpatch_from (c # bs) = d # ds" using backpatch_Cons by blast
  with backpatch_index [of "c # bs"] c have "blk_index d = blk_index c" by simp
  moreover have "?p ! SIZEPOS = word_of_nat (length c)" "length ?p = length b" "checksum_ok ?p"
      "is_final_block ?p = is_final_block b" "blk_index ?p = blk_index b"
    using b(1) by (simp_all add: patch_facts sized_facts)
  moreover have "well_chained (word_of_nat (length c)) (d # ds)"
    using "3.IH" [OF b(4)] d by simp
  ultimately show ?case using b d by (simp add: sized_def MAX_BLOCK_def)
qed simp

lemma backpatch_payloads:
  "list_all sized bs \<Longrightarrow> map (drop DATAPOS) (backpatch_from bs) = map (drop DATAPOS) bs"
  by (induction bs rule: backpatch_from.induct) (simp_all add: patch_facts sized_facts)


lemma concat_chunks: "0 < n \<Longrightarrow> concat (chunks n xs) = xs"
proof (induction n xs rule: chunks.induct)
  case (1 n xs)
  then show ?case by (subst chunks.simps) auto
qed

lemma chunks_sizes: "0 < n \<Longrightarrow> list_all (\<lambda>c. 0 < length c \<and> length c \<le> n) (chunks n xs)"
proof (induction n xs rule: chunks.induct)
  case (1 n xs)
  then show ?case by (subst chunks.simps) auto
qed

lemma length_chunks: "0 < n \<Longrightarrow> length (chunks n xs) = div_ceil (length xs) n"
proof (induction n xs rule: chunks.induct)
  case (1 n xs)
  show ?case
  proof (cases "xs = []")
    case True
    with 1 show ?thesis by (subst chunks.simps) (simp add: div_ceil_def)
  next
    case False
    have "length (chunks n xs) = Suc ((length xs - n + n - 1) div n)"
      using 1 False by (subst chunks.simps) (simp add: div_ceil_def)
    also have "\<dots> = (length xs + n - 1) div n"
    proof (cases "length xs \<le> n")
      case True
      moreover obtain k where "length xs = Suc k" using False by (cases xs) auto
      ultimately show ?thesis by (simp add: div_add_self2)
    next
      case False
      with 1 show ?thesis by (simp add: div_if [of "length xs + n - Suc 0"])
    qed
    finally show ?thesis by (simp add: div_ceil_def)
  qed
qed

lemma number_chunks_payloads: "map (drop DATAPOS) (number_chunks i cs) = cs"
  by (induction i cs rule: number_chunks.induct) (simp_all add: build_block_facts)

lemma number_chunks_Cons: "cs \<noteq> [] \<Longrightarrow> \<exists>d ds. number_chunks i cs = d # ds"
  by (cases "(i, cs)" rule: number_chunks.cases) auto

lemma index_not_final:
  assumes "i + 1 < 0xFF00"
  shows "drop_bit 8 (word_of_nat i + 1 :: u16) \<noteq> 0xFF" "(word_of_nat i :: u16) + 1 \<noteq> 0xFFFF"
proof -
  have u: "unat (word_of_nat (i + 1) :: u16) = i + 1" using assms by (simp only: unat_of_nat) simp
  have w: "(word_of_nat i + 1 :: u16) = word_of_nat (i + 1)" by simp
  have "unat (drop_bit 8 v) = unat v div 256" for v :: u16 by (simp add: drop_bit_eq_div unat_div)
  then have "unat (drop_bit 8 (word_of_nat (i + 1) :: u16)) = (i + 1) div 256" by (simp only: u)
  moreover have "(i + 1) div 256 < 255" using assms by (simp add: less_mult_imp_div_less)
  ultimately show "drop_bit 8 (word_of_nat i + 1 :: u16) \<noteq> 0xFF" unfolding w by auto
  show "(word_of_nat i :: u16) + 1 \<noteq> 0xFFFF"
    unfolding w using u assms by (auto simp del: of_nat_add)
qed

lemma number_chunks_numbered:
  "cs \<noteq> [] \<Longrightarrow> list_all (\<lambda>c. 0 < length c \<and> length c \<le> MAX_PAYLOAD) cs \<Longrightarrow> i + length cs \<le> 0xFF00 \<Longrightarrow>
   numbered (number_chunks i cs) \<and> blk_index (hd (number_chunks i cs)) \<noteq> word_of_nat i"
proof (induction i cs rule: number_chunks.induct)
  case (2 i c)
  have "unat (word_of_nat i :: u16) = i" using "2.prems"(3) by (simp add: unat_of_nat)
  then have "(word_of_nat i :: u16) \<noteq> 0xFFFF" using "2.prems"(3) by auto
  with 2 show ?case by (auto simp: sized_def build_block_facts MAX_PAYLOAD_def MAX_BLOCK_def DATAPOS_def)
next
  case (3 i c d ds)
  have i: "i + 1 < 0xFF00" using "3.prems"(3) by simp
  from 3 have ih: "numbered (number_chunks (Suc i) (d # ds))"
      "blk_index (hd (number_chunks (Suc i) (d # ds))) \<noteq> word_of_nat (Suc i)" by auto
  obtain e es where e: "number_chunks (Suc i) (d # ds) = e # es" using number_chunks_Cons by blast
  have "sized (build_block 0 (word_of_nat i + 1) c)"
    using "3.prems"(2) by (simp add: sized_def build_block_facts MAX_PAYLOAD_def MAX_BLOCK_def DATAPOS_def)
  with e ih index_not_final [OF i] show ?case
    by (auto simp: build_block_facts add.commute)
qed simp

lemma build_data_blocks_numbered:
  assumes "build_data_blocks data p = Inr bs"
  obtains raw where "bs = backpatch_from (build_block 0 0 [] # raw)" "numbered (build_block 0 0 [] # raw)"
    "map (drop DATAPOS) raw = (if data = [] then [[]] else chunks (max 1 (min p MAX_PAYLOAD)) data)"
proof (cases "data = []")
  case True
  with assms show thesis
    by (intro that [of "[build_block 0 0xFFFF []]"])
      (auto simp: build_data_blocks_def backpatch_next_sizes_def build_block_facts sized_def punter_layout)
next
  case False
  let ?cap = "max 1 (min p MAX_PAYLOAD)"
  let ?raw = "number_chunks 0 (chunks ?cap data)"
  have cap: "0 < ?cap" "?cap \<le> MAX_PAYLOAD" by (auto simp: punter_layout)
  from assms False have bs: "bs = backpatch_from (build_block 0 0 [] # ?raw)"
    and fits: "div_ceil (length data) ?cap - 1 \<le> unat MAX_DATA_BLOCK_INDEX"
    by (auto simp: build_data_blocks_def backpatch_next_sizes_def Let_def split: if_splits)
  have ne: "chunks ?cap data \<noteq> []" using concat_chunks [OF cap(1), of data] False by auto
  have "list_all (\<lambda>c. 0 < length c \<and> length c \<le> MAX_PAYLOAD) (chunks ?cap data)"
    using chunks_sizes [OF cap(1), of data] cap(2) by (auto simp: list_all_iff)
  moreover have "0 + length (chunks ?cap data) \<le> 0xFF00"
    using fits unfolding length_chunks [OF cap(1)] MAX_DATA_BLOCK_INDEX_def by simp
  ultimately have n: "numbered ?raw" "blk_index (hd ?raw) \<noteq> 0"
    using number_chunks_numbered [OF ne, of 0] by auto
  obtain e es where "?raw = e # es" using number_chunks_Cons [OF ne] by blast
  with n have "numbered (build_block 0 0 [] # ?raw)"
    by (simp add: build_block_facts sized_def punter_layout)
  with bs show thesis
    by (rule that) (simp only: number_chunks_payloads False if_False)
qed

lemma data_blocks_payloads:
  assumes "build_data_blocks data p = Inr bs"
  shows "map (drop DATAPOS) bs = [] # (if data = [] then [[]] else chunks (max 1 (min p MAX_PAYLOAD)) data)"
    "well_chained DATA_PHASE_FIRST_SIZE bs"
proof -
  from assms obtain raw where raw: "bs = backpatch_from (build_block 0 0 [] # raw)"
      "numbered (build_block 0 0 [] # raw)"
      "map (drop DATAPOS) raw = (if data = [] then [[]] else chunks (max 1 (min p MAX_PAYLOAD)) data)"
    by (rule build_data_blocks_numbered)
  show "map (drop DATAPOS) bs = [] # (if data = [] then [[]] else chunks (max 1 (min p MAX_PAYLOAD)) data)"
    unfolding raw(1) backpatch_payloads [OF numbered_sized [OF raw(2)]]
    by (simp only: list.map build_block_facts raw(3))
  show "well_chained DATA_PHASE_FIRST_SIZE bs"
    using backpatch_chained [OF raw(2)] raw(1)
    by (simp add: build_block_facts DATA_PHASE_FIRST_SIZE_def)
qed

lemma data_blocks_carry:
  assumes "build_data_blocks data p = Inr bs"
  shows "concat (map (drop DATAPOS) bs) = data" "length (filter (\<lambda>b. drop DATAPOS b = []) bs) \<le> 2"
proof -
  let ?cs = "chunks (max 1 (min p MAX_PAYLOAD)) data"
  have cap: "0 < max 1 (min p MAX_PAYLOAD)" by simp
  note pl = data_blocks_payloads(1) [OF assms]
  show "concat (map (drop DATAPOS) bs) = data"
    unfolding pl using concat_chunks [OF cap, of data] by (cases "data = []") simp_all
  have "filter (\<lambda>c. c = []) ?cs = []"
    using chunks_sizes [OF cap, of data] by (auto simp: filter_empty_conv list_all_iff)
  then have "length (filter (\<lambda>c. c = []) (map (drop DATAPOS) bs)) \<le> 2"
    unfolding pl by (cases "data = []") simp_all
  then show "length (filter (\<lambda>b. drop DATAPOS b = []) bs) \<le> 2" by (simp add: filter_map o_def)
qed

lemma type_block_chained:
  "well_chained TYPE_PHASE_SIZE (build_type_block ft)"
  "concat (map (drop DATAPOS) (build_type_block ft)) = [to_byte ft]"
proof -
  let ?b = "build_block TYPE_PHASE_SIZE 0xFFFF [to_byte ft]"
  have n: "numbered [?b]" by (simp add: build_block_facts sized_def punter_layout)
  show "well_chained TYPE_PHASE_SIZE (build_type_block ft)"
    using backpatch_chained [OF n]
    by (simp add: build_type_block_def backpatch_next_sizes_def build_block_facts TYPE_PHASE_SIZE_def DATAPOS_def)
  show "concat (map (drop DATAPOS) (build_type_block ft)) = [to_byte ft]"
    using backpatch_payloads [OF numbered_sized [OF n]]
    by (simp add: build_type_block_def backpatch_next_sizes_def build_block_facts)
qed

lemma from_byte_to_byte: "from_byte (to_byte ft) = ft"
  by (cases ft) (simp_all add: from_byte_def)

lemma chained_checks: "well_chained sz bs \<Longrightarrow> list_all checksum_ok bs"
  by (induction sz bs rule: well_chained.induct) auto

text \<open>Every block of a file passes the receiver's check as built, and fails it after any
  change of a single byte, wherever in the block it falls: a checksum, the size, the index or the data.\<close>

lemma punter_block_corruption_refused:
  assumes "build_data_blocks data cap = Inr bs" "i < length bs" "j < length (bs ! i)" "b \<noteq> bs ! i ! j"
  shows "checksum_ok (bs ! i) \<and> \<not> checksum_ok ((bs ! i)[j := b])"
proof -
  have "checksum_ok (bs ! i)"
    using chained_checks [OF data_blocks_payloads(2) [OF assms(1)]] assms(2) by (rule list_all_nth)
  with checksum_ok_rejects [OF this assms(3,4)] show ?thesis by blast
qed


end
