(* ===== verification/Punter_Transfer.thy ===== *)
theory Punter_Transfer
  imports Punter_Block Link
begin

text \<open>
  The Punter C1 engines (second half of \<^verbatim>\<open>src/src/punter.rs\<close>): waiting for a handshake code,
  reading a block, the receive and send phases with their retry counters, and the end-off
  handshakes. Times are in milliseconds; diagnostics (\<^verbatim>\<open>glog!\<close>) are left out.
\<close>

section \<open>Tunables and errors\<close>

record Tunables =
  negotiation_timeout :: nat
  block_timeout :: nat
  max_retries :: nat
  max_bad_rounds :: nat
  retry_interval :: nat
  block_payload :: nat

record punter_config =
  punter_block_size :: nat
  punter_negotiation_timeout :: nat
  punter_block_timeout :: nat
  punter_max_retries :: nat
  punter_max_bad_rounds :: nat
  punter_negotiation_retry_interval :: nat

definition load_Tunables :: "punter_config \<Rightarrow> Tunables" where
  "load_Tunables cfg =
     (let total = max (DATAPOS + 1) (min (punter_block_size cfg) MAX_BLOCK)
      in \<lparr>negotiation_timeout = punter_negotiation_timeout cfg,
          block_timeout = punter_block_timeout cfg,
          max_retries = punter_max_retries cfg,
          max_bad_rounds = punter_max_bad_rounds cfg,
          retry_interval = punter_negotiation_retry_interval cfg,
          block_payload = total - DATAPOS\<rparr>)"

datatype punter_error =
    PIo io_error | PCancelled | PNoAck | PBlockReadFailed | PBadNextSize byte
  | PDuplicates nat | PTooLarge | PEmptyBlocks nat | PBadBlocks nat
  | PNoResponse | PNoSb | PResends nat nat | PIndexOutOfRange | PBuild punter_build_error

definition MAX_EMPTY_NONFINAL_BLOCKS :: nat where "MAX_EMPTY_NONFINAL_BLOCKS = 4"
definition ESC_ALONE_MS :: nat where "ESC_ALONE_MS = 300"


section \<open>Codes on the wire\<close>

definition send_code :: "bool \<Rightarrow> Code \<Rightarrow> (punter_error, unit) lk" where
  "send_code is_tcp code = on_writer PIo is_tcp (code_bytes code)"

text \<open>The byte of one turn: the one carried over from an ESC, or a fresh one.\<close>

definition turn_byte :: "nat \<Rightarrow> bool \<Rightarrow> byte option \<Rightarrow> ReadState \<Rightarrow> wire \<Rightarrow> byte outcome \<times> ReadState \<times> wire" where
  "turn_byte deadline is_tcp carried st w = (case carried of
      Some b \<Rightarrow> (Ok b, st, w)
    | None \<Rightarrow> nvt_read_byte (Some deadline) is_tcp st w)"

text \<open>After an ESC, the byte that follows it within \<open>ESC_ALONE_MS\<close>; \<open>Elapsed\<close> is an ESC alone.\<close>

definition esc_peek ::
    "bool \<Rightarrow> bool \<Rightarrow> byte \<Rightarrow> ReadState \<Rightarrow> wire \<Rightarrow> byte option outcome \<times> ReadState \<times> wire" where
  "esc_peek is_tcp is_petscii b st w =
     (if is_esc_key b is_petscii
      then (case nvt_read_byte (Some (clock w + ESC_ALONE_MS)) is_tcp st w of
          (Ok n, st', w') \<Rightarrow> (Ok (Some n), st', w')
        | (Err e, st', w') \<Rightarrow> (Err e, st', w')
        | (Elapsed, st', w') \<Rightarrow> (Elapsed, st', w'))
      else (Ok None, st, w))"

definition no_code :: "io_error \<Rightarrow> punter_error + Code option" where
  "no_code e = (if e = IacTimeout then Inr None else Inl (PIo e))"

text \<open>The code a full window spells, when it is one of those waited for.\<close>

definition window_code :: "Code list \<Rightarrow> byte list \<Rightarrow> nat \<Rightarrow> Code option" where
  "window_code allowed window filled =
     (if filled = 3 then (case from_window window of
          Some c \<Rightarrow> if c \<in> set allowed then Some c else None
        | None \<Rightarrow> None)
      else None)"

lemma turn_byte_left:
  "turn_byte d t c st w = (Ok b, st', w') \<Longrightarrow>
   stream_left st' w' + 1 \<le> stream_left st w + (if c = None then 0 else 1)"
  by (auto simp: turn_byte_def split: option.splits dest!: nvt_read_Ok_shrinks)

lemma esc_peek_left:
  "esc_peek t p b st w = (Ok c, st', w') \<Longrightarrow>
   stream_left st' w' + (if c = None then 0 else 1) \<le> stream_left st w"
  by (auto simp: esc_peek_def split: if_splits prod.splits outcome.splits dest!: nvt_read_Ok_shrinks)

function accept_loop :: "nat \<Rightarrow> bool \<Rightarrow> bool \<Rightarrow> Code list \<Rightarrow> byte list \<Rightarrow> nat \<Rightarrow> byte option \<Rightarrow>
    (punter_error, Code option) rd" where
  "accept_loop deadline is_tcp is_petscii allowed window filled carried st w =
     (if deadline \<le> clock w then (Inr None, st, w)
      else case turn_byte deadline is_tcp carried st w of
          (Err e, st1, w1) \<Rightarrow> (no_code e, st1, w1)
        | (Elapsed, st1, w1) \<Rightarrow> (Inr None, st1, w1)
        | (Ok b, st1, w1) \<Rightarrow> (case esc_peek is_tcp is_petscii b st1 w1 of
              (Err e, st2, w2) \<Rightarrow> (no_code e, st2, w2)
            | (Elapsed, st2, w2) \<Rightarrow> (Inl PCancelled, st2, w2)
            | (Ok carried', st2, w2) \<Rightarrow>
                (let window' = drop 1 window @ [b];
                     filled' = (if filled < 3 then filled + 1 else filled)
                 in case window_code allowed window' filled' of
                      Some c \<Rightarrow> (Inr (Some c), st2, w2)
                    | None \<Rightarrow> accept_loop deadline is_tcp is_petscii allowed window' filled' carried' st2 w2)))"
  by pat_completeness auto
termination
  by (relation "measure (\<lambda>(d, t, p, a, wn, f, c, st, w). stream_left st w + (if c = None then 0 else 1))")
    (force dest!: turn_byte_left [OF sym] esc_peek_left [OF sym])+

declare accept_loop.simps [simp del]

definition accept_code ::
    "bool \<Rightarrow> bool \<Rightarrow> Code list \<Rightarrow> nat \<Rightarrow> (punter_error, Code option) lk" where
  "accept_code is_tcp is_petscii allowed timeout_secs l =
     on_reader (accept_loop (now l + timeout_secs * 1000) is_tcp is_petscii allowed [0, 0, 0] 0 None) l"

text \<open>Send a code (if any) and wait for an answer, up to \<open>n\<close> times.\<close>

fun probe_for :: "nat \<Rightarrow> bool \<Rightarrow> bool \<Rightarrow> Code option \<Rightarrow> Code list \<Rightarrow> nat \<Rightarrow> (punter_error, Code option) lk" where
  "probe_for 0 is_tcp is_petscii code allowed probe = lpure None"
| "probe_for (Suc n) is_tcp is_petscii code allowed probe =
     lbind (case code of Some c \<Rightarrow> send_code is_tcp c | None \<Rightarrow> lpure ()) (\<lambda>_.
     lbind (accept_code is_tcp is_petscii allowed probe) (\<lambda>r.
       case r of Some c \<Rightarrow> lpure (Some c)
       | None \<Rightarrow> probe_for n is_tcp is_petscii code allowed probe))"

definition probe_secs :: "nat \<Rightarrow> Tunables \<Rightarrow> nat" where
  "probe_secs budget t = min budget (max 1 (retry_interval t))"

definition probe_attempts :: "nat \<Rightarrow> Tunables \<Rightarrow> nat" where
  "probe_attempts budget t = max 1 (div_ceil budget (max 1 (probe_secs budget t)))"


section \<open>Receiving\<close>

fun read_bytes :: "nat \<Rightarrow> nat \<Rightarrow> bool \<Rightarrow> ReadState \<Rightarrow> wire \<Rightarrow> byte list \<times> ReadState \<times> wire" where
  "read_bytes 0 byte_wait is_tcp st w = ([], st, w)"
| "read_bytes (Suc n) byte_wait is_tcp st w =
     (case nvt_read_byte (Some (clock w + byte_wait * 1000)) is_tcp st w of
        (Ok b, st', w') \<Rightarrow> (case read_bytes n byte_wait is_tcp st' w' of (bs, st'', w'') \<Rightarrow> (b # bs, st'', w''))
      | (_, st', w') \<Rightarrow> ([], st', w'))"

fun read_block_loop :: "nat \<Rightarrow> nat \<Rightarrow> nat \<Rightarrow> bool \<Rightarrow> (punter_error, byte list) lk" where
  "read_block_loop 0 sz byte_wait is_tcp = lfail PBlockReadFailed"
| "read_block_loop (Suc n) sz byte_wait is_tcp =
     lbind (send_code is_tcp Sb) (\<lambda>_ l.
       case on_reader (read_bytes sz byte_wait is_tcp) l of
         (buf, l') \<Rightarrow>
           if length buf = 3 \<and> from_window buf = Some Ack then read_block_loop n sz byte_wait is_tcp l'
           else if buf = [] then read_block_loop n sz byte_wait is_tcp l'
           else (Inr buf, l'))"

definition read_block :: "bool \<Rightarrow> byte \<Rightarrow> Tunables \<Rightarrow> (punter_error, byte list) lk" where
  "read_block is_tcp sz t =
     read_block_loop (max_retries t + 1) (unat sz) (probe_secs (block_timeout t) t) is_tcp"

record rx_state =
  rx_out :: "byte list"
  rx_next :: byte
  rx_empty :: nat
  rx_signal :: Code
  rx_bad :: nat
  rx_last :: "u16 option"
  rx_dup :: nat
  rx_none :: bool

text \<open>What one block does to the state of a phase; \<open>Inr (Inr out)\<close> is the final block.\<close>

definition take_block :: "Tunables \<Rightarrow> rx_state \<Rightarrow> byte list \<Rightarrow> punter_error + (rx_state + byte list)" where
  "take_block t s blk =
     (if checksum_ok blk
      then let final_block = is_final_block blk;
               block_index = from_le16 (blk ! NUMPOS) (blk ! (NUMPOS + 1));
               payload_len = length blk - DATAPOS;
               next_size = blk ! SIZEPOS
           in if \<not> final_block \<and> payload_len > 0 \<and> rx_last s = Some block_index
              then let dup_rounds = saturating_inc (rx_dup s)
                   in if dup_rounds > max_bad_rounds t then Inl (PDuplicates dup_rounds)
                      else if unat next_size < DATAPOS then Inl (PBadNextSize next_size)
                      else Inr (Inl (s\<lparr>rx_dup := dup_rounds, rx_next := next_size, rx_signal := Goo, rx_bad := 0\<rparr>))
              else let out = rx_out s @ drop DATAPOS blk;
                       empty_blocks = (if payload_len = 0 \<and> \<not> final_block then rx_empty s + 1 else rx_empty s)
                   in if payload_len > 0 \<and> length out > MAX_FILE_SIZE then Inl PTooLarge
                      else if empty_blocks > rx_empty s \<and> empty_blocks > MAX_EMPTY_NONFINAL_BLOCKS
                      then Inl (PEmptyBlocks empty_blocks)
                      else if final_block then Inr (Inr out)
                      else if unat next_size < DATAPOS then Inl (PBadNextSize next_size)
                      else Inr (Inl \<lparr>rx_out = out, rx_next = next_size, rx_empty = empty_blocks, rx_signal = Goo,
                                    rx_bad = 0, rx_last = Some block_index, rx_dup = 0, rx_none = False\<rparr>)
      else let bad_rounds = saturating_inc (rx_bad s)
           in if bad_rounds > max_bad_rounds t then Inl (PBadBlocks bad_rounds)
              else Inr (Inl (s\<lparr>rx_signal := Bad, rx_bad := bad_rounds\<rparr>)))"

definition receive_round ::
    "bool \<Rightarrow> bool \<Rightarrow> Tunables \<Rightarrow> rx_state \<Rightarrow> (punter_error, rx_state + byte list) lk" where
  "receive_round is_tcp is_petscii t s =
     (let total_budget = (if rx_none s \<and> rx_signal s = Goo then negotiation_timeout t else block_timeout t)
      in lbind (probe_for (probe_attempts total_budget t) is_tcp is_petscii (Some (rx_signal s)) [Ack]
                 (probe_secs total_budget t)) (\<lambda>got.
           if got = None then lfail PNoAck
           else lbind (read_block is_tcp (rx_next s) t) (\<lambda>blk.
             case take_block t s blk of Inl e \<Rightarrow> lfail e | Inr r \<Rightarrow> lpure r)))"

text \<open>Waiting for the sender's SYN: each failed wait is answered with S/B.\<close>

fun await_syn :: "nat \<Rightarrow> bool \<Rightarrow> bool \<Rightarrow> nat \<Rightarrow> (punter_error, unit) lk" where
  "await_syn 0 is_tcp is_petscii probe = lpure ()"
| "await_syn (Suc n) is_tcp is_petscii probe =
     lbind (accept_code is_tcp is_petscii [Syn] probe) (\<lambda>r.
       case r of Some _ \<Rightarrow> lpure ()
       | None \<Rightarrow> lbind (send_code is_tcp Sb) (\<lambda>_. await_syn n is_tcp is_petscii probe))"

definition end_off_receiver :: "bool \<Rightarrow> bool \<Rightarrow> Tunables \<Rightarrow> bool \<Rightarrow> link \<Rightarrow> link" where
  "end_off_receiver is_tcp is_petscii t last_phase l =
     (let probe = probe_secs (block_timeout t) t;
          attempts = probe_attempts (block_timeout t) t
      in snd (lbind (probe_for attempts is_tcp is_petscii (Some Goo) [Ack] probe) (\<lambda>_.
              lbind (send_code is_tcp Sb) (\<lambda>_.
              lbind (await_syn attempts is_tcp is_petscii probe) (\<lambda>_.
              lbind (probe_for attempts is_tcp is_petscii (Some Syn) [Sb] probe) (\<lambda>final_sb.
                if final_sb \<noteq> None \<and> last_phase
                then lbind (accept_code is_tcp is_petscii [Sb] (max 1 (retry_interval t))) (\<lambda>_.
                     lbind (accept_code is_tcp is_petscii [Sb] (max 1 (retry_interval t))) (\<lambda>_. lpure ()))
                else lpure ())))) l))"


definition init_rx :: "byte \<Rightarrow> rx_state" where
  "init_rx initial_size = \<lparr>rx_out = [], rx_next = initial_size, rx_empty = 0, rx_signal = Goo, rx_bad = 0,
     rx_last = None, rx_dup = 0, rx_none = True\<rparr>"

text \<open>Every operation on the link keeps to a time bound and never gains input.\<close>

lemma turn_byte_bounds:
  assumes "turn_byte d t c st w = (r, st', w')"
  shows "stream_left st' w' \<le> stream_left st w" "clock w' \<le> max (clock w) d"
    "r = Ok b \<Longrightarrow> c = None \<Longrightarrow> stream_left st' w' < stream_left st w"
  using assms by (auto simp: turn_byte_def split: option.splits dest: nvt_read_le nvt_read_clock nvt_read_Ok_shrinks)

lemma esc_peek_bounds:
  assumes "esc_peek t p b st w = (r, st', w')"
  shows "stream_left st' w' \<le> stream_left st w" "clock w' \<le> clock w + ESC_ALONE_MS"
  using assms
  by (auto simp: esc_peek_def split: if_splits prod.splits outcome.splits dest: nvt_read_le nvt_read_clock)

lemma accept_loop_bounds:
  "accept_loop d t p a wn f c st w = (r, st', w') \<Longrightarrow>
   stream_left st' w' \<le> stream_left st w \<and> clock w' \<le> max (clock w) (d + ESC_ALONE_MS) \<and>
   (c = None \<longrightarrow> (\<exists>x. r = Inr (Some x)) \<longrightarrow> stream_left st' w' < stream_left st w)"
proof (induction d t p a wn f c st w arbitrary: r st' w' rule: accept_loop.induct)
  case (1 d t p a wn f c st w)
  obtain x st1 w1 where x: "turn_byte d t c st w = (x, st1, w1)" by (cases "turn_byte d t c st w")
  obtain y st2 w2 where y: "esc_peek t p (case x of Ok b \<Rightarrow> b | _ \<Rightarrow> 0) st1 w1 = (y, st2, w2)"
    by (cases "esc_peek t p (case x of Ok b \<Rightarrow> b | _ \<Rightarrow> 0) st1 w1")
  note xb = turn_byte_bounds [OF x] and yb = esc_peek_bounds [OF y]
  show ?case
  proof (cases "\<exists>b c'. \<not> d \<le> clock w \<and> x = Ok b \<and> y = Ok c'")
    case False
    then show ?thesis
      using "1.prems" xb yb x y
      by (subst (asm) accept_loop.simps) (auto simp: no_code_def split: if_splits outcome.splits prod.splits)
  next
    case True
    then obtain b c' where b: "\<not> d \<le> clock w" "x = Ok b" "y = Ok c'" by blast
    let ?wn = "drop 1 wn @ [b]" and ?f = "if f < 3 then f + 1 else f"
    have e: "esc_peek t p b st1 w1 = (Ok c', st2, w2)" using y b by simp
    have less: "c = None \<Longrightarrow> stream_left st2 w2 < stream_left st w" using xb(1) xb(3) [of b] yb(1) b(2) by simp
    have le: "stream_left st2 w2 \<le> stream_left st w" "clock w2 \<le> d + ESC_ALONE_MS"
      using xb yb b(1) by auto
    note ih = "1.IH" [OF b(1) x [symmetric] b(2) refl e [symmetric] refl refl refl refl]
    show ?thesis
    proof (cases "window_code a ?wn ?f")
      case (Some k)
      then have "r = Inr (Some k)" "st' = st2" "w' = w2"
        using "1.prems" b x e by (subst (asm) accept_loop.simps; simp add: Let_def)+
      with le less show ?thesis by auto
    next
      case None
      then have "accept_loop d t p a ?wn ?f c' st2 w2 = (r, st', w')"
        using "1.prems" b x e by (subst (asm) accept_loop.simps) (simp add: Let_def)
      with ih None le less show ?thesis by fastforce
    qed
  qed
qed

lemma bounded_send_code [invar_intros]: "bounded d (send_code t c)"
  by (simp add: send_code_def bounded_write)

definition wait_ms :: "nat \<Rightarrow> nat" where
  "wait_ms secs = secs * 1000 + ESC_ALONE_MS"

lemma accept_code_bounds:
  assumes "accept_code t p a secs l = (r, l')"
  shows "link_left l' \<le> link_left l" "now l' \<le> now l + wait_ms secs"
    "r = Inr (Some c) \<Longrightarrow> link_left l' < link_left l"
proof -
  obtain st w where m: "accept_loop (now l + secs * 1000) t p a [0, 0, 0] 0 None (rst l) (inw l) = (r, st, w)"
      and l': "l' = l\<lparr>rst := st, inw := w\<rparr>"
    using assms by (auto simp: accept_code_def on_reader_def split: prod.splits)
  from accept_loop_bounds [OF m] l' show "link_left l' \<le> link_left l" "now l' \<le> now l + wait_ms secs"
    "r = Inr (Some c) \<Longrightarrow> link_left l' < link_left l"
    by (auto simp: link_left_def wait_ms_def)
qed

lemma bounded_accept_code [invar_intros]: "bounded (wait_ms secs) (accept_code t p a secs)"
  by (rule boundedI) (auto dest: accept_code_bounds)

lemma bounded_optional_send: "bounded 0 (case c of Some k \<Rightarrow> send_code t k | None \<Rightarrow> lpure ())"
  by (auto intro!: invar_intros split: option.splits)

lemma bounded_probe_for: "bounded (n * wait_ms secs) (probe_for n t p c a secs)"
proof (induction n)
  case (Suc n)
  have "bounded (n * wait_ms secs) (case r of Some k \<Rightarrow> lpure (Some k) | None \<Rightarrow> probe_for n t p c a secs)" for r
    using Suc by (auto intro: invar_intros split: option.splits)
  then have "bounded (0 + (wait_ms secs + n * wait_ms secs)) (probe_for (Suc n) t p c a secs)"
    unfolding probe_for.simps by (intro bounded_lbind bounded_optional_send bounded_accept_code)
  then show ?case by simp
qed (simp add: bounded_lpure)

lemma probe_for_heard:
  "probe_for n t p c a secs l = (Inr (Some k), l') \<Longrightarrow> link_left l' < link_left l"
proof (induction n arbitrary: l)
  case (Suc n)
  from Suc.prems obtain u l1 r l2 where
      s: "(case c of Some k \<Rightarrow> send_code t k | None \<Rightarrow> lpure ()) l = (Inr u, l1)"
    and m: "accept_code t p a secs l1 = (Inr r, l2)"
    and f: "(case r of Some c \<Rightarrow> lpure (Some c) | None \<Rightarrow> probe_for n t p c a secs) l2 = (Inr (Some k), l')"
    by (auto elim!: lbind_InrE)
  have "link_left l1 \<le> link_left l" using bounded_optional_send s by (rule boundedD)
  with Suc.IH f accept_code_bounds [OF m] show ?case
    by (cases r) (fastforce simp: lpure_def)+
qed (simp add: lpure_def)

lemma read_bytes_bounds:
  "read_bytes n bw t st w = (bs, st', w') \<Longrightarrow>
   stream_left st' w' \<le> stream_left st w \<and> clock w' \<le> clock w + n * (bw * 1000) \<and> length bs \<le> n"
proof (induction n arbitrary: st w bs)
  case (Suc n)
  obtain x st1 w1 where x: "nvt_read_byte (Some (clock w + bw * 1000)) t st w = (x, st1, w1)"
    by (cases "nvt_read_byte (Some (clock w + bw * 1000)) t st w")
  from nvt_read_le [OF x] nvt_read_clock [OF x] x Suc.prems show ?case
    by (auto split: outcome.splits prod.splits dest!: Suc.IH)
qed simp

lemma bounded_read_block_loop: "bounded (n * (sz * (bw * 1000))) (read_block_loop n sz bw t)"
proof (induction n)
  case (Suc n)
  have "bounded (sz * (bw * 1000) + n * (sz * (bw * 1000))) (\<lambda>l. case on_reader (read_bytes sz bw t) l of
         (buf, l') \<Rightarrow> if length buf = 3 \<and> from_window buf = Some Ack then read_block_loop n sz bw t l'
           else if buf = [] then read_block_loop n sz bw t l' else (Inr buf, l'))" (is "bounded _ ?m")
  proof (rule boundedI)
    fix l r l' assume m: "?m l = (r, l')"
    obtain buf st w where b: "read_bytes sz bw t (rst l) (inw l) = (buf, st, w)"
      by (cases "read_bytes sz bw t (rst l) (inw l)")
    let ?l = "l\<lparr>rst := st, inw := w\<rparr>"
    have l: "link_left ?l \<le> link_left l" "now ?l \<le> now l + sz * (bw * 1000)"
      using read_bytes_bounds [OF b] by (auto simp: link_left_def)
    have "l' = ?l \<or> read_block_loop n sz bw t ?l = (r, l')"
      using m b by (auto simp: on_reader_def split: if_splits)
    with l boundedD [OF Suc] show "link_left l' \<le> link_left l \<and> now l' \<le> now l + (sz * (bw * 1000) + n * (sz * (bw * 1000)))"
      by fastforce
  qed
  then have "bounded (0 + (sz * (bw * 1000) + n * (sz * (bw * 1000)))) (read_block_loop (Suc n) sz bw t)"
    unfolding read_block_loop.simps by (intro bounded_lbind bounded_send_code)
  then show ?case by simp
qed (simp add: bounded_lfail)

definition block_ms :: "Tunables \<Rightarrow> nat" where
  "block_ms t = (max_retries t + 1) * (255 * (probe_secs (block_timeout t) t * 1000))"

lemma bounded_read_block: "bounded (block_ms t) (read_block is_tcp sz t)"
proof -
  have sz: "unat sz \<le> 255" using unat_byte_less [of sz] by linarith
  show ?thesis
    unfolding read_block_def block_ms_def
    by (intro bounded_mono [OF bounded_read_block_loop] mult_le_mono) (use sz in auto)
qed

text \<open>A round that goes on has consumed input.\<close>

lemma receive_round_progress:
  assumes "receive_round is_tcp p t s l = (Inr r, l')"
  shows "link_left l' < link_left l"
proof -
  define b where "b = (if rx_none s \<and> rx_signal s = Goo then negotiation_timeout t else block_timeout t)"
  from assms obtain got l1 where
      g: "probe_for (probe_attempts b t) is_tcp p (Some (rx_signal s)) [Ack] (probe_secs b t) l = (Inr got, l1)"
    and f: "(if got = None then lfail PNoAck else lbind (read_block is_tcp (rx_next s) t)
              (\<lambda>blk. case take_block t s blk of Inl e \<Rightarrow> lfail e | Inr r \<Rightarrow> lpure r)) l1 = (Inr r, l')"
    unfolding receive_round_def Let_def b_def [symmetric] by (rule lbind_InrE)
  from f obtain k where k: "got = Some k" by (cases got) (auto simp: lfail_def)
  with f obtain blk l2 where "read_block is_tcp (rx_next s) t l1 = (Inr blk, l2)"
      "(case take_block t s blk of Inl e \<Rightarrow> lfail e | Inr r \<Rightarrow> lpure r) l2 = (Inr r, l')"
    by (auto elim: lbind_InrE)
  then have "link_left l' \<le> link_left l1"
    using boundedD [OF bounded_read_block] by (fastforce simp: lfail_def lpure_def split: sum.splits)
  with g k show ?thesis by (auto dest: probe_for_heard)
qed

function receive_loop ::
    "bool \<Rightarrow> bool \<Rightarrow> Tunables \<Rightarrow> bool \<Rightarrow> rx_state \<Rightarrow> (punter_error, byte list) lk" where
  "receive_loop is_tcp is_petscii t last_phase s l =
     (case receive_round is_tcp is_petscii t s l of
        (Inl e, l') \<Rightarrow> (Inl e, l')
      | (Inr (Inl s'), l') \<Rightarrow> receive_loop is_tcp is_petscii t last_phase s' l'
      | (Inr (Inr out), l') \<Rightarrow> (Inr out, end_off_receiver is_tcp is_petscii t last_phase l'))"
  by pat_completeness auto
termination
  by (relation "measure (\<lambda>(is_tcp, p, t, lp, s, l). link_left l)")
    (auto dest!: receive_round_progress [OF sym])

declare receive_loop.simps [simp del]

definition receive_phase ::
    "bool \<Rightarrow> bool \<Rightarrow> byte \<Rightarrow> Tunables \<Rightarrow> bool \<Rightarrow> (punter_error, byte list) lk" where
  "receive_phase is_tcp is_petscii initial_size t last_phase =
     receive_loop is_tcp is_petscii t last_phase (init_rx initial_size)"

definition type_from_payload :: "byte list \<Rightarrow> PunterFileType" where
  "type_from_payload pl = (case pl of [] \<Rightarrow> Unknown | b # _ \<Rightarrow> from_byte b)"

text \<open>A transfer starts with a fresh read state; the caller gives the wire and the writer.\<close>

definition punter_receive ::
    "punter_config \<Rightarrow> bool \<Rightarrow> bool \<Rightarrow> wire \<Rightarrow> writer \<Rightarrow> (punter_error + byte list \<times> PunterFileType) \<times> link" where
  "punter_receive cfg is_tcp is_petscii w wr =
     (let t = load_Tunables cfg
      in lbind (receive_phase is_tcp is_petscii TYPE_PHASE_SIZE t False) (\<lambda>type_payload.
         lbind (receive_phase is_tcp is_petscii DATA_PHASE_FIRST_SIZE t True) (\<lambda>data.
           lpure (data, type_from_payload type_payload)))
         \<lparr>rst = default_ReadState, inw = w, outw = wr\<rparr>)"


section \<open>Sending\<close>

definition end_off_sender :: "bool \<Rightarrow> bool \<Rightarrow> Tunables \<Rightarrow> link \<Rightarrow> link" where
  "end_off_sender is_tcp is_petscii t l =
     (let probe = probe_secs (block_timeout t) t;
          attempts = probe_attempts (block_timeout t) t;
          closing = \<lambda>l. snd (send_code is_tcp Sb l)
      in closing (closing (closing
           (snd (lbind (probe_for attempts is_tcp is_petscii (Some Ack) [Sb] probe) (\<lambda>_.
                 probe_for attempts is_tcp is_petscii (Some Syn) [Syn] probe) l)))))"

record tx_state =
  tx_idx :: nat
  tx_started :: bool
  tx_resend :: nat

text \<open>
  What the receiver's answer does to the state of a phase: \<open>Inr None\<close> ends the phase, \<open>Inr (Some s)\<close>
  sends the block \<open>tx_idx s\<close>. Indexing past the blocks, a panic in the source, is an error here.
\<close>

definition take_answer :: "Tunables \<Rightarrow> byte list list \<Rightarrow> tx_state \<Rightarrow> Code \<Rightarrow> punter_error + tx_state option" where
  "take_answer t blocks s code =
     (if code = Goo
      then if tx_started s
           then if \<not> tx_idx s < length blocks then Inl PIndexOutOfRange
                else if is_final_block (blocks ! tx_idx s) then Inr None
                else Inr (Some \<lparr>tx_idx = tx_idx s + 1, tx_started = True, tx_resend = 0\<rparr>)
           else Inr (Some \<lparr>tx_idx = tx_idx s, tx_started = True, tx_resend = 0\<rparr>)
      else let resend_rounds = saturating_inc (tx_resend s)
           in if resend_rounds > max_bad_rounds t then Inl (PResends resend_rounds (tx_idx s))
              else Inr (Some \<lparr>tx_idx = tx_idx s, tx_started = True, tx_resend = resend_rounds\<rparr>))"

definition send_round ::
    "bool \<Rightarrow> bool \<Rightarrow> Tunables \<Rightarrow> bool \<Rightarrow> byte list list \<Rightarrow> tx_state \<Rightarrow> (punter_error, tx_state option) lk" where
  "send_round is_tcp is_petscii t spec_mode blocks s =
     (let total_budget = (if tx_started s then block_timeout t else negotiation_timeout t)
      in lbind (probe_for (probe_attempts total_budget t) is_tcp is_petscii
                 (if spec_mode \<and> \<not> tx_started s then Some Goo else None) [Goo, Bad, Sb]
                 (probe_secs total_budget t)) (\<lambda>code.
           case code of None \<Rightarrow> lfail PNoResponse
           | Some c \<Rightarrow> (case take_answer t blocks s c of
                 Inl e \<Rightarrow> lfail e
               | Inr None \<Rightarrow> lpure None
               | Inr (Some s') \<Rightarrow>
                   lbind (probe_for (probe_attempts (block_timeout t) t) is_tcp is_petscii (Some Ack) [Sb]
                           (probe_secs (block_timeout t) t)) (\<lambda>got_sb.
                     if got_sb = None then lfail PNoSb
                     else if \<not> tx_idx s' < length blocks then lfail PIndexOutOfRange
                     else lbind (on_writer PIo is_tcp (blocks ! tx_idx s')) (\<lambda>_. lpure (Some s'))))))"

lemma send_round_progress:
  assumes "send_round is_tcp p t sm blocks s l = (Inr r, l')"
  shows "link_left l' < link_left l"
proof -
  define b where "b = (if tx_started s then block_timeout t else negotiation_timeout t)"
  from assms obtain code l1 where
      g: "probe_for (probe_attempts b t) is_tcp p (if sm \<and> \<not> tx_started s then Some Goo else None) [Goo, Bad, Sb]
            (probe_secs b t) l = (Inr code, l1)"
    and f: "(case code of None \<Rightarrow> lfail PNoResponse
           | Some c \<Rightarrow> (case take_answer t blocks s c of
                 Inl e \<Rightarrow> lfail e
               | Inr None \<Rightarrow> lpure None
               | Inr (Some s') \<Rightarrow>
                   lbind (probe_for (probe_attempts (block_timeout t) t) is_tcp p (Some Ack) [Sb]
                           (probe_secs (block_timeout t) t)) (\<lambda>got_sb.
                     if got_sb = None then lfail PNoSb
                     else if \<not> tx_idx s' < length blocks then lfail PIndexOutOfRange
                     else lbind (on_writer PIo is_tcp (blocks ! tx_idx s')) (\<lambda>_. lpure (Some s'))))) l1 = (Inr r, l')"
    unfolding send_round_def Let_def b_def [symmetric] by (rule lbind_InrE)
  from f obtain k where k: "code = Some k" by (cases code) (auto simp: lfail_def)
  have "link_left l' \<le> link_left l1"
  proof (cases "take_answer t blocks s k")
    case (Inl e)
    with f k show ?thesis by (simp add: lfail_def)
  next
    case (Inr o')
    then show ?thesis
    proof (cases o')
      case None
      with f k Inr show ?thesis by (simp add: lpure_def)
    next
      case (Some s')
      with f k Inr obtain sb l2 where
          "probe_for (probe_attempts (block_timeout t) t) is_tcp p (Some Ack) [Sb] (probe_secs (block_timeout t) t) l1 = (Inr sb, l2)"
          "(if sb = None then lfail PNoSb else if \<not> tx_idx s' < length blocks then lfail PIndexOutOfRange
            else lbind (on_writer PIo is_tcp (blocks ! tx_idx s')) (\<lambda>_. lpure (Some s'))) l2 = (Inr r, l')"
        by (auto elim: lbind_InrE)
      then show ?thesis
        using boundedD(1) [OF bounded_probe_for]
        by (auto simp: lfail_def lpure_def on_writer_def lbind_def link_left_def split: if_splits prod.splits outcome.splits)
    qed
  qed
  with g k show ?thesis by (auto dest: probe_for_heard)
qed

function send_loop ::
    "bool \<Rightarrow> bool \<Rightarrow> Tunables \<Rightarrow> bool \<Rightarrow> byte list list \<Rightarrow> tx_state \<Rightarrow> (punter_error, unit) lk" where
  "send_loop is_tcp is_petscii t spec_mode blocks s l =
     (case send_round is_tcp is_petscii t spec_mode blocks s l of
        (Inl e, l') \<Rightarrow> (Inl e, l')
      | (Inr None, l') \<Rightarrow> (Inr (), end_off_sender is_tcp is_petscii t l')
      | (Inr (Some s'), l') \<Rightarrow> send_loop is_tcp is_petscii t spec_mode blocks s' l')"
  by pat_completeness auto
termination
  by (relation "measure (\<lambda>(is_tcp, p, t, sm, blocks, s, l). link_left l)")
    (auto dest!: send_round_progress [OF sym])

declare send_loop.simps [simp del]

definition send_phase ::
    "bool \<Rightarrow> bool \<Rightarrow> byte list list \<Rightarrow> bool \<Rightarrow> Tunables \<Rightarrow> (punter_error, unit) lk" where
  "send_phase is_tcp is_petscii blocks spec_mode t =
     send_loop is_tcp is_petscii t spec_mode blocks \<lparr>tx_idx = 0, tx_started = False, tx_resend = 0\<rparr>"

definition punter_send ::
    "punter_config \<Rightarrow> byte list \<Rightarrow> PunterFileType \<Rightarrow> bool \<Rightarrow> bool \<Rightarrow> wire \<Rightarrow> writer \<Rightarrow> (punter_error + unit) \<times> link" where
  "punter_send cfg data file_type is_tcp is_petscii w wr =
     (let l = \<lparr>rst = default_ReadState, inw = w, outw = wr\<rparr>;
          t = load_Tunables cfg
      in if length data > MAX_FILE_SIZE then (Inl PTooLarge, l)
         else case build_data_blocks data (block_payload t) of
             Inl e \<Rightarrow> (Inl (PBuild e), l)
           | Inr data_blocks \<Rightarrow>
               lbind (send_phase is_tcp is_petscii (build_type_block file_type) True t) (\<lambda>_.
                 send_phase is_tcp is_petscii data_blocks False t) l)"

end
