(* ===== verification/Punter_Correct.thy ===== *)
theory Punter_Correct
  imports Punter_Transfer
begin

text \<open>
  What the Punter engines guarantee. The receiver is run against every delivery a conforming
  sender can make over a link that corrupts blocks and repeats them (\<open>delivery\<close>, an inductive
  relation on the bytes that arrive), and against an arbitrary peer; the sender is run against
  the answers of a receiver that accepts blocks or asks for them again.
\<close>

section \<open>Waiting for a code\<close>

text \<open>The reference for a handshake wait: the first window of three bytes that spells a code.\<close>

fun scan_codes :: "Code list \<Rightarrow> byte list \<Rightarrow> nat \<Rightarrow> byte list \<Rightarrow> (Code \<times> byte list) option" where
  "scan_codes a wn f [] = None"
| "scan_codes a wn f (b # bs) =
     (let wn' = drop 1 wn @ [b]; f' = (if f < 3 then f + 1 else f)
      in case window_code a wn' f' of Some c \<Rightarrow> Some (c, bs) | None \<Rightarrow> scan_codes a wn' f' bs)"

definition code_stream :: "Code list \<Rightarrow> byte list" where
  "code_stream cs = concat (map code_bytes cs)"

lemma code_stream_simps [simp]:
  "code_stream [] = []"
  "code_stream (c # cs) = code_bytes c @ code_stream cs"
  "code_stream (cs @ ds) = code_stream cs @ code_stream ds"
  by (simp_all add: code_stream_def)

lemma length_code_stream: "length (code_stream cs) = 3 * length cs"
proof (induction cs)
  case (Cons c cs)
  then show ?case by (cases c) simp_all
qed simp

lemma code_stream_no_esc: "b \<in> set (code_stream cs) \<Longrightarrow> \<not> is_esc_key b p"
proof (induction cs)
  case (Cons c cs)
  then show ?case by (cases c) (auto simp: is_esc_key_def)
qed simp

lemma upper_code_byte: "in_range 0x61 0x7A b = False \<Longrightarrow> to_ascii_uppercase_byte b = b"
  by (simp add: to_ascii_uppercase_byte_def)

lemma from_window_simp:
  "from_window [x, y, z] =
     (let u = (to_ascii_uppercase_byte x, to_ascii_uppercase_byte y, to_ascii_uppercase_byte z)
      in if u = (0x47, 0x4F, 0x4F) then Some Goo else if u = (0x42, 0x41, 0x44) then Some Bad
         else if u = (0x41, 0x43, 0x4B) then Some Ack else if u = (0x53, 0x2F, 0x42) then Some Sb
         else if u = (0x53, 0x59, 0x4E) then Some Syn else None)"
  by (simp add: from_window_def to_ascii_uppercase_def Let_def)

lemmas window_simps = window_code_def from_window_simp to_ascii_uppercase_byte_def in_range_def

lemma window_code_bytes: "window_code a (code_bytes c) 3 = (if c \<in> set a then Some c else None)"
  by (cases c) (simp_all add: window_simps)

text \<open>No code hides across the seam of two others.\<close>

lemma window_code_seam:
  "window_code a (drop 1 (code_bytes q) @ take 1 (code_bytes c)) 3 = None"
  "window_code a (drop 2 (code_bytes q) @ take 2 (code_bytes c)) 3 = None"
  by (cases q; cases c; simp add: window_simps)+

lemma code_bytes_cases: obtains x y z where "code_bytes c = [x, y, z]"
  by (cases c) auto

lemma scan_one_code:
  assumes "f = 0 \<and> length wn = 3 \<or> f = 3 \<and> wn = code_bytes q"
  shows "scan_codes a wn f (code_bytes c @ bs) =
    (if c \<in> set a then Some (c, bs) else scan_codes a (code_bytes c) 3 bs)"
proof -
  obtain x y z where c: "code_bytes c = [x, y, z]" by (rule code_bytes_cases)
  from window_code_bytes [of a c] have full: "window_code a [x, y, z] 3 = (if c \<in> set a then Some c else None)"
    by (simp add: c)
  from assms show ?thesis
  proof
    assume "f = 0 \<and> length wn = 3"
    then obtain i j k where "wn = [i, j, k]" "f = 0" by (auto simp: numeral_3_eq_3 length_Suc_conv)
    then show ?thesis by (simp add: c window_code_def [of a _ "Suc 0"] window_code_def [of a _ 2] full
        Let_def numeral_2_eq_2 [symmetric] numeral_3_eq_3 [symmetric])
  next
    assume w: "f = 3 \<and> wn = code_bytes q"
    obtain i j k where q: "code_bytes q = [i, j, k]" by (rule code_bytes_cases)
    from window_code_seam [of a q c] show ?thesis
      using w by (simp add: c q full Let_def)
  qed
qed

lemma scan_codes_stream:
  "f = 0 \<and> length wn = 3 \<or> f = 3 \<and> wn = code_bytes q \<Longrightarrow> \<forall>k \<in> set cs. k \<notin> set a \<Longrightarrow> c \<in> set a \<Longrightarrow>
   scan_codes a wn f (code_stream (cs @ [c])) = Some (c, [])"
proof (induction cs arbitrary: wn f q)
  case Nil
  then show ?case using scan_one_code [of f wn q a c "[]"] by simp
next
  case (Cons k cs)
  have "scan_codes a wn f (code_stream ((k # cs) @ [c])) = scan_codes a (code_bytes k) 3 (code_stream (cs @ [c]))"
    using Cons.prems scan_one_code [of f wn q a k "code_stream (cs @ [c])"] by simp
  also have "\<dots> = Some (c, [])" using Cons.prems by (intro Cons.IH [where q = k]) auto
  finally show ?case .
qed

lemma accept_loop_scan:
  "steady g (wire_form t (pre @ rest)) w w' \<Longrightarrow> scan_codes a wn f pre = Some (c, []) \<Longrightarrow>
   \<forall>b \<in> set pre. \<not> is_esc_key b p \<Longrightarrow> pushback st = None \<Longrightarrow> g \<le> 5000 \<Longrightarrow> clock w + 2 * g * length pre < d \<Longrightarrow>
   \<exists>v. accept_loop d t p a wn f None st w = (Inr (Some c), st, v) \<and> steady g (wire_form t rest) v w'"
proof (induction pre arbitrary: wn f w)
  case (Cons b pre)
  let ?wn = "drop 1 wn @ [b]" and ?f = "if f < 3 then f + 1 else f"
  have time: "clock w < d" "clock w + 2 * g \<le> d" using Cons.prems(6) by auto
  from Cons.prems(1) have "steady g (wire_form t (b # (pre @ rest))) w w'" by simp
  then obtain v where v: "nvt_read_byte (Some d) t st w = (Ok b, st, v)"
      "steady g (wire_form t (pre @ rest)) v w'" "clock v \<le> clock w + 2 * g"
    using Cons.prems(4,5) time(2) by (rule steady_nvt)
  have step: "accept_loop d t p a wn f None st w = (case window_code a ?wn ?f of
      Some c \<Rightarrow> (Inr (Some c), st, v) | None \<Rightarrow> accept_loop d t p a ?wn ?f None st v)"
    using time(1) v(1) Cons.prems(3)
    by (subst accept_loop.simps) (simp add: turn_byte_def esc_peek_def Let_def cong: option.case_cong)
  show ?case
  proof (cases "window_code a ?wn ?f")
    case (Some k)
    with Cons.prems(2) have "k = c" "pre = []" by (auto simp: Let_def)
    with Some step v(2) show ?thesis by auto
  next
    case None
    with Cons.prems(2) have "scan_codes a ?wn ?f pre = Some (c, [])" by (simp add: Let_def)
    moreover have "clock v + 2 * g * length pre < d" using v(3) Cons.prems(6) by (simp add: algebra_simps)
    ultimately have "\<exists>u. accept_loop d t p a ?wn ?f None st v = (Inr (Some c), st, u) \<and> steady g (wire_form t rest) u w'"
      using v(2) Cons.prems(3,4,5) by (intro Cons.IH) auto
    with None step show ?thesis by simp
  qed
qed simp


section \<open>A link that carries known bytes\<close>

text \<open>
  \<open>carrying t g w' bs l\<close>: nothing is pushed back, the writer works, and the link brings the bytes
  \<open>bs\<close> steadily, after which the wire is \<open>w'\<close>. Each engine operation takes its part of them.
\<close>

definition carrying :: "bool \<Rightarrow> nat \<Rightarrow> wire \<Rightarrow> byte list \<Rightarrow> link \<Rightarrow> bool" where
  "carrying t g w' bs l \<longleftrightarrow> pushback (rst l) = None \<and> broken (outw l) = None \<and> steady g (wire_form t bs) (inw l) w'"

lemma carrying_send:
  assumes "carrying t g w' bs l"
  obtains l' where "send_code t c l = (Inr (), l')" "carrying t g w' bs l'"
    "sent (outw l') = sent (outw l) @ wire_form t (code_bytes c)"
  using assms
  by (auto simp: carrying_def send_code_def on_writer_def raw_write_bytes_def wire_form_def intro: that)

lemma carrying_accept:
  assumes "carrying t g w' (code_stream (cs @ [c]) @ rest) l"
    and "\<forall>k \<in> set cs. k \<notin> set a" "c \<in> set a" "g \<le> 5000" "6 * g * (length cs + 1) < secs * 1000"
  obtains l' where "accept_code t p a secs l = (Inr (Some c), l')" "carrying t g w' rest l'" "outw l' = outw l"
proof -
  let ?pre = "code_stream (cs @ [c])"
  have "scan_codes a [0, 0, 0] 0 ?pre = Some (c, [])"
    using assms(2,3) by (intro scan_codes_stream) auto
  moreover have "now l + 2 * g * length ?pre < now l + secs * 1000"
    using assms(5) unfolding length_code_stream by (simp add: algebra_simps)
  ultimately obtain v where "accept_loop (now l + secs * 1000) t p a [0, 0, 0] 0 None (rst l) (inw l) = (Inr (Some c), rst l, v)"
      "steady g (wire_form t rest) v w'"
    using assms(1,4) accept_loop_scan [of g t ?pre rest "inw l" w' a "[0, 0, 0]" 0 c p "rst l"] code_stream_no_esc
    unfolding carrying_def by blast
  then show thesis
    using assms(1) by (intro that [of "l\<lparr>inw := v\<rparr>"]) (auto simp: accept_code_def on_reader_def carrying_def)
qed

lemma carrying_probe:
  assumes "carrying t g w' (code_stream (cs @ [c]) @ rest) l" "0 < n"
    and "\<forall>k \<in> set cs. k \<notin> set a" "c \<in> set a" "g \<le> 5000" "6 * g * (length cs + 1) < secs * 1000"
  obtains l' where "probe_for n t p code a secs l = (Inr (Some c), l')" "carrying t g w' rest l'"
    "sent (outw l') = sent (outw l) @ (case code of Some k \<Rightarrow> wire_form t (code_bytes k) | None \<Rightarrow> [])"
proof -
  obtain m where n: "n = Suc m" using assms(2) by (cases n) auto
  obtain l1 where l1: "(case code of Some k \<Rightarrow> send_code t k | None \<Rightarrow> lpure ()) l = (Inr (), l1)"
      "carrying t g w' (code_stream (cs @ [c]) @ rest) l1"
      "sent (outw l1) = sent (outw l) @ (case code of Some k \<Rightarrow> wire_form t (code_bytes k) | None \<Rightarrow> [])"
    using assms(1) by (cases code) (auto simp: lpure_def elim: carrying_send)
  obtain l2 where l2: "accept_code t p a secs l1 = (Inr (Some c), l2)" "carrying t g w' rest l2" "outw l2 = outw l1"
    by (rule carrying_accept [OF l1(2) assms(3-6)])
  have "probe_for n t p code a secs l = (Inr (Some c), l2)"
    by (simp add: n lbind_def l1(1) l2(1) lpure_def)
  then show thesis using l2 l1(3) by (intro that [of l2]) auto
qed

lemma read_bytes_steady:
  "steady g (wire_form t (bs @ rest)) w w' \<Longrightarrow> pushback st = None \<Longrightarrow> g \<le> 5000 \<Longrightarrow> 2 * g \<le> bw * 1000 \<Longrightarrow>
   \<exists>v. read_bytes (length bs) bw t st w = (bs, st, v) \<and> steady g (wire_form t rest) v w'"
proof (induction bs arbitrary: w)
  case (Cons b bs)
  have "steady g (wire_form t (b # (bs @ rest))) w w'" using Cons.prems(1) by simp
  then obtain v where v: "nvt_read_byte (Some (clock w + bw * 1000)) t st w = (Ok b, st, v)"
      "steady g (wire_form t (bs @ rest)) v w'"
    using Cons.prems by (elim steady_nvt [where u = "clock w + bw * 1000"]) auto
  from Cons.IH [OF v(2)] Cons.prems v(1) show ?case by auto
qed simp

lemma carrying_read_block:
  assumes "carrying is_tcp g w' (b @ rest) l" "length b = unat sz" "DATAPOS \<le> length b"
    and "g \<le> 5000" "2 * g \<le> probe_secs (block_timeout t) t * 1000"
  obtains l' where "read_block is_tcp sz t l = (Inr b, l')" "carrying is_tcp g w' rest l'"
    "sent (outw l') = sent (outw l) @ wire_form is_tcp (code_bytes Sb)"
proof -
  let ?bw = "probe_secs (block_timeout t) t"
  obtain l1 where l1: "send_code is_tcp Sb l = (Inr (), l1)" "carrying is_tcp g w' (b @ rest) l1"
      "sent (outw l1) = sent (outw l) @ wire_form is_tcp (code_bytes Sb)"
    using assms(1) by (rule carrying_send)
  then obtain v where v: "read_bytes (length b) ?bw is_tcp (rst l1) (inw l1) = (b, rst l1, v)"
      "steady g (wire_form is_tcp rest) v w'"
    using read_bytes_steady assms(4,5) unfolding carrying_def by blast
  have "length b \<noteq> 3" "b \<noteq> []" using assms(3) by (auto simp: DATAPOS_def)
  then have "read_block is_tcp sz t l = (Inr b, l1\<lparr>inw := v\<rparr>)"
    using v(1) assms(2) by (simp add: read_block_def lbind_def l1(1) on_reader_def)
  then show thesis using l1(2,3) v(2) by (intro that [of "l1\<lparr>inw := v\<rparr>"]) (auto simp: carrying_def)
qed

text \<open>
  \<open>in_tune g n t\<close>: the gap between bytes leaves room, within one wait, for \<open>n\<close> stale codes and the
  code waited for, on a link that may double every byte.
\<close>

definition in_tune :: "nat \<Rightarrow> nat \<Rightarrow> Tunables \<Rightarrow> bool" where
  "in_tune g n t \<longleftrightarrow> g \<le> 5000 \<and> max_bad_rounds t < 2 ^ 32 - 1 \<and>
     6 * g * (n + 1) < probe_secs (block_timeout t) t * 1000 \<and>
     6 * g * (n + 1) < probe_secs (negotiation_timeout t) t * 1000"

lemma in_tune_mono: "in_tune g n t \<Longrightarrow> m \<le> n \<Longrightarrow> in_tune g m t"
proof -
  assume a: "in_tune g n t" "m \<le> n"
  then have "6 * g * (m + 1) \<le> 6 * g * (n + 1)" by simp
  with a show ?thesis unfolding in_tune_def by linarith
qed

definition handshake :: "nat \<Rightarrow> byte list \<Rightarrow> bool" where
  "handshake n hs \<longleftrightarrow> (\<exists>cs. hs = code_stream (cs @ [Ack]) \<and> Ack \<notin> set cs \<and> length cs \<le> n)"

lemma probe_attempts_pos [simp]: "0 < probe_attempts b t"
  by (simp add: probe_attempts_def)

text \<open>One code sent, and the answer at once.\<close>

lemma carrying_ask:
  assumes "carrying is_tcp g w' (code_bytes c @ rest) l" "in_tune g n t" "c \<in> set a"
  obtains l' where "probe_for (probe_attempts (block_timeout t) t) is_tcp p (Some k) a (probe_secs (block_timeout t) t) l = (Inr (Some c), l')"
    "carrying is_tcp g w' rest l'" "sent (outw l') = sent (outw l) @ wire_form is_tcp (code_bytes k)"
proof -
  have time: "g \<le> 5000" "6 * g * (length ([] :: Code list) + 1) < probe_secs (block_timeout t) t * 1000"
    using in_tune_mono [OF assms(2), of 0] by (auto simp: in_tune_def)
  have "carrying is_tcp g w' (code_stream ([] @ [c]) @ rest) l" using assms(1) by simp
  from carrying_probe [OF this probe_attempts_pos _ assms(3) time, of "block_timeout t" t p "Some k"]
  show thesis by (auto intro: that)
qed

lemma carrying_round:
  assumes c: "carrying is_tcp g w' (hs @ b @ rest) l" and hs: "handshake n hs"
    and b: "length b = unat (rx_next s)" "DATAPOS \<le> length b" and tune: "in_tune g n t"
  obtains l' where "carrying is_tcp g w' rest l'"
    "receive_round is_tcp p t s l = (case take_block t s b of Inl e \<Rightarrow> (Inl e, l') | Inr r \<Rightarrow> (Inr r, l'))"
    "sent (outw l') = sent (outw l) @ wire_form is_tcp (code_stream [rx_signal s, Sb])"
proof -
  define bud where "bud = (if rx_none s \<and> rx_signal s = Goo then negotiation_timeout t else block_timeout t)"
  from hs obtain cs where cs: "hs = code_stream (cs @ [Ack])" "Ack \<notin> set cs" "length cs \<le> n"
    by (auto simp: handshake_def)
  have tune': "in_tune g (length cs) t" using tune cs(3) by (rule in_tune_mono)
  then have "6 * g * (length cs + 1) < probe_secs bud t * 1000"
    unfolding in_tune_def bud_def by (cases "rx_none s \<and> rx_signal s = Goo") auto
  moreover have "carrying is_tcp g w' (code_stream (cs @ [Ack]) @ b @ rest) l" using c cs(1) by simp
  moreover have "\<forall>k \<in> set cs. k \<notin> set [Ack]" "Ack \<in> set [Ack]" "g \<le> 5000"
    using cs(2) tune by (auto simp: in_tune_def)
  ultimately obtain l1 where l1: "probe_for (probe_attempts bud t) is_tcp p (Some (rx_signal s)) [Ack] (probe_secs bud t) l
      = (Inr (Some Ack), l1)" "carrying is_tcp g w' (b @ rest) l1"
      "sent (outw l1) = sent (outw l) @ wire_form is_tcp (code_bytes (rx_signal s))"
    using carrying_probe [OF _ probe_attempts_pos, of is_tcp g w' cs Ack "b @ rest" l "[Ack]" "probe_secs bud t" bud t p "Some (rx_signal s)"]
    by auto
  have time: "g \<le> 5000" "2 * g \<le> probe_secs (block_timeout t) t * 1000"
    using in_tune_mono [OF tune, of 0] by (auto simp: in_tune_def)
  obtain l2 where l2: "read_block is_tcp (rx_next s) t l1 = (Inr b, l2)" "carrying is_tcp g w' rest l2"
      "sent (outw l2) = sent (outw l1) @ wire_form is_tcp (code_bytes Sb)"
    by (rule carrying_read_block [OF l1(2) b time])
  have "receive_round is_tcp p t s l = (case take_block t s b of Inl e \<Rightarrow> (Inl e, l2) | Inr r \<Rightarrow> (Inr r, l2))"
    unfolding receive_round_def Let_def bud_def [symmetric]
    by (simp add: lbind_def l1(1) l2(1) lfail_def lpure_def split: sum.splits)
  with l2(2) show thesis by (rule that) (simp add: l2(3) l1(3) wire_form_append)
qed


section \<open>Deliveries\<close>

text \<open>
  \<open>delivery n m bad dup prev sz bs bytes\<close>: \<open>bytes\<close> is a way in which the blocks \<open>bs\<close> can reach a
  receiver that expects \<open>sz\<close> bytes, accepted \<open>prev\<close> last, and has counted \<open>bad\<close> bad and \<open>dup\<close>
  repeated blocks in a row, with at most \<open>m\<close> of either. Every round brings up to \<open>n\<close> stale codes,
  an ACK, and then the next block, a damaged block of that length, or the previous block again.
\<close>

inductive delivery ::
    "nat \<Rightarrow> nat \<Rightarrow> nat \<Rightarrow> nat \<Rightarrow> byte list option \<Rightarrow> byte \<Rightarrow> byte list list \<Rightarrow> byte list \<Rightarrow> bool" for n m where
  last_block: "handshake n hs \<Longrightarrow> delivery n m bad dup prev sz [b] (hs @ b)"
| next_block: "handshake n hs \<Longrightarrow> delivery n m 0 0 (Some b) (b ! SIZEPOS) (c # bs) rest \<Longrightarrow>
    delivery n m bad dup prev sz (b # c # bs) (hs @ b @ rest)"
| damaged: "handshake n hs \<Longrightarrow> length x = unat sz \<Longrightarrow> \<not> checksum_ok x \<Longrightarrow> bad < m \<Longrightarrow>
    delivery n m (bad + 1) dup prev sz bs rest \<Longrightarrow> delivery n m bad dup prev sz bs (hs @ x @ rest)"
| repeated: "handshake n hs \<Longrightarrow> length x = unat sz \<Longrightarrow> DATAPOS < length x \<Longrightarrow> dup < m \<Longrightarrow>
    delivery n m 0 (dup + 1) (Some x) sz bs rest \<Longrightarrow> delivery n m bad dup (Some x) sz bs (hs @ x @ rest)"

text \<open>What the receiver's state has to do with the blocks still to come.\<close>

definition expects :: "Tunables \<Rightarrow> nat \<Rightarrow> nat \<Rightarrow> byte list option \<Rightarrow> byte \<Rightarrow> byte list list \<Rightarrow> rx_state \<Rightarrow> bool" where
  "expects t bad dup prev sz bs s \<longleftrightarrow>
     well_chained sz bs \<and> rx_next s = sz \<and> rx_bad s = bad \<and> rx_dup s = dup \<and>
     rx_last s = map_option blk_index prev \<and>
     (\<forall>x. prev = Some x \<longrightarrow> sized x \<and> checksum_ok x \<and> \<not> is_final_block x \<and> x ! SIZEPOS = sz \<and> blk_index x \<noteq> blk_index (hd bs)) \<and>
     rx_empty s + length (filter (\<lambda>b. length b = DATAPOS) (butlast bs)) \<le> MAX_EMPTY_NONFINAL_BLOCKS \<and>
     length (rx_out s @ concat (map (drop DATAPOS) bs)) \<le> MAX_FILE_SIZE"

lemma chained_hd: "well_chained sz (b # bs) \<Longrightarrow> sized b \<and> length b = unat sz \<and> checksum_ok b"
  by (cases bs) auto

lemma saturating_small: "k < m \<Longrightarrow> m < 2 ^ 32 - 1 \<Longrightarrow> saturating_inc k = k + 1"
  by (simp add: saturating_inc_def)

lemma take_final:
  assumes "expects t bad dup prev sz [b] s"
  shows "take_block t s b = Inr (Inr (rx_out s @ drop DATAPOS b))"
  using assms by (auto simp: take_block_def expects_def Let_def)

lemma take_next:
  assumes "expects t bad dup prev sz (b # c # bs) s"
  obtains s' where "take_block t s b = Inr (Inl s')" "expects t 0 0 (Some b) (b ! SIZEPOS) (c # bs) s'"
    "rx_out s' = rx_out s @ drop DATAPOS b" "rx_signal s' = Goo"
proof -
  let ?s = "\<lparr>rx_out = rx_out s @ drop DATAPOS b, rx_next = b ! SIZEPOS,
      rx_empty = (if length b = DATAPOS then rx_empty s + 1 else rx_empty s), rx_signal = Goo,
      rx_bad = 0, rx_last = Some (blk_index b), rx_dup = 0, rx_none = False\<rparr>"
  have b: "sized b" "checksum_ok b" "\<not> is_final_block b" "blk_index b \<noteq> blk_index c"
      "well_chained (b ! SIZEPOS) (c # bs)"
    using assms by (auto simp: expects_def)
  have c: "DATAPOS \<le> unat (b ! SIZEPOS)" using chained_hd [OF b(5)] by (auto simp: sized_def)
  have fresh: "rx_last s \<noteq> Some (blk_index b)" using assms by (auto simp: expects_def)
  have len: "length b \<le> DATAPOS \<longleftrightarrow> length b = DATAPOS" using b(1) by (auto simp: sized_def)
  have size: "length (rx_out s @ drop DATAPOS b) \<le> MAX_FILE_SIZE" using assms by (auto simp: expects_def)
  have em: "length b = DATAPOS \<Longrightarrow> rx_empty s + 1 \<le> MAX_EMPTY_NONFINAL_BLOCKS" using assms by (auto simp: expects_def)
  have "take_block t s b = Inr (Inl ?s)"
    unfolding take_block_def Let_def
    using b(2,3) c fresh size em
    by (simp add: blk_index_def len not_less)
  moreover have "expects t 0 0 (Some b) (b ! SIZEPOS) (c # bs) ?s"
    using assms b by (auto simp: expects_def)
  ultimately show thesis by (rule that) simp_all
qed

lemma take_damaged:
  assumes "expects t bad dup prev sz bs s" "\<not> checksum_ok x" "bad < max_bad_rounds t" "max_bad_rounds t < 2 ^ 32 - 1"
  obtains s' where "take_block t s x = Inr (Inl s')" "expects t (bad + 1) dup prev sz bs s'" "rx_out s' = rx_out s"
proof -
  have "rx_bad s = bad" using assms(1) by (simp add: expects_def)
  with assms(2-4) have "take_block t s x = Inr (Inl (s\<lparr>rx_signal := Bad, rx_bad := bad + 1\<rparr>))"
    by (simp add: take_block_def saturating_small)
  moreover have "expects t (bad + 1) dup prev sz bs (s\<lparr>rx_signal := Bad, rx_bad := bad + 1\<rparr>)"
    using assms(1) by (simp add: expects_def)
  ultimately show thesis by (rule that) simp
qed

lemma take_repeated:
  assumes "expects t bad dup (Some x) sz bs s" "DATAPOS < length x" "length x = unat sz"
    and "dup < max_bad_rounds t" "max_bad_rounds t < 2 ^ 32 - 1"
  obtains s' where "take_block t s x = Inr (Inl s')" "expects t 0 (dup + 1) (Some x) sz bs s'" "rx_out s' = rx_out s"
proof -
  let ?s = "s\<lparr>rx_dup := dup + 1, rx_next := x ! SIZEPOS, rx_signal := Goo, rx_bad := 0\<rparr>"
  from assms(1) have x: "checksum_ok x" "\<not> is_final_block x" "x ! SIZEPOS = sz" "rx_last s = Some (blk_index x)" "rx_dup s = dup"
    by (auto simp: expects_def)
  then have "take_block t s x = Inr (Inl ?s)"
    using assms(2-5) by (simp add: take_block_def Let_def saturating_small blk_index_def)
  moreover have "expects t 0 (dup + 1) (Some x) sz bs ?s"
    using assms(1) x(3) by (auto simp: expects_def)
  ultimately show thesis by (rule that) simp
qed

lemma receive_step:
  assumes "carrying is_tcp g w' ((hs @ x @ rest) @ tail) l" "handshake n hs" "length x = unat (rx_next s)" "DATAPOS \<le> length x"
    and "in_tune g n t" "take_block t s x = Inr (Inl s')"
  obtains l' where "carrying is_tcp g w' (rest @ tail) l'" "receive_loop is_tcp p t lp s l = receive_loop is_tcp p t lp s' l'"
proof -
  have "carrying is_tcp g w' (hs @ x @ (rest @ tail)) l" using assms(1) by simp
  then obtain l' where "carrying is_tcp g w' (rest @ tail) l'"
      "receive_round is_tcp p t s l = (case take_block t s x of Inl e \<Rightarrow> (Inl e, l') | Inr r \<Rightarrow> (Inr r, l'))"
    using assms(2-5) by (rule carrying_round)
  with assms(6) show thesis by (intro that [of l']) (simp_all add: receive_loop.simps [of is_tcp p t lp s l])
qed

lemma expects_size:
  assumes "expects t bad dup prev sz bs s"
  shows "rx_next s = sz" "DATAPOS \<le> unat sz" "\<exists>b cs. bs = b # cs \<and> length b = unat sz"
proof -
  from assms have chain: "well_chained sz bs" "rx_next s = sz" by (auto simp: expects_def)
  obtain b cs where "bs = b # cs" using chain(1) by (cases bs) auto
  with chain chained_hd [of sz b cs] show "rx_next s = sz" "DATAPOS \<le> unat sz" "\<exists>b cs. bs = b # cs \<and> length b = unat sz"
    by (auto simp: sized_def)
qed

lemma receive_delivery:
  assumes "delivery n (max_bad_rounds t) bad dup prev sz bs bytes"
    and "expects t bad dup prev sz bs s" "carrying is_tcp g w' (bytes @ tail) l" "in_tune g n t"
  shows "\<exists>l'. receive_loop is_tcp p t lp s l =
      (Inr (rx_out s @ concat (map (drop DATAPOS) bs)), end_off_receiver is_tcp p t lp l') \<and> carrying is_tcp g w' tail l'"
  using assms
proof (induction arbitrary: s l rule: delivery.induct)
  case (last_block hs bad dup prev sz b)
  have b: "length b = unat (rx_next s)" "DATAPOS \<le> length b"
    using expects_size [OF last_block.prems(1)] by auto
  have "carrying is_tcp g w' (hs @ b @ tail) l" using last_block.prems(2) by simp
  then obtain l' where "carrying is_tcp g w' tail l'"
      "receive_round is_tcp p t s l = (case take_block t s b of Inl e \<Rightarrow> (Inl e, l') | Inr r \<Rightarrow> (Inr r, l'))"
    using last_block.hyps b last_block.prems(3) by (rule carrying_round)
  with take_final [OF last_block.prems(1)] show ?case by (subst receive_loop.simps) auto
next
  case (next_block hs b c bs rest bad dup prev sz)
  have b: "length b = unat (rx_next s)" "DATAPOS \<le> length b"
    using expects_size [OF next_block.prems(1)] by auto
  obtain s' where s': "take_block t s b = Inr (Inl s')" "expects t 0 0 (Some b) (b ! SIZEPOS) (c # bs) s'"
      "rx_out s' = rx_out s @ drop DATAPOS b"
    using next_block.prems(1) by (rule take_next)
  obtain l' where l': "carrying is_tcp g w' (rest @ tail) l'" "receive_loop is_tcp p t lp s l = receive_loop is_tcp p t lp s' l'"
    using next_block.prems(2) next_block.hyps(1) b next_block.prems(3) s'(1) by (rule receive_step)
  from next_block.IH [OF s'(2) l'(1) next_block.prems(3)] l'(2) s'(3) show ?case by auto
next
  case (damaged hs x sz bad dup prev bs rest)
  have x: "length x = unat (rx_next s)" "DATAPOS \<le> length x"
    using expects_size [OF damaged.prems(1)] damaged.hyps(2) by auto
  obtain s' where s': "take_block t s x = Inr (Inl s')" "expects t (bad + 1) dup prev sz bs s'" "rx_out s' = rx_out s"
    using damaged.prems(1) damaged.hyps(3,4) by (rule take_damaged) (use damaged.prems(3) in \<open>simp add: in_tune_def\<close>)
  obtain l' where l': "carrying is_tcp g w' (rest @ tail) l'" "receive_loop is_tcp p t lp s l = receive_loop is_tcp p t lp s' l'"
    using damaged.prems(2) damaged.hyps(1) x damaged.prems(3) s'(1) by (rule receive_step)
  from damaged.IH [OF s'(2) l'(1) damaged.prems(3)] l'(2) s'(3) show ?case by auto
next
  case (repeated hs x sz dup bs rest bad)
  have x: "length x = unat (rx_next s)" "DATAPOS \<le> length x"
    using expects_size [OF repeated.prems(1)] repeated.hyps(2) by auto
  obtain s' where s': "take_block t s x = Inr (Inl s')" "expects t 0 (dup + 1) (Some x) sz bs s'" "rx_out s' = rx_out s"
    using repeated.prems(1) repeated.hyps(3,2,4)
    by (rule take_repeated) (use repeated.prems(3) in \<open>simp add: in_tune_def\<close>)
  obtain l' where l': "carrying is_tcp g w' (rest @ tail) l'" "receive_loop is_tcp p t lp s l = receive_loop is_tcp p t lp s' l'"
    using repeated.prems(2) repeated.hyps(1) x repeated.prems(3) s'(1) by (rule receive_step)
  from repeated.IH [OF s'(2) l'(1) repeated.prems(3)] l'(2) s'(3) show ?case by auto
qed


section \<open>A whole transfer\<close>

lemma drain_two:
  assumes "carrying is_tcp g w' (code_stream [Sb, Sb] @ tail) l" "in_tune g n t"
  obtains l' where "lbind (accept_code is_tcp p [Sb] (max 1 (retry_interval t))) (\<lambda>_.
      lbind (accept_code is_tcp p [Sb] (max 1 (retry_interval t))) (\<lambda>_. lpure ())) l = (Inr (), l')"
    "carrying is_tcp g w' tail l'" "outw l' = outw l"
proof -
  have "probe_secs (block_timeout t) t \<le> max 1 (retry_interval t)" by (simp add: probe_secs_def)
  then have time: "g \<le> 5000" "6 * g * (length ([] :: Code list) + 1) < max 1 (retry_interval t) * 1000"
    using in_tune_mono [OF assms(2), of 0] by (auto simp: in_tune_def)
  have "carrying is_tcp g w' (code_stream ([] @ [Sb]) @ code_stream ([] @ [Sb]) @ tail) l" using assms(1) by simp
  then obtain l1 where l1: "accept_code is_tcp p [Sb] (max 1 (retry_interval t)) l = (Inr (Some Sb), l1)"
      "carrying is_tcp g w' (code_stream ([] @ [Sb]) @ tail) l1" "outw l1 = outw l"
    using carrying_accept [OF _ _ _ time, of is_tcp w' Sb "code_stream ([] @ [Sb]) @ tail" l "[Sb]" p] by auto
  obtain l2 where "accept_code is_tcp p [Sb] (max 1 (retry_interval t)) l1 = (Inr (Some Sb), l2)"
      "carrying is_tcp g w' tail l2" "outw l2 = outw l1"
    using carrying_accept [OF l1(2) _ _ time, of "[Sb]" p] by auto
  with l1 show thesis by (intro that [of l2]) (simp_all add: lbind_def lpure_def)
qed

definition closing :: "bool \<Rightarrow> Code list" where
  "closing lp = [Ack, Syn, Sb] @ (if lp then [Sb, Sb] else [])"

lemma end_off_conforming:
  assumes "carrying is_tcp g w' (code_stream (closing lp) @ tail) l" "in_tune g n t"
  shows "carrying is_tcp g w' tail (end_off_receiver is_tcp p t lp l)"
    "sent (outw (end_off_receiver is_tcp p t lp l)) = sent (outw l) @ wire_form is_tcp (code_stream [Goo, Sb, Syn])"
proof -
  let ?pr = "probe_secs (block_timeout t) t" and ?at = "probe_attempts (block_timeout t) t"
  let ?rest = "code_stream (if lp then [Sb, Sb] else []) @ tail"
  let ?drain = "lbind (accept_code is_tcp p [Sb] (max 1 (retry_interval t))) (\<lambda>_.
      lbind (accept_code is_tcp p [Sb] (max 1 (retry_interval t))) (\<lambda>_. lpure ()))"
  have time: "g \<le> 5000" "6 * g * (length ([] :: Code list) + 1) < ?pr * 1000"
    using in_tune_mono [OF assms(2), of 0] by (auto simp: in_tune_def)
  have "carrying is_tcp g w' (code_bytes Ack @ code_stream [Syn, Sb] @ ?rest) l" using assms(1) by (simp add: closing_def)
  then obtain l1 where l1: "probe_for ?at is_tcp p (Some Goo) [Ack] ?pr l = (Inr (Some Ack), l1)"
      "carrying is_tcp g w' (code_stream [Syn, Sb] @ ?rest) l1" "sent (outw l1) = sent (outw l) @ wire_form is_tcp (code_bytes Goo)"
    using assms(2) by (rule carrying_ask [where a = "[Ack]"]) simp
  obtain l2 where l2: "send_code is_tcp Sb l1 = (Inr (), l2)" "carrying is_tcp g w' (code_stream ([] @ [Syn]) @ code_stream [Sb] @ ?rest) l2"
      "sent (outw l2) = sent (outw l1) @ wire_form is_tcp (code_bytes Sb)"
    using carrying_send [OF l1(2), of Sb] by auto
  obtain l3 where l3: "accept_code is_tcp p [Syn] ?pr l2 = (Inr (Some Syn), l3)" "carrying is_tcp g w' (code_bytes Sb @ ?rest) l3"
      "outw l3 = outw l2"
    using carrying_accept [OF l2(2) _ _ time, of "[Syn]" p] by auto
  obtain m where m: "?at = Suc m" using probe_attempts_pos gr0_implies_Suc by blast
  have syn: "await_syn ?at is_tcp p ?pr l2 = (Inr (), l3)" unfolding m by (simp add: lbind_def l3(1) lpure_def)
  obtain l4 where l4: "probe_for ?at is_tcp p (Some Syn) [Sb] ?pr l3 = (Inr (Some Sb), l4)" "carrying is_tcp g w' ?rest l4"
      "sent (outw l4) = sent (outw l3) @ wire_form is_tcp (code_bytes Syn)"
    using l3(2) assms(2) by (rule carrying_ask [where a = "[Sb]"]) simp
  obtain l5 where l5: "(if lp then ?drain else lpure ()) l4 = (Inr (), l5)" "carrying is_tcp g w' tail l5" "outw l5 = outw l4"
  proof (cases lp)
    case True
    with l4(2) have "carrying is_tcp g w' (code_stream [Sb, Sb] @ tail) l4" by simp
    then show thesis using assms(2) by (rule drain_two) (use True in \<open>auto intro: that\<close>)
  next
    case False
    with l4(2) show thesis by (intro that [of l4]) (auto simp: lpure_def)
  qed
  have eq: "end_off_receiver is_tcp p t lp l = l5"
    using l5(1) by (simp add: end_off_receiver_def Let_def lbind_def [of "probe_for _ _ _ _ _ _"] lbind_def [of "send_code _ _"]
        lbind_def [of "await_syn _ _ _ _"] l1(1) l2(1) syn l4(1))
  from l5(2) show "carrying is_tcp g w' tail (end_off_receiver is_tcp p t lp l)" unfolding eq .
  show "sent (outw (end_off_receiver is_tcp p t lp l)) = sent (outw l) @ wire_form is_tcp (code_stream [Goo, Sb, Syn])"
    unfolding eq by (simp only: l5(3) l4(3) l3(3) l2(3) l1(3)) (simp add: wire_form_append [symmetric])
qed

lemma filter_butlast_le: "(\<And>b. P b \<Longrightarrow> Q b) \<Longrightarrow> length (filter P (butlast xs)) \<le> length (filter Q xs)"
  by (induction xs) auto

lemma receive_phase_delivery:
  assumes "delivery n (max_bad_rounds t) 0 0 None sz bs bytes" "well_chained sz bs"
    and "length (filter (\<lambda>b. drop DATAPOS b = []) bs) \<le> 2" "length (concat (map (drop DATAPOS) bs)) \<le> MAX_FILE_SIZE"
    and "carrying is_tcp g w' (bytes @ tail) l" "in_tune g n t"
  obtains l' where "receive_phase is_tcp p sz t lp l = (Inr (concat (map (drop DATAPOS) bs)), end_off_receiver is_tcp p t lp l')"
    "carrying is_tcp g w' tail l'"
proof -
  have "length (filter (\<lambda>b. length b = DATAPOS) (butlast bs)) \<le> length (filter (\<lambda>b. drop DATAPOS b = []) bs)"
    by (rule filter_butlast_le) simp
  with assms(2-4) have "expects t 0 0 None sz bs (init_rx sz)"
    by (simp add: expects_def init_rx_def MAX_EMPTY_NONFINAL_BLOCKS_def)
  from receive_delivery [OF assms(1) this assms(5,6), of p lp] show thesis
    by (auto simp: receive_phase_def init_rx_def intro: that)
qed

lemma load_Tunables_bad [simp]: "max_bad_rounds (load_Tunables cfg) = punter_max_bad_rounds cfg"
  by (simp add: load_Tunables_def Let_def)

lemma punter_receive_ok:
  assumes blocks: "build_data_blocks data cap = Inr bs" "length data \<le> MAX_FILE_SIZE"
    and tb: "delivery n (punter_max_bad_rounds cfg) 0 0 None TYPE_PHASE_SIZE (build_type_block ft) tb"
    and db: "delivery n (punter_max_bad_rounds cfg) 0 0 None DATA_PHASE_FIRST_SIZE bs db"
    and tune: "in_tune g n (load_Tunables cfg)"
    and wire: "steady g (wire_form is_tcp (tb @ code_stream [Ack, Syn, Sb] @ db @ tail)) w w'"
  shows "fst (punter_receive cfg is_tcp p w \<lparr>sent = [], broken = None\<rparr>) = Inr (data, ft)"
proof -
  let ?t = "load_Tunables cfg" and ?l = "\<lparr>rst = default_ReadState, inw = w, outw = \<lparr>sent = [], broken = None\<rparr>\<rparr>"
  have l0: "carrying is_tcp g w' (tb @ code_stream [Ack, Syn, Sb] @ db @ tail) ?l"
    using wire by (simp add: carrying_def default_ReadState_def)
  have "length (filter (\<lambda>b. drop DATAPOS b = []) (build_type_block ft)) \<le> length (build_type_block ft)"
    by (rule length_filter_le)
  also have "\<dots> \<le> 2" by (simp add: build_type_block_def backpatch_next_sizes_def)
  finally have ft2: "length (filter (\<lambda>b. drop DATAPOS b = []) (build_type_block ft)) \<le> 2" .
  have ftl: "length (concat (map (drop DATAPOS) (build_type_block ft))) \<le> MAX_FILE_SIZE"
    unfolding type_block_chained(2) by (simp add: MAX_FILE_SIZE_def)
  from tb obtain l1 where l1: "receive_phase is_tcp p TYPE_PHASE_SIZE ?t False ?l =
      (Inr [to_byte ft], end_off_receiver is_tcp p ?t False l1)"
      "carrying is_tcp g w' (code_stream [Ack, Syn, Sb] @ db @ tail) l1"
    using receive_phase_delivery [OF _ type_block_chained(1) ft2 ftl l0 tune] type_block_chained(2)
    by (metis load_Tunables_bad)
  have l2: "carrying is_tcp g w' (db @ tail) (end_off_receiver is_tcp p ?t False l1)"
    using end_off_conforming(1) [of is_tcp g w' False "db @ tail"] l1(2) tune by (simp add: closing_def)
  obtain l3 where "receive_phase is_tcp p DATA_PHASE_FIRST_SIZE ?t True (end_off_receiver is_tcp p ?t False l1) =
      (Inr data, end_off_receiver is_tcp p ?t True l3)"
    using receive_phase_delivery [OF _ data_blocks_payloads(2) [OF blocks(1)] data_blocks_carry(2) [OF blocks(1)] _ l2 tune]
      db blocks(2) data_blocks_carry(1) [OF blocks(1)]
    by (metis load_Tunables_bad)
  with l1(1) show ?thesis
    by (simp add: punter_receive_def lbind_def lpure_def type_from_payload_def from_byte_to_byte)
qed


section \<open>Any peer\<close>

text \<open>
  The state of a receive phase stays within its limits whatever arrives, and every round that goes
  on uses up some of a budget: the room left in the file and for empty blocks, then the repeated
  blocks, then the bad ones.
\<close>

definition rx_inv :: "Tunables \<Rightarrow> rx_state \<Rightarrow> bool" where
  "rx_inv t s \<longleftrightarrow> length (rx_out s) \<le> MAX_FILE_SIZE \<and> rx_empty s \<le> MAX_EMPTY_NONFINAL_BLOCKS \<and>
     rx_dup s \<le> max_bad_rounds t \<and> rx_bad s \<le> max_bad_rounds t \<and> rx_signal s \<in> {Goo, Bad} \<and>
     (rx_none s \<longrightarrow> rx_out s = [] \<and> rx_last s = None)"

definition rx_budget :: "Tunables \<Rightarrow> rx_state \<Rightarrow> nat" where
  "rx_budget t s =
     ((MAX_FILE_SIZE - length (rx_out s)) + (MAX_EMPTY_NONFINAL_BLOCKS - rx_empty s)) * (max_bad_rounds t + 1) ^ 2
     + (max_bad_rounds t - rx_dup s) * (max_bad_rounds t + 1) + (max_bad_rounds t - rx_bad s)"

lemma init_rx_inv: "rx_inv t (init_rx sz)"
  by (simp add: rx_inv_def init_rx_def)

lemma budget_step: "(a::nat) < b \<Longrightarrow> c \<le> m \<Longrightarrow> d \<le> m \<Longrightarrow> a * (m + 1) ^ 2 + c * (m + 1) + d < b * (m + 1) ^ 2"
proof -
  assume a: "a < b" "c \<le> m" "d \<le> m"
  have "c * (m + 1) + d \<le> m * (m + 1) + m" using a by (simp add: add_mono)
  also have "\<dots> < (m + 1) ^ 2" by (simp add: power2_eq_square)
  finally have "a * (m + 1) ^ 2 + c * (m + 1) + d < (a + 1) * (m + 1) ^ 2" by simp
  also have "\<dots> \<le> b * (m + 1) ^ 2" using a(1) by (intro mult_le_mono1) simp
  finally show ?thesis .
qed

lemma budget_step2: "c < c' \<Longrightarrow> d \<le> m \<Longrightarrow> x + c * (m + 1) + d < x + c' * (m + 1) + (e :: nat)"
proof -
  assume a: "c < c'" "d \<le> m"
  have "c * (m + 1) + d < (c + 1) * (m + 1)" using a(2) by simp
  also have "\<dots> \<le> c' * (m + 1)" using a(1) by (intro mult_le_mono1) simp
  finally show ?thesis by simp
qed

text \<open>The four ways a block is taken.\<close>

lemma take_block_cases:
  assumes "take_block t s blk = Inr r"
  obtains (duplicate) "checksum_ok blk" "saturating_inc (rx_dup s) \<le> max_bad_rounds t"
      "r = Inl (s\<lparr>rx_dup := saturating_inc (rx_dup s), rx_next := blk ! SIZEPOS, rx_signal := Goo, rx_bad := 0\<rparr>)"
      "rx_last s = Some (blk_index blk)"
  | (final) "checksum_ok blk" "is_final_block blk" "r = Inr (rx_out s @ drop DATAPOS blk)"
      "length blk \<le> DATAPOS \<or> length (rx_out s @ drop DATAPOS blk) \<le> MAX_FILE_SIZE"
  | (accepted) "checksum_ok blk" "\<not> is_final_block blk"
      "DATAPOS < length blk \<longrightarrow> rx_last s \<noteq> Some (blk_index blk) \<and> length (rx_out s @ drop DATAPOS blk) \<le> MAX_FILE_SIZE"
      "length blk \<le> DATAPOS \<longrightarrow> rx_empty s + 1 \<le> MAX_EMPTY_NONFINAL_BLOCKS"
      "r = Inl \<lparr>rx_out = rx_out s @ drop DATAPOS blk, rx_next = blk ! SIZEPOS,
         rx_empty = (if length blk \<le> DATAPOS then rx_empty s + 1 else rx_empty s), rx_signal = Goo,
         rx_bad = 0, rx_last = Some (blk_index blk), rx_dup = 0, rx_none = False\<rparr>"
  | (refused) "\<not> checksum_ok blk" "saturating_inc (rx_bad s) \<le> max_bad_rounds t"
      "r = Inl (s\<lparr>rx_signal := Bad, rx_bad := saturating_inc (rx_bad s)\<rparr>)"
  using assms unfolding take_block_def Let_def
  by (auto simp: blk_index_def not_less split: if_splits)

lemma saturating_strict: "n < 2 ^ 32 - 1 \<Longrightarrow> n < saturating_inc n"
  by (simp add: saturating_inc_def)

lemma take_block_continues:
  assumes "take_block t s blk = Inr (Inl s')" "rx_inv t s" "max_bad_rounds t < 2 ^ 32 - 1"
  shows "rx_inv t s'" "rx_budget t s' < rx_budget t s"
proof -
  let ?m = "max_bad_rounds t"
  have inv: "length (rx_out s) \<le> MAX_FILE_SIZE" "rx_empty s \<le> MAX_EMPTY_NONFINAL_BLOCKS" "rx_dup s \<le> ?m" "rx_bad s \<le> ?m"
    using assms(2) by (auto simp: rx_inv_def)
  have "rx_inv t s' \<and> rx_budget t s' < rx_budget t s"
    using assms(1)
  proof (cases rule: take_block_cases)
    case duplicate
    have "rx_dup s < saturating_inc (rx_dup s)" using inv(3) assms(3) by (intro saturating_strict) simp
    then have "?m - saturating_inc (rx_dup s) < ?m - rx_dup s" using duplicate(2) by simp
    from budget_step2 [OF this, of "?m - 0" ?m] duplicate(3) have "rx_budget t s' < rx_budget t s"
      unfolding rx_budget_def by simp
    with duplicate assms(2) show ?thesis by (auto simp: rx_inv_def)
  next
    case accepted
    have "(MAX_FILE_SIZE - length (rx_out s')) + (MAX_EMPTY_NONFINAL_BLOCKS - rx_empty s') <
        (MAX_FILE_SIZE - length (rx_out s)) + (MAX_EMPTY_NONFINAL_BLOCKS - rx_empty s)"
      using accepted inv by (cases "length blk \<le> DATAPOS") auto
    from budget_step [OF this, of "?m - rx_dup s'" ?m "?m - rx_bad s'"] have "rx_budget t s' < rx_budget t s"
      unfolding rx_budget_def by simp
    with accepted inv show ?thesis by (auto simp: rx_inv_def)
  next
    case refused
    have "rx_bad s < saturating_inc (rx_bad s)" using inv(4) assms(3) by (intro saturating_strict) simp
    with refused assms(2) show ?thesis by (auto simp: rx_inv_def rx_budget_def)
  qed simp
  then show "rx_inv t s'" "rx_budget t s' < rx_budget t s" by auto
qed


lemma receive_round_block:
  assumes "receive_round is_tcp p t s l = (Inr r, l')"
  obtains blk where "take_block t s blk = Inr r"
proof -
  define b where "b = (if rx_none s \<and> rx_signal s = Goo then negotiation_timeout t else block_timeout t)"
  from assms obtain got l1 where
      "probe_for (probe_attempts b t) is_tcp p (Some (rx_signal s)) [Ack] (probe_secs b t) l = (Inr got, l1)"
      "(if got = None then lfail PNoAck else lbind (read_block is_tcp (rx_next s) t)
          (\<lambda>blk. case take_block t s blk of Inl e \<Rightarrow> lfail e | Inr r \<Rightarrow> lpure r)) l1 = (Inr r, l')"
    unfolding receive_round_def Let_def b_def [symmetric] by (rule lbind_InrE)
  then have "lbind (read_block is_tcp (rx_next s) t)
      (\<lambda>blk. case take_block t s blk of Inl e \<Rightarrow> lfail e | Inr r \<Rightarrow> lpure r) l1 = (Inr r, l')"
    by (simp add: lfail_def split: if_splits)
  then show thesis
    by (rule lbind_InrE) (auto simp: lfail_def lpure_def intro: that split: sum.splits)
qed

text \<open>What a receiver accepts: checked blocks, one flagged last, none repeating its predecessor.\<close>

fun accepted :: "u16 option \<Rightarrow> byte list list \<Rightarrow> bool" where
  "accepted prev [] \<longleftrightarrow> False"
| "accepted prev [b] \<longleftrightarrow> checksum_ok b \<and> is_final_block b"
| "accepted prev (b # c # bs) \<longleftrightarrow> checksum_ok b \<and> \<not> is_final_block b \<and>
     (DATAPOS < length b \<longrightarrow> prev \<noteq> Some (blk_index b)) \<and> accepted (Some (blk_index b)) (c # bs)"


text \<open>Time limits of a round, of the end-off and of a whole phase.\<close>

definition round_ms :: "Tunables \<Rightarrow> nat" where
  "round_ms t = probe_attempts (negotiation_timeout t) t * wait_ms (probe_secs (negotiation_timeout t) t) +
     probe_attempts (block_timeout t) t * wait_ms (probe_secs (block_timeout t) t) + block_ms t"

definition end_off_ms :: "Tunables \<Rightarrow> nat" where
  "end_off_ms t = 3 * (probe_attempts (block_timeout t) t * wait_ms (probe_secs (block_timeout t) t)) +
     2 * wait_ms (max 1 (retry_interval t))"

definition phase_ms :: "Tunables \<Rightarrow> nat" where
  "phase_ms t = (rx_budget t (init_rx 0) + 1) * round_ms t + end_off_ms t"

lemma bounded_receive_round: "bounded (round_ms t) (receive_round is_tcp p t s)"
proof -
  define b where "b = (if rx_none s \<and> rx_signal s = Goo then negotiation_timeout t else block_timeout t)"
  have blk: "bounded (block_ms t + 0) (lbind (read_block is_tcp (rx_next s) t)
      (\<lambda>blk. case take_block t s blk of Inl e \<Rightarrow> lfail e | Inr r \<Rightarrow> lpure r))"
    by (intro bounded_lbind bounded_read_block) (auto intro: invar_intros split: sum.splits)
  have "bounded (probe_attempts b t * wait_ms (probe_secs b t) + (block_ms t + 0)) (receive_round is_tcp p t s)"
    unfolding receive_round_def Let_def b_def [symmetric]
    by (intro bounded_lbind bounded_probe_for) (use blk in \<open>auto intro: bounded_lfail\<close>)
  then show ?thesis by (rule bounded_mono) (auto simp: round_ms_def b_def)
qed

lemma bounded_await_syn: "bounded (n * wait_ms secs) (await_syn n t p secs)"
proof (induction n)
  case (Suc n)
  have "bounded (n * wait_ms secs) (case r of Some _ \<Rightarrow> lpure () | None \<Rightarrow> lbind (send_code t Sb) (\<lambda>_. await_syn n t p secs))" for r
    using bounded_lbind [OF bounded_send_code [of 0] Suc] by (auto intro: invar_intros split: option.splits)
  then have "bounded (wait_ms secs + n * wait_ms secs) (await_syn (Suc n) t p secs)"
    unfolding await_syn.simps by (intro bounded_lbind bounded_accept_code)
  then show ?case by simp
qed (simp add: bounded_lpure)

lemma end_off_receiver_time: "now (end_off_receiver is_tcp p t lp l) \<le> now l + end_off_ms t"
proof -
  let ?at = "probe_attempts (block_timeout t) t" and ?pr = "probe_secs (block_timeout t) t" and ?ri = "max 1 (retry_interval t)"
  let ?drain = "lbind (accept_code is_tcp p [Sb] ?ri) (\<lambda>_. lbind (accept_code is_tcp p [Sb] ?ri) (\<lambda>_. lpure ()))"
  have drain: "bounded (2 * wait_ms ?ri) (if c then ?drain else lpure ())" for c
  proof -
    have "bounded (wait_ms ?ri + (wait_ms ?ri + 0)) ?drain" by (intro invar_intros)
    then show ?thesis by (auto intro: invar_intros bounded_mono)
  qed
  have "bounded (?at * wait_ms ?pr + (0 + (?at * wait_ms ?pr + (?at * wait_ms ?pr + 2 * wait_ms ?ri))))
     (lbind (probe_for ?at is_tcp p (Some Goo) [Ack] ?pr) (\<lambda>_. lbind (send_code is_tcp Sb) (\<lambda>_.
        lbind (await_syn ?at is_tcp p ?pr) (\<lambda>_. lbind (probe_for ?at is_tcp p (Some Syn) [Sb] ?pr) (\<lambda>final_sb.
          if final_sb \<noteq> None \<and> lp then ?drain else lpure ())))))" (is "bounded ?d ?m")
    by (intro bounded_lbind bounded_probe_for bounded_send_code bounded_await_syn drain)
  then have "now (snd (?m l)) \<le> now l + ?d" using boundedD(2) by (metis prod.collapse)
  then show ?thesis by (simp add: end_off_receiver_def Let_def end_off_ms_def)
qed

lemma receive_loop_time:
  "receive_loop is_tcp p t lp s l = (r, l') \<Longrightarrow> rx_inv t s \<Longrightarrow> max_bad_rounds t < 2 ^ 32 - 1 \<Longrightarrow>
   now l' \<le> now l + (rx_budget t s + 1) * round_ms t + end_off_ms t"
proof (induction is_tcp p t lp s l rule: receive_loop.induct)
  case (1 is_tcp p t lp s l)
  obtain x l1 where x: "receive_round is_tcp p t s l = (x, l1)" by (cases "receive_round is_tcp p t s l")
  note time = boundedD(2) [OF bounded_receive_round x]
  consider e where "x = Inl e" | out where "x = Inr (Inr out)" | s' where "x = Inr (Inl s')"
    by (metis sum.exhaust)
  then show ?case
  proof cases
    case 1
    with "1.prems"(1) x time show ?thesis by (subst (asm) receive_loop.simps) simp
  next
    case 2
    with "1.prems"(1) x time end_off_receiver_time [of is_tcp p t lp l1] show ?thesis
      by (subst (asm) receive_loop.simps) (simp add: algebra_simps)
  next
    case (3 s')
    with x obtain blk where "take_block t s blk = Inr (Inl s')" by (auto elim: receive_round_block)
    note s' = take_block_continues [OF this "1.prems"(2,3)]
    have "receive_loop is_tcp p t lp s' l1 = (r, l')"
      using "1.prems"(1) x 3 by (subst (asm) receive_loop.simps) simp
    from "1.IH"(1) [OF x [symmetric] 3 refl this s'(1) "1.prems"(3)]
    have "now l' \<le> now l1 + (rx_budget t s' + 1) * round_ms t + end_off_ms t" .
    also have "\<dots> \<le> now l + round_ms t + rx_budget t s * round_ms t + end_off_ms t"
      using time s'(2) by (intro add_mono mult_le_mono1) auto
    finally show ?thesis by (simp add: algebra_simps)
  qed
qed


section \<open>Sender and receiver in step\<close>

text \<open>What the two ends put on the wire in a phase without errors.\<close>

definition block_stream :: "byte list list \<Rightarrow> byte list" where
  "block_stream bs = concat (map (\<lambda>b. code_bytes Ack @ b) bs)"

definition answer_codes :: "nat \<Rightarrow> Code list" where
  "answer_codes k = concat (replicate k [Goo, Sb])"

lemma stream_simps [simp]:
  "block_stream [] = []" "block_stream (b # bs) = code_bytes Ack @ b @ block_stream bs"
  "answer_codes 0 = []" "answer_codes (Suc k) = Goo # Sb # answer_codes k"
  by (simp_all add: block_stream_def answer_codes_def)

lemma receive_in_step:
  "expects t 0 0 prev sz bs s \<Longrightarrow> rx_signal s = Goo \<Longrightarrow> Ack \<notin> set stale \<Longrightarrow> length stale \<le> n \<Longrightarrow> in_tune g n t \<Longrightarrow>
   carrying is_tcp g w' (code_stream stale @ block_stream bs @ tail) l \<Longrightarrow>
   \<exists>l'. receive_loop is_tcp p t lp s l = (Inr (rx_out s @ concat (map (drop DATAPOS) bs)), end_off_receiver is_tcp p t lp l') \<and>
     carrying is_tcp g w' tail l' \<and> sent (outw l') = sent (outw l) @ wire_form is_tcp (code_stream (answer_codes (length bs)))"
proof (induction bs arbitrary: prev sz s stale l)
  case Nil
  then show ?case by (simp add: expects_def)
next
  case (Cons b bs)
  have b: "length b = unat (rx_next s)" "DATAPOS \<le> length b" using expects_size [OF Cons.prems(1)] by auto
  have hs: "handshake n (code_stream (stale @ [Ack]))" using Cons.prems(3,4) by (auto simp: handshake_def)
  have "carrying is_tcp g w' (code_stream (stale @ [Ack]) @ b @ (block_stream bs @ tail)) l" using Cons.prems(6) by simp
  then obtain l1 where l1: "carrying is_tcp g w' (block_stream bs @ tail) l1"
      "receive_round is_tcp p t s l = (case take_block t s b of Inl e \<Rightarrow> (Inl e, l1) | Inr r \<Rightarrow> (Inr r, l1))"
      "sent (outw l1) = sent (outw l) @ wire_form is_tcp (code_stream [rx_signal s, Sb])"
    using hs b Cons.prems(5) by (rule carrying_round)
  show ?case
  proof (cases bs)
    case Nil
    with take_final [of t 0 0 prev sz b s] Cons.prems(1,2) l1 show ?thesis
      by (subst receive_loop.simps) auto
  next
    case (Cons c cs)
    with Cons.prems(1) have "expects t 0 0 prev sz (b # c # cs) s" by simp
    then obtain s' where s': "take_block t s b = Inr (Inl s')" "expects t 0 0 (Some b) (b ! SIZEPOS) (c # cs) s'"
        "rx_out s' = rx_out s @ drop DATAPOS b" "rx_signal s' = Goo"
      by (rule take_next)
    have "carrying is_tcp g w' (code_stream [] @ block_stream bs @ tail) l1" using l1(1) by simp
    from Cons.IH [OF _ s'(4) _ _ Cons.prems(5) this] s'(2) \<open>bs = c # cs\<close> obtain l2 where
        "receive_loop is_tcp p t lp s' l1 = (Inr (rx_out s' @ concat (map (drop DATAPOS) bs)), end_off_receiver is_tcp p t lp l2)"
        "carrying is_tcp g w' tail l2" "sent (outw l2) = sent (outw l1) @ wire_form is_tcp (code_stream (answer_codes (length bs)))"
      by auto
    with l1(2,3) s'(1,3) Cons.prems(2) show ?thesis
      by (subst receive_loop.simps) (auto simp: wire_form_append [symmetric])
  qed
qed


text \<open>A sender round that is answered: the code heard decides, then ACK, S/B and the block.\<close>

lemma send_step:
  assumes c: "carrying is_tcp g w' (code_stream [code, Sb] @ rest) l" and tune: "in_tune g n t"
    and code: "code \<in> {Goo, Bad, Sb}" and ans: "take_answer t blocks s code = Inr (Some s')" "tx_idx s' < length blocks"
  obtains l' where "send_loop is_tcp p t sm blocks s l = send_loop is_tcp p t sm blocks s' l'" "carrying is_tcp g w' rest l'"
    "sent (outw l') = sent (outw l) @ wire_form is_tcp
       (code_stream (if sm \<and> \<not> tx_started s then [Goo] else []) @ code_bytes Ack @ blocks ! tx_idx s')"
proof -
  define bud where "bud = (if tx_started s then block_timeout t else negotiation_timeout t)"
  let ?open = "if sm \<and> \<not> tx_started s then Some Goo else None"
  have time: "g \<le> 5000" "6 * g * (length ([] :: Code list) + 1) < probe_secs bud t * 1000"
    using in_tune_mono [OF tune, of 0] by (auto simp: in_tune_def bud_def)
  have "carrying is_tcp g w' (code_stream ([] @ [code]) @ code_bytes Sb @ rest) l" using c by simp
  from carrying_probe [OF this probe_attempts_pos _ _ time, of "[Goo, Bad, Sb]" bud t p ?open] code
  obtain l1 where l1: "probe_for (probe_attempts bud t) is_tcp p ?open [Goo, Bad, Sb] (probe_secs bud t) l = (Inr (Some code), l1)"
      "carrying is_tcp g w' (code_bytes Sb @ rest) l1"
      "sent (outw l1) = sent (outw l) @ (case ?open of Some k \<Rightarrow> wire_form is_tcp (code_bytes k) | None \<Rightarrow> [])"
    by auto
  obtain l2 where l2: "probe_for (probe_attempts (block_timeout t) t) is_tcp p (Some Ack) [Sb] (probe_secs (block_timeout t) t) l1 = (Inr (Some Sb), l2)"
      "carrying is_tcp g w' rest l2" "sent (outw l2) = sent (outw l1) @ wire_form is_tcp (code_bytes Ack)"
    using l1(2) tune by (rule carrying_ask [where a = "[Sb]"]) simp
  let ?blk = "blocks ! tx_idx s'"
  let ?l3 = "l2\<lparr>outw := (outw l2)\<lparr>sent := sent (outw l2) @ wire_form is_tcp ?blk\<rparr>\<rparr>"
  have w: "on_writer PIo is_tcp ?blk l2 = (Inr (), ?l3)"
    using l2(2) by (simp add: carrying_def on_writer_def raw_write_bytes_def wire_form_def)
  have "send_round is_tcp p t sm blocks s l = (Inr (Some s'), ?l3)"
    unfolding send_round_def Let_def bud_def [symmetric]
    using ans w by (simp add: lbind_def l1(1) l2(1) lpure_def)
  then have "send_loop is_tcp p t sm blocks s l = send_loop is_tcp p t sm blocks s' ?l3"
    by (subst send_loop.simps) simp
  moreover have "carrying is_tcp g w' rest ?l3" using l2(2) by (simp add: carrying_def)
  moreover have "sent (outw ?l3) = sent (outw l) @ wire_form is_tcp
       (code_stream (if sm \<and> \<not> tx_started s then [Goo] else []) @ code_bytes Ack @ ?blk)"
    by (cases "sm \<and> \<not> tx_started s") (auto simp: l2(3) l1(3) wire_form_append [symmetric])
  ultimately show thesis by (rule that)
qed

text \<open>Only the last block of a phase is flagged, so the sender never runs past its blocks.\<close>

lemma chained_final: "well_chained sz bs \<Longrightarrow> i < length bs \<Longrightarrow> is_final_block (bs ! i) \<longleftrightarrow> Suc i = length bs"
proof (induction sz bs arbitrary: i rule: well_chained.induct)
  case (3 sz b c bs)
  then show ?case by (cases i) auto
qed auto

lemma send_finish:
  assumes "carrying is_tcp g w' (code_bytes Goo @ rest) l" "in_tune g n t" "tx_started s"
    and "tx_idx s < length blocks" "is_final_block (blocks ! tx_idx s)"
  obtains l' where "send_loop is_tcp p t sm blocks s l = (Inr (), end_off_sender is_tcp p t l')"
    "carrying is_tcp g w' rest l'" "sent (outw l') = sent (outw l)"
proof -
  have time: "g \<le> 5000" "6 * g * (length ([] :: Code list) + 1) < probe_secs (block_timeout t) t * 1000"
    using in_tune_mono [OF assms(2), of 0] by (auto simp: in_tune_def)
  have "carrying is_tcp g w' (code_stream ([] @ [Goo]) @ rest) l" using assms(1) by simp
  from carrying_probe [OF this probe_attempts_pos _ _ time, of "[Goo, Bad, Sb]" "block_timeout t" t p None]
  obtain l1 where l1: "probe_for (probe_attempts (block_timeout t) t) is_tcp p None [Goo, Bad, Sb] (probe_secs (block_timeout t) t) l = (Inr (Some Goo), l1)"
      "carrying is_tcp g w' rest l1" "sent (outw l1) = sent (outw l)"
    by auto
  have "send_round is_tcp p t sm blocks s l = (Inr None, l1)"
    using assms(3-5) by (simp add: send_round_def Let_def lbind_def l1(1) take_answer_def lpure_def)
  then have "send_loop is_tcp p t sm blocks s l = (Inr (), end_off_sender is_tcp p t l1)"
    by (subst send_loop.simps) simp
  from this l1(2,3) show thesis by (rule that)
qed

lemma send_in_step:
  "well_chained sz blocks \<Longrightarrow> Suc i + k = length blocks \<Longrightarrow> in_tune g n t \<Longrightarrow>
   carrying is_tcp g w' (code_stream (answer_codes k) @ code_bytes Goo @ tail) l \<Longrightarrow>
   \<exists>l'. send_loop is_tcp p t sm blocks \<lparr>tx_idx = i, tx_started = True, tx_resend = 0\<rparr> l = (Inr (), end_off_sender is_tcp p t l') \<and>
     carrying is_tcp g w' tail l' \<and> sent (outw l') = sent (outw l) @ wire_form is_tcp (block_stream (drop (Suc i) blocks))"
proof (induction k arbitrary: i l)
  case 0
  then have "is_final_block (blocks ! i)" by (simp add: chained_final)
  moreover have "carrying is_tcp g w' (code_bytes Goo @ tail) l" using 0 by simp
  ultimately show ?case
    using 0 send_finish [of is_tcp g w' tail l n t "\<lparr>tx_idx = i, tx_started = True, tx_resend = 0\<rparr>" blocks p sm]
    by (auto simp del: code_bytes.simps)
next
  case (Suc k)
  let ?s = "\<lparr>tx_idx = i, tx_started = True, tx_resend = 0\<rparr>" and ?s' = "\<lparr>tx_idx = Suc i, tx_started = True, tx_resend = 0\<rparr>"
  have "\<not> is_final_block (blocks ! i)" using Suc.prems(1,2) by (simp add: chained_final)
  then have ans: "take_answer t blocks ?s Goo = Inr (Some ?s')" using Suc.prems(2) by (simp add: take_answer_def)
  have "carrying is_tcp g w' (code_stream [Goo, Sb] @ (code_stream (answer_codes k) @ code_bytes Goo @ tail)) l"
    using Suc.prems(4) by simp
  then obtain l1 where l1: "send_loop is_tcp p t sm blocks ?s l = send_loop is_tcp p t sm blocks ?s' l1"
      "carrying is_tcp g w' (code_stream (answer_codes k) @ code_bytes Goo @ tail) l1"
      "sent (outw l1) = sent (outw l) @ wire_form is_tcp (code_stream (if sm \<and> \<not> tx_started ?s then [Goo] else []) @ code_bytes Ack @ blocks ! tx_idx ?s')"
    using Suc.prems(3) _ ans by (rule send_step) (use Suc.prems(2) in auto)
  have "Suc (Suc i) + k = length blocks" using Suc.prems(2) by simp
  from Suc.IH [OF Suc.prems(1) this Suc.prems(3) l1(2)] l1(1,3) show ?case
    using Suc.prems(2) by (auto simp: wire_form_append [symmetric] Cons_nth_drop_Suc [symmetric])
qed

lemma end_off_sender_in_step:
  assumes "carrying is_tcp g w' (code_stream [Sb, Syn] @ tail) l" "in_tune g n t"
  shows "carrying is_tcp g w' tail (end_off_sender is_tcp p t l)"
    "sent (outw (end_off_sender is_tcp p t l)) = sent (outw l) @ wire_form is_tcp (code_stream [Ack, Syn, Sb, Sb, Sb])"
proof -
  let ?pr = "probe_secs (block_timeout t) t" and ?at = "probe_attempts (block_timeout t) t"
  have "carrying is_tcp g w' (code_bytes Sb @ code_bytes Syn @ tail) l" using assms(1) by simp
  then obtain l1 where l1: "probe_for ?at is_tcp p (Some Ack) [Sb] ?pr l = (Inr (Some Sb), l1)"
      "carrying is_tcp g w' (code_bytes Syn @ tail) l1" "sent (outw l1) = sent (outw l) @ wire_form is_tcp (code_bytes Ack)"
    using assms(2) by (rule carrying_ask [where a = "[Sb]"]) simp
  obtain l2 where l2: "probe_for ?at is_tcp p (Some Syn) [Syn] ?pr l1 = (Inr (Some Syn), l2)"
      "carrying is_tcp g w' tail l2" "sent (outw l2) = sent (outw l1) @ wire_form is_tcp (code_bytes Syn)"
    using l1(2) assms(2) by (rule carrying_ask [where a = "[Syn]"]) simp
  obtain l3 where l3: "send_code is_tcp Sb l2 = (Inr (), l3)" "carrying is_tcp g w' tail l3"
      "sent (outw l3) = sent (outw l2) @ wire_form is_tcp (code_bytes Sb)" using l2(2) by (rule carrying_send)
  obtain l4 where l4: "send_code is_tcp Sb l3 = (Inr (), l4)" "carrying is_tcp g w' tail l4"
      "sent (outw l4) = sent (outw l3) @ wire_form is_tcp (code_bytes Sb)" using l3(2) by (rule carrying_send)
  obtain l5 where l5: "send_code is_tcp Sb l4 = (Inr (), l5)" "carrying is_tcp g w' tail l5"
      "sent (outw l5) = sent (outw l4) @ wire_form is_tcp (code_bytes Sb)" using l4(2) by (rule carrying_send)
  have eq: "end_off_sender is_tcp p t l = l5"
    by (simp add: end_off_sender_def Let_def lbind_def l1(1) l2(1) l3(1) l4(1) l5(1))
  from l5(2) show "carrying is_tcp g w' tail (end_off_sender is_tcp p t l)" unfolding eq .
  show "sent (outw (end_off_sender is_tcp p t l)) = sent (outw l) @ wire_form is_tcp (code_stream [Ack, Syn, Sb, Sb, Sb])"
    unfolding eq by (simp only: l5(3) l4(3) l3(3) l2(3) l1(3)) (simp add: wire_form_append [symmetric])
qed


text \<open>A whole phase on either side.\<close>

lemma receive_phase_in_step:
  assumes "well_chained sz bs" "length (filter (\<lambda>b. drop DATAPOS b = []) bs) \<le> 2"
    and "length (concat (map (drop DATAPOS) bs)) \<le> MAX_FILE_SIZE" "Ack \<notin> set stale" "length stale \<le> n" "in_tune g n t"
    and "carrying is_tcp g w' (code_stream stale @ block_stream bs @ code_stream (closing lp) @ tail) l"
  obtains l' where "receive_phase is_tcp p sz t lp l = (Inr (concat (map (drop DATAPOS) bs)), l')" "carrying is_tcp g w' tail l'"
    "sent (outw l') = sent (outw l) @ wire_form is_tcp (code_stream (answer_codes (length bs) @ [Goo, Sb, Syn]))"
proof -
  have "length (filter (\<lambda>b. length b = DATAPOS) (butlast bs)) \<le> length (filter (\<lambda>b. drop DATAPOS b = []) bs)"
    by (rule filter_butlast_le) simp
  with assms(1-3) have e: "expects t 0 0 None sz bs (init_rx sz)"
    by (simp add: expects_def init_rx_def MAX_EMPTY_NONFINAL_BLOCKS_def)
  have sig: "rx_signal (init_rx sz) = Goo" and out: "rx_out (init_rx sz) = []" by (simp_all add: init_rx_def)
  from receive_in_step [OF e sig assms(4-7), of p lp] obtain l1 where
      l1: "receive_loop is_tcp p t lp (init_rx sz) l = (Inr (concat (map (drop DATAPOS) bs)), end_off_receiver is_tcp p t lp l1)"
      "carrying is_tcp g w' (code_stream (closing lp) @ tail) l1"
      "sent (outw l1) = sent (outw l) @ wire_form is_tcp (code_stream (answer_codes (length bs)))"
    using out by auto
  note eo = end_off_conforming [OF l1(2) assms(6), of p]
  show thesis
  proof (rule that)
    show "receive_phase is_tcp p sz t lp l = (Inr (concat (map (drop DATAPOS) bs)), end_off_receiver is_tcp p t lp l1)"
      using l1(1) by (simp add: receive_phase_def)
    show "carrying is_tcp g w' tail (end_off_receiver is_tcp p t lp l1)" by (rule eo(1))
    show "sent (outw (end_off_receiver is_tcp p t lp l1)) =
        sent (outw l) @ wire_form is_tcp (code_stream (answer_codes (length bs) @ [Goo, Sb, Syn]))"
      unfolding eo(2) l1(3) by (simp only: code_stream_simps(3) wire_form_append append_assoc)
  qed
qed

lemma send_phase_in_step:
  assumes "well_chained sz bs" "in_tune g n t"
    and "carrying is_tcp g w' (code_stream (answer_codes (length bs) @ [Goo, Sb, Syn]) @ tail) l"
  obtains l' where "send_phase is_tcp p bs sm t l = (Inr (), l')" "carrying is_tcp g w' tail l'"
    "sent (outw l') = sent (outw l) @ wire_form is_tcp
       (code_stream (if sm then [Goo] else []) @ block_stream bs @ code_stream [Ack, Syn, Sb, Sb, Sb])"
proof -
  let ?s0 = "\<lparr>tx_idx = 0, tx_started = False, tx_resend = 0\<rparr>" and ?s1 = "\<lparr>tx_idx = 0, tx_started = True, tx_resend = 0\<rparr>"
  obtain b bs' where bs: "bs = b # bs'" using assms(1) by (cases bs) auto
  have "carrying is_tcp g w' (code_stream [Goo, Sb] @ (code_stream (answer_codes (length bs')) @ code_bytes Goo @ code_stream [Sb, Syn] @ tail)) l"
    using assms(3) bs by simp
  moreover have "take_answer t bs ?s0 Goo = Inr (Some ?s1)" by (simp add: take_answer_def)
  ultimately obtain l1 where l1: "send_loop is_tcp p t sm bs ?s0 l = send_loop is_tcp p t sm bs ?s1 l1"
      "carrying is_tcp g w' (code_stream (answer_codes (length bs')) @ code_bytes Goo @ code_stream [Sb, Syn] @ tail) l1"
      "sent (outw l1) = sent (outw l) @ wire_form is_tcp (code_stream (if sm \<and> \<not> tx_started ?s0 then [Goo] else []) @ code_bytes Ack @ bs ! tx_idx ?s1)"
    using assms(2) bs by (elim send_step) auto
  have "Suc 0 + length bs' = length bs" using bs by simp
  from send_in_step [OF assms(1) this assms(2) l1(2)] obtain l2 where
      l2: "send_loop is_tcp p t sm bs ?s1 l1 = (Inr (), end_off_sender is_tcp p t l2)"
      "carrying is_tcp g w' (code_stream [Sb, Syn] @ tail) l2"
      "sent (outw l2) = sent (outw l1) @ wire_form is_tcp (block_stream (drop (Suc 0) bs))"
    by blast
  note eo = end_off_sender_in_step [OF l2(2) assms(2), of p]
  show thesis
  proof (rule that)
    show "send_phase is_tcp p bs sm t l = (Inr (), end_off_sender is_tcp p t l2)"
      using l1(1) l2(1) by (simp add: send_phase_def)
    show "carrying is_tcp g w' tail (end_off_sender is_tcp p t l2)" by (rule eo(1))
    show "sent (outw (end_off_sender is_tcp p t l2)) = sent (outw l) @ wire_form is_tcp
       (code_stream (if sm then [Goo] else []) @ block_stream bs @ code_stream [Ack, Syn, Sb, Sb, Sb])"
      unfolding eo(2) l2(3) l1(3) by (simp add: bs wire_form_append [symmetric])
  qed
qed


section \<open>Properties\<close>

text \<open>Everything each end sends in an undisturbed transfer.\<close>

definition sender_stream :: "PunterFileType \<Rightarrow> byte list list \<Rightarrow> byte list" where
  "sender_stream ft bs = code_stream [Goo] @ block_stream (build_type_block ft) @ code_stream [Ack, Syn, Sb, Sb, Sb] @
     block_stream bs @ code_stream [Ack, Syn, Sb, Sb, Sb]"

definition receiver_stream :: "PunterFileType \<Rightarrow> byte list list \<Rightarrow> byte list" where
  "receiver_stream ft bs = code_stream (answer_codes (length (build_type_block ft)) @ [Goo, Sb, Syn]) @
     code_stream (answer_codes (length bs) @ [Goo, Sb, Syn])"

lemma type_block_small:
  "length (filter (\<lambda>b. drop DATAPOS b = []) (build_type_block ft)) \<le> 2"
  "length (concat (map (drop DATAPOS) (build_type_block ft))) \<le> MAX_FILE_SIZE"
proof -
  have "length (filter (\<lambda>b. drop DATAPOS b = []) (build_type_block ft)) \<le> length (build_type_block ft)"
    by (rule length_filter_le)
  also have "\<dots> \<le> 2" by (simp add: build_type_block_def backpatch_next_sizes_def)
  finally show "length (filter (\<lambda>b. drop DATAPOS b = []) (build_type_block ft)) \<le> 2" .
  show "length (concat (map (drop DATAPOS) (build_type_block ft))) \<le> MAX_FILE_SIZE"
    unfolding type_block_chained(2) by (simp add: MAX_FILE_SIZE_def)
qed

lemma receiver_in_step:
  assumes "build_data_blocks data cap = Inr bs" "length data \<le> MAX_FILE_SIZE" "in_tune g 2 (load_Tunables cfg)"
    and "steady g (wire_form is_tcp (sender_stream ft bs)) w w'"
  shows "\<exists>l. punter_receive cfg is_tcp p w \<lparr>sent = [], broken = None\<rparr> = (Inr (data, ft), l) \<and>
     sent (outw l) = wire_form is_tcp (receiver_stream ft bs)"
proof -
  let ?t = "load_Tunables cfg" and ?l = "\<lparr>rst = default_ReadState, inw = w, outw = \<lparr>sent = [], broken = None\<rparr>\<rparr>"
  let ?rest = "code_stream [Sb, Sb] @ block_stream bs @ code_stream (closing True) @ []"
  have c: "carrying is_tcp g w' (code_stream [Goo] @ block_stream (build_type_block ft) @ code_stream (closing False) @ ?rest) ?l"
    using assms(4) by (simp add: carrying_def default_ReadState_def closing_def sender_stream_def)
  from receive_phase_in_step [OF type_block_chained(1) type_block_small _ _ assms(3) c, of p]
  obtain l1 where l1: "receive_phase is_tcp p TYPE_PHASE_SIZE ?t False ?l = (Inr [to_byte ft], l1)" "carrying is_tcp g w' ?rest l1"
      "sent (outw l1) = wire_form is_tcp (code_stream (answer_codes (length (build_type_block ft)) @ [Goo, Sb, Syn]))"
    unfolding type_block_chained(2) by auto
  have "length (concat (map (drop DATAPOS) bs)) \<le> MAX_FILE_SIZE"
    using assms(2) unfolding data_blocks_carry(1) [OF assms(1)] .
  from receive_phase_in_step [OF data_blocks_payloads(2) [OF assms(1)] data_blocks_carry(2) [OF assms(1)] this _ _ assms(3) l1(2), of p]
  obtain l2 where "receive_phase is_tcp p DATA_PHASE_FIRST_SIZE ?t True l1 = (Inr data, l2)"
      "sent (outw l2) = sent (outw l1) @ wire_form is_tcp (code_stream (answer_codes (length bs) @ [Goo, Sb, Syn]))"
    unfolding data_blocks_carry(1) [OF assms(1)] by auto
  with l1 show ?thesis
    by (simp add: punter_receive_def lbind_def lpure_def type_from_payload_def from_byte_to_byte receiver_stream_def wire_form_append [symmetric])
qed

lemma sender_in_step:
  assumes "build_data_blocks data (block_payload (load_Tunables cfg)) = Inr bs" "length data \<le> MAX_FILE_SIZE" "in_tune g 2 (load_Tunables cfg)"
    and "steady g (wire_form is_tcp (receiver_stream ft bs)) w w'"
  shows "\<exists>l. punter_send cfg data ft is_tcp p w \<lparr>sent = [], broken = None\<rparr> = (Inr (), l) \<and>
     sent (outw l) = wire_form is_tcp (sender_stream ft bs)"
proof -
  let ?t = "load_Tunables cfg" and ?l = "\<lparr>rst = default_ReadState, inw = w, outw = \<lparr>sent = [], broken = None\<rparr>\<rparr>"
  have "carrying is_tcp g w' (code_stream (answer_codes (length (build_type_block ft)) @ [Goo, Sb, Syn]) @
      (code_stream (answer_codes (length bs) @ [Goo, Sb, Syn]) @ [])) ?l"
    using assms(4) by (simp add: carrying_def default_ReadState_def receiver_stream_def)
  from send_phase_in_step [OF type_block_chained(1) assms(3) this, of p True]
  obtain l1 where l1: "send_phase is_tcp p (build_type_block ft) True ?t ?l = (Inr (), l1)"
      "carrying is_tcp g w' (code_stream (answer_codes (length bs) @ [Goo, Sb, Syn]) @ []) l1"
      "sent (outw l1) = wire_form is_tcp (code_stream [Goo] @ block_stream (build_type_block ft) @ code_stream [Ack, Syn, Sb, Sb, Sb])"
    by auto
  from send_phase_in_step [OF data_blocks_payloads(2) [OF assms(1)] assms(3) l1(2), of p False]
  obtain l2 where "send_phase is_tcp p bs False ?t l1 = (Inr (), l2)"
      "sent (outw l2) = sent (outw l1) @ wire_form is_tcp (block_stream bs @ code_stream [Ack, Syn, Sb, Sb, Sb])"
    by auto
  with l1 assms(1,2) show ?thesis
    by (simp add: punter_send_def lbind_def sender_stream_def wire_form_append [symmetric])
qed


text \<open>A configuration, and small block sequences, for the concrete runs below.\<close>

definition demo_config :: punter_config where
  "demo_config = \<lparr>punter_block_size = 255, punter_negotiation_timeout = 45, punter_block_timeout = 20,
     punter_max_retries = 10, punter_max_bad_rounds = 30, punter_negotiation_retry_interval = 5\<rparr>"

lemma demo_tune: "in_tune 1 2 (load_Tunables demo_config)"
  by (simp add: in_tune_def load_Tunables_def demo_config_def probe_secs_def Let_def)

lemma demo_blocks: "\<exists>bs. build_data_blocks [0xFF, 0x1B] 248 = Inr bs"
  by (simp add: build_data_blocks_def div_ceil_def punter_layout MAX_DATA_BLOCK_INDEX_def Let_def)

text \<open>Property C4: a gateway that sends a file and a gateway that receives it complete the transfer:
  run on the bytes the other one sends, the sender reports success, the receiver returns the file and
  its type, and what each of them writes is exactly what the other was assumed to read.\<close>

theorem punter_gateways_transfer:
  assumes "build_data_blocks data (block_payload (load_Tunables scfg)) = Inr bs" "length data \<le> MAX_FILE_SIZE"
    and "in_tune g 2 (load_Tunables scfg)" "in_tune g 2 (load_Tunables rcfg)"
    and "steady g (wire_form is_tcp (sender_stream ft bs)) wr wr'" "steady g (wire_form is_tcp (receiver_stream ft bs)) ws ws'"
  shows "\<exists>lr ls. punter_receive rcfg is_tcp p wr \<lparr>sent = [], broken = None\<rparr> = (Inr (data, ft), lr) \<and>
     punter_send scfg data ft is_tcp q ws \<lparr>sent = [], broken = None\<rparr> = (Inr (), ls) \<and>
     sent (outw ls) = wire_form is_tcp (sender_stream ft bs) \<and> sent (outw lr) = wire_form is_tcp (receiver_stream ft bs)"
  using receiver_in_step [OF assms(1,2,4,5), of p] sender_in_step [OF assms(1,2,3,6), of q] by blast

theorem punter_gateways_transfer_witness:
  "\<exists>bs lr ls. build_data_blocks [0xFF, 0x1B] (block_payload (load_Tunables demo_config)) = Inr bs \<and>
     punter_receive demo_config True False (paced 0 (wire_form True (sender_stream Seq bs))) \<lparr>sent = [], broken = None\<rparr> =
       (Inr ([0xFF, 0x1B], Seq), lr) \<and>
     punter_send demo_config [0xFF, 0x1B] Seq True False (paced 0 (wire_form True (receiver_stream Seq bs))) \<lparr>sent = [], broken = None\<rparr> =
       (Inr (), ls)"
proof -
  have "block_payload (load_Tunables demo_config) = 248"
    by (simp add: load_Tunables_def demo_config_def punter_layout Let_def)
  with demo_blocks obtain bs where bs: "build_data_blocks [0xFF, 0x1B] (block_payload (load_Tunables demo_config)) = Inr bs"
    by auto
  have "length [0xFF, 0x1B :: byte] \<le> MAX_FILE_SIZE" by (simp add: MAX_FILE_SIZE_def)
  from punter_gateways_transfer [OF bs this demo_tune demo_tune, of True Seq,
      OF steady_paced [OF zero_less_one] steady_paced [OF zero_less_one], of False 0 False 0] bs
  show ?thesis by blast
qed

text \<open>Property C25: a file that a conforming sender delivers over a bad line arrives intact. Whatever
  mixture of stale handshake codes, damaged blocks and repeated blocks precedes each good block,
  below the configured limit in a row, the receiver returns exactly the sender's file and type.\<close>

theorem punter_receive_delivers:
  assumes "build_data_blocks data cap = Inr bs" "length data \<le> MAX_FILE_SIZE"
    and "delivery n (punter_max_bad_rounds cfg) 0 0 None TYPE_PHASE_SIZE (build_type_block ft) tb"
    and "delivery n (punter_max_bad_rounds cfg) 0 0 None DATA_PHASE_FIRST_SIZE bs db"
    and "in_tune g n (load_Tunables cfg)"
    and "steady g (wire_form is_tcp (tb @ code_stream [Ack, Syn, Sb] @ db @ tail)) w w'"
  shows "fst (punter_receive cfg is_tcp p w \<lparr>sent = [], broken = None\<rparr>) = Inr (data, ft)"
  using assms by (rule punter_receive_ok)

theorem punter_receive_delivers_witness:
  "\<exists>b0 b1. build_data_blocks [] 248 = Inr [b0, b1] \<and>
     fst (punter_receive demo_config True False
       (paced 0 (wire_form True ((code_stream [Ack] @ [1, 0, 0, 0, 0, 0, 0, 0] @ code_stream [Ack] @ hd (build_type_block Prg)) @
          code_stream [Ack, Syn, Sb] @ (code_stream [Sb, Sb, Ack] @ b0 @ code_stream [Ack] @ b1) @ [])))
       \<lparr>sent = [], broken = None\<rparr>) = Inr ([], Prg)"
proof -
  define b0 where "b0 = sign_block ((build_block 0 0 [])[SIZEPOS := word_of_nat (length (build_block 0 0xFFFF []))])"
  define b1 where "b1 = sign_block ((build_block 0 0xFFFF [])[SIZEPOS := word_of_nat (length (build_block 0 0xFFFF []))])"
  have bs: "build_data_blocks [] 248 = Inr [b0, b1]"
    by (simp add: build_data_blocks_def backpatch_next_sizes_def b0_def b1_def)
  obtain ty where ty: "build_type_block Prg = [ty]"
    by (simp add: build_type_block_def backpatch_next_sizes_def)
  have hs: "handshake 2 (code_stream [Ack])" "handshake 2 (code_stream [Sb, Sb, Ack])"
    by (auto simp: handshake_def intro: exI [of _ "[]"] exI [of _ "[Sb, Sb]"])
  have bad: "\<not> checksum_ok [1, 0, 0, 0, 0, 0, 0, 0]"
    by (simp add: checksum_ok_def punter_layout punter_checksums_def add_step_def from_le16_def)
  have tb: "delivery 2 (punter_max_bad_rounds demo_config) 0 0 None TYPE_PHASE_SIZE (build_type_block Prg)
      (code_stream [Ack] @ [1, 0, 0, 0, 0, 0, 0, 0] @ code_stream [Ack] @ ty)"
    unfolding ty using hs(1) bad
    by (intro delivery.damaged delivery.last_block) (auto simp: TYPE_PHASE_SIZE_def DATAPOS_def demo_config_def)
  have db: "delivery 2 (punter_max_bad_rounds demo_config) 0 0 None DATA_PHASE_FIRST_SIZE [b0, b1]
      (code_stream [Sb, Sb, Ack] @ b0 @ code_stream [Ack] @ b1)"
    using hs by (intro delivery.next_block delivery.last_block)
  have "length ([] :: byte list) \<le> MAX_FILE_SIZE" by simp
  from punter_receive_delivers [where is_tcp = True and p = False and tail = "[]", OF bs this tb db demo_tune
      steady_paced [OF zero_less_one], of 0] bs ty
  show ?thesis by auto
qed



text \<open>Property C26: a receive ends. Whatever a peer sends or withholds, \<open>punter_receive\<close> is over within
  a time computed from the configuration (and the file limit), as long as the limit on bad rounds is
  not the largest 32-bit number.\<close>

theorem punter_receive_ends:
  assumes "punter_max_bad_rounds cfg < 2 ^ 32 - 1"
  shows "now (snd (punter_receive cfg is_tcp p w wr)) \<le> clock w + 2 * phase_ms (load_Tunables cfg)"
proof -
  let ?t = "load_Tunables cfg"
  have b: "max_bad_rounds ?t < 2 ^ 32 - 1" using assms by simp
  have phase: "now l' \<le> now l + phase_ms ?t" if "receive_phase is_tcp p sz ?t lp l = (r, l')" for sz lp l r l'
    using receive_loop_time [OF that [unfolded receive_phase_def] init_rx_inv b]
    by (simp add: phase_ms_def rx_budget_def init_rx_def)
  obtain r1 l1 where r1: "receive_phase is_tcp p TYPE_PHASE_SIZE ?t False \<lparr>rst = default_ReadState, inw = w, outw = wr\<rparr> = (r1, l1)"
    by (cases "receive_phase is_tcp p TYPE_PHASE_SIZE ?t False \<lparr>rst = default_ReadState, inw = w, outw = wr\<rparr>")
  obtain r2 l2 where r2: "receive_phase is_tcp p DATA_PHASE_FIRST_SIZE ?t True l1 = (r2, l2)"
    by (cases "receive_phase is_tcp p DATA_PHASE_FIRST_SIZE ?t True l1")
  from phase [OF r1] phase [OF r2] show ?thesis
    by (auto simp: punter_receive_def lbind_def lpure_def r1 r2 split: sum.splits)
qed

theorem punter_receive_ends_witness:
  "now (snd (punter_receive demo_config True False \<lparr>clock = 0, feed = []\<rparr> \<lparr>sent = [], broken = None\<rparr>))
     \<le> 0 + 2 * phase_ms (load_Tunables demo_config)"
  using punter_receive_ends [of demo_config True False "\<lparr>clock = 0, feed = []\<rparr>" "\<lparr>sent = [], broken = None\<rparr>"]
  by (simp add: demo_config_def)

end
