(* ===== verification/Cpm_Fcb.thy ===== *)
theory Cpm_Fcb
  imports Rust_Std
begin

text \<open>
  The CP/M file control block and its 8.3 names (\<^verbatim>\<open>src/src/cpm/fcb.rs\<close>): the sequential position kept in
  the extent, module and record bytes of the guest's FCB, the search rule of the directory walk, and
  the translation between host file names, CCP file specifications and padded name fields. Arrays
  \<^verbatim>\<open>[u8; 8]\<close> and \<^verbatim>\<open>[u8; 3]\<close> are byte lists of that length.
\<close>

section \<open>The control block\<close>

definition FCB_SIZE :: nat where "FCB_SIZE = 36"

record Fcb =
  fcb_drive :: byte
  fcb_name :: "byte list"
  fcb_ext :: "byte list"
  fcb_ex :: byte
  fcb_s2 :: byte
  fcb_cr :: byte
  fcb_rc :: byte
  fcb_r :: "byte list"

definition fcb_from_bytes :: "byte list \<Rightarrow> Fcb" where
  "fcb_from_bytes b =
     \<lparr>fcb_drive = b ! 0,
      fcb_name = map (\<lambda>x. x AND 0x7F) (take 8 (drop 1 b)),
      fcb_ext = map (\<lambda>x. x AND 0x7F) (take 3 (drop 9 b)),
      fcb_ex = b ! 12, fcb_s2 = b ! 14, fcb_cr = b ! 32, fcb_rc = b ! 15,
      fcb_r = [b ! 33, b ! 34, b ! 35]\<rparr>"

definition seq_record :: "Fcb \<Rightarrow> u32" where
  "seq_record f =
     (let extent = push_bit 5 (ucast (fcb_s2 f) AND 0x3F) OR (ucast (fcb_ex f) AND 0x1F)
      in extent * 128 + ucast (fcb_cr f))"

definition random_record :: "Fcb \<Rightarrow> u32" where
  "random_record f = ucast (fcb_r f ! 0) OR push_bit 8 (ucast (fcb_r f ! 1)) OR push_bit 16 (ucast (fcb_r f ! 2))"

definition advance_record :: "Fcb \<Rightarrow> Fcb" where
  "advance_record f =
     (if fcb_cr f < 127 then f\<lparr>fcb_cr := fcb_cr f + 1\<rparr>
      else if fcb_ex f < 31 then f\<lparr>fcb_cr := 0, fcb_ex := fcb_ex f + 1\<rparr>
      else f\<lparr>fcb_cr := 0, fcb_ex := 0, fcb_s2 := fcb_s2 f + 1\<rparr>)"

definition set_seq_record :: "Fcb \<Rightarrow> u32 \<Rightarrow> Fcb" where
  "set_seq_record f record =
     (let extent = record div 128
      in f\<lparr>fcb_cr := ucast (record mod 128), fcb_ex := ucast (extent AND 0x1F),
           fcb_s2 := ucast (drop_bit 5 extent AND 0x3F)\<rparr>)"

definition store_position :: "Fcb \<Rightarrow> byte list \<Rightarrow> byte list" where
  "store_position f b = b[12 := fcb_ex f, 14 := fcb_s2 f, 15 := fcb_rc f, 32 := fcb_cr f]"

definition matches_byte :: "byte \<Rightarrow> byte \<Rightarrow> bool" where
  "matches_byte pat c \<longleftrightarrow> \<not> (pat \<noteq> 0x3F \<and> pat \<noteq> c)"

definition fcb_matches :: "Fcb \<Rightarrow> byte list \<Rightarrow> byte list \<Rightarrow> bool" where
  "fcb_matches f cand_name cand_ext \<longleftrightarrow>
     list_all (\<lambda>(pat, c). matches_byte pat c) (zip (fcb_name f) cand_name) \<and>
     list_all (\<lambda>(pat, c). matches_byte pat c) (zip (fcb_ext f) cand_ext)"

definition search_matches_entry :: "Fcb \<Rightarrow> byte list \<Rightarrow> byte \<Rightarrow> bool" where
  "search_matches_entry f entry exm =
     (let name = map (\<lambda>x. x AND 0x7F) (take 8 (drop 1 entry));
          ext = map (\<lambda>x. x AND 0x7F) (take 3 (drop 9 entry))
      in if \<not> fcb_matches f name ext then False
         else if fcb_ex f \<noteq> 0x3F \<and> (fcb_ex f AND NOT exm) AND 0x1F \<noteq> (entry ! 12 AND NOT exm) AND 0x1F then False
         else let s2 = (if fcb_ex f = 0x3F then fcb_s2 f else 0)
              in s2 = 0x3F \<or> (s2 - entry ! 14) AND 0x7F = 0)"


section \<open>8.3 names\<close>

definition is_ascii_graphic :: "byte \<Rightarrow> bool" where
  "is_ascii_graphic c \<longleftrightarrow> 0x21 \<le> c \<and> c \<le> 0x7E"

definition is_valid_8_3_char :: "byte \<Rightarrow> bool" where
  "is_valid_8_3_char c \<longleftrightarrow> is_ascii_graphic c \<and> c \<notin> set (str_of ''<>.,;:=?*[]|/'' @ [0x5C])"

definition pad :: "nat \<Rightarrow> str \<Rightarrow> byte list" where
  "pad width s = s @ replicate (width - length s) 0x20"

definition split_8_3 :: "str \<Rightarrow> (byte list \<times> byte list) option" where
  "split_8_3 filename =
     (let upper = to_ascii_uppercase filename;
          (name_part, ext_part) = (case rsplit_once 0x2E upper of Some ne \<Rightarrow> ne | None \<Rightarrow> (upper, []))
      in if name_part = [] \<or> length name_part > 8 \<or> length ext_part > 3 then None
         else if \<not> list_all is_valid_8_3_char name_part then None
         else if \<not> list_all is_valid_8_3_char ext_part then None
         else Some (pad 8 name_part, pad 3 ext_part))"

fun expand_from :: "nat \<Rightarrow> nat \<Rightarrow> byte list \<Rightarrow> str \<Rightarrow> byte list option" where
  "expand_from width i out [] = Some out"
| "expand_from width i out (c # cs) =
     (if c = 0x2A then Some (take i out @ map (\<lambda>_. 0x3F) (drop i out))
      else if i \<ge> width then None
      else if c = 0x3F then expand_from width (Suc i) (out[i := 0x3F]) cs
      else if is_valid_8_3_char c then expand_from width (Suc i) (out[i := c]) cs
      else None)"

definition expand_afn_field :: "nat \<Rightarrow> str \<Rightarrow> byte list option" where
  "expand_afn_field width s = expand_from width 0 (replicate width 0x20) s"

definition parse_afn :: "str \<Rightarrow> (byte list \<times> byte list) option" where
  "parse_afn spec =
     (let upper = to_ascii_uppercase (trim spec)
      in if upper = [] then None
         else let (name_part, ext_part) = (case rsplit_once 0x2E upper of Some ne \<Rightarrow> ne | None \<Rightarrow> (upper, []))
              in case expand_afn_field 8 name_part of None \<Rightarrow> None
                 | Some name \<Rightarrow> (case expand_afn_field 3 ext_part of None \<Rightarrow> None | Some ext \<Rightarrow> Some (name, ext)))"

definition split_once :: "byte \<Rightarrow> str \<Rightarrow> (str \<times> str) option" where
  "split_once c s = (case dropWhile (\<lambda>x. x \<noteq> c) s of [] \<Rightarrow> None | _ # r \<Rightarrow> Some (takeWhile (\<lambda>x. x \<noteq> c) s, r))"

definition split_drive_prefix :: "str \<Rightarrow> byte \<times> str" where
  "split_drive_prefix token =
     (case split_once 0x3A token of
        Some ([d], r) \<Rightarrow> if is_ascii_alphabetic d then (to_ascii_uppercase_byte d - 0x41 + 1, r) else (0, token)
      | _ \<Rightarrow> (0, token))"

definition parse_command_fcb :: "str \<Rightarrow> byte \<times> byte list \<times> byte list" where
  "parse_command_fcb token =
     (let (drive, rest) = split_drive_prefix token;
          (name, ext) = (case parse_afn rest of Some ne \<Rightarrow> ne | None \<Rightarrow> (replicate 8 0x20, replicate 3 0x20))
      in (drive, name, ext))"

definition parse_dir_operand :: "str \<Rightarrow> (byte \<times> byte list \<times> byte list) option" where
  "parse_dir_operand operand =
     (let (drive, rest) = split_drive_prefix (trim operand)
      in if trim rest = [] then Some (drive, replicate 8 0x3F, replicate 3 0x3F)
         else case parse_afn rest of None \<Rightarrow> None | Some (name, ext) \<Rightarrow> Some (drive, name, ext))"

text \<open>A byte pushed onto a string as a \<^verbatim>\<open>char\<close>: above 0x7F it takes two bytes of UTF-8.\<close>

definition push_char :: "byte \<Rightarrow> str" where
  "push_char c = (if c < 0x80 then [c] else [0xC0 OR drop_bit 6 c, 0x80 OR (c AND 0x3F)])"

definition format_8_3 :: "byte list \<Rightarrow> byte list \<Rightarrow> str" where
  "format_8_3 name ext =
     (let n = concat (map push_char (takeWhile (\<lambda>c. c \<noteq> 0x20) name));
          e = concat (map push_char (takeWhile (\<lambda>c. c \<noteq> 0x20) ext))
      in if e = [] then n else n @ [0x2E] @ e)"


section \<open>The sequential position\<close>

lemma unat_and_mask: "unat (w AND mask n) = unat (w :: 'a::len word) mod 2 ^ n"
proof -
  have "unat (w AND mask n) = take_bit n (unat w)"
    by (simp only: take_bit_eq_mask [symmetric, where a = w] unsigned_take_bit_eq)
  then show ?thesis by (simp only: take_bit_eq_mod)
qed

lemma unat_ucast_u32: "unat (ucast (b :: byte) :: u32) = unat b"
  using less_trans [OF unat_byte_less [of b], of "2 ^ 32"] by (simp add: unat_ucast_mod)

lemma low_bits_nat: "unat (w AND 0x3F) = unat (w :: u32) mod 64" "unat (w AND 0x1F) = unat (w :: u32) mod 32"
  using unat_and_mask [of w 6] unat_and_mask [of w 5] by (simp_all add: mask_eq_exp_minus_1)

lemma extent_nat:
  "unat (push_bit 5 (s AND 0x3F) OR (e AND 0x1F) :: u32) = unat s mod 64 * 32 + unat e mod 32"
proof -
  let ?h = "push_bit 5 (s AND 0x3F) :: u32" and ?l = "e AND 0x1F :: u32"
  have "(0x1F :: u32) = mask 5" by (simp add: mask_eq_exp_minus_1)
  moreover have "push_bit 5 x AND (e AND mask 5) = 0" for x :: u32
    by (intro bit_eqI) (auto simp: bit_push_bit_iff bit_and_iff bit_mask_iff)
  ultimately have "?h AND ?l = 0" by metis
  then have "?h OR ?l = ?h + ?l" using word_plus_and_or [of ?h ?l] by simp
  moreover
  have h: "?h = (s AND 0x3F) * 32" by (simp add: push_bit_eq_mult)
  have "unat ?h = unat s mod 64 * 32" unfolding h by (simp add: unat_mult_lem [THEN iffD1] low_bits_nat)
  ultimately show ?thesis by (simp add: unat_add_lem [THEN iffD1] low_bits_nat)
qed

lemma unat_seq_record:
  "unat (seq_record f) = unat (fcb_s2 f) mod 64 * 4096 + unat (fcb_ex f) mod 32 * 128 + unat (fcb_cr f)"
proof -
  define e where "e = (push_bit 5 (ucast (fcb_s2 f) AND 0x3F) OR (ucast (fcb_ex f) AND 0x1F) :: u32)"
  have e: "unat e = unat (fcb_s2 f) mod 64 * 32 + unat (fcb_ex f) mod 32"
    unfolding e_def extent_nat unat_ucast_u32 ..
  then have l: "unat e < 2048" by (auto intro: order.strict_trans1)
  then have m: "unat (e * 128) = unat e * 128" by (simp add: unat_mult_lem [THEN iffD1])
  have "unat (e * 128) + unat (ucast (fcb_cr f) :: u32) < 4294967296"
    using l m unat_byte_less [of "fcb_cr f"] unfolding unat_ucast_u32 by linarith
  then have "unat (e * 128 + ucast (fcb_cr f)) = unat (e * 128) + unat (fcb_cr f)"
    by (simp add: unat_add_lem [THEN iffD1] unat_ucast_u32)
  with e m show ?thesis unfolding seq_record_def Let_def e_def [symmetric] by simp
qed

lemma position_split: "n div 4096 * 4096 + n div 128 mod 32 * 128 + n mod 128 = (n :: nat)"
proof -
  have "n div 4096 = n div 128 div 32" using div_mult2_eq [of n 128 32] by simp
  then show ?thesis using div_mult_mod_eq [of "n div 128" 32] div_mult_mod_eq [of n 128] by linarith
qed

lemma seq_set_seq_record:
  assumes "record < 262144"
  shows "seq_record (set_seq_record f record) = record"
proof -
  have "unat record < 262144" using assms by (simp add: word_less_nat_alt)
  moreover have "unat (record mod 128) = unat record mod 128" "unat (record div 128) = unat record div 128"
    by (simp_all add: unat_mod unat_div)
  moreover have "unat (drop_bit 5 (record div 128)) = unat record div 4096"
    by (simp add: unsigned_drop_bit_eq drop_bit_eq_div unat_div flip: div_mult2_eq)
  ultimately have "unat (seq_record (set_seq_record f record)) = unat record"
    using position_split [of "unat record"]
    by (simp add: unat_seq_record set_seq_record_def Let_def unat_ucast_mod low_bits_nat)
  then show ?thesis by (simp add: word_unat_eq_iff)
qed

lemma seq_advance_record:
  assumes "fcb_cr f < 128" "fcb_ex f < 32" "unat (seq_record f) < 262143"
  shows "unat (seq_record (advance_record f)) = unat (seq_record f) + 1"
    and "fcb_cr (advance_record f) < 128" "fcb_ex (advance_record f) < 32"
proof -
  have c: "unat (fcb_cr f) < 128" "unat (fcb_ex f) < 32" using assms by (simp_all add: word_less_nat_alt)
  have inc: "unat (b + 1 :: byte) = unat b + 1" if "unat b < 255" for b using that by (simp add: unat_word_ariths)
  have wrap: "unat (b + 1 :: byte) mod 64 = (unat b + 1) mod 64" for b
    by (simp add: unat_word_ariths mod_mod_cancel)
  consider "unat (fcb_cr f) < 127" | "unat (fcb_cr f) = 127" "unat (fcb_ex f) < 31" | "unat (fcb_cr f) = 127" "unat (fcb_ex f) = 31"
    using c by linarith
  then show "unat (seq_record (advance_record f)) = unat (seq_record f) + 1"
    "fcb_cr (advance_record f) < 128" "fcb_ex (advance_record f) < 32"
    using c assms(3)
    by (cases; simp add: unat_seq_record advance_record_def word_less_nat_alt inc wrap mod_Suc)+
qed

text \<open>What the guest sees of one sequential operation: the FCB is read from its memory, advanced and
  stored back.\<close>

definition seq_step :: "byte list \<Rightarrow> byte list" where
  "seq_step b = store_position (advance_record (fcb_from_bytes b)) b"

lemma length_store_position [simp]: "length (store_position f b) = length b"
  by (simp add: store_position_def)

lemma nth_store_position:
  "FCB_SIZE \<le> length b \<Longrightarrow> i < length b \<Longrightarrow> store_position f b ! i =
     (if i = 12 then fcb_ex f else if i = 14 then fcb_s2 f else if i = 15 then fcb_rc f
      else if i = 32 then fcb_cr f else b ! i)"
  by (auto simp: store_position_def FCB_SIZE_def nth_list_update)

lemma advance_record_keeps: "fcb_rc (advance_record f) = fcb_rc f"
  by (simp add: advance_record_def)

lemma seq_record_cong:
  "fcb_ex f = fcb_ex g \<Longrightarrow> fcb_s2 f = fcb_s2 g \<Longrightarrow> fcb_cr f = fcb_cr g \<Longrightarrow> seq_record f = seq_record g"
  by (simp add: seq_record_def)

lemma seq_step_reads:
  assumes "FCB_SIZE \<le> length b"
  defines "f \<equiv> advance_record (fcb_from_bytes b)"
  shows "fcb_ex (fcb_from_bytes (seq_step b)) = fcb_ex f" "fcb_s2 (fcb_from_bytes (seq_step b)) = fcb_s2 f"
    "fcb_cr (fcb_from_bytes (seq_step b)) = fcb_cr f"
    "i \<notin> {12, 14, 32} \<Longrightarrow> i < length b \<Longrightarrow> seq_step b ! i = b ! i"
  using assms by (auto simp: seq_step_def fcb_from_bytes_def nth_store_position FCB_SIZE_def advance_record_keeps)

lemma seq_steps:
  assumes "FCB_SIZE \<le> length b" "b ! 32 < 128" "b ! 12 < 32" "unat (seq_record (fcb_from_bytes b)) + n < 262144"
  shows "unat (seq_record (fcb_from_bytes ((seq_step ^^ n) b))) = unat (seq_record (fcb_from_bytes b)) + n \<and>
    length ((seq_step ^^ n) b) = length b \<and>
    (seq_step ^^ n) b ! 32 < 128 \<and> (seq_step ^^ n) b ! 12 < 32 \<and>
    (\<forall>i. i < length b \<and> i \<notin> {12, 14, 32} \<longrightarrow> (seq_step ^^ n) b ! i = b ! i)"
  using assms(4)
proof (induction n)
  case (Suc n)
  define c where "c = (seq_step ^^ n) b"
  have IH: "unat (seq_record (fcb_from_bytes c)) = unat (seq_record (fcb_from_bytes b)) + n" "length c = length b"
    "c ! 32 < 128" "c ! 12 < 32" "\<And>i. i < length b \<Longrightarrow> i \<notin> {12, 14, 32} \<Longrightarrow> c ! i = b ! i"
    using Suc by (auto simp: c_def)
  have len: "FCB_SIZE \<le> length c" using assms(1) IH(2) by simp
  let ?f = "fcb_from_bytes c"
  have pre: "fcb_cr ?f < 128" "fcb_ex ?f < 32" "unat (seq_record ?f) < 262143"
    using IH Suc.prems by (simp_all add: fcb_from_bytes_def)
  note adv = seq_advance_record [OF pre] and rd = seq_step_reads [OF len]
  have "seq_record (fcb_from_bytes (seq_step c)) = seq_record (advance_record ?f)"
    by (intro seq_record_cong rd)
  moreover have "seq_step c ! 32 < 128" "seq_step c ! 12 < 32"
    using rd(1,3) adv(2,3) by (simp_all add: fcb_from_bytes_def)
  moreover have "length (seq_step c) = length b" using IH(2) by (simp add: seq_step_def)
  ultimately show ?case using IH adv(1) rd(4) by (simp flip: c_def)
qed (use assms in simp)


section \<open>Names and fields\<close>

lemma valid_char: "is_valid_8_3_char c \<Longrightarrow> c < 0x80 \<and> c \<noteq> 0x20 \<and> c \<noteq> 0x2E \<and> c \<noteq> 0x3F \<and> c \<noteq> 0x2A"
proof -
  assume v: "is_valid_8_3_char c"
  then have "0x21 \<le> c" "c \<le> 0x7E" by (simp_all add: is_valid_8_3_char_def is_ascii_graphic_def)
  then have "c < 0x80" "c \<noteq> 0x20" by (auto simp: word_less_nat_alt word_le_nat_alt)
  moreover have "c \<noteq> 0x2E \<and> c \<noteq> 0x3F \<and> c \<noteq> 0x2A" using v by (auto simp: is_valid_8_3_char_def str_of_def)
  ultimately show ?thesis by blast
qed

lemma uppercase_idem [simp]: "to_ascii_uppercase (to_ascii_uppercase s) = to_ascii_uppercase s"
proof -
  have "to_ascii_uppercase_byte (to_ascii_uppercase_byte b) = to_ascii_uppercase_byte b" for b
    by (rule byte_table_exhaust [where P = "\<lambda>b. to_ascii_uppercase_byte (to_ascii_uppercase_byte b) = to_ascii_uppercase_byte b"]) code_simp
  then show ?thesis by (simp add: to_ascii_uppercase_def)
qed

text \<open>What a name field of the directory holds: upper-case legal characters, then blanks.\<close>

definition canonical_field :: "nat \<Rightarrow> byte list \<Rightarrow> bool" where
  "canonical_field width f \<longleftrightarrow> length f = width \<and>
     (let s = takeWhile (\<lambda>c. c \<noteq> 0x20) f
      in f = pad width s \<and> list_all is_valid_8_3_char s \<and> to_ascii_uppercase s = s)"

lemma takeWhile_pad:
  assumes "list_all is_valid_8_3_char s"
  shows "takeWhile (\<lambda>c. c \<noteq> 0x20) (pad width s) = s"
proof -
  have "\<forall>c \<in> set s. c \<noteq> 0x20" using assms valid_char by (auto simp: list_all_iff)
  then show ?thesis by (cases "width - length s") (simp_all add: pad_def takeWhile_append2)
qed

lemma canonical_pad:
  "list_all is_valid_8_3_char s \<Longrightarrow> length s \<le> width \<Longrightarrow> to_ascii_uppercase s = s \<Longrightarrow> canonical_field width (pad width s)"
  by (simp add: canonical_field_def takeWhile_pad) (simp add: pad_def)

lemma canonical_core:
  assumes "canonical_field width f"
  obtains s where "f = pad width s" "list_all is_valid_8_3_char s" "length s \<le> width" "to_ascii_uppercase s = s"
    "takeWhile (\<lambda>c. c \<noteq> 0x20) f = s"
proof (rule that [of "takeWhile (\<lambda>c. c \<noteq> 0x20) f"])
  show "length (takeWhile (\<lambda>c. c \<noteq> 0x20) f) \<le> width"
    using assms length_takeWhile_le [of _ f] by (simp add: canonical_field_def)
qed (use assms in \<open>simp_all add: canonical_field_def Let_def\<close>)

lemma chars_of_valid: "list_all is_valid_8_3_char s \<Longrightarrow> concat (map push_char s) = s"
  by (induction s) (auto simp: push_char_def dest: valid_char)

lemma no_dot: "list_all is_valid_8_3_char s \<Longrightarrow> 0x2E \<notin> set s"
  using valid_char by (auto simp: list_all_iff)

lemma format_pad:
  assumes "list_all is_valid_8_3_char n" "list_all is_valid_8_3_char e"
  shows "format_8_3 (pad 8 n) (pad 3 e) = (if e = [] then n else n @ [0x2E] @ e)"
  using assms by (simp add: format_8_3_def takeWhile_pad chars_of_valid)

lemma rsplit_once_dot: "c \<notin> set e \<Longrightarrow> rsplit_once c (n @ [c] @ e) = Some (n, e)"
proof -
  assume "c \<notin> set e"
  then have "takeWhile (\<lambda>b. b \<noteq> c) (rev e @ c # rev n) = rev e" "dropWhile (\<lambda>b. b \<noteq> c) (rev e @ c # rev n) = c # rev n"
    by (subst takeWhile_append2 dropWhile_append2; auto)+
  then show ?thesis by (simp add: rsplit_once_def)
qed

lemma rsplit_once_Some: "rsplit_once c s = Some (n, e) \<Longrightarrow> s = n @ [c] @ e \<and> c \<notin> set e"
proof -
  assume r: "rsplit_once c s = Some (n, e)"
  then have "c \<in> set (rev s)" by (simp add: rsplit_once_def split: if_splits)
  then obtain us vs where s: "rev s = us @ c # vs" "c \<notin> set us" by (meson split_list_first)
  then have "s = rev vs @ [c] @ rev us" by (metis append.assoc append_Cons append_Nil rev_append rev_rev_ident rev.simps(2))
  with s(2) r rsplit_once_dot [of c "rev us" "rev vs"] show ?thesis by simp
qed

lemma split_format:
  assumes "canonical_field 8 n" "canonical_field 3 e" "n ! 0 \<noteq> 0x20"
  shows "split_8_3 (format_8_3 n e) = Some (n, e)"
proof -
  obtain a where a: "n = pad 8 a" "list_all is_valid_8_3_char a" "length a \<le> 8" "to_ascii_uppercase a = a"
    using canonical_core [OF assms(1)] by metis
  obtain b where b: "e = pad 3 b" "list_all is_valid_8_3_char b" "length b \<le> 3" "to_ascii_uppercase b = b"
    using canonical_core [OF assms(2)] by metis
  have ne: "a \<noteq> []" using assms(3) a(1) by (auto simp: pad_def)
  have up: "to_ascii_uppercase (x @ [0x2E] @ y) = to_ascii_uppercase x @ [0x2E] @ to_ascii_uppercase y" for x y
    by (simp add: to_ascii_uppercase_def to_ascii_uppercase_byte_def in_range_def)
  show ?thesis
  proof (cases "b = []")
    case True
    then show ?thesis using a b ne no_dot [OF a(2)] by (simp add: format_pad split_8_3_def rsplit_once_def)
  next
    case False
    then show ?thesis using a b ne no_dot [OF b(2)]
      by (simp add: format_pad split_8_3_def up [simplified] rsplit_once_dot [simplified])
  qed
qed

lemma split_canonical:
  assumes "split_8_3 s = Some (n, e)"
  defines "u \<equiv> to_ascii_uppercase s"
  shows "canonical_field 8 n \<and> canonical_field 3 e \<and> n ! 0 \<noteq> 0x20 \<and>
    format_8_3 n e = (if last u = 0x2E then butlast u else u)"
proof -
  obtain a b where ab: "(case rsplit_once 0x2E u of Some ne \<Rightarrow> ne | None \<Rightarrow> (u, [])) = (a, b)" by force
  have "split_8_3 s = (if a = [] \<or> length a > 8 \<or> length b > 3 then None
      else if \<not> list_all is_valid_8_3_char a then None else if \<not> list_all is_valid_8_3_char b then None
      else Some (pad 8 a, pad 3 b))"
    by (simp only: split_8_3_def Let_def ab [unfolded u_def] prod.case)
  with assms(1) have v: "a \<noteq> []" "length a \<le> 8" "length b \<le> 3" "list_all is_valid_8_3_char a" "list_all is_valid_8_3_char b"
    and ne: "n = pad 8 a" "e = pad 3 b"
    by (auto split: if_splits)
  have u: "u = a @ [0x2E] @ b \<or> u = a \<and> b = []"
    using ab rsplit_once_Some [of "0x2E" u a b] by (auto split: option.splits)
  then have up: "to_ascii_uppercase a = a" "to_ascii_uppercase b = b"
    using uppercase_idem [of s] unfolding u_def [symmetric] by (auto simp: to_ascii_uppercase_def)
  have "canonical_field 8 n" "canonical_field 3 e" using v up ne by (simp_all add: canonical_pad)
  moreover have "n ! 0 \<noteq> 0x20" using v(1,4) ne(1) valid_char [of "a ! 0"] by (cases a) (auto simp: pad_def)
  moreover have "format_8_3 n e = (if last u = 0x2E then butlast u else u)"
  proof -
    have "last a \<noteq> 0x2E" using no_dot [OF v(4)] v(1) last_in_set by metis
    moreover have "b \<noteq> [] \<Longrightarrow> last b \<noteq> 0x2E" using no_dot [OF v(5)] last_in_set by metis
    ultimately show ?thesis using u v by (auto simp: ne format_pad butlast_append)
  qed
  ultimately show ?thesis by blast
qed

text \<open>The reference meaning of a wildcard field, on the field's own characters: a star takes the rest of
  the field, a question mark any one position, and where the specification ends the field is blank.\<close>

fun glob :: "str \<Rightarrow> byte list \<Rightarrow> bool" where
  "glob [] cand \<longleftrightarrow> list_all (\<lambda>c. c = 0x20) cand"
| "glob (c # cs) cand \<longleftrightarrow> c = 0x2A \<or>
     (case cand of [] \<Rightarrow> False | d # ds \<Rightarrow> (c = 0x3F \<or> c = d) \<and> glob cs ds)"

definition field_matches :: "byte list \<Rightarrow> byte list \<Rightarrow> bool" where
  "field_matches pat cand \<longleftrightarrow> list_all (\<lambda>(p, c). matches_byte p c) (zip pat cand)"

lemma field_matches_simps [simp]:
  "field_matches [] cand" "field_matches (p # ps) (c # cs) \<longleftrightarrow> matches_byte p c \<and> field_matches ps cs"
  by (simp_all add: field_matches_def)

lemma field_matches_append:
  "length p = length c \<Longrightarrow> field_matches (p @ ps) (c @ cs) \<longleftrightarrow> field_matches p c \<and> field_matches ps cs"
  by (simp add: field_matches_def)

lemma field_matches_replicate:
  "field_matches (replicate (length cand) p) cand \<longleftrightarrow> list_all (matches_byte p) cand"
  by (induction cand) auto

lemma expand_from_matches:
  assumes "expand_from (length x + length y) (length x) (x @ replicate (length y) 0x20) s = Some pat" "length x = length cx"
  shows "length pat = length x + length y \<and> (field_matches pat (cx @ y) \<longleftrightarrow> field_matches x cx \<and> glob s y)"
  using assms
proof (induction s arbitrary: x cx y)
  case Nil
  then show ?case
    by (auto simp: field_matches_append field_matches_replicate matches_byte_def list_all_iff)
next
  case (Cons c cs)
  show ?case
  proof (cases "c = 0x2A")
    case True
    then have "pat = x @ replicate (length y) 0x3F" using Cons.prems(1) by (simp add: map_replicate_const)
    with Cons.prems(2) True show ?thesis
      by (simp add: field_matches_append field_matches_replicate matches_byte_def list_all_iff)
  next
    case False
    then obtain d ds where y: "y = d # ds" using Cons.prems(1) by (cases y) (auto split: if_splits)
    have "expand_from (length (x @ [c]) + length ds) (length (x @ [c])) ((x @ [c]) @ replicate (length ds) 0x20) cs = Some pat"
      "c = 0x3F \<or> is_valid_8_3_char c"
      using Cons.prems(1) False by (auto simp: y list_update_append split: if_splits)
    from this Cons.IH [of "x @ [c]" ds "cx @ [d]"] Cons.prems(2) False show ?thesis
      by (auto simp: y field_matches_append matches_byte_def)
  qed
qed

lemma expand_matches:
  assumes "expand_afn_field (length cand) s = Some pat"
  shows "length pat = length cand" "field_matches pat cand \<longleftrightarrow> glob s cand"
  using expand_from_matches [of "[]" cand s pat "[]"] assms by (auto simp: expand_afn_field_def)


section \<open>Properties\<close>

text \<open>Property C36: the position in the guest's own FCB is an exact record counter. After n sequential
  operations, each of which reads the FCB from guest memory, advances it and stores it back, the FCB
  stands n records further, through every carry from record to extent to module, its other bytes are
  untouched; and positioning it on any record below 262144 makes it stand on that record.\<close>

theorem fcb_counts_records:
  assumes "FCB_SIZE \<le> length b" "b ! 32 < 128" "b ! 12 < 32" "unat (seq_record (fcb_from_bytes b)) + n < 262144"
  shows "unat (seq_record (fcb_from_bytes ((seq_step ^^ n) b))) = unat (seq_record (fcb_from_bytes b)) + n \<and>
    (\<forall>i < length b. i \<notin> {12, 14, 32} \<longrightarrow> (seq_step ^^ n) b ! i = b ! i) \<and>
    (\<forall>record < 262144. seq_record (set_seq_record (fcb_from_bytes b) record) = record)"
  using seq_steps [OF assms] seq_set_seq_record by blast

theorem fcb_counts_records_witness:
  "unat (seq_record (fcb_from_bytes ((seq_step ^^ 130) (replicate 36 0)))) = 130"
  using fcb_counts_records [of "replicate 36 0" 130] by (simp add: FCB_SIZE_def seq_record_def fcb_from_bytes_def)

text \<open>The 8.3 translation loses nothing. A directory name that is upper-case and legal is
  formatted to a host name which splits back to the same two fields; and a host name that splits at
  all gives such fields, and formats back to its own upper-case spelling, less a final dot.\<close>

lemma name_8_3_roundtrip:
  "(canonical_field 8 n \<and> canonical_field 3 e \<and> n ! 0 \<noteq> 0x20 \<longrightarrow> split_8_3 (format_8_3 n e) = Some (n, e)) \<and>
   (split_8_3 s = Some (n, e) \<longrightarrow> canonical_field 8 n \<and> canonical_field 3 e \<and> n ! 0 \<noteq> 0x20 \<and>
      format_8_3 n e = (let u = to_ascii_uppercase s in if last u = 0x2E then butlast u else u))"
  using split_format [of n e] split_canonical [of s n e] by (auto simp: Let_def)


text \<open>Property C37: a parsed wildcard specification selects exactly the directory names the wildcards
  mean. When a specification parses, matching its expanded fields against a candidate, byte by byte,
  is the same as matching the text before its last dot against the candidate's name and the text
  after it against its type under the reference meaning of star and question mark.\<close>

theorem afn_selects_by_glob:
  assumes "parse_afn spec = Some (name, ext)" "fcb_name f = name" "fcb_ext f = ext" "length cn = 8" "length ce = 3"
  shows "fcb_matches f cn ce \<longleftrightarrow>
    (let u = to_ascii_uppercase (trim spec)
     in case rsplit_once 0x2E u of Some (n, e) \<Rightarrow> glob n cn \<and> glob e ce | None \<Rightarrow> glob u cn \<and> glob [] ce)"
proof -
  define u where "u = to_ascii_uppercase (trim spec)"
  obtain n e where ne: "(case rsplit_once 0x2E u of Some ne \<Rightarrow> ne | None \<Rightarrow> (u, [])) = (n, e)" by force
  with assms(1) have "expand_afn_field (length cn) n = Some name" "expand_afn_field (length ce) e = Some ext"
    using assms(4,5) by (auto simp: parse_afn_def Let_def split: if_splits option.splits simp flip: u_def)
  then have "fcb_matches f cn ce \<longleftrightarrow> glob n cn \<and> glob e ce"
    using assms(2,3) expand_matches(2) by (simp add: fcb_matches_def flip: field_matches_def)
  with ne show ?thesis by (auto simp: Let_def simp flip: u_def split: option.splits)
qed

theorem afn_selects_by_glob_witness:
  "fcb_matches ((fcb_from_bytes (replicate 36 0))\<lparr>fcb_name := pad 8 (str_of ''A??''), fcb_ext := str_of ''???''\<rparr>)
     (pad 8 (str_of ''ABC'')) (pad 3 (str_of ''TXT''))"
proof -
  have "parse_afn (str_of ''a??.*'') = Some (pad 8 (str_of ''A??''), str_of ''???'')"
    "length (pad 8 (str_of ''ABC'')) = 8" "length (pad 3 (str_of ''TXT'')) = 3"
    by code_simp+
  from afn_selects_by_glob [OF this(1) _ _ this(2,3), of "(fcb_from_bytes (replicate 36 0))\<lparr>fcb_name := pad 8 (str_of ''A??''), fcb_ext := str_of ''???''\<rparr>"]
  have "fcb_matches ((fcb_from_bytes (replicate 36 0))\<lparr>fcb_name := pad 8 (str_of ''A??''), fcb_ext := str_of ''???''\<rparr>)
     (pad 8 (str_of ''ABC'')) (pad 3 (str_of ''TXT'')) \<longleftrightarrow>
    (let u = to_ascii_uppercase (trim (str_of ''a??.*''))
     in case rsplit_once 0x2E u of Some (n, e) \<Rightarrow> glob n (pad 8 (str_of ''ABC'')) \<and> glob e (pad 3 (str_of ''TXT''))
        | None \<Rightarrow> glob u (pad 8 (str_of ''ABC'')) \<and> glob [] (pad 3 (str_of ''TXT'')))" by simp
  moreover have "\<dots>" by code_simp
  ultimately show ?thesis by simp
qed

end
