(* ===== verification/Cpm_Wd1771.thy ===== *)
theory Cpm_Wd1771
  imports Rust_Std
begin

text \<open>
  The FD1771 floppy formatter/controller chip (\<^verbatim>\<open>src/src/cpm/wd1771.rs\<close>): its registers, the four command
  families, the status register typed by the running command, and the transfers between the data
  register and the sector buffer, single and multiple record. What the chip needs of the medium is a
  value the board acts on.
\<close>

definition SECTOR_LEN :: nat where "SECTOR_LEN = 128"
definition MAX_SECTOR_LEN :: nat where "MAX_SECTOR_LEN = 512"
definition ID_FIELD_LEN :: nat where "ID_FIELD_LEN = 6"
definition SECTORS_PER_TRACK :: nat where "SECTORS_PER_TRACK = 26"

datatype Need = NeedNone | NeedRead byte byte | NeedWrite byte byte

datatype Kind = One | Two | Three | Four

definition kind_of :: "byte \<Rightarrow> Kind" where
  "kind_of cmd = (let n = unat (drop_bit 4 cmd)
     in if n \<le> 0x7 then One else if n \<le> 0xB then Two else if n = 0xD then Four else Three)"

datatype Move = MoveNone | Reading | Writing

record Wd1771 =
  wd_track :: byte
  wd_sector :: byte
  wd_data :: byte
  wd_cmd :: byte
  wd_ready :: bool
  wd_read_only :: bool
  wd_tracks :: byte
  wd_sector_len :: nat
  wd_sectors_per_track :: nat
  wd_side :: byte
  wd_xfer_len :: nat
  wd_busy :: bool
  wd_drq :: bool
  wd_intrq :: bool
  wd_error :: byte
  wd_head_loaded :: bool
  wd_index :: bool
  wd_buffer :: "byte list"
  wd_pos :: nat
  wd_moving :: Move
  wd_multi :: bool
  wd_idle_polls :: nat
  wd_prev_status :: byte
  wd_last_step_in :: bool

definition new_Wd1771 :: Wd1771 where
  "new_Wd1771 = \<lparr>wd_track = 0, wd_sector = 1, wd_data = 0, wd_cmd = 0, wd_ready = False, wd_read_only = True,
     wd_tracks = 77, wd_sector_len = SECTOR_LEN, wd_sectors_per_track = SECTORS_PER_TRACK, wd_side = 0,
     wd_xfer_len = SECTOR_LEN, wd_busy = False, wd_drq = False, wd_intrq = False, wd_error = 0,
     wd_head_loaded = False, wd_index = False, wd_buffer = replicate MAX_SECTOR_LEN 0, wd_pos = 0,
     wd_moving = MoveNone, wd_multi = False, wd_idle_polls = 0, wd_prev_status = 0xFF, wd_last_step_in = True\<rparr>"

definition set_drive :: "bool \<Rightarrow> bool \<Rightarrow> byte \<Rightarrow> Wd1771 \<Rightarrow> Wd1771" where
  "set_drive ready read_only tracks c = c\<lparr>wd_ready := ready, wd_read_only := read_only, wd_tracks := max tracks 1\<rparr>"

definition set_format :: "nat \<Rightarrow> nat \<Rightarrow> Wd1771 \<Rightarrow> Wd1771" where
  "set_format sector_len sectors_per_track c =
     c\<lparr>wd_sector_len := min (max sector_len 1) MAX_SECTOR_LEN, wd_sectors_per_track := max sectors_per_track 1\<rparr>"

definition set_side :: "byte \<Rightarrow> Wd1771 \<Rightarrow> Wd1771" where
  "set_side side c = c\<lparr>wd_side := side\<rparr>"

definition sector_out :: "Wd1771 \<Rightarrow> byte list" where
  "sector_out c = take (wd_sector_len c) (wd_buffer c)"

definition sector_loaded :: "byte list \<Rightarrow> Wd1771 \<Rightarrow> Wd1771" where
  "sector_loaded bs c =
     (let n = min (length bs) (wd_sector_len c)
      in c\<lparr>wd_buffer := take n bs @ replicate (wd_sector_len c - n) 0 @ drop (wd_sector_len c) (wd_buffer c),
           wd_xfer_len := wd_sector_len c, wd_pos := 0, wd_moving := Reading, wd_drq := True, wd_idle_polls := 0\<rparr>)"

definition record_not_found :: "Wd1771 \<Rightarrow> Wd1771" where
  "record_not_found c = c\<lparr>wd_error := wd_error c OR 0x10, wd_moving := MoveNone, wd_drq := False, wd_busy := False,
     wd_intrq := True, wd_pos := 0\<rparr>"

definition assume_read_completed :: "byte \<Rightarrow> byte \<Rightarrow> Wd1771 \<Rightarrow> Wd1771" where
  "assume_read_completed track sector c = c\<lparr>wd_cmd := 0x8C, wd_track := track, wd_sector := sector,
     wd_head_loaded := True, wd_error := 0, wd_busy := False, wd_drq := False, wd_intrq := False,
     wd_moving := MoveNone, wd_multi := False, wd_prev_status := 0xFF\<rparr>"

definition wd_advance_record :: "Wd1771 \<Rightarrow> Need \<times> Wd1771" where
  "wd_advance_record c0 =
     (let c = c0\<lparr>wd_pos := 0, wd_drq := False, wd_moving := MoveNone\<rparr>
      in if \<not> wd_multi c then (NeedNone, c\<lparr>wd_busy := False, wd_intrq := True\<rparr>)
         else let nxt = wd_sector c + 1
              in if nxt = 0 \<or> unat nxt > wd_sectors_per_track c
                 then (NeedNone, c\<lparr>wd_error := wd_error c OR 0x10, wd_busy := False, wd_intrq := True\<rparr>)
                 else if wd_cmd c AND 0x20 \<noteq> 0
                 then (NeedNone, c\<lparr>wd_sector := nxt, wd_moving := Writing, wd_drq := True\<rparr>)
                 else (NeedRead (wd_track c) nxt, c\<lparr>wd_sector := nxt\<rparr>))"

definition flag :: "bool \<Rightarrow> byte \<Rightarrow> byte" where
  "flag b x = (if b then x else 0)"

definition type1_status :: "Wd1771 \<Rightarrow> byte" where
  "type1_status c = flag (\<not> wd_ready c) 0x80 OR flag (wd_read_only c) 0x40 OR flag (wd_head_loaded c) 0x20 OR
     flag (wd_track c = 0) 0x04 OR flag (wd_index c) 0x02 OR (wd_error c AND (0x10 OR 0x08)) OR flag (wd_busy c) 0x01"

definition type2_status :: "Wd1771 \<Rightarrow> byte" where
  "type2_status c = flag (\<not> wd_ready c) 0x80 OR
     flag (drop_bit 4 (wd_cmd c) \<in> {0xA, 0xB, 0xF} \<and> wd_read_only c) 0x40 OR
     (wd_error c AND (0x40 OR 0x20 OR 0x10 OR 0x08 OR 0x04)) OR flag (wd_drq c) 0x02 OR flag (wd_busy c) 0x01"

definition status :: "Wd1771 \<Rightarrow> byte \<times> Wd1771" where
  "status c =
     (let s = (case kind_of (wd_cmd c) of One \<Rightarrow> type1_status c | Four \<Rightarrow> type1_status c | _ \<Rightarrow> type2_status c);
          meaningful = s AND NOT 0x02
      in (s, c\<lparr>wd_idle_polls := (if meaningful = wd_prev_status c then saturating_inc (wd_idle_polls c) else 0),
               wd_prev_status := meaningful\<rparr>))"

definition wd_read :: "byte \<Rightarrow> Wd1771 \<Rightarrow> byte \<times> Need \<times> Wd1771" where
  "wd_read r c =
     (let r = r AND 3
      in if r = 0 then (case status c of (s, c1) \<Rightarrow>
             let c2 = c1\<lparr>wd_intrq := False\<rparr>
             in (s, NeedNone, if kind_of (wd_cmd c2) \<in> {One, Four} then c2\<lparr>wd_index := \<not> wd_index c2\<rparr> else c2))
         else if r = 1 then (wd_track c, NeedNone, c)
         else if r = 2 then (wd_sector c, NeedNone, c)
         else if wd_moving c = Reading
         then let b = wd_buffer c ! min (wd_pos c) (wd_xfer_len c - 1);
                  c1 = c\<lparr>wd_pos := wd_pos c + 1, wd_idle_polls := 0\<rparr>;
                  (need, c2) = (if wd_pos c1 \<ge> wd_xfer_len c1 then wd_advance_record c1 else (NeedNone, c1\<lparr>wd_drq := True\<rparr>))
              in (b, need, c2\<lparr>wd_data := b\<rparr>)
         else (wd_data c, NeedNone, c))"

definition step :: "byte \<Rightarrow> bool \<Rightarrow> Wd1771 \<Rightarrow> Wd1771" where
  "step cmd inward c =
     (if cmd AND 0x10 = 0 then c
      else c\<lparr>wd_track := (if inward then min (if wd_track c = 0xFF then 0xFF else wd_track c + 1)
                                              (if wd_tracks c = 0 then 0 else wd_tracks c - 1)
                          else if wd_track c = 0 then 0 else wd_track c - 1)\<rparr>)"

definition finished :: "Wd1771 \<Rightarrow> Wd1771" where
  "finished c = c\<lparr>wd_busy := False, wd_intrq := True\<rparr>"

definition command_one :: "byte \<Rightarrow> Wd1771 \<Rightarrow> Wd1771" where
  "command_one cmd c0 =
     (let c = (if cmd AND 0x08 \<noteq> 0 then c0\<lparr>wd_head_loaded := True\<rparr> else c0);
          n = drop_bit 4 cmd;
          c1 = (if n = 0 then c\<lparr>wd_track := 0\<rparr>
                else if n = 1
                then if wd_data c < wd_tracks c then c\<lparr>wd_track := wd_data c\<rparr> else c\<lparr>wd_error := wd_error c OR 0x10\<rparr>
                else if n = 2 \<or> n = 3 then step cmd (wd_last_step_in c) c
                else if n = 4 \<or> n = 5 then step cmd True (c\<lparr>wd_last_step_in := True\<rparr>)
                else step cmd False (c\<lparr>wd_last_step_in := False\<rparr>));
          c2 = (if cmd AND 0x04 \<noteq> 0 \<and> \<not> wd_ready c then c1\<lparr>wd_error := wd_error c1 OR 0x10\<rparr> else c1)
      in finished c2)"

definition command_two :: "byte \<Rightarrow> Wd1771 \<Rightarrow> Need \<times> Wd1771" where
  "command_two cmd c =
     (let writing = (cmd AND 0x20 \<noteq> 0)
      in if \<not> wd_ready c then (NeedNone, finished c)
         else if writing \<and> wd_read_only c then (NeedNone, finished (c\<lparr>wd_error := wd_error c OR 0x40\<rparr>))
         else if wd_sector c = 0 \<or> unat (wd_sector c) > wd_sectors_per_track c
         then (NeedNone, finished (c\<lparr>wd_error := wd_error c OR 0x10\<rparr>))
         else let c1 = c\<lparr>wd_multi := (cmd AND 0x10 \<noteq> 0), wd_busy := True, wd_pos := 0, wd_xfer_len := wd_sector_len c\<rparr>
              in if writing then (NeedNone, c1\<lparr>wd_moving := Writing, wd_drq := True\<rparr>)
                 else (NeedRead (wd_track c) (wd_sector c), c1\<lparr>wd_moving := MoveNone, wd_drq := False\<rparr>))"

definition len_code :: "nat \<Rightarrow> byte" where
  "len_code n = (if n \<le> 128 then 0 else if n \<le> 256 then 1 else if n \<le> 512 then 2 else 3)"

definition command_three :: "byte \<Rightarrow> Wd1771 \<Rightarrow> Wd1771" where
  "command_three cmd c =
     (if \<not> wd_ready c then finished c
      else if drop_bit 4 cmd = 0xC
      then finished (c\<lparr>wd_buffer := [wd_track c, wd_side c, wd_sector c, len_code (wd_sector_len c), 0, 0] @ drop 6 (wd_buffer c),
             wd_pos := 0, wd_xfer_len := ID_FIELD_LEN, wd_moving := Reading, wd_drq := True\<rparr>)
      else finished (c\<lparr>wd_error := wd_error c OR 0x04\<rparr>))"

definition force_interrupt :: "byte \<Rightarrow> Wd1771 \<Rightarrow> Wd1771" where
  "force_interrupt cmd c =
     (if \<not> wd_busy c then c\<lparr>wd_cmd := cmd, wd_error := 0\<rparr> else c)
       \<lparr>wd_busy := False, wd_drq := False, wd_moving := MoveNone, wd_multi := False, wd_intrq := (cmd AND 0x08 \<noteq> 0)\<rparr>"

definition command :: "byte \<Rightarrow> Wd1771 \<Rightarrow> Need \<times> Wd1771" where
  "command cmd c0 =
     (if kind_of cmd = Four then (NeedNone, force_interrupt cmd c0)
      else let c = c0\<lparr>wd_busy := False, wd_drq := False, wd_moving := MoveNone, wd_multi := False, wd_pos := 0,
                      wd_cmd := cmd, wd_error := 0, wd_intrq := False, wd_idle_polls := 0\<rparr>
           in case kind_of cmd of
                One \<Rightarrow> (NeedNone, command_one cmd c)
              | Two \<Rightarrow> command_two cmd c
              | _ \<Rightarrow> (NeedNone, command_three cmd c))"

definition wd_write :: "byte \<Rightarrow> byte \<Rightarrow> Wd1771 \<Rightarrow> Need \<times> Wd1771" where
  "wd_write r v c =
     (let r = r AND 3
      in if r = 0 then command v c
         else if r = 1 then (NeedNone, c\<lparr>wd_track := v\<rparr>)
         else if r = 2 then (NeedNone, c\<lparr>wd_sector := v\<rparr>)
         else let c1 = c\<lparr>wd_data := v\<rparr>
              in if wd_moving c1 = Writing
                 then let c2 = c1\<lparr>wd_buffer := (wd_buffer c1)[min (wd_pos c1) (wd_xfer_len c1 - 1) := v],
                                  wd_pos := wd_pos c1 + 1, wd_idle_polls := 0\<rparr>
                      in if wd_pos c2 \<ge> wd_xfer_len c2
                         then (NeedWrite (wd_track c2) (wd_sector c2), snd (wd_advance_record c2))
                         else (NeedNone, c2\<lparr>wd_drq := True\<rparr>)
                 else (NeedNone, c1))"


section \<open>What every access keeps\<close>

definition chip_ok :: "Wd1771 \<Rightarrow> bool" where
  "chip_ok c \<longleftrightarrow> length (wd_buffer c) = MAX_SECTOR_LEN \<and> wd_sector_len c \<le> MAX_SECTOR_LEN \<and>
     (wd_moving c = Writing \<longrightarrow> wd_busy c) \<and>
     (wd_moving c = Reading \<and> wd_multi c \<longrightarrow> wd_busy c \<and> wd_cmd c AND 0x20 = 0)"

definition same_format :: "Wd1771 \<Rightarrow> Wd1771 \<Rightarrow> bool" where
  "same_format c c' \<longleftrightarrow> wd_sector_len c' = wd_sector_len c \<and> wd_sectors_per_track c' = wd_sectors_per_track c \<and>
     wd_ready c' = wd_ready c \<and> wd_read_only c' = wd_read_only c \<and> wd_tracks c' = wd_tracks c"

text \<open>The chip between a request for a sector and its arrival.\<close>

definition awaiting :: "Wd1771 \<Rightarrow> bool" where
  "awaiting c \<longleftrightarrow> wd_busy c \<and> wd_moving c = MoveNone \<and> wd_cmd c AND 0x20 = 0"

lemma same_format_refl [simp]: "same_format c c"
  by (simp add: same_format_def)

text \<open>An access that is not a command: it starts nothing, and only continues what is in flight.\<close>

definition continues :: "Wd1771 \<Rightarrow> Need \<Rightarrow> Wd1771 \<Rightarrow> bool" where
  "continues c need c' \<longleftrightarrow> chip_ok c' \<and> same_format c c' \<and> (wd_busy c' \<longrightarrow> wd_busy c) \<and>
     (wd_moving c' = Writing \<longrightarrow> wd_moving c = Writing) \<and>
     (\<forall>t s. need = NeedRead t s \<longrightarrow> wd_busy c \<and> awaiting c') \<and>
     (\<forall>t s. need = NeedWrite t s \<longrightarrow> wd_moving c = Writing)"

lemma advance_continues:
  assumes "wd_advance_record c = (need, c')" "length (wd_buffer c) = MAX_SECTOR_LEN" "wd_sector_len c \<le> MAX_SECTOR_LEN"
    and "wd_multi c \<longrightarrow> wd_busy c"
  shows "length (wd_buffer c') = MAX_SECTOR_LEN" "same_format c c'" "wd_busy c' \<longrightarrow> wd_busy c"
    "wd_moving c' = Writing \<longrightarrow> wd_busy c' \<and> wd_cmd c AND 0x20 \<noteq> 0" "wd_moving c' \<noteq> Reading"
    "need = NeedRead t s \<longrightarrow> wd_busy c \<and> awaiting c'" "need \<noteq> NeedWrite t s"
  using assms by (auto simp: wd_advance_record_def Let_def same_format_def awaiting_def split: if_splits)

lemma status_keeps:
  assumes "status c = (s, c')"
  shows "same_format c c'" "wd_buffer c' = wd_buffer c" "wd_busy c' = wd_busy c" "wd_moving c' = wd_moving c"
    "wd_multi c' = wd_multi c" "wd_cmd c' = wd_cmd c"
  using assms by (auto simp: status_def Let_def same_format_def)

lemma wd_read_continues:
  assumes "chip_ok c" "wd_read r c = (v, need, c')"
  shows "continues c need c' \<and> (\<forall>t s. need \<noteq> NeedWrite t s)"
proof -
  consider (status) "r AND 3 = 0" | (track) "r AND 3 = 1" | (sector) "r AND 3 = 2"
    | (idle) "r AND 3 \<notin> {0, 1, 2}" "wd_moving c \<noteq> Reading" | (data) "r AND 3 \<notin> {0, 1, 2}" "wd_moving c = Reading" by blast
  then show ?thesis
  proof cases
    case status
    obtain s c1 where 1: "status c = (s, c1)" by force
    note k = status_keeps [OF 1]
    have "need = NeedNone" "same_format c1 c'" "wd_buffer c' = wd_buffer c1" "wd_busy c' = wd_busy c1"
      "wd_moving c' = wd_moving c1" "wd_multi c' = wd_multi c1" "wd_cmd c' = wd_cmd c1"
      using assms(2) status 1 by (auto simp: wd_read_def Let_def same_format_def split: if_splits)
    with k assms(1) show ?thesis by (simp add: continues_def chip_ok_def same_format_def)
  next
    case data
    define c1 where "c1 = c\<lparr>wd_pos := wd_pos c + 1, wd_idle_polls := 0\<rparr>"
    define b where "b = wd_buffer c ! min (wd_pos c) (wd_xfer_len c - 1)"
    have c1: "length (wd_buffer c1) = MAX_SECTOR_LEN" "wd_sector_len c1 \<le> MAX_SECTOR_LEN" "wd_multi c1 \<longrightarrow> wd_busy c1 \<and> wd_cmd c1 AND 0x20 = 0"
      "same_format c c1" "wd_busy c1 = wd_busy c" "wd_moving c1 = wd_moving c"
      using assms(1) data(2) by (auto simp: c1_def chip_ok_def same_format_def)
    show ?thesis
    proof (cases "wd_pos c1 \<ge> wd_xfer_len c1")
      case True
      obtain n c2 where a: "wd_advance_record c1 = (n, c2)" by force
      with True data assms(2) have c': "need = n" "c' = c2\<lparr>wd_data := b\<rparr>"
        by (auto simp: wd_read_def Let_def c1_def b_def)
      have "wd_multi c1 \<longrightarrow> wd_busy c1" using c1(3) by blast
      note k = advance_continues [OF a c1(1,2) this]
      have "wd_moving c2 \<noteq> Writing"
      proof
        assume w: "wd_moving c2 = Writing"
        with k(4) have "wd_cmd c1 AND 0x20 \<noteq> 0" by blast
        moreover from w have "wd_multi c1" using a by (auto simp: wd_advance_record_def Let_def split: if_splits)
        ultimately show False using c1(3) by blast
      qed
      with k c1 show ?thesis
        by (auto simp: continues_def chip_ok_def c' same_format_def awaiting_def)
    next
      case False
      with data assms(2) have "need = NeedNone" "c' = c1\<lparr>wd_drq := True, wd_data := b\<rparr>"
        by (auto simp: wd_read_def Let_def c1_def b_def)
      with c1 data(2) assms(1) show ?thesis by (auto simp: continues_def chip_ok_def same_format_def)
    qed
  qed (use assms in \<open>auto simp: wd_read_def Let_def continues_def\<close>)
qed

lemma wd_write_continues:
  assumes "chip_ok c" "wd_write r v c = (need, c')" "r AND 3 \<noteq> 0"
  shows "continues c need c' \<and> (\<forall>t s. need \<noteq> NeedRead t s)"
proof (cases "r AND 3 \<in> {1, 2} \<or> wd_moving c \<noteq> Writing")
  case True
  then have "need = NeedNone" "c' = c\<lparr>wd_track := v\<rparr> \<or> c' = c\<lparr>wd_sector := v\<rparr> \<or> c' = c\<lparr>wd_data := v\<rparr>"
    using assms(2,3) by (auto simp: wd_write_def Let_def split: if_splits)
  with assms(1) show ?thesis by (auto simp: continues_def chip_ok_def same_format_def)
next
  case False
  define c2 where "c2 = c\<lparr>wd_data := v, wd_buffer := (wd_buffer c)[min (wd_pos c) (wd_xfer_len c - 1) := v],
      wd_pos := wd_pos c + 1, wd_idle_polls := 0\<rparr>"
  have c2: "length (wd_buffer c2) = MAX_SECTOR_LEN" "wd_sector_len c2 \<le> MAX_SECTOR_LEN" "wd_busy c2"
    "same_format c c2" "wd_busy c2 = wd_busy c" "wd_moving c2 = Writing"
    using assms(1) False by (auto simp: c2_def chip_ok_def same_format_def)
  show ?thesis
  proof (cases "wd_pos c2 \<ge> wd_xfer_len c2")
    case True
    obtain n c3 where a: "wd_advance_record c2 = (n, c3)" by force
    with True False assms(2,3) have c': "need = NeedWrite (wd_track c2) (wd_sector c2)" "c' = c3"
      by (auto simp: wd_write_def Let_def c2_def)
    have "wd_multi c2 \<longrightarrow> wd_busy c2" using c2 by blast
    note k = advance_continues [OF a c2(1,2) this]
    from k c2 False show ?thesis by (auto simp: continues_def chip_ok_def c' same_format_def)
  next
    case c: False
    with False assms(2,3) have "need = NeedNone" "c' = c2\<lparr>wd_drq := True\<rparr>"
      by (auto simp: wd_write_def Let_def c2_def)
    with c2 False show ?thesis by (auto simp: continues_def chip_ok_def same_format_def)
  qed
qed

text \<open>A command: it starts a transfer only on a ready drive, and a write only on one that may be
  written.\<close>

lemma command_one_keeps:
  "same_format c (command_one cmd c)" "\<not> wd_busy (command_one cmd c)" "wd_moving (command_one cmd c) = wd_moving c"
  "wd_buffer (command_one cmd c) = wd_buffer c"
  by (simp_all add: command_one_def Let_def finished_def step_def same_format_def)

lemma wd_command:
  assumes "chip_ok c" "wd_write r cmd c = (need, c')" "r AND 3 = 0"
  shows "chip_ok c' \<and> same_format c c' \<and> (wd_busy c' \<longrightarrow> wd_ready c) \<and> (wd_moving c' = Writing \<longrightarrow> \<not> wd_read_only c) \<and>
    (\<forall>t s. need = NeedRead t s \<longrightarrow> awaiting c') \<and> (\<forall>t s. need \<noteq> NeedWrite t s)"
proof -
  define c1 where "c1 = c\<lparr>wd_busy := False, wd_drq := False, wd_moving := MoveNone, wd_multi := False, wd_pos := 0,
                      wd_cmd := cmd, wd_error := 0, wd_intrq := False, wd_idle_polls := 0\<rparr>"
  have c1: "length (wd_buffer c1) = MAX_SECTOR_LEN" "wd_sector_len c1 \<le> MAX_SECTOR_LEN" "same_format c c1"
    "wd_moving c1 = MoveNone" "wd_cmd c1 = cmd" "\<not> wd_multi c1" "\<not> wd_busy c1"
    using assms(1) by (auto simp: c1_def chip_ok_def same_format_def)
  have cmd: "command cmd c = (need, c')" using assms(2,3) by (simp add: wd_write_def)
  show ?thesis
  proof (cases "kind_of cmd")
    case One
    then have "need = NeedNone" "c' = command_one cmd c1" using cmd by (auto simp: command_def c1_def)
    with c1 command_one_keeps [where c = c1 and cmd = cmd] show ?thesis by (auto simp: chip_ok_def same_format_def)
  next
    case Two
    then have "command_two cmd c1 = (need, c')" using cmd by (simp add: command_def c1_def)
    with c1 show ?thesis
      by (auto simp: command_two_def Let_def finished_def chip_ok_def same_format_def awaiting_def split: if_splits)
  next
    case Three
    then have "need = NeedNone" "c' = command_three cmd c1" using cmd by (auto simp: command_def c1_def)
    with c1 show ?thesis
      by (auto simp: command_three_def finished_def chip_ok_def same_format_def MAX_SECTOR_LEN_def)
  next
    case Four
    then have "need = NeedNone" "c' = force_interrupt cmd c" using cmd by (auto simp: command_def)
    with assms(1) show ?thesis by (auto simp: force_interrupt_def chip_ok_def same_format_def)
  qed
qed

lemma sector_loaded_ok:
  assumes "chip_ok c" "awaiting c"
  shows "chip_ok (sector_loaded bs c) \<and> same_format c (sector_loaded bs c) \<and> wd_busy (sector_loaded bs c) \<and>
    wd_moving (sector_loaded bs c) = Reading"
  using assms by (auto simp: sector_loaded_def Let_def chip_ok_def awaiting_def same_format_def)

lemma record_not_found_ok:
  "chip_ok c \<Longrightarrow> chip_ok (record_not_found c) \<and> same_format c (record_not_found c) \<and> \<not> wd_busy (record_not_found c) \<and>
    wd_moving (record_not_found c) = MoveNone"
  by (auto simp: record_not_found_def chip_ok_def same_format_def)

end
