(* ===== verification/Cpm_Memory.thy ===== *)
theory Cpm_Memory
  imports Gateway_Prelude
begin

text \<open>
  The two bank-switched memories of the CP/M emulator: z80pack's MMU
  (\<^verbatim>\<open>src/src/cpm/mmu.rs\<close>) and the Cromemco bank select (\<^verbatim>\<open>src/src/cpm/cromemco_bank.rs\<close>). Both
  give the same contract, stated as a locale: an address names a cell of the selected bank, or of
  bank 0 when it is in the common area; a write changes that cell and no other; selecting a bank
  changes no cell at all. What a banked operating system relies on is proved once in the locale.
\<close>

section \<open>The contract\<close>

locale banked_memory =
  fixes ok :: "'s \<Rightarrow> bool"
    and rd :: "'s \<Rightarrow> u16 \<Rightarrow> byte"
    and wr :: "'s \<Rightarrow> u16 \<Rightarrow> byte \<Rightarrow> 's"
    and select :: "'s \<Rightarrow> byte \<Rightarrow> 's"
    and bank :: "'s \<Rightarrow> nat"
    and common :: "'s \<Rightarrow> u16 \<Rightarrow> bool"
    and writable :: "'s \<Rightarrow> u16 \<Rightarrow> bool"
    and cell :: "'s \<Rightarrow> nat \<Rightarrow> u16 \<Rightarrow> byte"
  assumes rd_cell: "ok s \<Longrightarrow> rd s a = cell s (if common s a then 0 else bank s) a"
    and wr_cell: "ok s \<Longrightarrow> cell (wr s a v) k b =
      (if writable s a \<and> b = a \<and> k = (if common s a then 0 else bank s) then v else cell s k b)"
    and wr_keeps: "ok s \<Longrightarrow> ok (wr s a v)" "ok s \<Longrightarrow> bank (wr s a v) = bank s"
      "ok s \<Longrightarrow> common (wr s a v) = common s" "ok s \<Longrightarrow> writable (wr s a v) = writable s"
    and select_keeps: "ok s \<Longrightarrow> ok (select s x)" "ok s \<Longrightarrow> cell (select s x) = cell s"
      "ok s \<Longrightarrow> common (select s x) = common s" "ok s \<Longrightarrow> writable (select s x) = writable s"
begin

lemma rd_wr: "ok s \<Longrightarrow> rd (wr s a v) b = (if writable s a \<and> b = a then v else rd s b)"
  by (auto simp: rd_cell wr_keeps wr_cell)

lemma rd_select: "ok s \<Longrightarrow> rd (select s x) b = cell s (if common s b then 0 else bank (select s x)) b"
  by (simp add: rd_cell select_keeps)

lemma common_shared: "ok s \<Longrightarrow> common s b \<Longrightarrow> rd (select s x) b = rd s b"
  by (simp add: rd_select rd_cell)

text \<open>A run of writes in one bank.\<close>

definition writes :: "(u16 \<times> byte) list \<Rightarrow> 's \<Rightarrow> 's" where
  "writes ws s = foldl (\<lambda>s (a, v). wr s a v) s ws"

lemma writes_simps: "writes [] s = s" "writes ((a, v) # ws) s = writes ws (wr s a v)"
  by (simp_all add: writes_def)

lemma writes_keep:
  "ok s \<Longrightarrow> ok (writes ws s) \<and> bank (writes ws s) = bank s \<and> common (writes ws s) = common s"
proof (induction ws arbitrary: s)
  case (Cons w ws)
  then show ?case by (cases w) (simp add: writes_simps wr_keeps)
qed (simp add: writes_simps)

lemma writes_elsewhere: "ok s \<Longrightarrow> k \<noteq> 0 \<Longrightarrow> k \<noteq> bank s \<Longrightarrow> cell (writes ws s) k b = cell s k b"
proof (induction ws arbitrary: s)
  case (Cons w ws)
  then show ?case by (cases w) (auto simp: writes_simps wr_keeps wr_cell)
qed (simp add: writes_simps)

lemma writes_common: "ok s \<Longrightarrow> bank s \<noteq> 0 \<Longrightarrow> \<not> common s b \<Longrightarrow> cell (writes ws s) 0 b = cell s 0 b"
proof (induction ws arbitrary: s)
  case (Cons w ws)
  then show ?case by (cases w) (auto simp: writes_simps wr_keeps wr_cell)
qed (simp add: writes_simps)

text \<open>Private memory survives whatever is done in another bank.\<close>

lemma private_kept:
  assumes "ok s" "\<not> common s b" "bank (select s x) \<noteq> bank s"
    and "bank (select (writes ws (select s x)) y) = bank s"
  shows "rd (select (writes ws (select s x)) y) b = rd s b"
proof -
  let ?t = "select s x"
  have t: "ok ?t" using assms(1) by (rule select_keeps)
  note w = writes_keep [OF t, of ws]
  have "cell (writes ws ?t) (bank s) b = cell ?t (bank s) b"
  proof (cases "bank s = 0")
    case True
    with t assms show ?thesis by (simp add: writes_common select_keeps)
  next
    case False
    with t assms show ?thesis by (simp add: writes_elsewhere)
  qed
  with w assms show ?thesis by (simp add: rd_cell rd_select select_keeps)
qed

end


section \<open>z80pack's MMU\<close>

definition MAX_BANKS :: nat where "MAX_BANKS = 16"
definition DEFAULT_SEGSIZE :: nat where "DEFAULT_SEGSIZE = 49152"

record Mmu =
  banks :: "byte list list"
  selected :: nat
  segsize :: nat
  wp_common :: byte

definition default_Mmu :: Mmu where
  "default_Mmu = \<lparr>banks = [], selected = 0, segsize = DEFAULT_SEGSIZE, wp_common = 0\<rparr>"

definition is_idle :: "Mmu \<Rightarrow> bool" where
  "is_idle m \<longleftrightarrow> banks m = []"

definition intercepts_writes :: "Mmu \<Rightarrow> bool" where
  "intercepts_writes m \<longleftrightarrow> banks m \<noteq> [] \<or> wp_common m \<noteq> 0"

definition banked :: "Mmu \<Rightarrow> u16 \<Rightarrow> nat option" where
  "banked m addr = (if selected m = 0 \<or> unat addr \<ge> segsize m then None else Some (selected m))"

definition mmu_read :: "Mmu \<Rightarrow> byte list \<Rightarrow> u16 \<Rightarrow> byte" where
  "mmu_read m bank0 addr = (case banked m addr of
      Some b \<Rightarrow> banks m ! (b - 1) ! unat addr
    | None \<Rightarrow> bank0 ! unat addr)"

definition mmu_write :: "Mmu \<Rightarrow> byte list \<Rightarrow> u16 \<Rightarrow> byte \<Rightarrow> Mmu \<times> byte list" where
  "mmu_write m bank0 addr v =
     (if unat addr \<ge> segsize m \<and> wp_common m \<noteq> 0
      then (m\<lparr>wp_common := wp_common m OR 0x80\<rparr>, bank0)
      else case banked m addr of
          Some b \<Rightarrow> (m\<lparr>banks := (banks m)[b - 1 := (banks m ! (b - 1))[unat addr := v]]\<rparr>, bank0)
        | None \<Rightarrow> (m, bank0[unat addr := v]))"

definition owns_port :: "byte \<Rightarrow> bool" where
  "owns_port port \<longleftrightarrow> 0x14 \<le> port \<and> port \<le> 0x17"

definition mmu_port_in :: "Mmu \<Rightarrow> byte \<Rightarrow> byte" where
  "mmu_port_in m port =
     (if port = 0x14 then word_of_nat (length (banks m) + 1)
      else if port = 0x15 then word_of_nat (selected m)
      else if port = 0x16 then word_of_nat (drop_bit 8 (segsize m))
      else if port = 0x17 then wp_common m
      else 0xFF)"

definition mmu_port_out :: "Mmu \<Rightarrow> byte \<Rightarrow> byte \<Rightarrow> Mmu" where
  "mmu_port_out m port v =
     (if port = 0x14
      then if banks m = [] \<and> unat v \<le> MAX_BANKS
           then m\<lparr>banks := replicate (unat v - 1) (replicate (segsize m) 0)\<rparr> else m
      else if port = 0x15 then if unat v \<le> length (banks m) then m\<lparr>selected := unat v\<rparr> else m
      else if port = 0x16 then if banks m = [] then m\<lparr>segsize := push_bit 8 (unat v)\<rparr> else m
      else if port = 0x17 then m\<lparr>wp_common := v\<rparr>
      else m)"

text \<open>The state in which no access of the source indexes out of range.\<close>

definition mmu_inv :: "Mmu \<Rightarrow> byte list \<Rightarrow> bool" where
  "mmu_inv m bank0 \<longleftrightarrow> length bank0 = 65536 \<and> selected m \<le> length (banks m) \<and> length (banks m) < MAX_BANKS \<and>
     segsize m \<le> 65536 \<and> list_all (\<lambda>b. length b = segsize m) (banks m)"

definition mmu_ok :: "Mmu \<times> byte list \<Rightarrow> bool" where
  "mmu_ok = (\<lambda>(m, bank0). mmu_inv m bank0)"

definition mmu_rd :: "Mmu \<times> byte list \<Rightarrow> u16 \<Rightarrow> byte" where
  "mmu_rd = (\<lambda>(m, bank0) a. mmu_read m bank0 a)"

definition mmu_wr :: "Mmu \<times> byte list \<Rightarrow> u16 \<Rightarrow> byte \<Rightarrow> Mmu \<times> byte list" where
  "mmu_wr = (\<lambda>(m, bank0) a v. mmu_write m bank0 a v)"

definition mmu_out :: "byte \<Rightarrow> Mmu \<times> byte list \<Rightarrow> byte \<Rightarrow> Mmu \<times> byte list" where
  "mmu_out port = (\<lambda>(m, bank0) v. (mmu_port_out m port v, bank0))"

definition mmu_common :: "Mmu \<times> byte list \<Rightarrow> u16 \<Rightarrow> bool" where
  "mmu_common = (\<lambda>(m, bank0) a. unat a \<ge> segsize m)"

definition mmu_writable :: "Mmu \<times> byte list \<Rightarrow> u16 \<Rightarrow> bool" where
  "mmu_writable = (\<lambda>(m, bank0) a. \<not> (unat a \<ge> segsize m \<and> wp_common m \<noteq> 0))"

definition mmu_cell :: "Mmu \<times> byte list \<Rightarrow> nat \<Rightarrow> u16 \<Rightarrow> byte" where
  "mmu_cell = (\<lambda>(m, bank0) k a. if k = 0 then bank0 ! unat a
     else if k \<le> length (banks m) \<and> unat a < segsize m then banks m ! (k - 1) ! unat a else 0)"

lemmas mmu_state = mmu_ok_def mmu_rd_def mmu_wr_def mmu_out_def mmu_common_def mmu_writable_def mmu_cell_def

lemma or_0x80_not_0: "(b :: byte) OR 0x80 \<noteq> 0"
  by (simp add: byte_eq_iff bit_simps)

lemma unat_u16_less [simp]: "unat (a :: u16) < 65536"
  using unsigned_less [of a, where 'a = nat] by simp

lemma unat_u16_eq [simp]: "unat (a :: u16) = unat b \<longleftrightarrow> a = b"
  by (simp add: word_unat_eq_iff)

lemma mmu_bank_len: "mmu_inv m bank0 \<Longrightarrow> 0 < k \<Longrightarrow> k \<le> length (banks m) \<Longrightarrow> length (banks m ! (k - 1)) = segsize m"
  by (simp add: mmu_inv_def list_all_length)

lemma mmu_write_inv: "mmu_inv m bank0 \<Longrightarrow> mmu_write m bank0 a v = (m', bank0') \<Longrightarrow> mmu_inv m' bank0'"
  by (auto simp: mmu_write_def mmu_inv_def banked_def list_all_length nth_list_update split: if_splits option.splits)

lemma mmu_port_out_inv:
  assumes "mmu_inv m bank0"
  shows "mmu_inv (mmu_port_out m port v) bank0"
proof -
  have "push_bit 8 (unat v) \<le> 65536" using less_imp_le [OF unat_byte_less [of v]] by (simp add: push_bit_eq_mult)
  with assms show ?thesis
    by (auto simp: mmu_port_out_def mmu_inv_def MAX_BANKS_def split: if_splits)
qed

lemma mmu_wr_cell:
  assumes "mmu_ok s"
  shows "mmu_cell (mmu_wr s a v) k b =
    (if mmu_writable s a \<and> b = a \<and> k = (if mmu_common s a then 0 else selected (fst s)) then v else mmu_cell s k b)"
proof -
  obtain m bank0 where s: "s = (m, bank0)" by (cases s)
  have inv: "mmu_inv m bank0" using assms by (simp add: s mmu_state)
  have sel: "selected m \<le> length (banks m)" "length bank0 = 65536" using inv by (auto simp: mmu_inv_def)
  consider "\<not> mmu_writable s a" | "mmu_writable s a" "banked m a = None" | "mmu_writable s a" "banked m a = Some (selected m)" "0 < selected m" "unat a < segsize m"
    by (cases "selected m = 0 \<or> segsize m \<le> unat a") (auto simp: banked_def s mmu_state)
  then show ?thesis
  proof cases
    case 1
    then show ?thesis by (auto simp: s mmu_state mmu_write_def)
  next
    case 2
    then have "mmu_wr s a v = (m, bank0[unat a := v])" "(if mmu_common s a then 0 else selected (fst s)) = 0"
      by (auto simp: s mmu_state mmu_write_def banked_def split: if_splits)
    moreover have "bank0[unat a := v] ! unat b = (if b = a then v else bank0 ! unat b)"
      using sel(2) by (auto simp: nth_list_update)
    ultimately show ?thesis using 2(1) by (cases "b = a") (simp_all add: mmu_cell_def s)
  next
    case 3
    then show ?thesis
      using sel mmu_bank_len [OF inv, of "selected m"]
      by (auto simp: s mmu_state mmu_write_def nth_list_update)
  qed
qed

interpretation mmu: banked_memory mmu_ok mmu_rd mmu_wr "mmu_out 0x15" "\<lambda>s. selected (fst s)" mmu_common mmu_writable mmu_cell
proof
  fix s :: "Mmu \<times> byte list" and a b v x k
  assume ok: "mmu_ok s"
  obtain m bank0 where s: "s = (m, bank0)" by (cases s)
  have inv: "mmu_inv m bank0" using ok by (simp add: s mmu_state)
  show "mmu_rd s a = mmu_cell s (if mmu_common s a then 0 else selected (fst s)) a"
    using inv by (auto simp: s mmu_state mmu_read_def banked_def mmu_inv_def)
  show "mmu_cell (mmu_wr s a v) k b =
      (if mmu_writable s a \<and> b = a \<and> k = (if mmu_common s a then 0 else selected (fst s)) then v else mmu_cell s k b)"
    using ok by (rule mmu_wr_cell)
  show "mmu_ok (mmu_wr s a v)" using inv by (auto simp: s mmu_state dest: mmu_write_inv split: prod.splits)
  show "selected (fst (mmu_wr s a v)) = selected (fst s)" "mmu_common (mmu_wr s a v) = mmu_common s"
    by (auto simp: s mmu_state mmu_write_def split: option.splits)
  show "mmu_writable (mmu_wr s a v) = mmu_writable s"
    by (auto simp: s mmu_state mmu_write_def or_0x80_not_0 fun_eq_iff split: option.splits)
  show "mmu_ok (mmu_out 0x15 s x)" using inv by (simp add: s mmu_state mmu_port_out_inv)
  show "mmu_cell (mmu_out 0x15 s x) = mmu_cell s" "mmu_common (mmu_out 0x15 s x) = mmu_common s"
    "mmu_writable (mmu_out 0x15 s x) = mmu_writable s"
    by (auto simp: s mmu_state mmu_port_out_def fun_eq_iff)
qed



section \<open>Cromemco's bank select\<close>

definition BANKS :: nat where "BANKS = 8"
definition COMMON_BASE :: u16 where "COMMON_BASE = 0x8000"

record BankSelect =
  current :: nat
  upper :: "byte list option list"

definition default_BankSelect :: BankSelect where
  "default_BankSelect = \<lparr>current = 0, upper = []\<rparr>"

definition bank_idle :: "BankSelect \<Rightarrow> bool" where
  "bank_idle s \<longleftrightarrow> current s = 0"

text \<open>The number of the lowest set bit, for a byte that has one.\<close>

definition trailing_zeros :: "byte \<Rightarrow> nat" where
  "trailing_zeros v = length (takeWhile (\<lambda>n. \<not> bit v n) [0..<8])"

definition bank_port_out :: "BankSelect \<Rightarrow> byte \<Rightarrow> BankSelect" where
  "bank_port_out s v = s\<lparr>current := (if v = 0 then 0 else trailing_zeros v)\<rparr>"

definition bank_read :: "BankSelect \<Rightarrow> byte list \<Rightarrow> u16 \<Rightarrow> byte" where
  "bank_read s bank0 addr =
     (if addr \<ge> COMMON_BASE \<or> current s = 0 then bank0 ! unat addr
      else if current s - 1 < length (upper s)
           then (case upper s ! (current s - 1) of Some bank \<Rightarrow> bank ! unat addr | None \<Rightarrow> 0)
           else 0)"

definition resize_upper :: "byte list option list \<Rightarrow> byte list option list" where
  "resize_upper u = (if length u < BANKS - 1 then u @ replicate (BANKS - 1 - length u) None else u)"

definition bank_write :: "BankSelect \<Rightarrow> byte list \<Rightarrow> u16 \<Rightarrow> byte \<Rightarrow> BankSelect \<times> byte list" where
  "bank_write s bank0 addr v =
     (if addr \<ge> COMMON_BASE \<or> current s = 0 then (s, bank0[unat addr := v])
      else let u = resize_upper (upper s);
               bank = (case u ! (current s - 1) of Some b \<Rightarrow> b | None \<Rightarrow> replicate (unat COMMON_BASE) 0)
           in (s\<lparr>upper := u[current s - 1 := Some (bank[unat addr := v])]\<rparr>, bank0))"

definition bank_inv :: "BankSelect \<Rightarrow> byte list \<Rightarrow> bool" where
  "bank_inv s bank0 \<longleftrightarrow> length bank0 = 65536 \<and> current s < BANKS \<and>
     (\<forall>b. Some b \<in> set (upper s) \<longrightarrow> length b = unat COMMON_BASE)"

definition bank_ok :: "BankSelect \<times> byte list \<Rightarrow> bool" where
  "bank_ok = (\<lambda>(s, bank0). bank_inv s bank0)"

definition bank_rd :: "BankSelect \<times> byte list \<Rightarrow> u16 \<Rightarrow> byte" where
  "bank_rd = (\<lambda>(s, bank0) a. bank_read s bank0 a)"

definition bank_wr :: "BankSelect \<times> byte list \<Rightarrow> u16 \<Rightarrow> byte \<Rightarrow> BankSelect \<times> byte list" where
  "bank_wr = (\<lambda>(s, bank0) a v. bank_write s bank0 a v)"

definition bank_out :: "BankSelect \<times> byte list \<Rightarrow> byte \<Rightarrow> BankSelect \<times> byte list" where
  "bank_out = (\<lambda>(s, bank0) v. (bank_port_out s v, bank0))"

definition bank_cell :: "BankSelect \<times> byte list \<Rightarrow> nat \<Rightarrow> u16 \<Rightarrow> byte" where
  "bank_cell = (\<lambda>(s, bank0) k a. if k = 0 then bank0 ! unat a
     else if k - 1 < length (upper s) \<and> a < COMMON_BASE
          then (case upper s ! (k - 1) of Some b \<Rightarrow> b ! unat a | None \<Rightarrow> 0) else 0)"

lemmas bank_state = bank_ok_def bank_rd_def bank_wr_def bank_out_def bank_cell_def

lemma trailing_zeros_less: "v \<noteq> 0 \<Longrightarrow> trailing_zeros v < 8"
proof -
  assume "v \<noteq> 0"
  then obtain n where n: "bit v n" by (auto simp: bit_eq_iff)
  then have "n < 8" by (auto dest: bit_imp_le_length)
  have "length (takeWhile (\<lambda>n. \<not> bit v n) [0..<8]) \<noteq> 8"
  proof
    assume "length (takeWhile (\<lambda>n. \<not> bit v n) [0..<8]) = 8"
    then have "takeWhile (\<lambda>n. \<not> bit v n) [0..<8] = [0..<8]"
      by (metis length_upt diff_zero takeWhile_eq_take take_all le_refl)
    then have "\<forall>k \<in> set [0..<8]. \<not> bit v k" by (metis takeWhile_eq_all_conv)
    with n \<open>n < 8\<close> show False by simp
  qed
  moreover have "length (takeWhile (\<lambda>n. \<not> bit v n) [0..<8]) \<le> 8"
    using length_takeWhile_le [of "\<lambda>n. \<not> bit v n" "[0..<8]"] by simp
  ultimately show ?thesis unfolding trailing_zeros_def by linarith
qed

lemma trailing_zeros_lowest: "bit x k \<Longrightarrow> \<forall>j < k. \<not> bit x j \<Longrightarrow> trailing_zeros x = k"
proof -
  assume k: "bit x k" "\<forall>j < k. \<not> bit x j"
  then have "k < 8" by (auto dest: bit_imp_le_length)
  then have "[0..<8] = [0..<k] @ k # [Suc k..<8]"
    using upt_add_eq_append [of 0 k "8 - k"] upt_conv_Cons [of k 8] by simp
  then have "takeWhile (\<lambda>n. \<not> bit x n) [0..<8] = [0..<k]" using k by (simp add: takeWhile_tail)
  then show ?thesis by (simp add: trailing_zeros_def)
qed

lemma resize_upper_facts:
  "length (resize_upper u) \<ge> BANKS - 1"
  "i < length u \<Longrightarrow> resize_upper u ! i = u ! i"
  "length u \<le> i \<Longrightarrow> i < length (resize_upper u) \<Longrightarrow> resize_upper u ! i = None"
  "Some b \<in> set (resize_upper u) \<Longrightarrow> Some b \<in> set u"
  by (auto simp: resize_upper_def nth_append split: if_splits)

lemma below_common: "a < COMMON_BASE \<Longrightarrow> unat a < unat COMMON_BASE"
  by (simp add: word_less_nat_alt)

text \<open>The bank a write lands in, before it.\<close>

lemma bank_content:
  assumes "bank_inv s bank0" "0 < current s" "a < COMMON_BASE"
  defines "b \<equiv> (case resize_upper (upper s) ! (current s - 1) of Some b \<Rightarrow> b | None \<Rightarrow> replicate (unat COMMON_BASE) 0)"
  shows "length b = unat COMMON_BASE" "b ! unat a = bank_cell (s, bank0) (current s) a"
    "current s - 1 < length (resize_upper (upper s))"
proof -
  show l: "current s - 1 < length (resize_upper (upper s))"
    using resize_upper_facts(1) [of "upper s"] assms(1) by (auto simp: bank_inv_def BANKS_def)
  show "length b = unat COMMON_BASE"
  proof (cases "resize_upper (upper s) ! (current s - 1)")
    case (Some x)
    then have "Some x \<in> set (resize_upper (upper s))" using nth_mem [OF l] by simp
    with Some assms(1) show ?thesis by (auto simp: b_def bank_inv_def dest: resize_upper_facts(4))
  qed (simp add: b_def)
  show "b ! unat a = bank_cell (s, bank0) (current s) a"
    using assms(2,3) l resize_upper_facts(2) [of "current s - 1" "upper s"] resize_upper_facts(3) [of "upper s" "current s - 1"] below_common [OF assms(3)]
    unfolding b_def bank_cell_def by (cases "current s - 1 < length (upper s)") (auto split: option.splits)
qed


lemma bank_write_inv: "bank_inv s bank0 \<Longrightarrow> bank_write s bank0 a v = (s', bank0') \<Longrightarrow> bank_inv s' bank0'"
proof -
  assume inv: "bank_inv s bank0" and w: "bank_write s bank0 a v = (s', bank0')"
  show ?thesis
  proof (cases "a \<ge> COMMON_BASE \<or> current s = 0")
    case True
    with w inv show ?thesis by (auto simp: bank_write_def bank_inv_def)
  next
    case False
    then have a: "0 < current s" "a < COMMON_BASE" by auto
    note c = bank_content [OF inv a]
    from False w c inv show ?thesis
      by (auto simp: bank_write_def bank_inv_def Let_def dest!: set_update_subset_insert [THEN subsetD] resize_upper_facts(4))
  qed
qed

lemma bank_wr_cell:
  assumes "bank_ok s"
  shows "bank_cell (bank_wr s a v) k b =
    (if b = a \<and> k = (if a \<ge> COMMON_BASE then 0 else current (fst s)) then v else bank_cell s k b)"
proof -
  obtain t bank0 where s: "s = (t, bank0)" by (cases s)
  have inv: "bank_inv t bank0" using assms by (simp add: s bank_state)
  show ?thesis
  proof (cases "a \<ge> COMMON_BASE \<or> current t = 0")
    case True
    then have "bank_wr s a v = (t, bank0[unat a := v])" "(if a \<ge> COMMON_BASE then 0 else current (fst s)) = 0"
      by (auto simp: s bank_state bank_write_def)
    moreover have "bank0[unat a := v] ! unat b = (if b = a then v else bank0 ! unat b)"
      using inv by (auto simp: nth_list_update bank_inv_def)
    ultimately show ?thesis by (cases "b = a") (simp_all add: bank_cell_def s)
  next
    case False
    then have a: "0 < current t" "a < COMMON_BASE" by auto
    define u where "u = resize_upper (upper t)"
    define B where "B = (case u ! (current t - 1) of Some b \<Rightarrow> b | None \<Rightarrow> replicate (unat COMMON_BASE) 0)"
    note c = bank_content [OF inv a(1), folded u_def, folded B_def]
    have w: "bank_wr s a v = (t\<lparr>upper := u[current t - 1 := Some (B[unat a := v])]\<rparr>, bank0)"
      using False by (simp add: s bank_state bank_write_def Let_def u_def B_def)
    show ?thesis
    proof (cases "k = current t")
      case True
      have new: "bank_cell (bank_wr s a v) k b = (if b < COMMON_BASE then B[unat a := v] ! unat b else 0)"
        using True a(1) c(3) [OF a(2)] unfolding w by (simp add: bank_cell_def)
      have old: "bank_cell s k b = (if b < COMMON_BASE then B ! unat b else 0)"
      proof (cases "b < COMMON_BASE")
        case True
        with c(2) [OF this] \<open>k = current t\<close> show ?thesis by (simp add: s)
      next
        case False
        with a(1) \<open>k = current t\<close> show ?thesis by (simp add: s bank_cell_def)
      qed
      have "B[unat a := v] ! unat b = (if b = a then v else B ! unat b)"
        using c(1) [OF a(2)] below_common [OF a(2)] by (auto simp: nth_list_update)
      with new old True a(2) show ?thesis by (cases "b = a") (auto simp: s not_le)
    next
      case False
      have "bank_cell (t\<lparr>upper := u[current t - 1 := Some (B[unat a := v])]\<rparr>, bank0) k b = bank_cell (t\<lparr>upper := u\<rparr>, bank0) k b"
        using a(1) False by (auto simp: bank_cell_def nth_list_update)
      also have "\<dots> = bank_cell (t, bank0) k b"
        using resize_upper_facts(2) [of "k - 1" "upper t"] resize_upper_facts(3) [of "upper t" "k - 1"]
        by (cases "k - 1 < length (upper t)") (auto simp: bank_cell_def u_def resize_upper_def)
      finally show ?thesis using False a(2) w by (auto simp: s not_le)
    qed
  qed
qed

interpretation cromemco: banked_memory bank_ok bank_rd bank_wr bank_out "\<lambda>s. current (fst s)"
  "\<lambda>s a. a \<ge> COMMON_BASE" "\<lambda>s a. True" bank_cell
proof
  fix s :: "BankSelect \<times> byte list" and a b v x k
  assume ok: "bank_ok s"
  obtain t bank0 where s: "s = (t, bank0)" by (cases s)
  have inv: "bank_inv t bank0" using ok by (simp add: s bank_state)
  show "bank_rd s a = bank_cell s (if a \<ge> COMMON_BASE then 0 else current (fst s)) a"
    by (auto simp: s bank_state bank_read_def not_le)
  show "bank_cell (bank_wr s a v) k b =
      (if True \<and> b = a \<and> k = (if a \<ge> COMMON_BASE then 0 else current (fst s)) then v else bank_cell s k b)"
    using bank_wr_cell [OF ok] by simp
  show "bank_ok (bank_wr s a v)" using inv by (auto simp: s bank_state dest: bank_write_inv split: prod.splits)
  show "current (fst (bank_wr s a v)) = current (fst s)" by (simp add: s bank_state bank_write_def Let_def)
  show "bank_ok (bank_out s x)" using inv trailing_zeros_less [of x]
    by (simp add: s bank_state bank_port_out_def bank_inv_def BANKS_def)
  show "bank_cell (bank_out s x) = bank_cell s" by (simp add: s bank_state bank_port_out_def fun_eq_iff)
qed simp_all


section \<open>Properties\<close>

text \<open>What can happen to a machine's MMU: a guest access or a register write.\<close>

datatype mmu_event = MWrite u16 byte | MOut byte byte

fun mmu_step :: "Mmu \<times> byte list \<Rightarrow> mmu_event \<Rightarrow> Mmu \<times> byte list" where
  "mmu_step (m, bank0) (MWrite a v) = mmu_write m bank0 a v"
| "mmu_step (m, bank0) (MOut port v) = (mmu_port_out m port v, bank0)"

text \<open>From power-up, no sequence of guest writes and register writes brings the MMU out of
  its invariant: the selected bank exists, there are at most fifteen banks beside bank 0, and every one
  has exactly the segment size, so that no read or write indexes past a bank.\<close>

lemma mmu_stays_in_range:
  assumes "length ram = 65536" "foldl mmu_step (default_Mmu, ram) evs = (m, bank0)"
  shows "mmu_inv m bank0"
proof -
  have "mmu_inv (fst (foldl mmu_step s evs)) (snd (foldl mmu_step s evs))" if "mmu_inv (fst s) (snd s)" for s
    using that
  proof (induction evs arbitrary: s)
    case (Cons e evs)
    obtain m b where s: "s = (m, b)" by (cases s)
    have "mmu_inv (fst (mmu_step s e)) (snd (mmu_step s e))"
      using Cons.prems mmu_write_inv [of m b] mmu_port_out_inv [of m b] by (cases e) (auto simp: s prod_eq_iff)
    from Cons.IH [OF this] show ?case by simp
  qed simp
  from this [of "(default_Mmu, ram)"] assms show ?thesis
    by (simp add: default_Mmu_def mmu_inv_def MAX_BANKS_def DEFAULT_SEGSIZE_def)
qed


lemma mmu_is_banked_memory_facts:
  assumes "mmu_inv m bank0"
  defines "s \<equiv> (m, bank0)"
  shows "mmu_rd (mmu_wr s a v) b = (if mmu_writable s a \<and> b = a then v else mmu_rd s b)"
    and "segsize m \<le> unat b \<Longrightarrow> mmu_rd (mmu_out 0x15 s x) b = mmu_rd s b"
    and "unat b < segsize m \<Longrightarrow> selected (fst (mmu_out 0x15 s x)) \<noteq> selected m \<Longrightarrow>
      selected (fst (mmu_out 0x15 (foldl (\<lambda>s (a, v). mmu_wr s a v) (mmu_out 0x15 s x) ws) y)) = selected m \<Longrightarrow>
      mmu_rd (mmu_out 0x15 (foldl (\<lambda>s (a, v). mmu_wr s a v) (mmu_out 0x15 s x) ws) y) b = mmu_rd s b"
proof -
  have ok: "mmu_ok s" using assms by (simp add: mmu_state)
  show "mmu_rd (mmu_wr s a v) b = (if mmu_writable s a \<and> b = a then v else mmu_rd s b)"
    using ok by (rule mmu.rd_wr)
  show "segsize m \<le> unat b \<Longrightarrow> mmu_rd (mmu_out 0x15 s x) b = mmu_rd s b"
    using ok by (intro mmu.common_shared) (simp_all add: s_def mmu_common_def)
  show "unat b < segsize m \<Longrightarrow> selected (fst (mmu_out 0x15 s x)) \<noteq> selected m \<Longrightarrow>
      selected (fst (mmu_out 0x15 (foldl (\<lambda>s (a, v). mmu_wr s a v) (mmu_out 0x15 s x) ws) y)) = selected m \<Longrightarrow>
      mmu_rd (mmu_out 0x15 (foldl (\<lambda>s (a, v). mmu_wr s a v) (mmu_out 0x15 s x) ws) y) b = mmu_rd s b"
    using mmu.private_kept [OF ok, of b x ws y] by (simp add: mmu.writes_def s_def mmu_common_def)
qed

text \<open>Property C27: the MMU is banked memory. A read gives the last value written where the write was
  allowed; the common area reads the same in every bank; and what a guest left below the segment
  size of one bank is still there when it comes back to it, whatever it wrote while another bank was
  selected.\<close>

theorem mmu_is_banked_memory:
  assumes "mmu_inv m bank0"
  shows "mmu_rd (mmu_wr (m, bank0) a v) b = (if mmu_writable (m, bank0) a \<and> b = a then v else mmu_rd (m, bank0) b) \<and>
    (segsize m \<le> unat b \<longrightarrow> mmu_rd (mmu_out 0x15 (m, bank0) x) b = mmu_rd (m, bank0) b) \<and>
    (unat b < segsize m \<longrightarrow> selected (fst (mmu_out 0x15 (m, bank0) x)) \<noteq> selected m \<longrightarrow>
      selected (fst (mmu_out 0x15 (foldl (\<lambda>s (a, v). mmu_wr s a v) (mmu_out 0x15 (m, bank0) x) ws) y)) = selected m \<longrightarrow>
      mmu_rd (mmu_out 0x15 (foldl (\<lambda>s (a, v). mmu_wr s a v) (mmu_out 0x15 (m, bank0) x) ws) y) b = mmu_rd (m, bank0) b)"
  using mmu_is_banked_memory_facts [OF assms] by blast

theorem mmu_is_banked_memory_witness:
  "let s = (mmu_port_out default_Mmu 0x14 3, replicate 65536 0)
   in mmu_rd (mmu_out 0x15 (foldl (\<lambda>s (a, v). mmu_wr s a v) (mmu_out 0x15 s 2) [(0x100, 7)]) 0) 0x100 = mmu_rd s 0x100"
proof -
  have "mmu_inv default_Mmu (replicate 65536 0)" by (simp add: default_Mmu_def mmu_inv_def MAX_BANKS_def DEFAULT_SEGSIZE_def)
  then have inv: "mmu_inv (mmu_port_out default_Mmu 0x14 3) (replicate 65536 0)" by (rule mmu_port_out_inv)
  have m: "selected (mmu_port_out default_Mmu 0x14 3) = 0" "segsize (mmu_port_out default_Mmu 0x14 3) = 49152"
      "length (banks (mmu_port_out default_Mmu 0x14 3)) = 2"
    by (simp_all add: mmu_port_out_def default_Mmu_def MAX_BANKS_def DEFAULT_SEGSIZE_def)
  show ?thesis
    using mmu_is_banked_memory [OF inv, of 0 0 "0x100" 2 "[(0x100, 7)]" 0] m
    by (simp add: mmu_out_def mmu_port_out_def [of _ "0x15"] mmu_wr_def mmu_write_def banked_def Let_def split_beta)
qed

lemma cromemco_is_banked_memory_facts:
  assumes "bank_inv t bank0"
  defines "s \<equiv> (t, bank0)"
  shows "bank_rd (bank_wr s a v) b = (if b = a then v else bank_rd s b)"
    and "b \<ge> COMMON_BASE \<Longrightarrow> bank_rd (bank_out s x) b = bank_rd s b"
    and "b < COMMON_BASE \<Longrightarrow> current (fst (bank_out s x)) \<noteq> current t \<Longrightarrow>
      current (fst (bank_out (foldl (\<lambda>s (a, v). bank_wr s a v) (bank_out s x) ws) y)) = current t \<Longrightarrow>
      bank_rd (bank_out (foldl (\<lambda>s (a, v). bank_wr s a v) (bank_out s x) ws) y) b = bank_rd s b"
    and "bit x k \<Longrightarrow> \<forall>j < k. \<not> bit x j \<Longrightarrow> current (fst (bank_out s x)) = k"
proof -
  have ok: "bank_ok s" using assms by (simp add: bank_state)
  show "bank_rd (bank_wr s a v) b = (if b = a then v else bank_rd s b)"
    using cromemco.rd_wr [OF ok] by simp
  show "b \<ge> COMMON_BASE \<Longrightarrow> bank_rd (bank_out s x) b = bank_rd s b"
    using ok by (rule cromemco.common_shared)
  show "b < COMMON_BASE \<Longrightarrow> current (fst (bank_out s x)) \<noteq> current t \<Longrightarrow>
      current (fst (bank_out (foldl (\<lambda>s (a, v). bank_wr s a v) (bank_out s x) ws) y)) = current t \<Longrightarrow>
      bank_rd (bank_out (foldl (\<lambda>s (a, v). bank_wr s a v) (bank_out s x) ws) y) b = bank_rd s b"
    using cromemco.private_kept [OF ok, of b x ws y] by (simp add: cromemco.writes_def s_def not_le)
  show "bit x k \<Longrightarrow> \<forall>j < k. \<not> bit x j \<Longrightarrow> current (fst (bank_out s x)) = k"
    by (auto simp: s_def bank_out_def bank_port_out_def intro: trailing_zeros_lowest)
qed

text \<open>Property C28: the Cromemco board is banked memory of eight banks with the upper half common: the
  lowest set bit of the last byte written to the port names the bank, reads follow writes, the common
  half is one memory, and a process's lower half survives every other bank's activity.\<close>

theorem cromemco_is_banked_memory:
  assumes "bank_inv t bank0"
  shows "bank_rd (bank_wr (t, bank0) a v) b = (if b = a then v else bank_rd (t, bank0) b) \<and>
    (b \<ge> COMMON_BASE \<longrightarrow> bank_rd (bank_out (t, bank0) x) b = bank_rd (t, bank0) b) \<and>
    (b < COMMON_BASE \<longrightarrow> current (fst (bank_out (t, bank0) x)) \<noteq> current t \<longrightarrow>
      current (fst (bank_out (foldl (\<lambda>s (a, v). bank_wr s a v) (bank_out (t, bank0) x) ws) y)) = current t \<longrightarrow>
      bank_rd (bank_out (foldl (\<lambda>s (a, v). bank_wr s a v) (bank_out (t, bank0) x) ws) y) b = bank_rd (t, bank0) b) \<and>
    (bit x k \<longrightarrow> (\<forall>j < k. \<not> bit x j) \<longrightarrow> current (fst (bank_out (t, bank0) x)) = k)"
  using cromemco_is_banked_memory_facts [OF assms] by blast

theorem cromemco_is_banked_memory_witness:
  "let s = (default_BankSelect, replicate 65536 0)
   in bank_rd (bank_out (foldl (\<lambda>s (a, v). bank_wr s a v) (bank_out s 4) [(0x100, 7)]) 1) 0x100 = bank_rd s 0x100"
proof -
  have inv: "bank_inv default_BankSelect (replicate 65536 0)"
    by (simp add: bank_inv_def default_BankSelect_def BANKS_def)
  have "trailing_zeros 4 = 2" "trailing_zeros 1 = 0"
    by code_simp+
  then show ?thesis
    using cromemco_is_banked_memory [OF inv, of 0 0 "0x100" 4 "[(0x100, 7)]" 1 0]
    by (simp add: bank_out_def bank_port_out_def bank_wr_def bank_write_def COMMON_BASE_def default_BankSelect_def Let_def split_beta)
qed

end
