(* ===== verification/Cpm_Machine.thy ===== *)
theory Cpm_Machine
  imports Cpm_Memory Rust_Std
begin

text \<open>
  The seam between a booted CP/M machine and its disk controllers: the controller interface of
  \<^verbatim>\<open>src/src/cpm/controller.rs\<close> and the part of \<^verbatim>\<open>src/src/cpm/boot_machine.rs\<close> that stands on the other side of it
  (guest memory through the bank boards, the mounted images, the service of host requests, the disk
  arms of the port dispatch, insertion, cold start and write-back). A \<^verbatim>\<open>dyn Controller\<close> is a state
  together with its table of operations, so the machine is a function of that table. Offsets and
  lengths are natural numbers: a range that would overflow \<^verbatim>\<open>usize\<close> is past the end of every image
  and takes the same branch.
\<close>

section \<open>The controller interface\<close>

datatype HostRequest =
    NoRequest
  | ReadReq byte nat nat
  | ReadAhead byte nat nat
  | WriteReq byte nat nat
  | Dma byte nat nat u16 bool
  | FillReq byte nat nat nat nat byte

datatype ColdStart = OwnStart | Program nat nat u16 u16 | NoProgram

record Medium =
  med_bytes :: nat
  med_label :: str
  med_trailer :: nat
  med_shape :: str

record 'c Controller =
  ctl_name :: "'c \<Rightarrow> str"
  ctl_owns_port :: "'c \<Rightarrow> byte \<Rightarrow> bool"
  ctl_port_in :: "'c \<Rightarrow> byte \<Rightarrow> byte \<times> HostRequest \<times> 'c"
  ctl_port_out :: "'c \<Rightarrow> byte \<Rightarrow> byte \<Rightarrow> HostRequest \<times> 'c"
  ctl_slots :: "'c \<Rightarrow> byte"
  ctl_media :: "'c \<Rightarrow> Medium list"
  ctl_insert :: "'c \<Rightarrow> byte \<Rightarrow> nat \<Rightarrow> bool \<Rightarrow> str + 'c"
  ctl_buffer_loaded :: "'c \<Rightarrow> byte \<Rightarrow> byte list \<Rightarrow> 'c"
  ctl_buffer :: "'c \<Rightarrow> byte \<Rightarrow> byte list option"
  ctl_cold_start :: "'c \<Rightarrow> byte list \<Rightarrow> ColdStart"
  ctl_cold_started :: "'c \<Rightarrow> byte \<Rightarrow> 'c"
  ctl_finish_writes :: "'c \<Rightarrow> HostRequest list \<times> 'c"
  ctl_stuck_polls :: "'c \<Rightarrow> nat"

definition media_accept :: "Medium list \<Rightarrow> nat \<Rightarrow> str option" where
  "media_accept media image_len =
     map_option med_label (find (\<lambda>m. image_len \<ge> med_bytes m \<and> image_len - med_bytes m \<le> med_trailer m) media)"

definition accepts :: "'c Controller \<Rightarrow> 'c \<Rightarrow> nat \<Rightarrow> str option" where
  "accepts ops c image_len = media_accept (ctl_media ops c) image_len"


section \<open>The machine\<close>

record Mounted =
  im_bytes :: "byte list"
  im_read_only :: bool
  im_dirty :: bool

record 'c BootMachine =
  bm_mem :: "byte list"
  bm_disk_controller :: "nat option list"
  bm_controllers :: "'c list"
  bm_disks :: "Mounted option list"
  bm_idle_status_reads :: nat
  bm_disk_accesses :: u64
  bm_mmu :: Mmu
  bm_has_mmu :: bool
  bm_bank40 :: BankSelect

text \<open>A machine with the given boards, no disks, and neither bank board switched in.\<close>

definition new_BootMachine :: "'c list \<Rightarrow> 'c BootMachine" where
  "new_BootMachine cs = \<lparr>bm_mem = replicate 65536 0, bm_disk_controller = replicate 16 None, bm_controllers = cs,
     bm_disks = replicate 16 None, bm_idle_status_reads = 0, bm_disk_accesses = 0, bm_mmu = default_Mmu,
     bm_has_mmu = False, bm_bank40 = default_BankSelect\<rparr>"

definition mem_read :: "'c BootMachine \<Rightarrow> u16 \<Rightarrow> byte" where
  "mem_read m address =
     (if \<not> is_idle (bm_mmu m) then mmu_read (bm_mmu m) (bm_mem m) address
      else if \<not> bank_idle (bm_bank40 m) then bank_read (bm_bank40 m) (bm_mem m) address
      else bm_mem m ! unat address)"

definition mem_write :: "'c BootMachine \<Rightarrow> u16 \<Rightarrow> byte \<Rightarrow> 'c BootMachine" where
  "mem_write m address value =
     (if intercepts_writes (bm_mmu m)
      then (case mmu_write (bm_mmu m) (bm_mem m) address value of (mmu, mem) \<Rightarrow> m\<lparr>bm_mmu := mmu, bm_mem := mem\<rparr>)
      else if \<not> bank_idle (bm_bank40 m)
      then (case bank_write (bm_bank40 m) (bm_mem m) address value of (b, mem) \<Rightarrow> m\<lparr>bm_bank40 := b, bm_mem := mem\<rparr>)
      else m\<lparr>bm_mem := (bm_mem m)[unat address := value]\<rparr>)"

definition get_range :: "byte list \<Rightarrow> nat \<Rightarrow> nat \<Rightarrow> byte list option" where
  "get_range bs off len = (if off + len \<le> length bs then Some (take len (drop off bs)) else None)"

definition put_range :: "byte list \<Rightarrow> nat \<Rightarrow> byte list \<Rightarrow> byte list" where
  "put_range bs off src = take off bs @ src @ drop (off + length src) bs"

definition disk_at :: "'c BootMachine \<Rightarrow> byte \<Rightarrow> Mounted option" where
  "disk_at m drive = (if unat drive < length (bm_disks m) then bm_disks m ! unat drive else None)"

definition set_disk :: "'c BootMachine \<Rightarrow> byte \<Rightarrow> Mounted \<Rightarrow> 'c BootMachine" where
  "set_disk m drive im = m\<lparr>bm_disks := (bm_disks m)[unat drive := Some im]\<rparr>"

text \<open>A store into an image; a read-only image and a range past its end refuse it.\<close>

definition store_range :: "byte \<Rightarrow> nat \<Rightarrow> nat \<Rightarrow> byte list \<Rightarrow> 'c BootMachine \<Rightarrow> 'c BootMachine" where
  "store_range drive off len buf m =
     (case disk_at m drive of None \<Rightarrow> m
      | Some im \<Rightarrow>
          if im_read_only im then m
          else if off + len \<le> length (im_bytes im) \<and> len \<le> length buf
          then set_disk m drive (im\<lparr>im_bytes := put_range (im_bytes im) off (take len buf), im_dirty := True\<rparr>)
          else m)"

definition fetch_range :: "'c BootMachine \<Rightarrow> byte \<Rightarrow> nat \<Rightarrow> nat \<Rightarrow> byte list" where
  "fetch_range m drive off len =
     (case disk_at m drive of None \<Rightarrow> replicate len 0xE5
      | Some im \<Rightarrow> (case get_range (im_bytes im) off len of Some bs \<Rightarrow> bs | None \<Rightarrow> replicate len 0xE5))"

fun dma_write :: "u16 \<Rightarrow> byte list \<Rightarrow> 'c BootMachine \<Rightarrow> 'c BootMachine" where
  "dma_write addr [] m = m"
| "dma_write addr (b # bs) m = dma_write (addr + 1) bs (mem_write m addr b)"

definition dma_read :: "u16 \<Rightarrow> nat \<Rightarrow> 'c BootMachine \<Rightarrow> byte list" where
  "dma_read addr len m = map (\<lambda>i. mem_read m (addr + of_nat i)) [0..<len]"

definition saturate64 :: "nat \<Rightarrow> nat" where
  "saturate64 n = min n (2 ^ 64 - 1)"

definition fill_run :: "byte \<Rightarrow> nat \<Rightarrow> nat \<Rightarrow> nat \<Rightarrow> byte \<Rightarrow> nat \<Rightarrow> 'c BootMachine \<Rightarrow> 'c BootMachine" where
  "fill_run drive offset chunk stride byte i m =
     store_range drive (saturate64 (offset + saturate64 (stride * i))) chunk (replicate chunk byte) m"

definition service :: "'c Controller \<Rightarrow> HostRequest \<Rightarrow> nat \<Rightarrow> 'c BootMachine \<Rightarrow> 'c BootMachine" where
  "service ops req ctrl m =
     (let load = (\<lambda>drive offset len. m\<lparr>bm_controllers :=
             (bm_controllers m)[ctrl := ctl_buffer_loaded ops (bm_controllers m ! ctrl) drive (fetch_range m drive offset len)]\<rparr>)
      in case req of
           NoRequest \<Rightarrow> m
         | ReadReq drive offset len \<Rightarrow> load drive offset len
         | ReadAhead drive offset len \<Rightarrow> load drive offset len
         | WriteReq drive offset len \<Rightarrow>
             (case ctl_buffer ops (bm_controllers m ! ctrl) drive of None \<Rightarrow> m
              | Some buf \<Rightarrow> store_range drive offset len buf m)
         | Dma drive offset len addr to_memory \<Rightarrow>
             if to_memory then dma_write addr (fetch_range m drive offset len) m
             else store_range drive offset len (dma_read addr len m) m
         | FillReq drive offset chunk stride count byte \<Rightarrow>
             fold (fill_run drive offset chunk stride byte) [0..<count] m)"

definition controller_for :: "'c Controller \<Rightarrow> 'c BootMachine \<Rightarrow> byte \<Rightarrow> nat option" where
  "controller_for ops m port =
     find (\<lambda>i. ctl_owns_port ops (bm_controllers m ! i) port) [0..<length (bm_controllers m)]"

definition saturating_inc64 :: "u64 \<Rightarrow> u64" where
  "saturating_inc64 n = (if n = - 1 then n else n + 1)"

definition counted :: "'c BootMachine \<Rightarrow> 'c BootMachine" where
  "counted m = m\<lparr>bm_disk_accesses := saturating_inc64 (bm_disk_accesses m)\<rparr>"

text \<open>One access of a controller's register, with its request served.\<close>

definition ctl_in :: "'c Controller \<Rightarrow> nat \<Rightarrow> byte \<Rightarrow> 'c BootMachine \<Rightarrow> byte \<times> HostRequest \<times> 'c BootMachine" where
  "ctl_in ops ctrl port m =
     (case ctl_port_in ops (bm_controllers m ! ctrl) port of
        (v, req, c) \<Rightarrow> (v, req, service ops req ctrl (m\<lparr>bm_controllers := (bm_controllers m)[ctrl := c]\<rparr>)))"

definition ctl_out :: "'c Controller \<Rightarrow> nat \<Rightarrow> byte \<Rightarrow> byte \<Rightarrow> 'c BootMachine \<Rightarrow> 'c BootMachine" where
  "ctl_out ops ctrl port v m =
     (case ctl_port_out ops (bm_controllers m ! ctrl) port v of
        (req, c) \<Rightarrow> service ops req ctrl (m\<lparr>bm_controllers := (bm_controllers m)[ctrl := c]\<rparr>))"

text \<open>The first two arms of the port dispatch. \<^verbatim>\<open>None\<close>: the port is neither the MMU's nor a
  controller's and goes on to the console, the cards and the modem.\<close>

definition bm_port_in :: "'c Controller \<Rightarrow> 'c BootMachine \<Rightarrow> u16 \<Rightarrow> (byte \<times> 'c BootMachine) option" where
  "bm_port_in ops m address =
     (let port = ucast address
      in if bm_has_mmu m \<and> owns_port port then Some (mmu_port_in (bm_mmu m) port, m)
         else case controller_for ops m port of None \<Rightarrow> None
         | Some ctrl \<Rightarrow>
             (case ctl_in ops ctrl port (counted m) of (v, req, m1) \<Rightarrow>
                let m2 = m1\<lparr>bm_idle_status_reads := 0\<rparr>
                in case req of
                     ReadReq _ _ _ \<Rightarrow> (case ctl_in ops ctrl port m2 of (v2, _, m3) \<Rightarrow> Some (v2, m3))
                   | _ \<Rightarrow> Some (v, m2)))"

definition bm_port_out :: "'c Controller \<Rightarrow> 'c BootMachine \<Rightarrow> u16 \<Rightarrow> byte \<Rightarrow> 'c BootMachine option" where
  "bm_port_out ops m address v =
     (let port = ucast address
      in if bm_has_mmu m \<and> owns_port port then Some (m\<lparr>bm_mmu := mmu_port_out (bm_mmu m) port v\<rparr>)
         else case controller_for ops m port of None \<Rightarrow> None
         | Some ctrl \<Rightarrow> Some ((ctl_out ops ctrl port v (counted m))\<lparr>bm_idle_status_reads := 0\<rparr>))"

fun join_comma :: "str list \<Rightarrow> str" where
  "join_comma [] = []"
| "join_comma [c] = c"
| "join_comma (c # d # cs) = c @ str_of '', '' @ join_comma (d # cs)"

text \<open>The bytes E2 80 94 are the dash of the message.\<close>

definition cannot_carry :: "'c Controller \<Rightarrow> 'c BootMachine \<Rightarrow> nat \<Rightarrow> str" where
  "cannot_carry ops m len =
     dec_string len @ str_of '' bytes is not a disk this machine can carry '' @ [0xE2, 0x80, 0x94] @ str_of '' it has: '' @
     join_comma (map (ctl_name ops) (bm_controllers m))"

definition bm_insert :: "'c Controller \<Rightarrow> 'c BootMachine \<Rightarrow> byte \<Rightarrow> byte list \<Rightarrow> bool \<Rightarrow> str + 'c BootMachine" where
  "bm_insert ops m drive bs read_only =
     (case find (\<lambda>i. accepts ops (bm_controllers m ! i) (length bs) \<noteq> None) [0..<length (bm_controllers m)] of
        None \<Rightarrow> Inl (cannot_carry ops m (length bs))
      | Some i \<Rightarrow>
          (case ctl_insert ops (bm_controllers m ! i) drive (length bs) read_only of
             Inl e \<Rightarrow> Inl e
           | Inr c \<Rightarrow>
               Inr (m\<lparr>bm_controllers := (bm_controllers m)[i := c],
                      bm_disk_controller := (bm_disk_controller m)[unat drive := Some i],
                      bm_disks := (bm_disks m)[unat drive :=
                        Some \<lparr>im_bytes = bs, im_read_only = read_only, im_dirty = False\<rparr>]\<rparr>)))"

text \<open>The disks a session mounts, in order.\<close>

fun insert_all :: "'c Controller \<Rightarrow> (byte \<times> byte list \<times> bool) list \<Rightarrow> 'c BootMachine \<Rightarrow> str + 'c BootMachine" where
  "insert_all ops [] m = Inr m"
| "insert_all ops ((drive, bs, ro) # ds) m =
     (case bm_insert ops m drive bs ro of Inl e \<Rightarrow> Inl e | Inr m' \<Rightarrow> insert_all ops ds m')"

fun finish_all :: "'c Controller \<Rightarrow> nat list \<Rightarrow> 'c BootMachine \<Rightarrow> 'c BootMachine" where
  "finish_all ops [] m = m"
| "finish_all ops (i # is) m =
     (case ctl_finish_writes ops (bm_controllers m ! i) of (reqs, c) \<Rightarrow>
        finish_all ops is (fold (\<lambda>req. service ops req i) reqs (m\<lparr>bm_controllers := (bm_controllers m)[i := c]\<rparr>)))"

definition owed :: "Mounted option \<Rightarrow> bool" where
  "owed slot = (case slot of Some im \<Rightarrow> im_dirty im \<and> \<not> im_read_only im | None \<Rightarrow> False)"

definition take_dirty :: "'c Controller \<Rightarrow> 'c BootMachine \<Rightarrow> (byte \<times> byte list) list \<times> 'c BootMachine" where
  "take_dirty ops m =
     (let m' = finish_all ops [0..<length (bm_controllers m)] m
      in (map (\<lambda>(i, slot). (of_nat i, im_bytes (the slot))) (filter (\<lambda>(i, slot). owed slot) (enumerate 0 (bm_disks m'))),
          m'\<lparr>bm_disks := map (\<lambda>slot. if owed slot then map_option (im_dirty_update (\<lambda>_. False)) slot else slot) (bm_disks m')\<rparr>))"


section \<open>Cold start\<close>

definition BOOT_DATA_LEN :: nat where "BOOT_DATA_LEN = 128"

datatype BootError = NoDisk byte | Unreadable str | NeverPositioned | NotBootable | NoBootstrap

definition looks_bootable :: "byte list \<Rightarrow> bool" where
  "looks_bootable payload =
     (let top = foldr max (map (count_list payload) payload) 0;
          printable = length (filter (\<lambda>b. (0x20 \<le> b \<and> b < 0x7F) \<or> b = 0x0D \<or> b = 0x0A) payload)
      in if length payload < 8 then False
         else if top > length payload * 4 div 5 then False
         else \<not> printable = length payload)"

text \<open>What the boards whose PROM loads a run of bytes do; a board with its own sequence (the 88-DCDD) is
  reported as such, with its index.\<close>

datatype 'c boot_result = Booted "'c BootMachine" u16 | OwnSequence nat

definition load_boot_program :: "'c Controller \<Rightarrow> 'c BootMachine \<Rightarrow> byte \<Rightarrow> BootError + 'c boot_result" where
  "load_boot_program ops m drive =
     (case (if unat drive < length (bm_disk_controller m) then bm_disk_controller m ! unat drive else None) of
        None \<Rightarrow> Inl (NoDisk drive)
      | Some which \<Rightarrow>
          (case disk_at m drive of None \<Rightarrow> Inl (NoDisk drive)
           | Some im \<Rightarrow>
               (case ctl_cold_start ops (bm_controllers m ! which) (im_bytes im) of
                  Program offset len load entry \<Rightarrow>
                    (case get_range (im_bytes im) offset len of
                       None \<Rightarrow> Inl (Unreadable (str_of ''the boot program runs past the end''))
                     | Some program \<Rightarrow>
                         if \<not> looks_bootable (take (min BOOT_DATA_LEN len) program) then Inl NotBootable
                         else let start = unat load; end' = min (start + length program) (length (bm_mem m))
                              in Inr (Booted (m\<lparr>bm_mem := put_range (bm_mem m) start (take (end' - start) program),
                                     bm_controllers := (bm_controllers m)[which := ctl_cold_started ops (bm_controllers m ! which) drive]\<rparr>) entry))
                | NoProgram \<Rightarrow> Inl NotBootable
                | OwnStart \<Rightarrow> Inr (OwnSequence which))))"


section \<open>Images under arbitrary guests\<close>

text \<open>What a served request may do to a slot: an image keeps its length and its protection, and a
  protected one every byte.\<close>

definition slot_kept :: "Mounted option \<Rightarrow> Mounted option \<Rightarrow> bool" where
  "slot_kept a b = (case (a, b) of
      (None, None) \<Rightarrow> True
    | (Some x, Some y) \<Rightarrow> im_read_only y = im_read_only x \<and> length (im_bytes y) = length (im_bytes x) \<and>
        (im_read_only x \<longrightarrow> y = x)
    | _ \<Rightarrow> False)"

definition kept :: "'c BootMachine \<Rightarrow> 'c BootMachine \<Rightarrow> bool" where
  "kept m m' \<longleftrightarrow> list_all2 slot_kept (bm_disks m) (bm_disks m')"

lemma slot_kept_refl [simp]: "slot_kept a a"
  by (cases a) (simp_all add: slot_kept_def)

lemma slot_kept_trans: "slot_kept a b \<Longrightarrow> slot_kept b c \<Longrightarrow> slot_kept a c"
  by (auto simp: slot_kept_def split: option.splits)

lemma kept_refl [simp]: "kept m m"
  by (simp add: kept_def list_all2_refl)

lemma kept_trans [trans]: "kept m m' \<Longrightarrow> kept m' m'' \<Longrightarrow> kept m m''"
  unfolding kept_def by (rule list_all2_trans [of slot_kept slot_kept slot_kept, OF slot_kept_trans])

lemma kept_same_disks: "bm_disks m' = bm_disks m \<Longrightarrow> kept m m'"
  by (simp add: kept_def list_all2_refl)

lemma mem_write_disks [simp]:
  "bm_disks (mem_write m a v) = bm_disks m" "bm_controllers (mem_write m a v) = bm_controllers m"
  by (simp_all add: mem_write_def split: prod.splits)

lemma dma_write_disks [simp]:
  "bm_disks (dma_write a bs m) = bm_disks m" "bm_controllers (dma_write a bs m) = bm_controllers m"
  by (induction a bs m rule: dma_write.induct) simp_all

lemma length_put_range: "off + length src \<le> length bs \<Longrightarrow> length (put_range bs off src) = length bs"
  by (simp add: put_range_def)

lemma store_range_kept: "kept m (store_range d off len buf m)"
proof (cases "disk_at m d")
  case (Some im)
  then have i: "unat d < length (bm_disks m)" "bm_disks m ! unat d = Some im"
    by (auto simp: disk_at_def split: if_splits)
  have "slot_kept (Some im) (Some (im\<lparr>im_bytes := put_range (im_bytes im) off (take len buf), im_dirty := True\<rparr>))"
    if "\<not> im_read_only im" "off + len \<le> length (im_bytes im)" "len \<le> length buf"
    using that by (simp add: slot_kept_def length_put_range)
  with i Some show ?thesis
    by (auto simp: kept_def store_range_def set_disk_def list_all2_conv_all_nth nth_list_update)
qed (simp add: store_range_def)

lemma store_range_controllers [simp]: "bm_controllers (store_range d off len buf m) = bm_controllers m"
  by (simp add: store_range_def set_disk_def split: option.splits)

lemma fill_kept: "kept m (fold (fill_run d off chunk stride b) is m)"
proof (induction "is" arbitrary: m)
  case (Cons i "is")
  have "kept m (fill_run d off chunk stride b i m)" unfolding fill_run_def by (rule store_range_kept)
  with Cons.IH show ?case by (auto intro: kept_trans)
qed simp

lemma service_kept: "kept m (service ops req ctrl m)"
  by (auto simp: service_def Let_def kept_same_disks store_range_kept fill_kept split: HostRequest.split option.split)

lemma ctl_in_kept: "ctl_in ops ctrl port m = (v, req, m') \<Longrightarrow> kept m m'"
  by (auto simp: ctl_in_def split: prod.splits intro: kept_trans [OF kept_same_disks service_kept])

lemma ctl_out_kept: "kept m (ctl_out ops ctrl port v m)"
  by (auto simp: ctl_out_def split: prod.splits intro: kept_trans [OF kept_same_disks service_kept])

lemma counted_kept: "kept m (counted m)"
  by (rule kept_same_disks) (simp add: counted_def)

lemma bm_port_in_cases:
  assumes "bm_port_in ops m a = Some (v, m')"
  obtains (mmu) "m' = m"
  | (answered) ctrl req m1 where "controller_for ops m (ucast a) = Some ctrl"
      "ctl_in ops ctrl (ucast a) (counted m) = (v, req, m1)" "\<And>d o' l. req \<noteq> ReadReq d o' l" "m' = m1\<lparr>bm_idle_status_reads := 0\<rparr>"
  | (filled) ctrl v1 d off l req2 m1 where "controller_for ops m (ucast a) = Some ctrl"
      "ctl_in ops ctrl (ucast a) (counted m) = (v1, ReadReq d off l, m1)"
      "ctl_in ops ctrl (ucast a) (m1\<lparr>bm_idle_status_reads := 0\<rparr>) = (v, req2, m')"
proof (cases "bm_has_mmu m \<and> owns_port (ucast a)")
  case True
  with assms mmu show ?thesis by (simp add: bm_port_in_def Let_def)
next
  case False
  then obtain ctrl where c: "controller_for ops m (ucast a) = Some ctrl"
    using assms by (cases "controller_for ops m (ucast a)") (auto simp: bm_port_in_def Let_def split: if_splits)
  obtain v1 req m1 where 1: "ctl_in ops ctrl (ucast a) (counted m) = (v1, req, m1)" by (cases "ctl_in ops ctrl (ucast a) (counted m)")
  show ?thesis
  proof (cases "\<exists>d off l. req = ReadReq d off l")
    case True
    with assms False c 1 show ?thesis
      by (auto simp: bm_port_in_def Let_def split: prod.splits intro: filled [OF c])
  next
    case False
    then have "bm_port_in ops m a = Some (v1, m1\<lparr>bm_idle_status_reads := 0\<rparr>)"
      using \<open>\<not> (bm_has_mmu m \<and> owns_port (ucast a))\<close> c 1 by (cases req) (auto simp: bm_port_in_def Let_def)
    with assms False 1 c show ?thesis by (auto intro: answered [OF c])
  qed
qed

lemma bm_port_out_cases:
  assumes "bm_port_out ops m a v = Some m'"
  obtains (mmu) "m' = m\<lparr>bm_mmu := mmu_port_out (bm_mmu m) (ucast a) v\<rparr>"
  | (served) ctrl where "controller_for ops m (ucast a) = Some ctrl"
      "m' = (ctl_out ops ctrl (ucast a) v (counted m))\<lparr>bm_idle_status_reads := 0\<rparr>"
  using assms by (auto simp: bm_port_out_def Let_def split: if_splits option.splits)

lemma idle_kept: "kept m (m\<lparr>bm_idle_status_reads := n\<rparr>)"
  by (simp add: kept_same_disks)

lemma bm_port_in_kept: "bm_port_in ops m a = Some (v, m') \<Longrightarrow> kept m m'"
proof (elim bm_port_in_cases)
  fix ctrl req m1
  assume 1: "ctl_in ops ctrl (ucast a) (counted m) = (v, req, m1)" and m': "m' = m1\<lparr>bm_idle_status_reads := 0\<rparr>"
  note counted_kept
  also note ctl_in_kept [OF 1]
  also note idle_kept
  finally show "kept m m'" unfolding m' .
next
  fix ctrl v1 d off l req2 m1
  assume 1: "ctl_in ops ctrl (ucast a) (counted m) = (v1, ReadReq d off l, m1)"
    and 2: "ctl_in ops ctrl (ucast a) (m1\<lparr>bm_idle_status_reads := 0\<rparr>) = (v, req2, m')"
  note counted_kept
  also note ctl_in_kept [OF 1]
  also note idle_kept
  also note ctl_in_kept [OF 2]
  finally show "kept m m'" .
qed simp

lemma bm_port_out_kept: "bm_port_out ops m a v = Some m' \<Longrightarrow> kept m m'"
proof (elim bm_port_out_cases)
  fix ctrl
  assume "m' = (ctl_out ops ctrl (ucast a) v (counted m))\<lparr>bm_idle_status_reads := 0\<rparr>"
  then show "kept m m'"
    by (auto intro: kept_trans [OF counted_kept] kept_trans [OF ctl_out_kept] idle_kept)
qed (simp add: kept_same_disks)

text \<open>What a guest can do to the machine: write memory, read a port, write a port. A port that is
  neither the MMU's nor a controller's changes nothing here.\<close>

datatype guest = Poke u16 byte | In u16 | Out u16 byte

fun guest_step :: "'c Controller \<Rightarrow> guest \<Rightarrow> 'c BootMachine \<Rightarrow> 'c BootMachine" where
  "guest_step ops (Poke a v) m = mem_write m a v"
| "guest_step ops (In a) m = (case bm_port_in ops m a of Some (_, m') \<Rightarrow> m' | None \<Rightarrow> m)"
| "guest_step ops (Out a v) m = (case bm_port_out ops m a v of Some m' \<Rightarrow> m' | None \<Rightarrow> m)"

lemma guest_step_kept: "kept m (guest_step ops g m)"
  by (cases g) (auto simp: kept_same_disks split: option.split dest: bm_port_in_kept bm_port_out_kept)

lemma guest_run_kept: "kept m (fold (guest_step ops) gs m)"
  by (induction gs arbitrary: m) (auto intro: kept_trans [OF guest_step_kept])

lemma finish_all_kept: "kept m (finish_all ops is m)"
proof (induction ops "is" m rule: finish_all.induct)
  case (2 ops i "is" m)
  obtain reqs c where r: "ctl_finish_writes ops (bm_controllers m ! i) = (reqs, c)" by force
  have "kept m' (fold (\<lambda>req. service ops req i) reqs m')" for m'
    by (induction reqs arbitrary: m') (auto intro: kept_trans [OF service_kept])
  from kept_trans [OF kept_trans [OF kept_same_disks this] 2 [OF r [symmetric]]] r show ?case by simp
qed simp

lemma take_dirty_owed:
  assumes "take_dirty ops m = (out, m')" "(d, bs) \<in> set out" "length (bm_disks m) \<le> 256"
  shows "\<exists>im im0. disk_at m d = Some im0 \<and> \<not> im_read_only im0 \<and> length bs = length (im_bytes im0)"
proof -
  let ?f = "finish_all ops [0..<length (bm_controllers m)] m"
  have k: "list_all2 slot_kept (bm_disks m) (bm_disks ?f)" using finish_all_kept [of m ops] by (simp add: kept_def)
  from assms(1,2) obtain i where i: "i < length (bm_disks ?f)" "d = of_nat i" "owed (bm_disks ?f ! i)" "bs = im_bytes (the (bm_disks ?f ! i))"
    by (auto simp: take_dirty_def Let_def in_set_enumerate_eq)
  then obtain y where y: "bm_disks ?f ! i = Some y" "\<not> im_read_only y" by (auto simp: owed_def split: option.splits)
  have "slot_kept (bm_disks m ! i) (Some y)" and l: "i < length (bm_disks m)"
    using k i(1) y by (auto simp: list_all2_conv_all_nth)
  then obtain x where "bm_disks m ! i = Some x" "im_read_only x = im_read_only y" "length (im_bytes y) = length (im_bytes x)"
    by (auto simp: slot_kept_def split: option.splits)
  moreover have "unat d = i" using i(2) l assms(3) by (simp add: unat_of_nat)
  ultimately show ?thesis using l y i(4) by (auto simp: disk_at_def)
qed


section \<open>The contract of a controller\<close>

text \<open>A request a machine can serve in full: it names a range of the medium on a drive that holds a
  disk, a write names a drive that may be written and has its bytes ready.\<close>

definition request_ok :: "'c Controller \<Rightarrow> nat \<Rightarrow> (byte \<Rightarrow> bool) \<Rightarrow> (byte \<Rightarrow> bool) \<Rightarrow> 'c \<Rightarrow> HostRequest \<Rightarrow> bool" where
  "request_ok ops medium pres wr c req = (case req of
      NoRequest \<Rightarrow> True
    | ReadReq d off len \<Rightarrow> pres d \<and> off + len \<le> medium
    | ReadAhead d off len \<Rightarrow> pres d \<and> off + len \<le> medium
    | WriteReq d off len \<Rightarrow> wr d \<and> off + len \<le> medium \<and> map_option length (ctl_buffer ops c d) = Some len
    | Dma d off len a to_memory \<Rightarrow> (if to_memory then pres d else wr d) \<and> off + len \<le> medium
    | FillReq d off chunk stride count b \<Rightarrow> wr d \<and> (\<forall>i < count. off + stride * i + chunk \<le> medium))"

text \<open>The same of the images that are really mounted.\<close>

definition serviceable :: "'c Controller \<Rightarrow> nat \<Rightarrow> 'c BootMachine \<Rightarrow> 'c \<Rightarrow> HostRequest \<Rightarrow> bool" where
  "serviceable ops medium m = request_ok ops medium
     (\<lambda>d. \<exists>im. disk_at m d = Some im \<and> medium \<le> length (im_bytes im))
     (\<lambda>d. \<exists>im. disk_at m d = Some im \<and> medium \<le> length (im_bytes im) \<and> \<not> im_read_only im)"

text \<open>The controller after its request has been served with the given bytes.\<close>

definition served :: "'c Controller \<Rightarrow> HostRequest \<Rightarrow> (nat \<Rightarrow> byte list) \<Rightarrow> 'c \<Rightarrow> 'c" where
  "served ops req bytes c = (case req of
      ReadReq d off len \<Rightarrow> ctl_buffer_loaded ops c d (bytes len)
    | ReadAhead d off len \<Rightarrow> ctl_buffer_loaded ops c d (bytes len)
    | _ \<Rightarrow> c)"

locale disk_controller =
  fixes ops :: "'c Controller"
    and inv quiet :: "'c \<Rightarrow> bool"
    and medium :: nat
    and present writable :: "'c \<Rightarrow> byte \<Rightarrow> bool"
  assumes port_in_law: "inv c \<Longrightarrow> ctl_port_in ops c p = (v, req, c') \<Longrightarrow>
      request_ok ops medium (present c) (writable c) c' req \<and>
      ((\<forall>n. length (bytes n) = n) \<longrightarrow> inv (served ops req bytes c') \<and>
        present (served ops req bytes c') = present c \<and> writable (served ops req bytes c') = writable c)"
    and port_out_law: "inv c \<Longrightarrow> ctl_port_out ops c p w = (req, c') \<Longrightarrow>
      request_ok ops medium (present c) (writable c) c' req \<and>
      ((\<forall>n. length (bytes n) = n) \<longrightarrow> inv (served ops req bytes c') \<and>
        present (served ops req bytes c') = present c \<and> writable (served ops req bytes c') = writable c)"
    and insert_law: "inv c \<Longrightarrow> quiet c \<Longrightarrow> ctl_insert ops c d len ro = Inr c' \<Longrightarrow>
      inv c' \<and> quiet c' \<and> unat d < 16 \<and> medium \<le> len \<and>
      present c' = (present c)(d := True) \<and> writable c' = (writable c)(d := \<not> ro)"
    and writable_present: "inv c \<Longrightarrow> writable c d \<Longrightarrow> present c d"
begin

text \<open>The controller and the machine agree about which drives hold a disk and which may be written.\<close>

definition synced :: "nat \<Rightarrow> 'c BootMachine \<Rightarrow> bool" where
  "synced ctrl m \<longleftrightarrow> ctrl < length (bm_controllers m) \<and> inv (bm_controllers m ! ctrl) \<and>
     (\<forall>d. present (bm_controllers m ! ctrl) d \<longrightarrow>
        (\<exists>im. disk_at m d = Some im \<and> medium \<le> length (im_bytes im) \<and>
              im_read_only im = (\<not> writable (bm_controllers m ! ctrl) d)))"

lemma synced_disk:
  assumes "synced ctrl m" "present (bm_controllers m ! ctrl) d"
  obtains im where "disk_at m d = Some im" "medium \<le> length (im_bytes im)"
    "im_read_only im = (\<not> writable (bm_controllers m ! ctrl) d)"
  using assms by (auto simp: synced_def)

lemma kept_disk_at: "kept m m' \<Longrightarrow> slot_kept (disk_at m d) (disk_at m' d)"
  by (auto simp: kept_def disk_at_def list_all2_conv_all_nth)

lemma synced_transfer:
  assumes "synced ctrl m" "kept m m'" "ctrl < length (bm_controllers m')"
    and "inv (bm_controllers m' ! ctrl)"
    and "present (bm_controllers m' ! ctrl) = present (bm_controllers m ! ctrl)"
    and "writable (bm_controllers m' ! ctrl) = writable (bm_controllers m ! ctrl)"
  shows "synced ctrl m'"
proof -
  have "\<exists>im. disk_at m' d = Some im \<and> medium \<le> length (im_bytes im) \<and> im_read_only im = (\<not> writable (bm_controllers m' ! ctrl) d)"
    if "present (bm_controllers m' ! ctrl) d" for d
  proof -
    from that assms(5) have "present (bm_controllers m ! ctrl) d" by simp
    with assms(1) obtain im where "disk_at m d = Some im" "medium \<le> length (im_bytes im)"
      "im_read_only im = (\<not> writable (bm_controllers m ! ctrl) d)" by (rule synced_disk)
    with kept_disk_at [OF assms(2), of d] assms(6) show ?thesis by (auto simp: slot_kept_def split: option.splits)
  qed
  with assms show ?thesis by (simp add: synced_def)
qed

text \<open>What service leaves in the controllers: the one that asked has its bytes, the others are as they
  were.\<close>

lemma service_controllers:
  "\<exists>bytes. (\<forall>n. length (bytes n) = n) \<and>
     bm_controllers (service ops req i m) = (bm_controllers m)[i := served ops req bytes (bm_controllers m ! i)]"
proof -
  define bytes where "bytes n = (case req of
      ReadReq d off len \<Rightarrow> if n = len then fetch_range m d off len else replicate n 0
    | ReadAhead d off len \<Rightarrow> if n = len then fetch_range m d off len else replicate n 0
    | _ \<Rightarrow> replicate n 0)" for n
  have "length (fetch_range m d off len) = len" for d off len
    by (auto simp: fetch_range_def get_range_def split: option.splits)
  then have "\<forall>n. length (bytes n) = n" by (auto simp: bytes_def split: HostRequest.splits)
  moreover have fill: "bm_controllers (fold (fill_run d off chunk stride b) is m) = bm_controllers m" for d off chunk stride b "is" m
    by (induction "is" arbitrary: m) (simp_all add: fill_run_def)
  have "bm_controllers (service ops req i m) = (bm_controllers m)[i := served ops req bytes (bm_controllers m ! i)]"
    by (auto simp: service_def served_def bytes_def Let_def fill split: HostRequest.split option.split)
  ultimately show ?thesis by blast
qed

lemma other_controllers:
  assumes "synced ctrl m" "i \<noteq> ctrl" "kept m m'" "\<exists>c. bm_controllers m' = (bm_controllers m)[i := c]"
  shows "synced ctrl m'"
proof -
  from assms(4) obtain c where c: "bm_controllers m' = (bm_controllers m)[i := c]" by blast
  show ?thesis using assms(1,2) by (intro synced_transfer [OF assms(1,3)]) (auto simp: c synced_def)
qed

lemma own_controller:
  assumes "synced ctrl m" "kept m m'" "bm_controllers m' = (bm_controllers m)[ctrl := c]"
    and "inv c" "present c = present (bm_controllers m ! ctrl)" "writable c = writable (bm_controllers m ! ctrl)"
  shows "synced ctrl m'"
  using assms by (intro synced_transfer [OF assms(1,2)]) (auto simp: synced_def)

lemma ctl_in_synced:
  assumes "synced ctrl m" "ctl_in ops i p m = (v, req, m')"
  shows "synced ctrl m'"
proof -
  obtain c where c: "ctl_port_in ops (bm_controllers m ! i) p = (v, req, c)"
    and m': "m' = service ops req i (m\<lparr>bm_controllers := (bm_controllers m)[i := c]\<rparr>)"
    using assms(2) by (auto simp: ctl_in_def split: prod.splits)
  obtain bytes where b: "\<forall>n. length (bytes n) = n"
    and cs: "bm_controllers m' = (bm_controllers m)[i := served ops req bytes ((bm_controllers m)[i := c] ! i)]"
    using service_controllers [of req i "m\<lparr>bm_controllers := (bm_controllers m)[i := c]\<rparr>"] m' by auto
  have k: "kept m m'" using assms(2) by (rule ctl_in_kept)
  show ?thesis
  proof (cases "i = ctrl")
    case True
    then have "(bm_controllers m)[i := c] ! i = c" "inv (bm_controllers m ! ctrl)" using assms(1) by (simp_all add: synced_def)
    with port_in_law [OF _ c [unfolded True], of bytes] b cs True show ?thesis
      by (intro own_controller [OF assms(1) k, of "served ops req bytes c"]) simp_all
  next
    case False
    with cs show ?thesis by (intro other_controllers [OF assms(1) False k]) blast
  qed
qed

lemma ctl_out_synced:
  assumes "synced ctrl m"
  shows "synced ctrl (ctl_out ops i p w m)"
proof -
  obtain req c where c: "ctl_port_out ops (bm_controllers m ! i) p w = (req, c)" by force
  let ?m' = "ctl_out ops i p w m"
  have m': "?m' = service ops req i (m\<lparr>bm_controllers := (bm_controllers m)[i := c]\<rparr>)" by (simp add: ctl_out_def c)
  obtain bytes where b: "\<forall>n. length (bytes n) = n"
    and cs: "bm_controllers ?m' = (bm_controllers m)[i := served ops req bytes ((bm_controllers m)[i := c] ! i)]"
    using service_controllers [of req i "m\<lparr>bm_controllers := (bm_controllers m)[i := c]\<rparr>"] m' by auto
  show ?thesis
  proof (cases "i = ctrl")
    case True
    then have "(bm_controllers m)[i := c] ! i = c" "inv (bm_controllers m ! ctrl)" using assms(1) by (simp_all add: synced_def)
    with port_out_law [OF _ c [unfolded True], of bytes] b cs True show ?thesis
      by (intro own_controller [OF assms(1) ctl_out_kept [of m ops i p w], of "served ops req bytes c"]) simp_all
  next
    case False
    with cs show ?thesis by (intro other_controllers [OF assms(1) False ctl_out_kept]) blast
  qed
qed

lemma synced_cong:
  "bm_controllers m' = bm_controllers m \<Longrightarrow> bm_disks m' = bm_disks m \<Longrightarrow> synced ctrl m' \<longleftrightarrow> synced ctrl m"
  by (simp add: synced_def disk_at_def)

lemma idle_synced: "synced ctrl (m\<lparr>bm_idle_status_reads := n\<rparr>) \<longleftrightarrow> synced ctrl m"
  by (rule synced_cong) simp_all

lemma counted_synced: "synced ctrl (counted m) \<longleftrightarrow> synced ctrl m"
  by (rule synced_cong) (simp_all add: counted_def)

lemma guest_step_synced:
  assumes "synced ctrl m"
  shows "synced ctrl (guest_step ops g m)"
proof (cases g)
  case (Poke a v)
  then show ?thesis using assms by (simp add: synced_cong [of "mem_write m a v" m])
next
  case (In a)
  have cnt: "synced ctrl (counted m)" using assms by (simp add: counted_synced)
  show ?thesis
  proof (cases "bm_port_in ops m a")
    case (Some vm)
    obtain v m' where vm: "vm = (v, m')" by (cases vm)
    from Some vm have "bm_port_in ops m a = Some (v, m')" by simp
    then have "synced ctrl m'"
    proof (cases rule: bm_port_in_cases)
      case (answered c req m1)
      with ctl_in_synced [OF cnt answered(2)] show ?thesis by (simp add: idle_synced)
    next
      case (filled c v1 d off l req2 m1)
      have "synced ctrl m1" by (rule ctl_in_synced [OF cnt filled(2)])
      then have "synced ctrl (m1\<lparr>bm_idle_status_reads := 0\<rparr>)" by (simp add: idle_synced)
      then show ?thesis by (rule ctl_in_synced [OF _ filled(3)])
    qed (use assms in simp)
    with In Some vm show ?thesis by simp
  qed (use In assms in simp)
next
  case (Out a v)
  have cnt: "synced ctrl (counted m)" using assms by (simp add: counted_synced)
  show ?thesis
  proof (cases "bm_port_out ops m a v")
    case (Some m')
    then have "synced ctrl m'"
    proof (cases rule: bm_port_out_cases)
      case mmu
      with synced_cong [of m' m ctrl] assms show ?thesis by simp
    next
      case (served c)
      with ctl_out_synced [OF cnt, of c "ucast a" v] show ?thesis by (simp add: idle_synced)
    qed
    with Out Some show ?thesis by simp
  qed (use Out assms in simp)
qed

lemma guest_run_synced: "synced ctrl m \<Longrightarrow> synced ctrl (fold (guest_step ops) gs m)"
  by (induction gs arbitrary: m) (simp_all add: guest_step_synced)

text \<open>On a synced machine nothing a controller asks for is refused or made up.\<close>

lemma read_served:
  assumes "synced ctrl m" "present (bm_controllers m ! ctrl) d" "off + len \<le> medium"
  obtains im where "disk_at m d = Some im" "off + len \<le> length (im_bytes im)"
    "fetch_range m d off len = take len (drop off (im_bytes im))"
proof -
  obtain im where "disk_at m d = Some im" "medium \<le> length (im_bytes im)"
    using synced_disk [OF assms(1,2)] by metis
  with assms(3) show thesis by (intro that [of im]) (simp_all add: fetch_range_def get_range_def)
qed

lemma write_served:
  assumes "synced ctrl m" "writable (bm_controllers m ! ctrl) d" "off + len \<le> medium" "length buf = len"
  obtains im where "disk_at m d = Some im" "\<not> im_read_only im" "off + len \<le> length (im_bytes im)"
    "store_range d off len buf m = set_disk m d (im\<lparr>im_bytes := put_range (im_bytes im) off buf, im_dirty := True\<rparr>)"
proof -
  have "present (bm_controllers m ! ctrl) d" using assms(1,2) writable_present by (simp add: synced_def)
  with assms(1) obtain im where "disk_at m d = Some im" "medium \<le> length (im_bytes im)" "im_read_only im = (\<not> writable (bm_controllers m ! ctrl) d)"
    by (rule synced_disk)
  with assms show thesis by (intro that [of im]) (simp_all add: store_range_def)
qed

lemma insert_synced:
  assumes "synced 0 m" "quiet c" "bm_controllers m = [c]" "length (bm_disks m) = 16"
    and "bm_insert ops m d bs ro = Inr m'"
  obtains c' where "synced 0 m'" "quiet c'" "bm_controllers m' = [c']" "length (bm_disks m') = 16"
    "present c' = (present c)(d := True)" "writable c' = (writable c)(d := \<not> ro)"
proof -
  from assms(3,5) obtain c' where c': "ctl_insert ops c d (length bs) ro = Inr c'"
    and m': "m' = m\<lparr>bm_controllers := [c'], bm_disk_controller := (bm_disk_controller m)[unat d := Some 0],
        bm_disks := (bm_disks m)[unat d := Some \<lparr>im_bytes = bs, im_read_only = ro, im_dirty = False\<rparr>]\<rparr>"
    by (auto simp: bm_insert_def split: if_splits sum.splits)
  have inv: "inv c" using assms(1,3) by (simp add: synced_def)
  note law = insert_law [OF inv assms(2) c']
  have at: "disk_at m' e = (if e = d then Some \<lparr>im_bytes = bs, im_read_only = ro, im_dirty = False\<rparr> else disk_at m e)" for e
    using law assms(4) by (auto simp: m' disk_at_def word_unat_eq_iff)
  have "\<exists>im. disk_at m' e = Some im \<and> medium \<le> length (im_bytes im) \<and> im_read_only im = (\<not> writable c' e)" if "present c' e" for e
  proof (cases "e = d")
    case False
    with that law have "present (bm_controllers m ! 0) e" using assms(3) by simp
    with assms(1) obtain im where "disk_at m e = Some im" "medium \<le> length (im_bytes im)" "im_read_only im = (\<not> writable (bm_controllers m ! 0) e)"
      by (rule synced_disk)
    with False law show ?thesis using assms(3) by (simp add: at)
  qed (use law in \<open>simp add: at\<close>)
  with law have "synced 0 m'" by (simp add: synced_def m')
  with law show thesis by (intro that [of c']) (simp_all add: m' assms(4))
qed

lemma insert_all_synced:
  assumes "insert_all ops ds m = Inr m'" "synced 0 m" "bm_controllers m = [c]" "quiet c" "length (bm_disks m) = 16"
  shows "synced 0 m' \<and> length (bm_disks m') = 16"
  using assms
proof (induction ds arbitrary: m c)
  case (Cons d ds)
  obtain drive bs ro where d: "d = (drive, bs, ro)" by (cases d)
  with Cons.prems(1) obtain m1 where 1: "bm_insert ops m drive bs ro = Inr m1" "insert_all ops ds m1 = Inr m'"
    by (auto split: sum.splits)
  from Cons.prems(2,4,3,5) 1(1) obtain c' where "synced 0 m1" "quiet c'" "bm_controllers m1 = [c']" "length (bm_disks m1) = 16"
    by (rule insert_synced)
  with Cons.IH [OF 1(2)] show ?case by blast
qed simp

lemma request_ok_mono:
  "request_ok ops medium pres wr c req \<Longrightarrow> (\<And>d. pres d \<Longrightarrow> pres' d) \<Longrightarrow> (\<And>d. wr d \<Longrightarrow> wr' d) \<Longrightarrow>
    request_ok ops medium pres' wr' c req"
  by (auto simp: request_ok_def split: HostRequest.splits if_splits)

lemma synced_serviceable:
  assumes "synced ctrl m" "request_ok ops medium (present (bm_controllers m ! ctrl)) (writable (bm_controllers m ! ctrl)) c req"
  shows "serviceable ops medium m c req"
  unfolding serviceable_def
proof (rule request_ok_mono [OF assms(2)])
  fix d
  show "present (bm_controllers m ! ctrl) d \<Longrightarrow> \<exists>im. disk_at m d = Some im \<and> medium \<le> length (im_bytes im)"
    using assms(1) by (auto simp: synced_def)
  show "writable (bm_controllers m ! ctrl) d \<Longrightarrow>
      \<exists>im. disk_at m d = Some im \<and> medium \<le> length (im_bytes im) \<and> \<not> im_read_only im"
  proof -
    assume w: "writable (bm_controllers m ! ctrl) d"
    with assms(1) writable_present have "present (bm_controllers m ! ctrl) d" by (simp add: synced_def)
    with w synced_disk [OF assms(1)] show ?thesis by metis
  qed
qed

end

end
