(* ===== verification/Cpm_Tarbell.thy ===== *)
theory Cpm_Tarbell
  imports Cpm_Wd1771 Cpm_Machine
begin

text \<open>
  The Tarbell 1011 floppy board (\<^verbatim>\<open>src/src/cpm/tarbell.rs\<close>): the FD1771 behind five ports, the drive latch
  and the WAIT port, as one provider of the controller interface. The board discharges the contract
  of a disk controller, and the properties of guests on a Tarbell machine rest on that contract.
\<close>

section \<open>The board\<close>

definition TRACKS :: byte where "TRACKS = 77"
definition IMAGE_LEN :: nat where "IMAGE_LEN = unat TRACKS * SECTORS_PER_TRACK * SECTOR_LEN"
definition DRIVES :: nat where "DRIVES = 4"
definition PORT_WAIT :: byte where "PORT_WAIT = 0xFC"
definition FN_LATCH :: byte where "FN_LATCH = 2"
definition LATCH_DRIVE :: byte where "LATCH_DRIVE = 0x10"
definition SELECTABLE :: byte where "SELECTABLE = 2"

record Drive =
  dr_present :: bool
  dr_read_only :: bool

record Tarbell =
  tb_chip :: Wd1771
  tb_drives :: "Drive list"
  tb_selected :: byte
  tb_latch :: byte
  tb_pending :: byte
  tb_in_flight :: "byte option"
  tb_idle_waits :: nat

definition new_Tarbell :: Tarbell where
  "new_Tarbell = \<lparr>tb_chip = new_Wd1771, tb_drives = replicate DRIVES \<lparr>dr_present = False, dr_read_only = True\<rparr>,
     tb_selected = 0, tb_latch = 0, tb_pending = 0, tb_in_flight = None, tb_idle_waits = 0\<rparr>"

definition tb_offset :: "byte \<Rightarrow> byte \<Rightarrow> nat option" where
  "tb_offset track sector =
     (if track \<ge> TRACKS \<or> sector = 0 \<or> unat sector > SECTORS_PER_TRACK then None
      else let index = unat track * SECTORS_PER_TRACK + unat (sector - 1) in Some (index * SECTOR_LEN))"

definition refresh_drive :: "Tarbell \<Rightarrow> Tarbell" where
  "refresh_drive t =
     (let d = tb_drives t ! (unat (tb_selected t) mod DRIVES)
      in t\<lparr>tb_chip := set_drive (dr_present d) (dr_read_only d) TRACKS (tb_chip t)\<rparr>)"

definition serve :: "Need \<Rightarrow> bool \<Rightarrow> Tarbell \<Rightarrow> HostRequest \<times> Tarbell" where
  "serve need ahead t0 =
     (let drive = (case tb_in_flight t0 of Some d \<Rightarrow> d | None \<Rightarrow> tb_selected t0);
          t = (if \<not> wd_busy (tb_chip t0) then t0\<lparr>tb_in_flight := None\<rparr> else t0);
          failed = t\<lparr>tb_chip := record_not_found (tb_chip t)\<rparr>
      in case need of
           NeedNone \<Rightarrow> (NoRequest, t)
         | NeedRead track sector \<Rightarrow>
             (case tb_offset track sector of
                Some off \<Rightarrow> ((if ahead then ReadAhead drive off SECTOR_LEN else ReadReq drive off SECTOR_LEN), t\<lparr>tb_pending := drive\<rparr>)
              | None \<Rightarrow> (NoRequest, failed))
         | NeedWrite track sector \<Rightarrow>
             (case tb_offset track sector of
                Some off \<Rightarrow> (WriteReq drive off SECTOR_LEN, t\<lparr>tb_pending := drive\<rparr>)
              | None \<Rightarrow> (NoRequest, failed)))"

definition wait_port :: "Tarbell \<Rightarrow> byte \<times> Tarbell" where
  "wait_port t =
     (if wd_drq (tb_chip t) then (0x80, t\<lparr>tb_idle_waits := 0\<rparr>)
      else if wd_intrq (tb_chip t) then (0, t\<lparr>tb_idle_waits := 0\<rparr>)
      else (0, t\<lparr>tb_idle_waits := saturating_inc (tb_idle_waits t)\<rparr>))"

definition tb_owns_port :: "Tarbell \<Rightarrow> byte \<Rightarrow> bool" where
  "tb_owns_port t port \<longleftrightarrow> 0xF8 \<le> port \<and> port \<le> 0xFC"

definition tb_port_in :: "Tarbell \<Rightarrow> byte \<Rightarrow> byte \<times> HostRequest \<times> Tarbell" where
  "tb_port_in t port =
     (if port = PORT_WAIT then (case wait_port t of (v, t') \<Rightarrow> (v, NoRequest, t'))
      else case wd_read (port AND 3) (tb_chip t) of
        (v, need, c) \<Rightarrow> (v, serve need True (t\<lparr>tb_chip := c\<rparr>)))"

definition tb_port_out :: "Tarbell \<Rightarrow> byte \<Rightarrow> byte \<Rightarrow> HostRequest \<times> Tarbell" where
  "tb_port_out t port v =
     (if port = PORT_WAIT
      then (NoRequest,
            if v AND 7 = FN_LATCH
            then refresh_drive (t\<lparr>tb_latch := v AND 0xF0, tb_selected := (if v AND LATCH_DRIVE = 0 then 1 else 0)\<rparr>)
            else t)
      else let t1 = (if port AND 3 = 0 then refresh_drive t else t)
           in case wd_write (port AND 3) v (tb_chip t1) of
                (need, c) \<Rightarrow>
                  let t2 = t1\<lparr>tb_chip := c\<rparr>;
                      t3 = (if port AND 3 = 0 then t2\<lparr>tb_in_flight := (if wd_busy c then Some (tb_selected t2) else None)\<rparr> else t2)
                  in serve need False t3)"

definition tb_media :: "Tarbell \<Rightarrow> Medium list" where
  "tb_media t = [\<lparr>med_bytes = IMAGE_LEN, med_label = str_of ''Tarbell 1011 8'' @ [0x22] @ str_of '' floppy'',
     med_trailer = SECTOR_LEN - 1, med_shape = str_of ''77 tracks x 26 sectors x 128''\<rparr>]"

definition tb_insert :: "Tarbell \<Rightarrow> byte \<Rightarrow> nat \<Rightarrow> bool \<Rightarrow> str + Tarbell" where
  "tb_insert t drive image_len read_only =
     (if media_accept (tb_media t) image_len = None then Inl (dec_string image_len @ str_of '' bytes is not a Tarbell image'')
      else if drive \<ge> SELECTABLE
      then Inl (str_of ''the Tarbell board selects drives 0 and 1 only; drive '' @ dec_string (unat drive) @
                str_of '' can never be reached'')
      else let t1 = t\<lparr>tb_drives := (tb_drives t)[unat drive := \<lparr>dr_present = True, dr_read_only = read_only\<rparr>]\<rparr>
           in Inr (if drive = tb_selected t1 then refresh_drive t1 else t1))"

definition tb_buffer_loaded :: "Tarbell \<Rightarrow> byte \<Rightarrow> byte list \<Rightarrow> Tarbell" where
  "tb_buffer_loaded t drive bs = t\<lparr>tb_chip := sector_loaded bs (tb_chip t)\<rparr>"

definition tb_buffer :: "Tarbell \<Rightarrow> byte \<Rightarrow> byte list option" where
  "tb_buffer t drive = Some (sector_out (tb_chip t))"

definition tb_cold_start :: "Tarbell \<Rightarrow> byte list \<Rightarrow> ColdStart" where
  "tb_cold_start t img =
     (if length img < SECTOR_LEN then NoProgram
      else if \<not> looks_bootable (take SECTOR_LEN img) then NoProgram
      else Program 0 SECTOR_LEN 0 0x7D)"

definition tb_cold_started :: "Tarbell \<Rightarrow> byte \<Rightarrow> Tarbell" where
  "tb_cold_started t drive =
     (let t1 = refresh_drive (t\<lparr>tb_selected := min drive (word_of_nat DRIVES - 1)\<rparr>)
      in t1\<lparr>tb_chip := assume_read_completed 0 1 (tb_chip t1)\<rparr>)"

definition tb_stuck_polls :: "Tarbell \<Rightarrow> nat" where
  "tb_stuck_polls t = max (tb_idle_waits t) (wd_idle_polls (tb_chip t))"

definition tarbell :: "Tarbell Controller" where
  "tarbell = \<lparr>ctl_name = \<lambda>t. str_of ''Tarbell 1011 floppy'', ctl_owns_port = tb_owns_port,
     ctl_port_in = tb_port_in, ctl_port_out = tb_port_out, ctl_slots = \<lambda>t. SELECTABLE, ctl_media = tb_media,
     ctl_insert = tb_insert, ctl_buffer_loaded = tb_buffer_loaded, ctl_buffer = tb_buffer,
     ctl_cold_start = tb_cold_start, ctl_cold_started = tb_cold_started, ctl_finish_writes = \<lambda>t. ([], t),
     ctl_stuck_polls = tb_stuck_polls\<rparr>"


section \<open>The contract\<close>

definition tb_present :: "Tarbell \<Rightarrow> byte \<Rightarrow> bool" where
  "tb_present t d \<longleftrightarrow> unat d < DRIVES \<and> dr_present (tb_drives t ! unat d)"

definition tb_writable :: "Tarbell \<Rightarrow> byte \<Rightarrow> bool" where
  "tb_writable t d \<longleftrightarrow> tb_present t d \<and> \<not> dr_read_only (tb_drives t ! unat d)"

text \<open>The board in order: an 8-inch single-density chip, and a transfer in flight holds the drive it was
  started on, a write one that may be written.\<close>

definition tb_ok :: "Tarbell \<Rightarrow> bool" where
  "tb_ok t \<longleftrightarrow> chip_ok (tb_chip t) \<and> wd_sector_len (tb_chip t) = SECTOR_LEN \<and>
     wd_sectors_per_track (tb_chip t) = SECTORS_PER_TRACK \<and> length (tb_drives t) = DRIVES \<and>
     unat (tb_selected t) < DRIVES \<and>
     (wd_busy (tb_chip t) \<longrightarrow> (\<exists>d. tb_in_flight t = Some d \<and> tb_present t d)) \<and>
     (wd_moving (tb_chip t) = Writing \<longrightarrow> (\<exists>d. tb_in_flight t = Some d \<and> tb_writable t d))"

definition tb_quiet :: "Tarbell \<Rightarrow> bool" where
  "tb_quiet t \<longleftrightarrow> wd_moving (tb_chip t) \<noteq> Writing"

definition need_ok :: "Need \<Rightarrow> Tarbell \<Rightarrow> bool" where
  "need_ok need t \<longleftrightarrow> (case need of NeedNone \<Rightarrow> True | NeedRead _ _ \<Rightarrow> awaiting (tb_chip t)
     | NeedWrite _ _ \<Rightarrow> (\<exists>d. tb_in_flight t = Some d \<and> tb_writable t d))"

lemma tb_drives_only:
  "tb_drives t' = tb_drives t \<Longrightarrow> tb_present t' = tb_present t \<and> tb_writable t' = tb_writable t"
  by (simp add: fun_eq_iff tb_present_def tb_writable_def)

lemma tb_updates [simp]:
  "tb_present (t\<lparr>tb_chip := c\<rparr>) = tb_present t" "tb_writable (t\<lparr>tb_chip := c\<rparr>) = tb_writable t"
  "tb_present (t\<lparr>tb_in_flight := f\<rparr>) = tb_present t" "tb_writable (t\<lparr>tb_in_flight := f\<rparr>) = tb_writable t"
  "tb_present (t\<lparr>tb_pending := p\<rparr>) = tb_present t" "tb_writable (t\<lparr>tb_pending := p\<rparr>) = tb_writable t"
  "tb_present (t\<lparr>tb_idle_waits := n\<rparr>) = tb_present t" "tb_writable (t\<lparr>tb_idle_waits := n\<rparr>) = tb_writable t"
  by (simp_all add: fun_eq_iff tb_present_def tb_writable_def)

lemma tb_offset_bound:
  assumes "tb_offset track sector = Some off"
  shows "off + SECTOR_LEN \<le> IMAGE_LEN" "off = (unat track * 26 + unat (sector - 1)) * 128"
proof -
  have t: "unat track < 77" and s: "sector \<noteq> 0" "unat sector \<le> 26" and off: "off = (unat track * 26 + unat (sector - 1)) * 128"
    using assms by (auto simp: tb_offset_def TRACKS_def SECTORS_PER_TRACK_def SECTOR_LEN_def Let_def word_le_nat_alt split: if_splits)
  have "unat (sector - 1) = unat sector - 1" using s(1) by (simp add: unat_minus_one)
  with t s off show "off + SECTOR_LEN \<le> IMAGE_LEN" by (simp add: IMAGE_LEN_def TRACKS_def SECTORS_PER_TRACK_def SECTOR_LEN_def)
  show "off = (unat track * 26 + unat (sector - 1)) * 128" by (rule off)
qed

text \<open>Only the chip, the held drive and the bookkeeping differ between two boards.\<close>

lemma tb_okI:
  assumes "tb_ok t" "chip_ok c" "same_format (tb_chip t) c" "tb_drives t' = tb_drives t" "unat (tb_selected t') < DRIVES"
    "tb_chip t' = c"
    "wd_busy c \<longrightarrow> (\<exists>d. tb_in_flight t' = Some d \<and> tb_present t d)"
    "wd_moving c = Writing \<longrightarrow> (\<exists>d. tb_in_flight t' = Some d \<and> tb_writable t d)"
  shows "tb_ok t'"
  using assms tb_drives_only [of t' t] by (auto simp: tb_ok_def same_format_def)

lemma serve_cases:
  assumes "serve need ahead t = (req, t')"
  obtains (none) "req = NoRequest" "need = NeedNone" "tb_chip t' = tb_chip t" "tb_drives t' = tb_drives t"
      "tb_selected t' = tb_selected t" "tb_in_flight t' = (if wd_busy (tb_chip t) then tb_in_flight t else None)"
  | (failed) "req = NoRequest" "tb_chip t' = record_not_found (tb_chip t)" "tb_drives t' = tb_drives t"
      "tb_selected t' = tb_selected t"
  | (fetch) track sector d off where "req = ReadReq d off SECTOR_LEN \<or> req = ReadAhead d off SECTOR_LEN" "need = NeedRead track sector"
      "tb_offset track sector = Some off" "d = (case tb_in_flight t of Some d \<Rightarrow> d | None \<Rightarrow> tb_selected t)"
      "tb_chip t' = tb_chip t" "tb_drives t' = tb_drives t" "tb_selected t' = tb_selected t"
      "tb_in_flight t' = (if wd_busy (tb_chip t) then tb_in_flight t else None)"
  | (wrote) track sector d off where "req = WriteReq d off SECTOR_LEN" "need = NeedWrite track sector"
      "tb_offset track sector = Some off" "d = (case tb_in_flight t of Some d \<Rightarrow> d | None \<Rightarrow> tb_selected t)"
      "tb_chip t' = tb_chip t" "tb_drives t' = tb_drives t" "tb_selected t' = tb_selected t"
      "tb_in_flight t' = (if wd_busy (tb_chip t) then tb_in_flight t else None)"
proof (cases need)
  case NeedNone
  with assms show thesis by (intro none) (auto simp: serve_def Let_def)
next
  case (NeedRead track sector)
  show thesis
  proof (cases "tb_offset track sector")
    case None
    with assms NeedRead show thesis by (intro failed) (auto simp: serve_def Let_def)
  next
    case (Some off)
    show thesis
      by (rule fetch [OF _ NeedRead Some]) (use assms NeedRead Some in \<open>auto simp: serve_def Let_def split: if_splits\<close>)
  qed
next
  case (NeedWrite track sector)
  show thesis
  proof (cases "tb_offset track sector")
    case None
    with assms NeedWrite show thesis by (intro failed) (auto simp: serve_def Let_def)
  next
    case (Some off)
    show thesis
      by (rule wrote [OF _ NeedWrite Some]) (use assms NeedWrite Some in \<open>auto simp: serve_def Let_def split: if_splits\<close>)
  qed
qed

lemma buffer_length: "tb_ok t \<Longrightarrow> tb_chip t' = tb_chip t \<Longrightarrow> map_option length (tb_buffer t' d) = Some SECTOR_LEN"
  by (auto simp: tb_ok_def chip_ok_def tb_buffer_def sector_out_def SECTOR_LEN_def MAX_SECTOR_LEN_def)

lemma serve_ok:
  assumes ok: "tb_ok t" and need: "need_ok need t" and serve: "serve need ahead t = (req, t')"
  shows "request_ok tarbell IMAGE_LEN (tb_present t) (tb_writable t) t' req \<and>
    tb_ok (served tarbell req bytes t') \<and> tb_drives (served tarbell req bytes t') = tb_drives t"
  using serve
proof (cases rule: serve_cases)
  case none
  with ok have "tb_ok t'" by (intro tb_okI [OF ok]) (auto simp: tb_ok_def chip_ok_def)
  with none show ?thesis by (simp add: request_ok_def served_def)
next
  case failed
  with ok record_not_found_ok [of "tb_chip t"] have "tb_ok t'"
    by (intro tb_okI [OF ok, of "record_not_found (tb_chip t)"]) (auto simp: tb_ok_def)
  with failed show ?thesis by (simp add: request_ok_def served_def)
next
  case (fetch track sector d off)
  have aw: "awaiting (tb_chip t)" using need fetch(2) by (simp add: need_ok_def)
  then obtain e where e: "tb_in_flight t = Some e" "tb_present t e" using ok by (auto simp: awaiting_def tb_ok_def)
  have sv: "served tarbell req bytes t' = tb_buffer_loaded t' d (bytes SECTOR_LEN)"
    using fetch(1) by (auto simp: served_def tarbell_def)
  have "tb_ok (tb_buffer_loaded t' d (bytes SECTOR_LEN))"
  proof (rule tb_okI [OF ok])
    show "tb_chip (tb_buffer_loaded t' d (bytes SECTOR_LEN)) = sector_loaded (bytes SECTOR_LEN) (tb_chip t)"
      using fetch by (simp add: tb_buffer_loaded_def)
    show "wd_busy (sector_loaded (bytes SECTOR_LEN) (tb_chip t)) \<longrightarrow>
        (\<exists>d'. tb_in_flight (tb_buffer_loaded t' d (bytes SECTOR_LEN)) = Some d' \<and> tb_present t d')"
      using e aw fetch by (simp add: tb_buffer_loaded_def awaiting_def)
  qed (use ok fetch sector_loaded_ok [OF _ aw, of "bytes SECTOR_LEN"] in \<open>auto simp: tb_ok_def tb_buffer_loaded_def\<close>)
  with sv fetch e tb_offset_bound(1) [OF fetch(3)] show ?thesis
    by (auto simp: request_ok_def tb_buffer_loaded_def)
next
  case (wrote track sector d off)
  obtain e where e: "tb_in_flight t = Some e" "tb_writable t e" using need wrote(2) by (auto simp: need_ok_def)
  have "tb_ok t'" using ok wrote by (intro tb_okI [OF ok]) (auto simp: tb_ok_def chip_ok_def)
  with wrote e tb_offset_bound(1) [OF wrote(3)] buffer_length [OF ok wrote(5), of d] show ?thesis
    by (simp add: request_ok_def served_def tarbell_def)
qed

lemma wait_port_ok:
  "tb_ok t \<Longrightarrow> wait_port t = (v, t') \<Longrightarrow> tb_ok t' \<and> tb_drives t' = tb_drives t"
  by (auto simp: wait_port_def tb_ok_def split: if_splits)

lemma continues_ok:
  assumes "tb_ok t" "continues (tb_chip t) need c"
  shows "tb_ok (t\<lparr>tb_chip := c\<rparr>)" "need_ok need (t\<lparr>tb_chip := c\<rparr>)"
proof -
  show "tb_ok (t\<lparr>tb_chip := c\<rparr>)"
    using assms by (intro tb_okI [OF assms(1), of c]) (auto simp: continues_def tb_ok_def)
  show "need_ok need (t\<lparr>tb_chip := c\<rparr>)"
    using assms by (auto simp: need_ok_def continues_def tb_ok_def split: Need.split)
qed

lemma tb_port_in_ok:
  assumes "tb_ok t" "tb_port_in t p = (v, req, t')"
  shows "request_ok tarbell IMAGE_LEN (tb_present t) (tb_writable t) t' req \<and>
    tb_ok (served tarbell req bytes t') \<and> tb_drives (served tarbell req bytes t') = tb_drives t"
proof (cases "p = PORT_WAIT")
  case True
  with assms wait_port_ok [OF assms(1)] show ?thesis
    by (auto simp: tb_port_in_def request_ok_def served_def split: prod.splits)
next
  case False
  obtain v' need c where r: "wd_read (p AND 3) (tb_chip t) = (v', need, c)" by (cases "wd_read (p AND 3) (tb_chip t)")
  have "continues (tb_chip t) need c" using wd_read_continues [OF _ r] assms(1) by (simp add: tb_ok_def)
  note c = continues_ok [OF assms(1) this]
  have "serve need True (t\<lparr>tb_chip := c\<rparr>) = (req, t')" using assms(2) False r by (simp add: tb_port_in_def)
  from serve_ok [OF c this] show ?thesis by simp
qed

lemma refresh_drive_facts:
  assumes "tb_ok t"
  shows "tb_ok (refresh_drive t)" "tb_drives (refresh_drive t) = tb_drives t" "tb_selected (refresh_drive t) = tb_selected t"
    "wd_ready (tb_chip (refresh_drive t)) = tb_present t (tb_selected t)"
    "\<not> wd_read_only (tb_chip (refresh_drive t)) \<Longrightarrow> tb_present t (tb_selected t) \<Longrightarrow> tb_writable t (tb_selected t)"
proof -
  let ?t = "refresh_drive t"
  have d: "tb_drives ?t = tb_drives t" by (simp add: refresh_drive_def Let_def)
  have c: "chip_ok (tb_chip ?t) = chip_ok (tb_chip t)" "wd_sector_len (tb_chip ?t) = wd_sector_len (tb_chip t)"
    "wd_sectors_per_track (tb_chip ?t) = wd_sectors_per_track (tb_chip t)" "wd_busy (tb_chip ?t) = wd_busy (tb_chip t)"
    "wd_moving (tb_chip ?t) = wd_moving (tb_chip t)" "tb_selected ?t = tb_selected t" "tb_in_flight ?t = tb_in_flight t"
    by (simp_all add: refresh_drive_def Let_def set_drive_def chip_ok_def)
  have "tb_ok ?t = tb_ok t" unfolding tb_ok_def c d using tb_drives_only [OF d] by simp
  with assms show "tb_ok ?t" by simp
  show "wd_ready (tb_chip ?t) = tb_present t (tb_selected t)"
    using assms by (simp add: refresh_drive_def Let_def set_drive_def tb_present_def tb_ok_def)
  show "\<not> wd_read_only (tb_chip ?t) \<Longrightarrow> tb_present t (tb_selected t) \<Longrightarrow> tb_writable t (tb_selected t)"
    using assms by (simp add: refresh_drive_def Let_def set_drive_def tb_writable_def tb_ok_def)
qed (simp_all add: refresh_drive_def Let_def)

lemma tb_command_ok:
  assumes "tb_ok t" "wd_write r v (tb_chip (refresh_drive t)) = (need, c)" "r AND 3 = 0"
  defines "t3 \<equiv> (refresh_drive t)\<lparr>tb_chip := c, tb_in_flight := (if wd_busy c then Some (tb_selected t) else None)\<rparr>"
  shows "tb_ok t3" "need_ok need t3" "tb_drives t3 = tb_drives t"
proof -
  let ?t = "refresh_drive t"
  note f = refresh_drive_facts [OF assms(1)]
  have "chip_ok (tb_chip ?t)" using f(1) by (simp add: tb_ok_def)
  note w = wd_command [OF this assms(2,3)]
  have pw: "tb_present ?t = tb_present t" "tb_writable ?t = tb_writable t" using tb_drives_only [OF f(2)] by blast+
  show "tb_ok t3"
  proof (rule tb_okI [OF f(1)])
    show "wd_busy c \<longrightarrow> (\<exists>d. tb_in_flight t3 = Some d \<and> tb_present ?t d)"
      using w f(4) by (auto simp: t3_def pw)
    show "wd_moving c = Writing \<longrightarrow> (\<exists>d. tb_in_flight t3 = Some d \<and> tb_writable ?t d)"
      using w f(4,5) by (auto simp: t3_def pw chip_ok_def)
  qed (use w f assms(1) in \<open>auto simp: t3_def tb_ok_def\<close>)
  show "need_ok need t3" using w by (auto simp: need_ok_def t3_def split: Need.split)
  show "tb_drives t3 = tb_drives t" by (simp add: t3_def f)
qed

lemma latch_ok:
  assumes "tb_ok t" "unat s < DRIVES"
  shows "tb_ok (refresh_drive (t\<lparr>tb_latch := l, tb_selected := s\<rparr>))"
proof (rule refresh_drive_facts(1))
  show "tb_ok (t\<lparr>tb_latch := l, tb_selected := s\<rparr>)" using assms by (intro tb_okI [OF assms(1)]) (auto simp: tb_ok_def)
qed

lemma tb_port_out_ok:
  assumes "tb_ok t" "tb_port_out t p v = (req, t')"
  shows "request_ok tarbell IMAGE_LEN (tb_present t) (tb_writable t) t' req \<and>
    tb_ok (served tarbell req bytes t') \<and> tb_drives (served tarbell req bytes t') = tb_drives t"
proof -
  consider (latch) "p = PORT_WAIT" | (cmd) "p \<noteq> PORT_WAIT" "p AND 3 = 0" | (reg) "p \<noteq> PORT_WAIT" "p AND 3 \<noteq> 0" by blast
  then show ?thesis
  proof cases
    case latch
    have "unat (if v AND LATCH_DRIVE = 0 then 1 else 0 :: byte) < DRIVES" by (simp add: DRIVES_def)
    from latch_ok [OF assms(1) this, of "v AND 0xF0"] latch assms show ?thesis
      by (auto simp: tb_port_out_def request_ok_def served_def refresh_drive_def Let_def split: if_splits)
  next
    case cmd
    obtain need c where w: "wd_write (p AND 3) v (tb_chip (refresh_drive t)) = (need, c)" by force
    note k = tb_command_ok [OF assms(1) w]
    have "serve need False ((refresh_drive t)\<lparr>tb_chip := c, tb_in_flight := (if wd_busy c then Some (tb_selected t) else None)\<rparr>) = (req, t')"
      using assms(2) cmd w refresh_drive_facts(3) [OF assms(1)] by (cases "wd_busy c") (simp_all add: tb_port_out_def Let_def)
    from serve_ok [OF k(1,2) this] cmd k(3) refresh_drive_facts(2) [OF assms(1)] tb_drives_only [of "refresh_drive t" t]
    show ?thesis by simp
  next
    case reg
    obtain need c where w: "wd_write (p AND 3) v (tb_chip t) = (need, c)" by force
    have "continues (tb_chip t) need c" using wd_write_continues [OF _ w] assms(1) reg by (simp add: tb_ok_def)
    note c = continues_ok [OF assms(1) this]
    have "serve need False (t\<lparr>tb_chip := c\<rparr>) = (req, t')" using assms(2) reg w by (simp add: tb_port_out_def Let_def)
    from serve_ok [OF c this] show ?thesis by simp
  qed
qed

lemma tb_insert_ok:
  assumes "tb_ok t" "tb_quiet t" "tb_insert t d len ro = Inr t'"
  shows "tb_ok t' \<and> tb_quiet t' \<and> unat d < 16 \<and> IMAGE_LEN \<le> len \<and>
      tb_present t' = (tb_present t)(d := True) \<and> tb_writable t' = (tb_writable t)(d := \<not> ro)"
proof -
  define t1 where "t1 = t\<lparr>tb_drives := (tb_drives t)[unat d := \<lparr>dr_present = True, dr_read_only = ro\<rparr>]\<rparr>"
  have a: "IMAGE_LEN \<le> len" "d < 2" "t' = (if d = tb_selected t1 then refresh_drive t1 else t1)"
    using assms(3) by (auto simp: tb_insert_def media_accept_def tb_media_def SELECTABLE_def Let_def t1_def split: if_splits)
  have d: "unat d < DRIVES" using a(2) by (simp add: DRIVES_def word_less_nat_alt)
  have p: "tb_present t1 = (tb_present t)(d := True)" "tb_writable t1 = (tb_writable t)(d := \<not> ro)"
    using assms(1) d by (auto simp: fun_eq_iff t1_def tb_present_def tb_writable_def tb_ok_def nth_list_update word_unat_eq_iff)
  have ok1: "tb_ok t1" using assms(1,2) p by (auto simp: tb_ok_def t1_def tb_quiet_def)
  have t': "tb_ok t'" "tb_drives t' = tb_drives t1"
    using ok1 refresh_drive_facts(1,2) [OF ok1] by (auto simp: a(3))
  have "tb_quiet t'" using assms(2) by (auto simp: a(3) tb_quiet_def t1_def refresh_drive_def Let_def set_drive_def)
  with t' p a(1) d tb_drives_only [OF t'(2)] show ?thesis by (simp add: DRIVES_def)
qed

interpretation tb: disk_controller tarbell tb_ok tb_quiet IMAGE_LEN tb_present tb_writable
proof
  fix c p v req c' w len d ro and bytes :: "nat \<Rightarrow> byte list"
  assume ok: "tb_ok c"
  show "ctl_port_in tarbell c p = (v, req, c') \<Longrightarrow> request_ok tarbell IMAGE_LEN (tb_present c) (tb_writable c) c' req \<and>
      ((\<forall>n. length (bytes n) = n) \<longrightarrow> tb_ok (served tarbell req bytes c') \<and>
        tb_present (served tarbell req bytes c') = tb_present c \<and> tb_writable (served tarbell req bytes c') = tb_writable c)"
    using tb_port_in_ok [OF ok, of p v req c' bytes] tb_drives_only [of "served tarbell req bytes c'" c]
    by (simp add: tarbell_def [THEN arg_cong, of ctl_port_in])
  show "ctl_port_out tarbell c p w = (req, c') \<Longrightarrow> request_ok tarbell IMAGE_LEN (tb_present c) (tb_writable c) c' req \<and>
      ((\<forall>n. length (bytes n) = n) \<longrightarrow> tb_ok (served tarbell req bytes c') \<and>
        tb_present (served tarbell req bytes c') = tb_present c \<and> tb_writable (served tarbell req bytes c') = tb_writable c)"
    using tb_port_out_ok [OF ok, of p w req c' bytes] tb_drives_only [of "served tarbell req bytes c'" c]
    by (simp add: tarbell_def [THEN arg_cong, of ctl_port_out])
  show "tb_quiet c \<Longrightarrow> ctl_insert tarbell c d len ro = Inr c' \<Longrightarrow>
      tb_ok c' \<and> tb_quiet c' \<and> unat d < 16 \<and> IMAGE_LEN \<le> len \<and>
      tb_present c' = (tb_present c)(d := True) \<and> tb_writable c' = (tb_writable c)(d := \<not> ro)"
    using tb_insert_ok [OF ok] by (simp add: tarbell_def)
  show "tb_writable c d \<Longrightarrow> tb_present c d" by (simp add: tb_writable_def)
qed


section \<open>A sector through the data port\<close>

text \<open>The board while it collects the bytes of a sector to write, and while it delivers one.\<close>

definition collecting :: "byte \<Rightarrow> byte \<Rightarrow> byte \<Rightarrow> byte list \<Rightarrow> Tarbell \<Rightarrow> bool" where
  "collecting d track sector got t \<longleftrightarrow> tb_ok t \<and> tb_in_flight t = Some d \<and>
     (let c = tb_chip t in wd_busy c \<and> wd_moving c = Writing \<and> \<not> wd_multi c \<and> wd_track c = track \<and> wd_sector c = sector \<and>
        wd_xfer_len c = SECTOR_LEN \<and> wd_pos c = length got \<and> take (length got) (wd_buffer c) = got)"

definition delivering :: "byte list \<Rightarrow> Tarbell \<Rightarrow> bool" where
  "delivering rest t \<longleftrightarrow> tb_ok t \<and>
     (let c = tb_chip t in wd_moving c = Reading \<and> \<not> wd_multi c \<and> wd_xfer_len c = SECTOR_LEN \<and>
        wd_pos c + length rest = SECTOR_LEN \<and> drop (wd_pos c) (take SECTOR_LEN (wd_buffer c)) = rest)"

lemma port_low_bits:
  "(0xFB :: byte) AND 3 = 3" "(0xFA :: byte) AND 3 = 2" "(0xF9 :: byte) AND 3 = 1" "(0xF8 :: byte) AND 3 = 0"
  "(0xFB :: byte) \<noteq> PORT_WAIT" "(0xFA :: byte) \<noteq> PORT_WAIT" "(0xF9 :: byte) \<noteq> PORT_WAIT" "(0xF8 :: byte) \<noteq> PORT_WAIT"
  by (simp_all add: PORT_WAIT_def)

lemma served_none: "served tarbell NoRequest bytes t = t" "served tarbell (WriteReq d off n) bytes t = t"
  by (simp_all add: served_def)

lemma collecting_step:
  assumes "collecting d track sector got t" "length got < 127"
  shows "\<exists>t'. tb_port_out t 0xFB v = (NoRequest, t') \<and> collecting d track sector (got @ [v]) t' \<and>
    tb_selected t' = tb_selected t \<and> tb_drives t' = tb_drives t"
proof -
  let ?c = "tb_chip t"
  have c: "tb_ok t" "tb_in_flight t = Some d" "wd_busy ?c" "wd_moving ?c = Writing" "\<not> wd_multi ?c" "wd_track ?c = track"
    "wd_sector ?c = sector" "wd_xfer_len ?c = SECTOR_LEN" "wd_pos ?c = length got" "take (length got) (wd_buffer ?c) = got"
    using assms(1) by (simp_all add: collecting_def Let_def)
  have l: "length (wd_buffer ?c) = 512" using c(1) by (simp add: tb_ok_def chip_ok_def MAX_SECTOR_LEN_def)
  let ?c' = "?c\<lparr>wd_data := v, wd_buffer := (wd_buffer ?c)[length got := v], wd_pos := length got + 1, wd_idle_polls := 0, wd_drq := True\<rparr>"
  have w: "wd_write 3 v ?c = (NeedNone, ?c')"
    using c assms(2) by (simp add: wd_write_def Let_def SECTOR_LEN_def min_def)
  then have out: "tb_port_out t 0xFB v = (NoRequest, t\<lparr>tb_chip := ?c'\<rparr>)"
    using c(3) by (simp add: tb_port_out_def port_low_bits serve_def Let_def)
  have "tb_ok (t\<lparr>tb_chip := ?c'\<rparr>)" using tb_port_out_ok [OF c(1) out] by (simp add: served_none)
  moreover have "take (Suc (length got)) ((wd_buffer ?c)[length got := v]) = got @ [v]"
    using c(10) l assms(2) by (simp add: take_Suc_conv_app_nth)
  ultimately show ?thesis using out c by (simp add: collecting_def Let_def)
qed

lemma collecting_last:
  assumes "collecting d track sector got t" "length got = 127" "tb_offset track sector = Some off"
  shows "\<exists>t'. tb_port_out t 0xFB v = (WriteReq d off SECTOR_LEN, t') \<and> tb_buffer t' d = Some (got @ [v]) \<and>
    tb_ok t' \<and> tb_selected t' = tb_selected t \<and> tb_drives t' = tb_drives t"
proof -
  let ?c = "tb_chip t"
  have c: "tb_ok t" "tb_in_flight t = Some d" "wd_busy ?c" "wd_moving ?c = Writing" "\<not> wd_multi ?c" "wd_track ?c = track"
    "wd_sector ?c = sector" "wd_xfer_len ?c = SECTOR_LEN" "wd_pos ?c = length got" "take (length got) (wd_buffer ?c) = got"
    using assms(1) by (simp_all add: collecting_def Let_def)
  have l: "length (wd_buffer ?c) = 512" "wd_sector_len ?c = SECTOR_LEN"
    using c(1) by (simp_all add: tb_ok_def chip_ok_def MAX_SECTOR_LEN_def)
  let ?c' = "?c\<lparr>wd_data := v, wd_buffer := (wd_buffer ?c)[127 := v], wd_pos := 0, wd_idle_polls := 0, wd_drq := False,
    wd_moving := MoveNone, wd_busy := False, wd_intrq := True\<rparr>"
  have w: "wd_write 3 v ?c = (NeedWrite track sector, ?c')"
    using c assms(2) by (simp add: wd_write_def Let_def SECTOR_LEN_def wd_advance_record_def)
  then have out: "tb_port_out t 0xFB v = (WriteReq d off SECTOR_LEN, t\<lparr>tb_chip := ?c', tb_in_flight := None, tb_pending := d\<rparr>)"
    using c(2) assms(3) by (simp add: tb_port_out_def port_low_bits serve_def Let_def)
  have "tb_ok (t\<lparr>tb_chip := ?c', tb_in_flight := None, tb_pending := d\<rparr>)"
    using tb_port_out_ok [OF c(1) out] by (simp add: served_none)
  moreover have "take 128 ((wd_buffer ?c)[127 := v]) = got @ [v]"
    using c(10) l assms(2) take_Suc_conv_app_nth [of 127 "(wd_buffer ?c)[127 := v]"] by simp
  ultimately show ?thesis using out l by (simp add: tb_buffer_def sector_out_def SECTOR_LEN_def)
qed

lemma delivering_step:
  assumes "delivering (b # rest) t"
  shows "\<exists>t'. tb_port_in t 0xFB = (b, NoRequest, t') \<and> (rest \<noteq> [] \<longrightarrow> delivering rest t') \<and> tb_ok t' \<and>
    tb_selected t' = tb_selected t \<and> tb_drives t' = tb_drives t"
proof -
  let ?c = "tb_chip t"
  have c: "tb_ok t" "wd_moving ?c = Reading" "\<not> wd_multi ?c" "wd_xfer_len ?c = SECTOR_LEN"
    "wd_pos ?c + length (b # rest) = SECTOR_LEN" "drop (wd_pos ?c) (take SECTOR_LEN (wd_buffer ?c)) = b # rest"
    using assms by (simp_all add: delivering_def Let_def)
  have p: "wd_pos ?c < SECTOR_LEN" using c(5) by simp
  have l: "length (wd_buffer ?c) = 512" using c(1) by (simp add: tb_ok_def chip_ok_def MAX_SECTOR_LEN_def)
  have "drop (wd_pos ?c) (take SECTOR_LEN (wd_buffer ?c)) =
      take SECTOR_LEN (wd_buffer ?c) ! wd_pos ?c # drop (Suc (wd_pos ?c)) (take SECTOR_LEN (wd_buffer ?c))"
    using p l by (intro Cons_nth_drop_Suc [symmetric]) (simp add: SECTOR_LEN_def)
  with c(6) p have b: "wd_buffer ?c ! wd_pos ?c = b" and r: "drop (Suc (wd_pos ?c)) (take SECTOR_LEN (wd_buffer ?c)) = rest"
    by simp_all
  define c1 where "c1 = ?c\<lparr>wd_pos := wd_pos ?c + 1, wd_idle_polls := 0\<rparr>"
  define c2 where "c2 = (if rest = [] then c1\<lparr>wd_pos := 0, wd_drq := False, wd_moving := MoveNone, wd_busy := False, wd_intrq := True, wd_data := b\<rparr>
    else c1\<lparr>wd_drq := True, wd_data := b\<rparr>)"
  have "wd_pos ?c + 1 \<ge> SECTOR_LEN \<longleftrightarrow> rest = []" using c(5) by (cases rest) auto
  then have rd: "wd_read 3 ?c = (b, NeedNone, c2)"
    using c b p by (auto simp: wd_read_def Let_def c1_def c2_def wd_advance_record_def min_def SECTOR_LEN_def)
  define t' where "t' = (if \<not> wd_busy c2 then t\<lparr>tb_chip := c2, tb_in_flight := None\<rparr> else t\<lparr>tb_chip := c2\<rparr>)"
  have pi: "tb_port_in t 0xFB = (b, NoRequest, t')"
    using rd by (simp add: tb_port_in_def port_low_bits serve_def Let_def t'_def)
  have ok: "tb_ok t'" using tb_port_in_ok [OF c(1) pi] by (simp add: served_none)
  have t': "tb_chip t' = c2" "tb_selected t' = tb_selected t" "tb_drives t' = tb_drives t" by (simp_all add: t'_def)
  have "rest \<noteq> [] \<longrightarrow> delivering rest t'"
    using ok c(2-5) r by (auto simp: delivering_def Let_def t' c2_def c1_def)
  with pi ok t' show ?thesis by blast
qed

text \<open>The three register writes that start a transfer.\<close>

lemma set_register:
  assumes "tb_ok t"
  shows "\<exists>t'. tb_port_out t 0xF9 v = (NoRequest, t') \<and> tb_ok t' \<and> tb_selected t' = tb_selected t \<and> tb_drives t' = tb_drives t \<and>
      wd_track (tb_chip t') = v"
    and "\<exists>t'. tb_port_out t 0xFA v = (NoRequest, t') \<and> tb_ok t' \<and> tb_selected t' = tb_selected t \<and> tb_drives t' = tb_drives t \<and>
      wd_sector (tb_chip t') = v \<and> wd_track (tb_chip t') = wd_track (tb_chip t)"
proof -
  obtain t1 where 1: "tb_port_out t 0xF9 v = (NoRequest, t1)" "tb_selected t1 = tb_selected t" "tb_drives t1 = tb_drives t"
      "wd_track (tb_chip t1) = v"
    by (simp add: tb_port_out_def port_low_bits wd_write_def serve_def Let_def)
  moreover have "tb_ok t1" using tb_port_out_ok [OF assms 1(1)] by (simp add: served_none)
  ultimately show "\<exists>t'. tb_port_out t 0xF9 v = (NoRequest, t') \<and> tb_ok t' \<and> tb_selected t' = tb_selected t \<and> tb_drives t' = tb_drives t \<and>
      wd_track (tb_chip t') = v" by blast
  obtain t2 where 2: "tb_port_out t 0xFA v = (NoRequest, t2)" "tb_selected t2 = tb_selected t" "tb_drives t2 = tb_drives t"
      "wd_sector (tb_chip t2) = v" "wd_track (tb_chip t2) = wd_track (tb_chip t)"
    by (simp add: tb_port_out_def port_low_bits wd_write_def serve_def Let_def)
  moreover have "tb_ok t2" using tb_port_out_ok [OF assms 2(1)] by (simp add: served_none)
  ultimately show "\<exists>t'. tb_port_out t 0xFA v = (NoRequest, t') \<and> tb_ok t' \<and> tb_selected t' = tb_selected t \<and> tb_drives t' = tb_drives t \<and>
      wd_sector (tb_chip t') = v \<and> wd_track (tb_chip t') = wd_track (tb_chip t)" by blast
qed

lemma kinds: "kind_of 0xA8 = Two" "kind_of 0x88 = Two"
  by code_simp+

lemma refreshed_chip:
  assumes "tb_ok t"
  shows "wd_track (tb_chip (refresh_drive t)) = wd_track (tb_chip t)" "wd_sector (tb_chip (refresh_drive t)) = wd_sector (tb_chip t)"
    "tb_writable t (tb_selected t) \<Longrightarrow> \<not> wd_read_only (tb_chip (refresh_drive t))"
    "wd_sector_len (tb_chip (refresh_drive t)) = SECTOR_LEN" "wd_sectors_per_track (tb_chip (refresh_drive t)) = SECTORS_PER_TRACK"
  using assms by (simp_all add: refresh_drive_def Let_def set_drive_def tb_writable_def tb_present_def tb_ok_def)

lemma offset_sector: "tb_offset track sector = Some off \<Longrightarrow> sector \<noteq> 0 \<and> unat sector \<le> SECTORS_PER_TRACK"
  by (auto simp: tb_offset_def split: if_splits)

lemma start_write:
  assumes "tb_ok t" "tb_writable t (tb_selected t)" "tb_offset (wd_track (tb_chip t)) (wd_sector (tb_chip t)) = Some off"
  shows "\<exists>t'. tb_port_out t 0xF8 0xA8 = (NoRequest, t') \<and>
    collecting (tb_selected t) (wd_track (tb_chip t)) (wd_sector (tb_chip t)) [] t' \<and>
    tb_selected t' = tb_selected t \<and> tb_drives t' = tb_drives t"
proof -
  define r where "r = refresh_drive t"
  note f = refresh_drive_facts [OF assms(1), folded r_def] and g = refreshed_chip [OF assms(1), folded r_def]
  have rdy: "wd_ready (tb_chip r)" using f(4) assms(2) by (simp add: tb_writable_def)
  obtain c where w: "wd_write 0 0xA8 (tb_chip r) = (NeedNone, c)"
    and c: "wd_busy c" "wd_moving c = Writing" "\<not> wd_multi c" "wd_track c = wd_track (tb_chip t)" "wd_sector c = wd_sector (tb_chip t)"
      "wd_xfer_len c = SECTOR_LEN" "wd_pos c = 0"
    using g(3) [OF assms(2)] rdy g(1,2,4,5) offset_sector [OF assms(3)]
    by (simp add: wd_write_def command_def kinds command_two_def Let_def)
  have out: "tb_port_out t 0xF8 0xA8 = (NoRequest, r\<lparr>tb_chip := c, tb_in_flight := Some (tb_selected t)\<rparr>)"
    using w c(1) f(3) by (simp add: tb_port_out_def port_low_bits serve_def Let_def r_def [symmetric])
  have "tb_ok (r\<lparr>tb_chip := c, tb_in_flight := Some (tb_selected t)\<rparr>)"
    using tb_port_out_ok [OF assms(1) out] by (simp add: served_none)
  with out c f(2,3) show ?thesis by (simp add: collecting_def Let_def)
qed

lemma start_read:
  assumes "tb_ok t" "tb_present t (tb_selected t)" "tb_offset (wd_track (tb_chip t)) (wd_sector (tb_chip t)) = Some off"
    and "length bs = SECTOR_LEN"
  shows "\<exists>t'. tb_port_out t 0xF8 0x88 = (ReadReq (tb_selected t) off SECTOR_LEN, t') \<and>
    delivering bs (tb_buffer_loaded t' (tb_selected t) bs) \<and>
    tb_selected t' = tb_selected t \<and> tb_drives t' = tb_drives t"
proof -
  define r where "r = refresh_drive t"
  note f = refresh_drive_facts [OF assms(1), folded r_def] and g = refreshed_chip [OF assms(1), folded r_def]
  have rdy: "wd_ready (tb_chip r)" using f(4) assms(2) by simp
  obtain c where w: "wd_write 0 0x88 (tb_chip r) = (NeedRead (wd_track (tb_chip t)) (wd_sector (tb_chip t)), c)"
    and c: "wd_busy c" "\<not> wd_multi c" "wd_sector_len c = SECTOR_LEN"
    using rdy g(1,2,4,5) offset_sector [OF assms(3)]
    by (simp add: wd_write_def command_def kinds command_two_def Let_def)
  define t' where "t' = r\<lparr>tb_chip := c, tb_in_flight := Some (tb_selected t), tb_pending := tb_selected t\<rparr>"
  have out: "tb_port_out t 0xF8 0x88 = (ReadReq (tb_selected t) off SECTOR_LEN, t')"
    using w c(1) f(3) assms(3) by (simp add: tb_port_out_def port_low_bits serve_def Let_def r_def [symmetric] t'_def)
  have "tb_ok (tb_buffer_loaded t' (tb_selected t) bs)"
    using tb_port_out_ok [OF assms(1) out, of "\<lambda>_. bs"] by (simp add: served_def tarbell_def)
  then have "delivering bs (tb_buffer_loaded t' (tb_selected t) bs)"
    using c assms(4) by (simp add: delivering_def Let_def tb_buffer_loaded_def sector_loaded_def t'_def)
  with out f(2,3) show ?thesis by (simp add: t'_def)
qed


section \<open>Sectors of a mounted disk\<close>

text \<open>What a driver does: select track and sector, give the command, and clock the bytes.\<close>

definition start_transfer :: "nat \<Rightarrow> byte \<Rightarrow> byte \<Rightarrow> byte \<Rightarrow> Tarbell BootMachine \<Rightarrow> Tarbell BootMachine" where
  "start_transfer ctrl track sector cmd m =
     ctl_out tarbell ctrl 0xF8 cmd (ctl_out tarbell ctrl 0xFA sector (ctl_out tarbell ctrl 0xF9 track m))"

definition write_sector :: "nat \<Rightarrow> byte \<Rightarrow> byte \<Rightarrow> byte list \<Rightarrow> Tarbell BootMachine \<Rightarrow> Tarbell BootMachine" where
  "write_sector ctrl track sector data m = fold (ctl_out tarbell ctrl 0xFB) data (start_transfer ctrl track sector 0xA8 m)"

fun clock_in :: "nat \<Rightarrow> nat \<Rightarrow> Tarbell BootMachine \<Rightarrow> byte list \<times> Tarbell BootMachine" where
  "clock_in ctrl 0 m = ([], m)"
| "clock_in ctrl (Suc n) m =
     (case ctl_in tarbell ctrl 0xFB m of (v, _, m1) \<Rightarrow> (case clock_in ctrl n m1 of (vs, m2) \<Rightarrow> (v # vs, m2)))"

definition read_sector :: "nat \<Rightarrow> byte \<Rightarrow> byte \<Rightarrow> Tarbell BootMachine \<Rightarrow> byte list \<times> Tarbell BootMachine" where
  "read_sector ctrl track sector m = clock_in ctrl SECTOR_LEN (start_transfer ctrl track sector 0x88 m)"

lemma ctl_out_quiet:
  "tb_port_out (bm_controllers m ! i) p v = (NoRequest, t') \<Longrightarrow>
    ctl_out tarbell i p v m = m\<lparr>bm_controllers := (bm_controllers m)[i := t']\<rparr>"
  by (simp add: ctl_out_def tarbell_def service_def)

lemma registers_set:
  assumes "i < length (bm_controllers m)" "tb_ok (bm_controllers m ! i)"
  shows "\<exists>t. ctl_out tarbell i 0xFA sector (ctl_out tarbell i 0xF9 track m) = m\<lparr>bm_controllers := (bm_controllers m)[i := t]\<rparr> \<and>
    tb_ok t \<and> tb_selected t = tb_selected (bm_controllers m ! i) \<and> tb_drives t = tb_drives (bm_controllers m ! i) \<and>
    wd_track (tb_chip t) = track \<and> wd_sector (tb_chip t) = sector"
proof -
  obtain t1 where 1: "tb_port_out (bm_controllers m ! i) 0xF9 track = (NoRequest, t1)" "tb_ok t1"
      "tb_selected t1 = tb_selected (bm_controllers m ! i)" "tb_drives t1 = tb_drives (bm_controllers m ! i)" "wd_track (tb_chip t1) = track"
    using set_register(1) [OF assms(2)] by blast
  obtain t2 where 2: "tb_port_out t1 0xFA sector = (NoRequest, t2)" "tb_ok t2"
      "tb_selected t2 = tb_selected t1" "tb_drives t2 = tb_drives t1" "wd_sector (tb_chip t2) = sector" "wd_track (tb_chip t2) = wd_track (tb_chip t1)"
    using set_register(2) [OF 1(2)] by blast
  have "ctl_out tarbell i 0xFA sector (ctl_out tarbell i 0xF9 track m) = m\<lparr>bm_controllers := (bm_controllers m)[i := t2]\<rparr>"
    using ctl_out_quiet [OF 1(1)] ctl_out_quiet [of "m\<lparr>bm_controllers := (bm_controllers m)[i := t1]\<rparr>" i "0xFA" sector t2] 2(1) assms(1) by simp
  with 1 2 show ?thesis by auto
qed

lemma collect_bytes:
  assumes "i < length (bm_controllers m)" "collecting d track sector got (bm_controllers m ! i)"
    and "length got + length bs < SECTOR_LEN"
  shows "\<exists>t. fold (ctl_out tarbell i 0xFB) bs m = m\<lparr>bm_controllers := (bm_controllers m)[i := t]\<rparr> \<and>
    collecting d track sector (got @ bs) t \<and> tb_selected t = tb_selected (bm_controllers m ! i) \<and> tb_drives t = tb_drives (bm_controllers m ! i)"
  using assms
proof (induction bs arbitrary: m got)
  case Nil
  then show ?case by (intro exI [of _ "bm_controllers m ! i"]) simp
next
  case (Cons b bs)
  then obtain t1 where 1: "tb_port_out (bm_controllers m ! i) 0xFB b = (NoRequest, t1)" "collecting d track sector (got @ [b]) t1"
      "tb_selected t1 = tb_selected (bm_controllers m ! i)" "tb_drives t1 = tb_drives (bm_controllers m ! i)"
    using collecting_step [OF Cons.prems(2), of b] by (auto simp: SECTOR_LEN_def)
  let ?m = "m\<lparr>bm_controllers := (bm_controllers m)[i := t1]\<rparr>"
  have "ctl_out tarbell i 0xFB b m = ?m" using ctl_out_quiet [OF 1(1)] .
  moreover obtain t where "fold (ctl_out tarbell i 0xFB) bs ?m = ?m\<lparr>bm_controllers := (bm_controllers ?m)[i := t]\<rparr>"
      "collecting d track sector (got @ [b] @ bs) t" "tb_selected t = tb_selected t1" "tb_drives t = tb_drives t1"
    using Cons.IH [of ?m "got @ [b]"] Cons.prems 1(2) by auto
  ultimately show ?case using 1(3,4) by (intro exI [of _ t]) simp
qed

lemma clock_bytes:
  assumes "i < length (bm_controllers m)" "bs \<noteq> []" "delivering bs (bm_controllers m ! i)"
  shows "\<exists>t. clock_in i (length bs) m = (bs, m\<lparr>bm_controllers := (bm_controllers m)[i := t]\<rparr>) \<and> tb_ok t \<and>
    tb_selected t = tb_selected (bm_controllers m ! i) \<and> tb_drives t = tb_drives (bm_controllers m ! i)"
  using assms
proof (induction bs arbitrary: m)
  case (Cons b bs)
  obtain t1 where 1: "tb_port_in (bm_controllers m ! i) 0xFB = (b, NoRequest, t1)" "bs \<noteq> [] \<longrightarrow> delivering bs t1" "tb_ok t1"
      "tb_selected t1 = tb_selected (bm_controllers m ! i)" "tb_drives t1 = tb_drives (bm_controllers m ! i)"
    using delivering_step [OF Cons.prems(3)] by blast
  let ?m = "m\<lparr>bm_controllers := (bm_controllers m)[i := t1]\<rparr>"
  have ctl: "ctl_in tarbell i 0xFB m = (b, NoRequest, ?m)" using 1(1) by (simp add: ctl_in_def tarbell_def service_def)
  show ?case
  proof (cases "bs = []")
    case True
    with ctl 1 show ?thesis by (intro exI [of _ t1]) simp
  next
    case False
    then obtain t where "clock_in i (length bs) ?m = (bs, ?m\<lparr>bm_controllers := (bm_controllers ?m)[i := t]\<rparr>)" "tb_ok t"
        "tb_selected t = tb_selected t1" "tb_drives t = tb_drives t1"
      using Cons.IH [of ?m] Cons.prems(1) 1(2) by auto
    with ctl 1(4,5) show ?thesis by (intro exI [of _ t]) simp
  qed
qed simp

lemma write_sector_runs:
  assumes i: "i < length (bm_controllers m)" and t: "bm_controllers m ! i = t" "tb_ok t" "tb_writable t d" "tb_selected t = d"
    and off: "tb_offset track sector = Some off" and data: "length data = SECTOR_LEN"
  shows "\<exists>t'. write_sector i track sector data m = store_range d off SECTOR_LEN data (m\<lparr>bm_controllers := (bm_controllers m)[i := t']\<rparr>) \<and>
    tb_ok t' \<and> tb_selected t' = d \<and> tb_drives t' = tb_drives t"
proof -
  obtain t1 where 1: "ctl_out tarbell i 0xFA sector (ctl_out tarbell i 0xF9 track m) = m\<lparr>bm_controllers := (bm_controllers m)[i := t1]\<rparr>"
      "tb_ok t1" "tb_selected t1 = d" "tb_drives t1 = tb_drives t" "wd_track (tb_chip t1) = track" "wd_sector (tb_chip t1) = sector"
    using registers_set [OF i, of sector track] t by auto
  have wr1: "tb_writable t1 (tb_selected t1)" using t(3) tb_drives_only [OF 1(4)] 1(3) by simp
  obtain t2 where 2: "tb_port_out t1 0xF8 0xA8 = (NoRequest, t2)" "collecting d track sector [] t2"
      "tb_selected t2 = d" "tb_drives t2 = tb_drives t1"
    using start_write [OF 1(2) wr1] 1(3,5,6) off by auto
  let ?m2 = "m\<lparr>bm_controllers := (bm_controllers m)[i := t2]\<rparr>"
  have start: "start_transfer i track sector 0xA8 m = ?m2"
    using 1(1) ctl_out_quiet [of "m\<lparr>bm_controllers := (bm_controllers m)[i := t1]\<rparr>" i "0xF8" "0xA8" t2] 2(1) i
    by (simp add: start_transfer_def)
  have ne: "data \<noteq> []" using data by (auto simp: SECTOR_LEN_def)
  then have sp: "data = butlast data @ [last data]" by simp
  have bl: "length (butlast data) = 127" using data by (simp add: SECTOR_LEN_def)
  obtain t3 where 3: "fold (ctl_out tarbell i 0xFB) (butlast data) ?m2 = ?m2\<lparr>bm_controllers := (bm_controllers ?m2)[i := t3]\<rparr>"
      "collecting d track sector (butlast data) t3" "tb_selected t3 = d" "tb_drives t3 = tb_drives t2"
    using collect_bytes [of i ?m2 d track sector "[]" "butlast data"] i 2(2,3) bl by (auto simp: SECTOR_LEN_def)
  obtain t4 where 4: "tb_port_out t3 0xFB (last data) = (WriteReq d off SECTOR_LEN, t4)" "tb_buffer t4 d = Some data"
      "tb_ok t4" "tb_selected t4 = d" "tb_drives t4 = tb_drives t3"
    using collecting_last [OF 3(2) bl off, of "last data"] 3(3) sp by auto
  have "write_sector i track sector data m = ctl_out tarbell i 0xFB (last data) (m\<lparr>bm_controllers := (bm_controllers m)[i := t3]\<rparr>)"
    unfolding write_sector_def start by (subst sp) (simp add: 3(1))
  also have "\<dots> = store_range d off SECTOR_LEN data (m\<lparr>bm_controllers := (bm_controllers m)[i := t4]\<rparr>)"
    using 4(1,2) i by (simp add: ctl_out_def tarbell_def service_def)
  finally show ?thesis using 1(4) 2(4) 3(4) 4 by auto
qed

lemma read_sector_runs:
  assumes i: "i < length (bm_controllers m)" and t: "bm_controllers m ! i = t" "tb_ok t" "tb_present t d" "tb_selected t = d"
    and off: "tb_offset track sector = Some off" and bs: "fetch_range m d off SECTOR_LEN = bs" "length bs = SECTOR_LEN"
  shows "\<exists>t'. read_sector i track sector m = (bs, m\<lparr>bm_controllers := (bm_controllers m)[i := t']\<rparr>)"
proof -
  obtain t1 where 1: "ctl_out tarbell i 0xFA sector (ctl_out tarbell i 0xF9 track m) = m\<lparr>bm_controllers := (bm_controllers m)[i := t1]\<rparr>"
      "tb_ok t1" "tb_selected t1 = d" "tb_drives t1 = tb_drives t" "wd_track (tb_chip t1) = track" "wd_sector (tb_chip t1) = sector"
    using registers_set [OF i, of sector track] t by auto
  have p1: "tb_present t1 (tb_selected t1)" using t(3) tb_drives_only [OF 1(4)] 1(3) by simp
  obtain t2 where 2: "tb_port_out t1 0xF8 0x88 = (ReadReq d off SECTOR_LEN, t2)" "delivering bs (tb_buffer_loaded t2 d bs)"
    using start_read [OF 1(2) p1 _ bs(2)] 1(3,5,6) off by auto
  let ?m2 = "m\<lparr>bm_controllers := (bm_controllers m)[i := tb_buffer_loaded t2 d bs]\<rparr>"
  have "fetch_range (m\<lparr>bm_controllers := cs\<rparr>) d off n = fetch_range m d off n" for cs n
    by (simp add: fetch_range_def disk_at_def)
  then have start: "start_transfer i track sector 0x88 m = ?m2"
    using 1(1) 2(1) i bs(1) by (simp add: start_transfer_def ctl_out_def [of _ _ "0xF8"] tarbell_def service_def)
  have ne: "bs \<noteq> []" using bs(2) by (auto simp: SECTOR_LEN_def)
  obtain t3 where "clock_in i (length bs) ?m2 = (bs, ?m2\<lparr>bm_controllers := (bm_controllers ?m2)[i := t3]\<rparr>)"
    using clock_bytes [of i ?m2 bs] i ne 2(2) by auto
  then show ?thesis using start bs(2) by (intro exI [of _ t3]) (simp add: read_sector_def)
qed

lemma get_put_range: "off + length src \<le> length bs \<Longrightarrow> get_range (put_range bs off src) off (length src) = Some src"
  by (simp add: get_range_def put_range_def)

lemma sector_roundtrip:
  assumes "tb.synced i m" "bm_controllers m ! i = t" "tb_writable t d" "tb_selected t = d"
    and off: "tb_offset track sector = Some off" and data: "length data = SECTOR_LEN"
  obtains im m1 m2 where "write_sector i track sector data m = m1" "read_sector i track sector m1 = (data, m2)"
    "disk_at m d = Some im" "bm_disks m2 = (bm_disks m)[unat d := Some (im\<lparr>im_bytes := put_range (im_bytes im) off data, im_dirty := True\<rparr>)]"
    "bm_disks m1 = bm_disks m2"
proof -
  have i: "i < length (bm_controllers m)" and ok: "tb_ok t" using assms(1,2) by (auto simp: tb.synced_def)
  obtain t1 where w: "write_sector i track sector data m = store_range d off SECTOR_LEN data (m\<lparr>bm_controllers := (bm_controllers m)[i := t1]\<rparr>)"
    and t1: "tb_ok t1" "tb_selected t1 = d" "tb_drives t1 = tb_drives t"
    using write_sector_runs [OF i assms(2) ok assms(3,4) off data] by blast
  let ?m = "m\<lparr>bm_controllers := (bm_controllers m)[i := t1]\<rparr>"
  have same: "tb_present t1 = tb_present t" "tb_writable t1 = tb_writable t" using tb_drives_only [OF t1(3)] by auto
  have "tb.synced i ?m"
    by (rule tb.own_controller [OF assms(1), of _ t1]) (simp_all add: kept_same_disks t1(1) same assms(2))
  then obtain im where im: "disk_at ?m d = Some im" "\<not> im_read_only im" "off + SECTOR_LEN \<le> length (im_bytes im)"
      "store_range d off SECTOR_LEN data ?m = set_disk ?m d (im\<lparr>im_bytes := put_range (im_bytes im) off data, im_dirty := True\<rparr>)"
    using tb.write_served [of i ?m d off SECTOR_LEN data] tb_offset_bound(1) [OF off] data i same assms(3) by auto
  define m1 where "m1 = write_sector i track sector data m"
  have m1: "m1 = set_disk ?m d (im\<lparr>im_bytes := put_range (im_bytes im) off data, im_dirty := True\<rparr>)"
    unfolding m1_def w im(4) ..
  have dl: "unat d < length (bm_disks m)" using im(1) by (auto simp: disk_at_def split: if_splits)
  have "disk_at m1 d = Some (im\<lparr>im_bytes := put_range (im_bytes im) off data, im_dirty := True\<rparr>)"
    using dl by (simp add: m1 set_disk_def disk_at_def)
  then have f: "fetch_range m1 d off SECTOR_LEN = data"
    using get_put_range [of off data "im_bytes im"] im(3) data by (simp add: fetch_range_def)
  obtain t2 where r: "read_sector i track sector m1 = (data, m1\<lparr>bm_controllers := (bm_controllers m1)[i := t2]\<rparr>)"
    using read_sector_runs [of i m1 t1 d track sector off data] i t1 same assms(3) off f data
    by (auto simp: m1 set_disk_def tb_writable_def)
  show thesis
    by (rule that [OF m1_def [symmetric] r, of im]) (use im(1) dl in \<open>simp_all add: disk_at_def m1 set_disk_def\<close>)
qed

lemma new_Tarbell_ok: "tb_ok new_Tarbell" "tb_quiet new_Tarbell" "\<not> tb_present new_Tarbell d"
proof -
  have "tb_drives new_Tarbell ! unat d = \<lparr>dr_present = False, dr_read_only = True\<rparr>" if "unat d < 4"
    using that by (simp add: new_Tarbell_def DRIVES_def)
  then show "\<not> tb_present new_Tarbell d" by (auto simp: tb_present_def DRIVES_def)
qed (simp_all add: new_Tarbell_def tb_ok_def chip_ok_def new_Wd1771_def tb_quiet_def DRIVES_def SECTOR_LEN_def MAX_SECTOR_LEN_def)

lemma tarbell_session:
  assumes "insert_all tarbell ds (new_BootMachine [new_Tarbell]) = Inr m0"
  shows "tb.synced 0 (fold (guest_step tarbell) gs m0)"
proof (rule tb.guest_run_synced)
  have "tb.synced 0 (new_BootMachine [new_Tarbell])"
    using new_Tarbell_ok by (simp add: tb.synced_def new_BootMachine_def)
  then show "tb.synced 0 m0"
    using tb.insert_all_synced [OF assms, of new_Tarbell] new_Tarbell_ok by (simp add: new_BootMachine_def)
qed

text \<open>A disk in drive 0, as the witnesses use it.\<close>

definition one_disk :: "Tarbell BootMachine" where
  "one_disk = projr (insert_all tarbell [(0, replicate 256256 0xE5, False)] (new_BootMachine [new_Tarbell]))"

lemma one_disk:
  "insert_all tarbell [(0, replicate 256256 0xE5, False)] (new_BootMachine [new_Tarbell]) = Inr one_disk"
  "tb_selected (bm_controllers one_disk ! 0) = 0" "tb_writable (bm_controllers one_disk ! 0) 0"
  by (simp_all add: one_disk_def bm_insert_def new_BootMachine_def tarbell_def accepts_def tb_insert_def media_accept_def
    tb_media_def IMAGE_LEN_def TRACKS_def SECTORS_PER_TRACK_def SECTOR_LEN_def SELECTABLE_def Let_def new_Tarbell_def DRIVES_def
    refresh_drive_def tb_writable_def tb_present_def)


section \<open>Properties\<close>

text \<open>Property C2: whatever controller a machine carries and whatever its guest does with memory and ports,
  a mounted image keeps its length and its protection; a read-only image keeps every byte and is not
  among the images handed back for writing to the host.\<close>

theorem guest_keeps_images:
  assumes "length (bm_disks m) \<le> 256" "disk_at m d = Some im"
    and "take_dirty ops (fold (guest_step ops) gs m) = (out, m')"
  shows "\<exists>im'. disk_at (fold (guest_step ops) gs m) d = Some im' \<and> length (im_bytes im') = length (im_bytes im) \<and>
    im_read_only im' = im_read_only im \<and> (im_read_only im \<longrightarrow> im' = im \<and> d \<notin> fst ` set out)"
proof -
  let ?m = "fold (guest_step ops) gs m"
  have k: "kept m ?m" by (rule guest_run_kept)
  then have "slot_kept (disk_at m d) (disk_at ?m d)" by (auto simp: kept_def disk_at_def list_all2_conv_all_nth)
  then obtain im' where im': "disk_at ?m d = Some im'" "im_read_only im' = im_read_only im"
    "length (im_bytes im') = length (im_bytes im)" "im_read_only im \<longrightarrow> im' = im"
    using assms(2) by (auto simp: slot_kept_def split: option.splits)
  have "length (bm_disks ?m) \<le> 256" using k assms(1) by (auto simp: kept_def dest: list_all2_lengthD)
  then have "\<not> im_read_only im" if "(d, bs) \<in> set out" for bs
    using take_dirty_owed [OF assms(3) that] im'(1,2) by auto
  with im' show ?thesis by force
qed

theorem guest_keeps_images_witness:
  "\<exists>im'. disk_at (fold (guest_step tarbell) [Out 0xF8 0xA8, Out 0xFB 7] one_disk) 0 = Some im' \<and> length (im_bytes im') = 256256"
proof -
  have d: "length (bm_disks one_disk) \<le> 256" "disk_at one_disk 0 = Some \<lparr>im_bytes = replicate 256256 0xE5, im_read_only = False, im_dirty = False\<rparr>"
    by (simp_all add: one_disk_def disk_at_def bm_insert_def new_BootMachine_def tarbell_def accepts_def tb_insert_def media_accept_def
      tb_media_def IMAGE_LEN_def TRACKS_def SECTORS_PER_TRACK_def SECTOR_LEN_def SELECTABLE_def Let_def)
  obtain out m' where "take_dirty tarbell (fold (guest_step tarbell) [Out 0xF8 0xA8, Out 0xFB 7] one_disk) = (out, m')" by force
  from guest_keeps_images [OF d this] show ?thesis by auto
qed

text \<open>Property C29: nothing the Tarbell board asks of the host is ever refused or made up. On a machine whose
  disks were inserted in any order, after any run of the guest, whatever register the guest reads or
  writes next, the request the board makes lies within the 256,256 bytes of the medium, on a drive
  that holds an image at least that long; a write is for an image that is not protected and has all
  the bytes of its range ready.\<close>

theorem tarbell_requests_serviceable:
  assumes "insert_all tarbell ds (new_BootMachine [new_Tarbell]) = Inr m0"
    and "m = fold (guest_step tarbell) gs m0"
    and "tb_port_out (bm_controllers m ! 0) p v = (req, t') \<or> tb_port_in (bm_controllers m ! 0) p = (v, req, t')"
  shows "serviceable tarbell IMAGE_LEN m t' req"
proof -
  have s: "tb.synced 0 m" using tarbell_session [OF assms(1)] assms(2) by simp
  then have "tb_ok (bm_controllers m ! 0)" by (simp add: tb.synced_def)
  with assms(3) have "request_ok tarbell IMAGE_LEN (tb_present (bm_controllers m ! 0)) (tb_writable (bm_controllers m ! 0)) t' req"
    using tb_port_out_ok tb_port_in_ok by metis
  with s show ?thesis by (rule tb.synced_serviceable)
qed

theorem tarbell_requests_serviceable_witness:
  "\<exists>t'. serviceable tarbell IMAGE_LEN one_disk t' (fst (tb_port_out (bm_controllers one_disk ! 0) 0xF8 0x88))"
proof -
  obtain req t' where "tb_port_out (bm_controllers one_disk ! 0) 0xF8 0x88 = (req, t')" by force
  then show ?thesis using tarbell_requests_serviceable [OF one_disk(1), of one_disk "[]" "0xF8" "0x88" req t'] by auto
qed

text \<open>Property C23: a sector written through the Tarbell's ports is stored where it belongs and reads back.
  After any session, with an unprotected disk in the selected drive, a driver that sets track and
  sector, gives Write Sector and clocks 128 bytes changes exactly that sector of that image and no
  other disk; Read Sector of the same address then delivers those bytes one by one.\<close>

theorem tarbell_sector_roundtrip:
  assumes "insert_all tarbell ds (new_BootMachine [new_Tarbell]) = Inr m0"
    and "m = fold (guest_step tarbell) gs m0" and "d = tb_selected (bm_controllers m ! 0)"
    and "tb_writable (bm_controllers m ! 0) d" "tb_offset track sector = Some off" "length data = SECTOR_LEN"
  shows "\<exists>im m2. read_sector 0 track sector (write_sector 0 track sector data m) = (data, m2) \<and> disk_at m d = Some im \<and>
    bm_disks m2 = (bm_disks m)[unat d := Some (im\<lparr>im_bytes := put_range (im_bytes im) off data, im_dirty := True\<rparr>)]"
proof -
  have "tb.synced 0 m" using tarbell_session [OF assms(1)] assms(2) by simp
  from this refl assms(4) assms(3) [symmetric] assms(5,6) show ?thesis
    by (rule sector_roundtrip) blast
qed

theorem tarbell_sector_roundtrip_witness:
  "\<exists>m2. read_sector 0 2 3 (write_sector 0 2 3 (replicate 128 7) one_disk) = (replicate 128 7, m2)"
  using tarbell_sector_roundtrip [OF one_disk(1), of one_disk "[]" 0 2 3 "(2 * 26 + 2) * 128" "replicate 128 7"] one_disk(2,3)
  by (auto simp: tb_offset_def TRACKS_def SECTORS_PER_TRACK_def SECTOR_LEN_def Let_def)

end
