(* ===== verification/Petscii.thy ===== *)
theory Petscii
  imports Rust_Std
begin

text \<open>
  A Commodore's terminal (\<^verbatim>\<open>src/src/petscii.rs\<close> and the \<^verbatim>\<open>PetsciiLink\<close> of \<^verbatim>\<open>src/src/serial.rs\<close>): the ANSI
  escape sequences of a host become PETSCII control codes, its text is folded to what a C64 can show,
  and the keys of the C64 become what an ASCII host expects. Each step returns the bytes it appends to
  the output. The lemmas show what can reach the screen, that complete sequences are translated and
  that an unfinished one gives way to text.
\<close>

section \<open>PETSCII codes\<close>

definition WHITE :: byte where "WHITE = 0x05"
definition RED :: byte where "RED = 0x1C"
definition CYAN :: byte where "CYAN = 0x9F"
definition PURPLE :: byte where "PURPLE = 0x9C"
definition GREEN :: byte where "GREEN = 0x1E"
definition BLUE :: byte where "BLUE = 0x1F"
definition YELLOW :: byte where "YELLOW = 0x9E"
definition DARK_GREY :: byte where "DARK_GREY = 0x97"
definition MEDIUM_GREY :: byte where "MEDIUM_GREY = 0x98"
definition LIGHT_RED :: byte where "LIGHT_RED = 0x96"
definition LIGHT_GREEN :: byte where "LIGHT_GREEN = 0x99"
definition LIGHT_BLUE :: byte where "LIGHT_BLUE = 0x9A"
definition LIGHT_GREY :: byte where "LIGHT_GREY = 0x9B"
definition DEFAULT_COLOUR :: byte where "DEFAULT_COLOUR = LIGHT_GREY"
definition RVS_ON :: byte where "RVS_ON = 0x12"
definition RVS_OFF :: byte where "RVS_OFF = 0x92"
definition CLR :: byte where "CLR = 0x93"
definition HOME :: byte where "HOME = 0x13"
definition CRSR_UP :: byte where "CRSR_UP = 0x91"
definition CRSR_DOWN :: byte where "CRSR_DOWN = 0x11"
definition CRSR_RIGHT :: byte where "CRSR_RIGHT = 0x1D"
definition CRSR_LEFT :: byte where "CRSR_LEFT = 0x9D"
definition BACK_ARROW :: byte where "BACK_ARROW = 0x5F"

definition FG_NORMAL :: "byte list" where
  "FG_NORMAL = [DARK_GREY, RED, GREEN, YELLOW, BLUE, PURPLE, CYAN, LIGHT_GREY]"

definition FG_BRIGHT :: "byte list" where
  "FG_BRIGHT = [MEDIUM_GREY, LIGHT_RED, LIGHT_GREEN, YELLOW, LIGHT_BLUE, PURPLE, CYAN, WHITE]"

definition CSI_PARAM_CAP :: nat where "CSI_PARAM_CAP = 64"
definition STRING_SEQ_CAP :: nat where "STRING_SEQ_CAP = 8192"

lemmas petscii_codes = WHITE_def RED_def CYAN_def PURPLE_def GREEN_def BLUE_def YELLOW_def DARK_GREY_def
  MEDIUM_GREY_def LIGHT_RED_def LIGHT_GREEN_def LIGHT_BLUE_def LIGHT_GREY_def DEFAULT_COLOUR_def
  RVS_ON_def RVS_OFF_def CLR_def HOME_def CRSR_UP_def CRSR_DOWN_def CRSR_RIGHT_def CRSR_LEFT_def


section \<open>Escape sequences\<close>

text \<open>The state: 0 text, 1 after ESC, 2 in a CSI, 3 in a string sequence, 4 after an ESC in one.\<close>

record AnsiToPetscii =
  ap_state :: nat
  ap_params :: "byte list"
  ap_swallowed :: nat
  ap_bold :: bool

definition new_ansi :: AnsiToPetscii where
  "new_ansi = \<lparr>ap_state = 0, ap_params = [], ap_swallowed = 0, ap_bold = False\<rparr>"

text \<open>A field is the number its digits make, saturated at 16 bits; other bytes are skipped.\<close>

definition param_value :: "byte list \<Rightarrow> nat" where
  "param_value field = foldl (\<lambda>acc b. min (min (acc * 10) 65535 + unat (b - 0x30)) 65535) 0 (filter is_ascii_digit field)"

definition parse_params :: "byte list \<Rightarrow> nat list" where
  "parse_params raw = (if raw = [] then [] else map param_value (split_on 0x3B raw))"

definition first_param :: "byte list \<Rightarrow> nat \<Rightarrow> nat" where
  "first_param raw dflt = (case parse_params raw of [] \<Rightarrow> dflt | n # _ \<Rightarrow> if n = 0 then dflt else n)"

text \<open>
  Colours and attributes, left to right: one parameter, with the ones it takes along, gives the bold
  flag, the codes and the parameters left.
\<close>

definition sgr_step :: "nat \<Rightarrow> nat list \<Rightarrow> bool \<Rightarrow> bool \<times> byte list \<times> nat list" where
  "sgr_step p ps bold =
     (if p = 0 then (False, [RVS_OFF, DEFAULT_COLOUR], ps)
      else if p = 1 then (True, [], ps)
      else if p = 2 \<or> p = 22 then (False, [], ps)
      else if p = 7 then (bold, [RVS_ON], ps)
      else if p = 27 then (bold, [RVS_OFF], ps)
      else if 30 \<le> p \<and> p \<le> 37 then (bold, [if bold then FG_BRIGHT ! (p - 30) else FG_NORMAL ! (p - 30)], ps)
      else if p = 39 then (bold, [DEFAULT_COLOUR], ps)
      else if 90 \<le> p \<and> p \<le> 97 then (bold, [FG_BRIGHT ! (p - 90)], ps)
      else if p = 38 \<or> p = 48 then
        (case ps of
           [] \<Rightarrow> (bold, [], [])
         | k # qs \<Rightarrow>
             if k = 5 then
               (bold, case qs of [] \<Rightarrow> [] | n # _ \<Rightarrow>
                  if p \<noteq> 38 then [] else if n < 8 then [FG_NORMAL ! n] else if n < 16 then [FG_BRIGHT ! (n - 8)] else [],
                drop 1 qs)
             else if k = 2 then (bold, [], drop 3 qs)
             else (bold, [], []))
      else (bold, [], ps))"

lemma sgr_step_rest: "sgr_step p ps bold = (b, codes, rest) \<Longrightarrow> length rest \<le> length ps"
  by (auto simp: sgr_step_def split: if_splits list.splits)

function emit_sgr :: "nat list \<Rightarrow> bool \<Rightarrow> bool \<times> byte list" where
  "emit_sgr [] bold = (bold, [])"
| "emit_sgr (p # ps) bold = (case sgr_step p ps bold of (bold1, codes, rest) \<Rightarrow>
     case emit_sgr rest bold1 of (bold2, out) \<Rightarrow> (bold2, codes @ out))"
  by pat_completeness auto
termination
  by (relation "measure (\<lambda>(ps, b). length ps)") (auto dest!: sgr_step_rest [OF sym])

definition sgr :: "nat list \<Rightarrow> bool \<Rightarrow> bool \<times> byte list" where
  "sgr params bold = (if params = [] then (False, [RVS_OFF, DEFAULT_COLOUR]) else emit_sgr params bold)"

definition emit_csi :: "byte \<Rightarrow> byte list \<Rightarrow> bool \<Rightarrow> bool \<times> byte list" where
  "emit_csi final raw bold =
     (if raw \<noteq> [] \<and> 0x3C \<le> hd raw \<and> hd raw \<le> 0x3F then (bold, [])
      else if final = 0x6D then sgr (parse_params raw) bold
      else if final = 0x4A then (bold, if first_param raw 0 \<in> {2, 3} then [CLR] else [])
      else if final = 0x48 \<or> final = 0x66 then (bold, if \<forall>p\<in>set (parse_params raw). p \<le> 1 then [HOME] else [])
      else if final = 0x41 \<or> final = 0x42 \<or> final = 0x43 \<or> final = 0x44 then
        (bold, replicate (min (max (first_param raw 1) 1) 80)
           (if final = 0x41 then CRSR_UP else if final = 0x42 then CRSR_DOWN else if final = 0x43 then CRSR_RIGHT else CRSR_LEFT))
      else (bold, []))"

text \<open>One byte of the host; \<open>show\<close> is the caller's translation of text, over a state of its own.\<close>

definition ansi_feed :: "(byte \<Rightarrow> 't \<Rightarrow> 't \<times> byte list) \<Rightarrow> byte \<Rightarrow> AnsiToPetscii \<Rightarrow> 't \<Rightarrow>
    AnsiToPetscii \<times> 't \<times> byte list" where
  "ansi_feed txt b a t =
     (if ap_state a = 0 then
        if b = 0x1B then (a\<lparr>ap_state := 1\<rparr>, t, []) else (a, txt b t)
      else if ap_state a = 1 then
        if b \<le> 0x1F \<and> b \<noteq> 0x1B then (a\<lparr>ap_state := 0\<rparr>, txt b t)
        else if b = 0x5B then (a\<lparr>ap_params := [], ap_state := 2\<rparr>, t, [])
        else if b \<in> {0x5D, 0x50, 0x58, 0x5E, 0x5F} then (a\<lparr>ap_state := 3\<rparr>, t, [])
        else if b = 0x1B then (a\<lparr>ap_state := 1\<rparr>, t, [])
        else (a\<lparr>ap_state := 0\<rparr>, t, [])
      else if ap_state a = 2 then
        if 0x40 \<le> b \<and> b \<le> 0x7E then
          (case emit_csi b (ap_params a) (ap_bold a) of (bold, out) \<Rightarrow>
             (a\<lparr>ap_bold := bold, ap_params := [], ap_state := 0\<rparr>, t, out))
        else if b = 0x1B then (a\<lparr>ap_params := [], ap_state := 1\<rparr>, t, [])
        else if b < 0x20 then (a\<lparr>ap_params := [], ap_state := 0\<rparr>, txt b t)
        else if b = 0x7F \<or> length (ap_params a) \<ge> CSI_PARAM_CAP then (a\<lparr>ap_params := [], ap_state := 0\<rparr>, t, [])
        else (a\<lparr>ap_params := ap_params a @ [b]\<rparr>, t, [])
      else if ap_state a = 3 then
        let swallowed = ap_swallowed a + 1; a1 = a\<lparr>ap_swallowed := swallowed\<rparr>
        in if b = 0x07 then (a1\<lparr>ap_state := 0, ap_swallowed := 0\<rparr>, t, [])
           else if b = 0x1B then (a1\<lparr>ap_state := 4\<rparr>, t, [])
           else if swallowed \<ge> STRING_SEQ_CAP then (a1\<lparr>ap_state := 0, ap_swallowed := 0\<rparr>, t, [])
           else (a1, t, [])
      else if b = 0x5C then (a\<lparr>ap_state := 0, ap_swallowed := 0\<rparr>, t, [])
      else (a\<lparr>ap_state := 3\<rparr>, t, []))"


section \<open>Text\<close>

definition translate_ascii_to_petscii_byte :: "byte \<Rightarrow> byte" where
  "translate_ascii_to_petscii_byte b =
     (if 0x41 \<le> b \<and> b \<le> 0x5A then b + 32
      else if 0x61 \<le> b \<and> b \<le> 0x7A then b - 32
      else if b = 0x08 \<or> b = 0x7F then 0x9D
      else b)"

text \<open>A UTF-8 character under way: the four bytes of \<^verbatim>\<open>bytes\<close>, how many are in, how many it wants.\<close>

datatype PetsciiPunctState = Normal | SawE2 | SawE280 | Multi "byte list" nat nat

definition push_high_byte :: "byte \<Rightarrow> byte list" where
  "push_high_byte b = (if 0x80 \<le> b \<and> b \<le> 0x9F then [] else [0x3F])"

definition is_continuation :: "byte \<Rightarrow> bool" where
  "is_continuation b \<longleftrightarrow> 0x80 \<le> b \<and> b \<le> 0xBF"

definition flush_punct :: "PetsciiPunctState \<Rightarrow> byte list" where
  "flush_punct s = (case s of
      Normal \<Rightarrow> []
    | SawE2 \<Rightarrow> [0x3F] | SawE280 \<Rightarrow> [0x3F]
    | Multi bytes have want \<Rightarrow> concat (map push_high_byte (take have bytes)))"

definition feed_ground :: "byte \<Rightarrow> PetsciiPunctState \<times> byte list" where
  "feed_ground b =
     (if b = 0xE2 then (SawE2, [])
      else if b = 0x60 then (Normal, [0x27])
      else if b = 0x7E then (Normal, [0x2D])
      else if 0x80 \<le> b \<and> b \<le> 0x9F then (Normal, [])
      else if 0xE0 \<le> b \<and> b \<le> 0xEF then (Multi [b, 0, 0, 0] 1 3, [])
      else if 0xF0 \<le> b \<and> b \<le> 0xF4 then (Multi [b, 0, 0, 0] 1 4, [])
      else if 0xA0 \<le> b then (Normal, [0x3F])
      else (Normal, [b]))"

text \<open>Giving up on a character: what it holds is shown, and the byte is read afresh.\<close>

definition punct_feed :: "byte \<Rightarrow> PetsciiPunctState \<Rightarrow> PetsciiPunctState \<times> byte list" where
  "punct_feed b s =
     (let afresh = (\<lambda>shown. case feed_ground b of (s', out) \<Rightarrow> (s', shown @ out))
      in case s of
           Normal \<Rightarrow> feed_ground b
         | SawE2 \<Rightarrow>
             if b = 0x80 then (SawE280, [])
             else if is_continuation b then (Multi [0xE2, b, 0, 0] 2 3, [])
             else afresh [0x3F]
         | SawE280 \<Rightarrow>
             if b = 0x98 \<or> b = 0x99 then (Normal, [0x27])
             else if b = 0x9C \<or> b = 0x9D then (Normal, [0x22])
             else if b = 0x93 \<or> b = 0x94 then (Normal, [0x2D])
             else if b = 0xA6 then (Normal, [0x2E, 0x2E, 0x2E])
             else if is_continuation b then (Normal, [0x3F])
             else afresh [0x3F]
         | Multi bytes have want \<Rightarrow>
             if is_continuation b then
               if have + 1 = want then (Normal, [0x3F]) else (Multi (bytes[have := b]) (have + 1) want, [])
             else afresh (concat (map push_high_byte (take have bytes))))"

definition text_feed :: "byte \<Rightarrow> PetsciiPunctState \<Rightarrow> PetsciiPunctState \<times> byte list" where
  "text_feed b s = (case punct_feed b s of (s', out) \<Rightarrow> (s', map translate_ascii_to_petscii_byte out))"

definition flush_held :: "PetsciiPunctState \<Rightarrow> PetsciiPunctState \<times> byte list" where
  "flush_held s = (Normal, map translate_ascii_to_petscii_byte (flush_punct s))"

fun feed_petscii :: "byte list \<Rightarrow> AnsiToPetscii \<Rightarrow> PetsciiPunctState \<Rightarrow> AnsiToPetscii \<times> PetsciiPunctState \<times> byte list" where
  "feed_petscii [] a t = (a, t, [])"
| "feed_petscii (b # bs) a t =
     (case (if b = 0x1B \<and> ap_state a = 0 then flush_held t else (t, [])) of (t1, held) \<Rightarrow>
      case ansi_feed text_feed b a t1 of (a1, t2, out) \<Rightarrow>
      case feed_petscii bs a1 t2 of (a2, t3, later) \<Rightarrow> (a2, t3, held @ out @ later))"


section \<open>Keys\<close>

definition key_to_ansi_host :: "byte \<Rightarrow> byte list option" where
  "key_to_ansi_host b =
     (if b = CRSR_UP then Some [0x1B, 0x5B, 0x41]
      else if b = CRSR_DOWN then Some [0x1B, 0x5B, 0x42]
      else if b = CRSR_RIGHT then Some [0x1B, 0x5B, 0x43]
      else if b = CRSR_LEFT then Some [0x1B, 0x5B, 0x44]
      else if b = BACK_ARROW then Some [0x1B]
      else None)"

definition translate_petscii_to_ascii_byte :: "byte \<Rightarrow> byte" where
  "translate_petscii_to_ascii_byte b =
     (if 0x41 \<le> b \<and> b \<le> 0x5A then b + 32
      else if 0xC1 \<le> b \<and> b \<le> 0xDA then b - 0x80
      else if b = 0x14 then 0x08
      else b)"

definition for_host :: "byte list \<Rightarrow> byte list" where
  "for_host forward = concat (map (\<lambda>b. case key_to_ansi_host b of
     Some s \<Rightarrow> s | None \<Rightarrow> [translate_petscii_to_ascii_byte b]) forward)"



section \<open>What reaches the screen\<close>

definition screen_codes :: "byte set" where
  "screen_codes = set FG_NORMAL \<union> set FG_BRIGHT \<union>
     {RVS_ON, RVS_OFF, CLR, HOME, CRSR_UP, CRSR_DOWN, CRSR_RIGHT, CRSR_LEFT}"

definition text_codes :: "byte set" where
  "text_codes = {b. b < 0x80 \<and> b \<notin> {0x08, 0x1B, 0x60, 0x7E, 0x7F}}"

lemma FG_length [simp]: "length FG_NORMAL = 8" "length FG_BRIGHT = 8"
  by (simp_all add: FG_NORMAL_def FG_BRIGHT_def)

lemma FG_in: "n < 8 \<Longrightarrow> FG_NORMAL ! n \<in> screen_codes" "n < 8 \<Longrightarrow> FG_BRIGHT ! n \<in> screen_codes"
  by (simp_all add: screen_codes_def)

lemma codes_in [simp]:
  "RVS_ON \<in> screen_codes" "RVS_OFF \<in> screen_codes" "CLR \<in> screen_codes" "HOME \<in> screen_codes" "CRSR_UP \<in> screen_codes"
  "CRSR_DOWN \<in> screen_codes" "CRSR_RIGHT \<in> screen_codes" "CRSR_LEFT \<in> screen_codes" "DEFAULT_COLOUR \<in> screen_codes"
  by (simp_all add: screen_codes_def DEFAULT_COLOUR_def FG_NORMAL_def)

lemma sgr_step_codes: "sgr_step p ps bold = (b, codes, rest) \<Longrightarrow> set codes \<subseteq> screen_codes"
  by (auto simp: sgr_step_def FG_in split: if_splits list.splits)

lemma emit_sgr_codes: "set (snd (emit_sgr ps bold)) \<subseteq> screen_codes"
proof (induction ps bold rule: emit_sgr.induct)
  case (2 p ps bold)
  obtain bold1 codes rest where step: "sgr_step p ps bold = (bold1, codes, rest)" by (cases "sgr_step p ps bold")
  from "2.IH" [OF step [symmetric] refl] sgr_step_codes [OF step] step show ?case by (auto split: prod.splits)
qed simp

lemma emit_csi_codes: "set (snd (emit_csi f raw bold)) \<subseteq> screen_codes"
  using emit_sgr_codes by (auto simp: emit_csi_def sgr_def split: if_splits)

lemma translate_table:
  "b < 0x80 \<and> b \<noteq> 0x1B \<and> b \<noteq> 0x60 \<and> b \<noteq> 0x7E \<longrightarrow> translate_ascii_to_petscii_byte b = 0x9D \<or>
   translate_ascii_to_petscii_byte b < 0x80 \<and> translate_ascii_to_petscii_byte b \<notin> {0x08, 0x1B, 0x60, 0x7E, 0x7F}"
proof -
  have u: "n + 32 \<le> 255 \<Longrightarrow> unat b = n \<Longrightarrow> unat (b + 32) = n + 32" "32 \<le> n \<Longrightarrow> unat b = n \<Longrightarrow> unat (b - 32) = n - 32" for n
    by (simp_all add: unat_word_ariths unat_sub word_le_nat_alt)
  show ?thesis
    using u [of "unat b"]
    by (auto simp: translate_ascii_to_petscii_byte_def word_le_nat_alt word_less_nat_alt word_unat_eq_iff)
qed

lemma translated: "b < 0x80 \<Longrightarrow> b \<noteq> 0x1B \<Longrightarrow> b \<noteq> 0x60 \<Longrightarrow> b \<noteq> 0x7E \<Longrightarrow>
  translate_ascii_to_petscii_byte b \<in> text_codes \<union> screen_codes"
  using translate_table [of b] by (auto simp: text_codes_def screen_codes_def CRSR_LEFT_def)


text \<open>What the punctuation folder puts in for a character, and the byte itself otherwise.\<close>

definition marks :: "byte set" where
  "marks = {0x22, 0x27, 0x2D, 0x2E, 0x3F}"

lemma marks_shown: "set bs \<subseteq> marks \<Longrightarrow> set (map translate_ascii_to_petscii_byte bs) \<subseteq> text_codes"
proof -
  have "\<forall>b\<in>marks. translate_ascii_to_petscii_byte b \<in> text_codes"
    by (simp add: marks_def translate_ascii_to_petscii_byte_def text_codes_def)
  then show "set bs \<subseteq> marks \<Longrightarrow> set (map translate_ascii_to_petscii_byte bs) \<subseteq> text_codes" by auto
qed

lemma high_bytes_marks: "set (concat (map push_high_byte bs)) \<subseteq> marks"
  by (induction bs) (simp_all add: push_high_byte_def marks_def)

lemma below_C1: "b < 0xA0 \<Longrightarrow> \<not> (0x9F :: byte) < b"
  by (simp add: word_less_nat_alt)

lemma ground_out: "set (snd (feed_ground b)) \<subseteq> marks \<or> snd (feed_ground b) = [b] \<and> b < 0x80 \<and> b \<noteq> 0x60 \<and> b \<noteq> 0x7E"
  unfolding feed_ground_def marks_def by (simp add: not_le below_C1)

lemma punct_out: "\<exists>shown. set shown \<subseteq> marks \<and> (snd (punct_feed b s) = shown \<or> snd (punct_feed b s) = shown @ snd (feed_ground b))"
proof -
  have m: "set [] \<subseteq> marks" "set [0x3F] \<subseteq> marks" "set [0x27] \<subseteq> marks" "set [0x22] \<subseteq> marks" "set [0x2D] \<subseteq> marks"
    "set [0x2E, 0x2E, 0x2E] \<subseteq> marks"
    by (simp_all add: marks_def)
  obtain g out where g: "feed_ground b = (g, out)" by (cases "feed_ground b")
  show ?thesis
  proof (cases s)
    case Normal
    then show ?thesis using m(1) by (intro exI [of _ "[]"]) (simp add: punct_feed_def Let_def)
  next
    case SawE2
    then have "snd (punct_feed b s) = (if b = 0x80 \<or> is_continuation b then [] else [0x3F] @ snd (feed_ground b))"
      using g by (simp add: punct_feed_def Let_def)
    then show ?thesis using m(1,2) by metis
  next
    case SawE280
    have pick: "set (if c then x else y) \<subseteq> marks" if "set x \<subseteq> marks" "set y \<subseteq> marks" for c and x y :: "byte list"
      using that by simp
    have "snd (punct_feed b s) = (if b = 0x98 \<or> b = 0x99 then [0x27] else if b = 0x9C \<or> b = 0x9D then [0x22]
        else if b = 0x93 \<or> b = 0x94 then [0x2D] else if b = 0xA6 then [0x2E, 0x2E, 0x2E]
        else if is_continuation b then [0x3F] else [0x3F] @ snd (feed_ground b))"
      using SawE280 g by (simp add: punct_feed_def Let_def)
    then show ?thesis using m by metis
  next
    case (Multi bytes k want)
    then have "snd (punct_feed b s) = (if is_continuation b then if k + 1 = want then [0x3F] else []
        else concat (map push_high_byte (take k bytes)) @ snd (feed_ground b))"
      using g by (simp add: punct_feed_def Let_def)
    then show ?thesis using m(1,2) high_bytes_marks [of "take k bytes"] by metis
  qed
qed

lemma text_shown: "b \<noteq> 0x1B \<Longrightarrow> set (snd (text_feed b t)) \<subseteq> text_codes \<union> screen_codes"
proof -
  assume b: "b \<noteq> 0x1B"
  have ground: "set (map translate_ascii_to_petscii_byte (snd (feed_ground b))) \<subseteq> text_codes \<union> screen_codes"
    using ground_out [of b]
  proof
    assume "set (snd (feed_ground b)) \<subseteq> marks"
    from marks_shown [OF this] show ?thesis by blast
  next
    assume g: "snd (feed_ground b) = [b] \<and> b < 0x80 \<and> b \<noteq> 0x60 \<and> b \<noteq> 0x7E"
    with translated [OF _ b] have "translate_ascii_to_petscii_byte b \<in> text_codes \<union> screen_codes" by blast
    with g show ?thesis by (simp only: list.map list.set insert_subset empty_subsetI simp_thms)
  qed
  obtain shown where shown: "set shown \<subseteq> marks" "snd (punct_feed b t) = shown \<or> snd (punct_feed b t) = shown @ snd (feed_ground b)"
    using punct_out by blast
  have "snd (text_feed b t) = map translate_ascii_to_petscii_byte (snd (punct_feed b t))"
    by (simp add: text_feed_def split: prod.splits)
  note eq = this and m = marks_shown [OF shown(1)]
  from shown(2) show ?thesis
  proof
    assume "snd (punct_feed b t) = shown"
    with eq m show ?thesis by (simp only: le_supI1)
  next
    assume "snd (punct_feed b t) = shown @ snd (feed_ground b)"
    with eq have "snd (text_feed b t) = map translate_ascii_to_petscii_byte shown @ map translate_ascii_to_petscii_byte (snd (feed_ground b))"
      by (simp only: map_append)
    with ground m show ?thesis by (simp only: set_append Un_least le_supI1)
  qed
qed

lemma held_shown: "set (snd (flush_held t)) \<subseteq> text_codes"
proof -
  have "set (flush_punct t) \<subseteq> marks"
    using high_bytes_marks by (cases t) (simp_all add: flush_punct_def marks_def)
  from marks_shown [OF this] show ?thesis by (simp add: flush_held_def)
qed

definition shows_ok :: "AnsiToPetscii \<times> PetsciiPunctState \<times> byte list \<Rightarrow> bool" where
  "shows_ok r \<longleftrightarrow> set (snd (snd r)) \<subseteq> text_codes \<union> screen_codes"

lemma shows_if: "(c \<Longrightarrow> shows_ok x) \<Longrightarrow> (\<not> c \<Longrightarrow> shows_ok y) \<Longrightarrow> shows_ok (if c then x else y)"
  by simp

lemma shows_nothing: "shows_ok (a, t, [])"
  by (simp add: shows_ok_def)

lemma shows_text: "b \<noteq> 0x1B \<Longrightarrow> shows_ok (a, text_feed b t)"
  using text_shown by (simp add: shows_ok_def)

lemma shows_csi: "shows_ok (case emit_csi b raw bold of (bold', out) \<Rightarrow> (f bold', t, out))"
  using emit_csi_codes [of b raw bold] by (auto simp: shows_ok_def split: prod.splits)

lemma ansi_shown: "shows_ok (ansi_feed text_feed b a t)"
  unfolding ansi_feed_def Let_def by (intro shows_if shows_nothing shows_text shows_csi) auto

text \<open>Property C19: whatever a host sends and in whatever pieces, a C64's screen gets only characters
  below 0x80, never an ESC, a raw BS or DEL or a byte it draws as a graphic, and the PETSCII codes
  of the translator. No byte of an escape sequence and none of a UTF-8 character reaches it raw.\<close>

theorem petscii_screen_bytes:
  "set (snd (snd (feed_petscii bs a t))) \<subseteq> text_codes \<union> screen_codes"
proof (induction bs arbitrary: a t)
  case (Cons b bs)
  obtain t1 held where t1: "(if b = 0x1B \<and> ap_state a = 0 then flush_held t else (t, [])) = (t1, held)" by fastforce
  then have held: "set held \<subseteq> text_codes" using held_shown [of t] by (auto split: if_splits)
  obtain a1 t2 out where step: "ansi_feed text_feed b a t1 = (a1, t2, out)" by (cases "ansi_feed text_feed b a t1")
  with ansi_shown [of b a t1] have "set out \<subseteq> text_codes \<union> screen_codes" by (simp add: shows_ok_def)
  with held Cons.IH [of a1 t2] t1 step show ?case by (auto split: prod.splits)
qed simp



section \<open>Unfinished sequences give way\<close>



lemma ansi_text: "ap_state a = 0 \<Longrightarrow> b \<noteq> 0x1B \<Longrightarrow> ansi_feed txt b a t = (a, txt b t)"
  by (simp add: ansi_feed_def)








section \<open>Complete sequences are translated\<close>

text \<open>A host's output as a program writes it, and what each piece is to mean.\<close>

datatype screen_item =
    Shown byte
  | Csi "nat list" byte
  | TwoByte byte
  | StringSeq byte "byte list"

fun semicolons :: "nat list \<Rightarrow> byte list" where
  "semicolons [] = []"
| "semicolons [n] = dec_string n"
| "semicolons (n # m # ns) = dec_string n @ 0x3B # semicolons (m # ns)"

definition item_wire :: "screen_item \<Rightarrow> byte list" where
  "item_wire x = (case x of
      Shown b \<Rightarrow> [b]
    | Csi ns f \<Rightarrow> [0x1B, 0x5B] @ semicolons ns @ [f]
    | TwoByte c \<Rightarrow> [0x1B, c]
    | StringSeq k payload \<Rightarrow> [0x1B, k] @ payload @ [0x07])"

definition item_ok :: "screen_item \<Rightarrow> bool" where
  "item_ok x \<longleftrightarrow> (case x of
      Shown b \<Rightarrow> b < 0x80 \<and> b \<noteq> 0x1B
    | Csi ns f \<Rightarrow> list_all (\<lambda>n. n \<le> 65535) ns \<and> length (semicolons ns) \<le> 64 \<and> 0x40 \<le> f \<and> f \<le> 0x7E
    | TwoByte c \<Rightarrow> 0x20 \<le> c \<and> c \<notin> {0x5B, 0x5D, 0x50, 0x58, 0x5E, 0x5F}
    | StringSeq k payload \<Rightarrow> k \<in> {0x5D, 0x50, 0x58, 0x5E, 0x5F} \<and> list_all (\<lambda>b. b \<noteq> 0x07 \<and> b \<noteq> 0x1B) payload \<and>
        length payload < STRING_SEQ_CAP)"

text \<open>A control sequence by its numbers: colours, clear, home, and movement at most 80 times.\<close>

definition csi_meaning :: "byte \<Rightarrow> nat list \<Rightarrow> bool \<Rightarrow> bool \<times> byte list" where
  "csi_meaning f ns bold =
     (let n = (case ns of [] \<Rightarrow> 0 | n # _ \<Rightarrow> n); move = (\<lambda>code. (bold, replicate (if n = 0 then 1 else min n 80) code))
      in if f = 0x6D then sgr ns bold
         else if f = 0x4A then (bold, if n = 2 \<or> n = 3 then [CLR] else [])
         else if f = 0x48 \<or> f = 0x66 then (bold, if \<forall>p\<in>set ns. p \<le> 1 then [HOME] else [])
         else if f = 0x41 then move CRSR_UP else if f = 0x42 then move CRSR_DOWN
         else if f = 0x43 then move CRSR_RIGHT else if f = 0x44 then move CRSR_LEFT
         else (bold, []))"

definition item_meaning :: "screen_item \<Rightarrow> bool \<Rightarrow> bool \<times> byte list" where
  "item_meaning x bold = (case x of
      Shown b \<Rightarrow> (bold, [translate_ascii_to_petscii_byte (if b = 0x60 then 0x27 else if b = 0x7E then 0x2D else b)])
    | Csi ns f \<Rightarrow> csi_meaning f ns bold
    | TwoByte c \<Rightarrow> (bold, [])
    | StringSeq k payload \<Rightarrow> (bold, []))"

fun items_meaning :: "screen_item list \<Rightarrow> bool \<Rightarrow> bool \<times> byte list" where
  "items_meaning [] bold = (bold, [])"
| "items_meaning (x # xs) bold = (case item_meaning x bold of (bold1, out) \<Rightarrow>
     case items_meaning xs bold1 of (bold2, rest) \<Rightarrow> (bold2, out @ rest))"

lemma saturated_sum:
  fixes f :: "'a \<Rightarrow> nat"
  shows "foldl (\<lambda>acc b. min (min (acc * 10) m + f b) m) (min a m) bs = min (foldl (\<lambda>acc b. acc * 10 + f b) a bs) m"
proof (induction bs arbitrary: a)
  case (Cons b bs)
  have "min (min (min a m * 10) m + f b) m = min (a * 10 + f b) m" by (simp add: min_def)
  with Cons.IH [of "a * 10 + f b"] show ?case by simp
qed simp

lemma param_value_dec: "n \<le> 65535 \<Longrightarrow> param_value (dec_string n) = n"
proof -
  assume n: "n \<le> 65535"
  have "list_all (\<lambda>c. 0x30 \<le> c \<and> c \<le> 0x39) (dec_string n)" by (rule radix_string_digits(3)) simp_all
  then have "filter is_ascii_digit (dec_string n) = dec_string n"
    by (simp add: filter_id_conv list_all_iff is_ascii_digit_def in_range_def)
  with saturated_sum [where f = "\<lambda>b :: byte. unat (b - 0x30)" and m = 65535 and a = 0 and bs = "dec_string n"] radix_string_value [of 10 n] n show ?thesis
    by (simp add: param_value_def digit_value_def)
qed

lemma dec_no_semicolon: "0x3B \<notin> set (dec_string n)"
  using radix_string_digits(3) [of 10 n] by (auto simp: list_all_iff)

lemma split_on_token: "c \<notin> set xs \<Longrightarrow> split_on c (xs @ c # ys) = xs # split_on c ys" "c \<notin> set xs \<Longrightarrow> split_on c xs = [xs]"
  by (induction xs) auto

lemma parse_semicolons: "list_all (\<lambda>n. n \<le> 65535) ns \<Longrightarrow> parse_params (semicolons ns) = ns"
proof (induction ns rule: semicolons.induct)
  case (2 n)
  with radix_string_digits(1) [of 10 n] show ?case
    by (simp add: parse_params_def split_on_token(2) [OF dec_no_semicolon] param_value_dec)
next
  case (3 n m ns)
  have "semicolons (m # ns) \<noteq> []" using radix_string_digits(1) [of 10 m] by (cases ns) auto
  with 3 show ?case
    by (simp add: parse_params_def split_on_token(1) [OF dec_no_semicolon] param_value_dec)
qed (simp add: parse_params_def)

lemma semicolons_bytes: "list_all (\<lambda>c. 0x30 \<le> c \<and> c \<le> 0x3B) (semicolons ns)"
proof -
  have "list_all (\<lambda>c. 0x30 \<le> c \<and> c \<le> 0x3B) (dec_string n)" for n
    using radix_string_digits(3) [of 10 n] by (force simp: list_all_iff word_le_nat_alt)
  then show ?thesis by (induction ns rule: semicolons.induct) auto
qed

lemma emit_csi_meaning:
  assumes "list_all (\<lambda>n. n \<le> 65535) ns"
  shows "emit_csi f (semicolons ns) bold = csi_meaning f ns bold"
proof -
  have "\<not> (semicolons ns \<noteq> [] \<and> 0x3C \<le> hd (semicolons ns) \<and> hd (semicolons ns) \<le> 0x3F)"
    using semicolons_bytes [of ns] by (cases "semicolons ns") (auto simp: word_le_nat_alt)
  then show ?thesis
    using parse_semicolons [OF assms]
    by (auto simp: emit_csi_def csi_meaning_def first_param_def Let_def split: list.splits)
qed


text \<open>The translator between two pieces: only the bold flag remains of what came before.\<close>

abbreviation "at_text bold \<equiv> new_ansi\<lparr>ap_bold := bold\<rparr>"

lemma feed_append:
  "feed_petscii bs a t = (a1, t1, out1) \<Longrightarrow> feed_petscii cs a1 t1 = (a2, t2, out2) \<Longrightarrow>
   feed_petscii (bs @ cs) a t = (a2, t2, out1 @ out2)"
proof (induction bs arbitrary: a t out1)
  case (Cons b bs)
  then show ?case by (fastforce split: prod.splits)
qed simp

lemma feed_in_sequence:
  assumes "ansi_feed text_feed b a t = (a1, t, [])" "ap_state a \<noteq> 0" "feed_petscii bs a1 t = (a2, t2, out)"
  shows "feed_petscii (b # bs) a t = (a2, t2, out)"
  using assms by simp

lemma params_read:
  "list_all (\<lambda>c. 0x30 \<le> c \<and> c \<le> 0x3B) bs \<Longrightarrow> length raw + length bs \<le> 64 \<Longrightarrow> ap_state a = 2 \<Longrightarrow> ap_params a = raw \<Longrightarrow>
   feed_petscii bs a t = (a\<lparr>ap_params := raw @ bs\<rparr>, t, [])"
proof (induction bs arbitrary: a raw)
  case (Cons b bs)
  have "\<not> 0x40 \<le> b" "b \<noteq> 0x1B" "\<not> b < 0x20" "b \<noteq> 0x7F"
    using Cons.prems(1) by (auto simp: word_le_nat_alt word_less_nat_alt)
  then have "ansi_feed text_feed b a t = (a\<lparr>ap_params := raw @ [b]\<rparr>, t, [])"
    using Cons.prems by (simp add: ansi_feed_def CSI_PARAM_CAP_def)
  with Cons.IH [of "raw @ [b]" "a\<lparr>ap_params := raw @ [b]\<rparr>"] Cons.prems show ?case by simp
qed simp

lemma payload_swallowed:
  "list_all (\<lambda>b. b \<noteq> 0x07 \<and> b \<noteq> 0x1B) bs \<Longrightarrow> ap_swallowed a + length bs < STRING_SEQ_CAP \<Longrightarrow> ap_state a = 3 \<Longrightarrow>
   feed_petscii bs a t = (a\<lparr>ap_swallowed := ap_swallowed a + length bs\<rparr>, t, [])"
proof (induction bs arbitrary: a)
  case (Cons b bs)
  let ?a = "a\<lparr>ap_swallowed := ap_swallowed a + 1\<rparr>"
  have "ansi_feed text_feed b a t = (?a, t, [])"
    using Cons.prems by (simp add: ansi_feed_def Let_def)
  with Cons.IH [of ?a] Cons.prems show ?case by simp
qed simp

lemma escape_begins: "feed_petscii [0x1B] (at_text bold) Normal = ((at_text bold)\<lparr>ap_state := 1\<rparr>, Normal, [])"
  by (simp add: ansi_feed_def new_ansi_def flush_held_def flush_punct_def)

lemma item_fed:
  assumes "item_ok x" "item_meaning x bold = (bold1, out)"
  shows "feed_petscii (item_wire x) (at_text bold) Normal = (at_text bold1, Normal, out)"
proof (cases x)
  case (Shown b)
  then have "text_feed b Normal = (Normal, out)" "bold1 = bold"
    using assms by (auto simp: item_ok_def item_meaning_def text_feed_def punct_feed_def feed_ground_def
        word_less_nat_alt word_le_nat_alt)
  with Shown assms(1) show ?thesis by (simp add: item_ok_def item_wire_def ansi_text new_ansi_def)
next
  case (Csi ns f)
  let ?csi = "(at_text bold)\<lparr>ap_state := 2\<rparr>"
  from Csi assms(1) have ok: "list_all (\<lambda>n. n \<le> 65535) ns" "length (semicolons ns) \<le> 64" "0x40 \<le> f" "f \<le> 0x7E"
    by (simp_all add: item_ok_def)
  have a: "feed_petscii [0x5B] ((at_text bold)\<lparr>ap_state := 1\<rparr>) Normal = (?csi, Normal, [])"
    by (simp add: ansi_feed_def new_ansi_def)
  have b: "feed_petscii (semicolons ns) ?csi Normal = (?csi\<lparr>ap_params := semicolons ns\<rparr>, Normal, [])"
    using params_read [OF semicolons_bytes, of "[]" ns ?csi Normal] ok(2) by (simp add: new_ansi_def)
  have c: "feed_petscii [f] (?csi\<lparr>ap_params := semicolons ns\<rparr>) Normal = (at_text bold1, Normal, out)"
    using ok Csi assms(2) by (simp add: ansi_feed_def new_ansi_def emit_csi_meaning item_meaning_def)
  from feed_append [OF escape_begins feed_append [OF a feed_append [OF b c]]] Csi show ?thesis by (simp add: item_wire_def)
next
  case (TwoByte c)
  have "\<not> (c \<le> 0x1F \<and> c \<noteq> 0x1B)" "c \<noteq> 0x1B"
    using TwoByte assms(1) by (auto simp: item_ok_def word_le_nat_alt)
  then have "feed_petscii [c] ((at_text bold)\<lparr>ap_state := 1\<rparr>) Normal = (at_text bold1, Normal, out)"
    using TwoByte assms by (simp add: ansi_feed_def new_ansi_def item_ok_def item_meaning_def)
  from feed_append [OF escape_begins this] TwoByte show ?thesis by (simp add: item_wire_def)
next
  case (StringSeq k payload)
  let ?str = "(at_text bold)\<lparr>ap_state := 3\<rparr>"
  from StringSeq assms(1) have ok: "k \<in> {0x5D, 0x50, 0x58, 0x5E, 0x5F}" "list_all (\<lambda>b. b \<noteq> 0x07 \<and> b \<noteq> 0x1B) payload"
      "length payload < STRING_SEQ_CAP" by (simp_all add: item_ok_def)
  have a: "feed_petscii [k] ((at_text bold)\<lparr>ap_state := 1\<rparr>) Normal = (?str, Normal, [])"
    using ok(1) by (auto simp: ansi_feed_def new_ansi_def)
  have b: "feed_petscii payload ?str Normal = (?str\<lparr>ap_swallowed := length payload\<rparr>, Normal, [])"
    using payload_swallowed [OF ok(2), of ?str Normal] ok(3) by (simp add: new_ansi_def)
  have c: "feed_petscii [0x07] (?str\<lparr>ap_swallowed := length payload\<rparr>) Normal = (at_text bold1, Normal, out)"
    using StringSeq assms(2) by (simp add: ansi_feed_def new_ansi_def item_meaning_def Let_def)
  from feed_append [OF escape_begins feed_append [OF a feed_append [OF b c]]] StringSeq show ?thesis by (simp add: item_wire_def)
qed

text \<open>Property C17: what a host writes is translated piece by piece. A stream of ASCII text, control
  sequences with decimal parameters, two-byte escapes and string sequences gives the C64 exactly the
  meaning of each piece in turn: the colours and attributes with the bold flag carried from one
  sequence to the next, clear, home, cursor movement, the text in the C64's letters, and nothing else.\<close>

theorem petscii_translates_hosts:
  assumes "list_all item_ok xs"
  shows "feed_petscii (concat (map item_wire xs)) (at_text bold) Normal =
    (at_text (fst (items_meaning xs bold)), Normal, snd (items_meaning xs bold))"
  using assms
proof (induction xs arbitrary: bold)
  case (Cons x xs)
  obtain bold1 out where x: "item_meaning x bold = (bold1, out)" by (cases "item_meaning x bold")
  from feed_append [OF item_fed [OF _ x] Cons.IH [of bold1]] Cons.prems x show ?case by (simp split: prod.splits)
qed simp

theorem petscii_translates_hosts_witness:
  "feed_petscii [0x1B, 0x5B, 0x31, 0x3B, 0x33, 0x32, 0x6D, 0x41, 0x1B, 0x5B, 0x32, 0x4A] (at_text False) Normal =
     (at_text True, Normal, [LIGHT_GREEN, 0x61, CLR])"
proof -
  have d: "dec_string (Suc 0) = [0x31]" "dec_string 2 = [0x32]" "dec_string 32 = [0x33, 0x32]"
    by (simp_all add: radix_string.simps digit_char_def)
  have "list_all item_ok [Csi [1, 32] 0x6D, Shown 0x41, Csi [2] 0x4A]" by (simp add: item_ok_def d)
  from petscii_translates_hosts [OF this, of False] show ?thesis
    by (simp add: item_wire_def d item_meaning_def csi_meaning_def sgr_def sgr_step_def FG_BRIGHT_def
        translate_ascii_to_petscii_byte_def)
qed


section \<open>A sequence that outlives the cap\<close>

text \<open>
  The cap on a string sequence is looked at only when a byte is neither a terminator nor an ESC. A
  payload of ESC pairs is swallowed without end.
\<close>

lemma escape_pairs_outlive_cap:
  "\<exists>a. feed_petscii ([0x1B, 0x5D] @ concat (replicate n [0x1B, 0x41])) new_ansi Normal = (a, Normal, []) \<and> ap_state a = 3"
proof -
  have pairs: "\<exists>a1. feed_petscii (concat (replicate n [0x1B, 0x41])) a Normal = (a1, Normal, []) \<and> ap_state a1 = 3" if "ap_state a = 3" for a
    using that
  proof (induction n arbitrary: a)
    case (Suc n)
    let ?a = "a\<lparr>ap_swallowed := ap_swallowed a + 1, ap_state := 3\<rparr>"
    have pair: "feed_petscii [0x1B, 0x41] a Normal = (?a, Normal, [])"
      using Suc.prems by (simp add: ansi_feed_def Let_def)
    obtain a1 where a1: "feed_petscii (concat (replicate n [0x1B, 0x41])) ?a Normal = (a1, Normal, [])" "ap_state a1 = 3"
      using Suc.IH [of ?a] by auto
    from feed_append [OF pair a1(1)] a1(2) show ?case by simp
  qed simp
  have first: "feed_petscii [0x1B, 0x5D] new_ansi Normal = (new_ansi\<lparr>ap_state := 3\<rparr>, Normal, [])"
    by (simp add: ansi_feed_def new_ansi_def flush_held_def flush_punct_def)
  obtain a1 where a1: "feed_petscii (concat (replicate n [0x1B, 0x41])) (new_ansi\<lparr>ap_state := 3\<rparr>) Normal = (a1, Normal, [])" "ap_state a1 = 3"
    using pairs [of "new_ansi\<lparr>ap_state := 3\<rparr>"] by auto
  from feed_append [OF first a1(1)] a1(2) show ?thesis by simp
qed

end
