(* ===== verification/Gateway_Terminal.thy ===== *)
theory Gateway_Terminal
  imports Petscii
begin

text \<open>
  The terminal side of a gateway session (\<^verbatim>\<open>src/src/telnet/gateway.rs\<close>, first part): the filter on what a
  remote sends, which drops window titles for a terminal that understands escapes, strips sequences
  for one that does not and translates for a Commodore; and the keys on their way to the remote. The
  lemmas show that the filter of an ANSI client, through which file transfers pass too, removes
  complete window titles and nothing else.
\<close>

section \<open>The output filter\<close>

abbreviation (input) ESC :: byte where "ESC \<equiv> 0x1B"

datatype GatewayFilter = Petscii | Raw | Ascii | Ansi

definition OSC_TITLE_MAX :: nat where "OSC_TITLE_MAX = 256"

text \<open>The state: 0 normal, 1 ESC seen, 2 CSI, 3 string sequence, 4 ESC in a string, 5 weighing a title, 6
  ESC while weighing one.\<close>

record GatewayOutState =
  go_mode :: GatewayFilter
  go_state :: nat
  go_swallowed :: nat
  go_held :: "byte list"
  go_petscii :: AnsiToPetscii
  go_text :: PetsciiPunctState

definition new_out :: "GatewayFilter \<Rightarrow> GatewayOutState" where
  "new_out mode = \<lparr>go_mode = mode, go_state = 0, go_swallowed = 0, go_held = [], go_petscii = new_ansi, go_text = Normal\<rparr>"

definition has_pending :: "GatewayOutState \<Rightarrow> bool" where
  "has_pending s \<longleftrightarrow> go_mode s = Ansi \<and> (go_held s \<noteq> [] \<or> go_state s = 1)"

definition flush_pending :: "GatewayOutState \<Rightarrow> GatewayOutState \<times> byte list" where
  "flush_pending s =
     (if \<not> has_pending s then (s, [])
      else (s\<lparr>go_held := [], go_state := 0\<rparr>,
            if go_state s = 6 then go_held s @ [ESC]
            else if go_held s \<noteq> [] then go_held s
            else if go_state s = 1 then [ESC] else []))"

definition is_title :: "byte list \<Rightarrow> bool" where
  "is_title held \<longleftrightarrow> 4 \<le> length held \<and> held ! 2 \<in> {0x30, 0x31, 0x32} \<and> held ! 3 = 0x3B"

definition filter_byte :: "byte \<Rightarrow> GatewayOutState \<Rightarrow> GatewayOutState \<times> byte list" where
  "filter_byte b s =
     (let strip_all = (go_mode s \<noteq> Ansi) in
      if go_state s = 0 then
        if b = ESC then (s\<lparr>go_state := 1\<rparr>, []) else (s, [b])
      else if go_state s = 1 then
        if b = 0x5D \<and> \<not> strip_all then (s\<lparr>go_held := [ESC, 0x5D], go_state := 5\<rparr>, [])
        else if b \<in> {0x5D, 0x50, 0x5E, 0x5F, 0x58} \<and> strip_all then (s\<lparr>go_state := 3\<rparr>, [])
        else if b = ESC then (s\<lparr>go_state := 1\<rparr>, if strip_all then [] else [ESC])
        else if strip_all then (s\<lparr>go_state := (if b = 0x5B then 2 else 0)\<rparr>, [])
        else (s\<lparr>go_state := 0\<rparr>, [ESC, b])
      else if go_state s = 2 then
        if 0x40 \<le> b \<and> b \<le> 0x7E then (s\<lparr>go_state := 0\<rparr>, [])
        else if b = ESC then (s\<lparr>go_state := 1\<rparr>, [])
        else if b < 0x20 \<or> b = 0x7F then (s\<lparr>go_state := 0\<rparr>, [])
        else (s, [])
      else if go_state s = 3 then
        let swallowed = go_swallowed s + 1; s1 = s\<lparr>go_swallowed := swallowed\<rparr>
        in if b = 0x07 then (s1\<lparr>go_state := 0, go_swallowed := 0\<rparr>, [])
           else if b = ESC then (s1\<lparr>go_state := 4\<rparr>, [])
           else if swallowed \<ge> STRING_SEQ_CAP then (s1\<lparr>go_state := 0, go_swallowed := 0\<rparr>, [])
           else (s1, [])
      else if go_state s = 4 then
        if b = 0x5C then (s\<lparr>go_state := 0, go_swallowed := 0\<rparr>, []) else (s\<lparr>go_state := 3\<rparr>, [])
      else if go_state s = 5 then
        if b = 0x07 then
          (s\<lparr>go_held := [], go_state := 0\<rparr>, if is_title (go_held s) then [] else go_held s @ [b])
        else if b = ESC then (s\<lparr>go_state := 6\<rparr>, [])
        else if \<not> (0x20 \<le> b \<and> b \<le> 0x7E) \<or> length (go_held s) \<ge> OSC_TITLE_MAX then
          (s\<lparr>go_held := [], go_state := 0\<rparr>, go_held s @ [b])
        else (s\<lparr>go_held := go_held s @ [b]\<rparr>, [])
      else if b = 0x5C then
        (s\<lparr>go_held := [], go_state := 0\<rparr>, if is_title (go_held s) then [] else go_held s @ [ESC, 0x5C])
      else if b = 0x5D then (s\<lparr>go_held := [ESC, 0x5D], go_state := 5\<rparr>, go_held s)
      else if b = ESC then (s\<lparr>go_held := [], go_state := 1\<rparr>, go_held s @ [ESC])
      else (s\<lparr>go_held := [], go_state := 0\<rparr>, go_held s @ [ESC, b]))"

fun filter_bytes :: "byte list \<Rightarrow> GatewayOutState \<Rightarrow> GatewayOutState \<times> byte list" where
  "filter_bytes [] s = (s, [])"
| "filter_bytes (b # bs) s = (case filter_byte b s of (s1, out) \<Rightarrow>
     case filter_bytes bs s1 of (s2, later) \<Rightarrow> (s2, out @ later))"

definition filter_gateway_output :: "byte list \<Rightarrow> GatewayOutState \<Rightarrow> GatewayOutState \<times> byte list" where
  "filter_gateway_output input s = (case go_mode s of
      Raw \<Rightarrow> (s, input)
    | Petscii \<Rightarrow> (case feed_petscii input (go_petscii s) (go_text s) of (a, t, out) \<Rightarrow>
        (s\<lparr>go_petscii := a, go_text := t\<rparr>, out))
    | _ \<Rightarrow> filter_bytes input s)"


section \<open>Keys on their way to the remote\<close>

definition GW_ESC_PAIR :: nat where "GW_ESC_PAIR = 500"

text \<open>The double press that leaves a session: when the last byte was an ESC, and the moment it came.\<close>

definition esc_press :: "nat \<Rightarrow> nat option \<Rightarrow> bool \<times> nat option" where
  "esc_press now prev =
     (let leave = (case prev of Some at \<Rightarrow> now - at \<le> GW_ESC_PAIR | None \<Rightarrow> False)
      in (leave, if leave then None else Some now))"

definition esc_other :: "nat option \<Rightarrow> nat option" where
  "esc_other prev = None"

definition is_gateway_leave_key :: "byte \<Rightarrow> bool \<Rightarrow> bool" where
  "is_gateway_leave_key b petscii \<longleftrightarrow> (if petscii then b = 0x5F else b = ESC)"

definition petscii_to_ascii_byte :: "byte \<Rightarrow> byte" where
  "petscii_to_ascii_byte b =
     (if 0x41 \<le> b \<and> b \<le> 0x5A then b + 32 else if 0xC1 \<le> b \<and> b \<le> 0xDA then b - 0x80 else b)"

definition gateway_input_for_remote :: "byte \<Rightarrow> GatewayFilter \<Rightarrow> byte \<Rightarrow> byte list" where
  "gateway_input_for_remote b mode erase_char =
     (if mode = Raw then [b]
      else case (if mode = Petscii then key_to_ansi_host b else None) of
             Some keys \<Rightarrow> keys
           | None \<Rightarrow>
               let k = (if mode = Petscii then petscii_to_ascii_byte b else b)
               in [if k = erase_char \<and> erase_char \<noteq> 0x7F then 0x7F else k])"

definition normalize_gateway_input :: "byte \<Rightarrow> bool \<Rightarrow> byte option \<times> bool" where
  "normalize_gateway_input b last_cr =
     (if (b = 0x0A \<or> b = 0x00) \<and> last_cr then (None, False) else (Some b, b = 0x0D))"


section \<open>Only window titles are dropped\<close>

definition printable :: "byte \<Rightarrow> bool" where
  "printable b \<longleftrightarrow> 0x20 \<le> b \<and> b \<le> 0x7E"

text \<open>The window titles of xterm: code 0, 1 or 2, printable text, BEL or ST.\<close>

definition window_title :: "byte list \<Rightarrow> bool" where
  "window_title t \<longleftrightarrow> (\<exists>code body final. t = [ESC, 0x5D, code, 0x3B] @ body @ final \<and> code \<in> {0x30, 0x31, 0x32} \<and>
     list_all printable body \<and> length body \<le> 252 \<and> final \<in> {[0x07], [ESC, 0x5C]})"

inductive without_titles :: "byte list \<Rightarrow> byte list \<Rightarrow> bool" where
  start: "without_titles [] []"
| kept: "without_titles bs out \<Longrightarrow> without_titles (bs @ xs) (out @ xs)"
| title: "without_titles bs out \<Longrightarrow> window_title t \<Longrightarrow> without_titles (bs @ t) out"

definition withheld :: "GatewayOutState \<Rightarrow> byte list" where
  "withheld s = (if go_state s = 1 then [ESC] else if go_state s = 5 then go_held s
     else if go_state s = 6 then go_held s @ [ESC] else [])"

text \<open>In an ANSI session the held bytes are the start of an OSC, and empty outside one.\<close>

definition ansi_ok :: "GatewayOutState \<Rightarrow> bool" where
  "ansi_ok s \<longleftrightarrow> go_mode s = Ansi \<and> go_state s \<in> {0, 1, 5, 6} \<and>
     (if go_state s \<in> {5, 6} then (\<exists>body. go_held s = [ESC, 0x5D] @ body \<and> list_all printable body \<and> length body \<le> 254)
      else go_held s = [])"

lemma flush_releases: "ansi_ok s \<Longrightarrow> flush_pending s = (s\<lparr>go_held := [], go_state := 0\<rparr>, withheld s)"
proof -
  assume ok: "ansi_ok s"
  then have s: "go_mode s = Ansi" by (simp add: ansi_ok_def)
  show ?thesis
  proof (cases "go_state s \<in> {5, 6}")
    case True
    with ok have "go_held s \<noteq> []" by (auto simp: ansi_ok_def)
    with s True show ?thesis by (auto simp: flush_pending_def has_pending_def withheld_def)
  next
    case False
    with ok have "go_held s = []" "go_state s = 0 \<or> go_state s = 1" by (auto simp: ansi_ok_def)
    with s show ?thesis by (cases s) (auto simp: flush_pending_def has_pending_def withheld_def)
  qed
qed

lemma weighed_title:
  assumes "ansi_ok s" "go_state s \<in> {5, 6}" "is_title (go_held s)" "final \<in> {[0x07], [ESC, 0x5C]}"
  shows "window_title (go_held s @ final)"
proof -
  from assms(1,2) obtain body where body: "go_held s = [ESC, 0x5D] @ body" "list_all printable body" "length body \<le> 254"
    by (auto simp: ansi_ok_def)
  from assms(3) body(1) obtain c d rest where "body = c # d # rest" by (auto simp: is_title_def Suc_le_length_iff numeral_eq_Suc)
  with assms(3,4) body show ?thesis
    unfolding window_title_def by (intro exI [of _ c] exI [of _ rest] exI [of _ final]) (auto simp: is_title_def)
qed


lemma filter_step:
  assumes "ansi_ok s" "filter_byte b s = (s1, out)"
  shows "ansi_ok s1 \<and> (withheld s @ [b] = out @ withheld s1 \<or> out = [] \<and> withheld s1 = [] \<and> window_title (withheld s @ [b]))"
proof -
  have mode: "go_mode s = Ansi" using assms(1) by (simp add: ansi_ok_def)
  consider "go_state s = 0" | "go_state s = 1" | "go_state s = 5" | "go_state s = 6" using assms(1) by (auto simp: ansi_ok_def)
  then show ?thesis
  proof cases
    case 1
    with assms mode show ?thesis by (auto simp: filter_byte_def ansi_ok_def withheld_def split: if_splits)
  next
    case 2
    with assms mode show ?thesis by (auto simp: filter_byte_def ansi_ok_def withheld_def split: if_splits)
  next
    case 3
    then obtain body where body: "go_held s = [ESC, 0x5D] @ body" "list_all printable body" "length body \<le> 254"
      using assms(1) by (auto simp: ansi_ok_def)
    have ready: "window_title (go_held s @ [0x07])" if "is_title (go_held s)"
      using weighed_title [OF assms(1) _ that, of "[0x07]"] 3 by simp
    consider (bel) "b = 0x07" | (esc) "b = ESC" | (data) "b \<noteq> 0x07" "b \<noteq> ESC" "\<not> printable b \<or> length (go_held s) \<ge> 256"
      | (more) "b \<noteq> 0x07" "b \<noteq> ESC" "printable b" "length (go_held s) < 256" by fastforce
    then show ?thesis
    proof cases
      case bel
      with 3 assms mode ready show ?thesis by (auto simp: filter_byte_def ansi_ok_def withheld_def split: if_splits)
    next
      case esc
      with 3 assms mode body show ?thesis by (auto simp: filter_byte_def ansi_ok_def withheld_def)
    next
      case data
      then have "filter_byte b s = (s\<lparr>go_held := [], go_state := 0\<rparr>, go_held s @ [b])"
        using 3 by (auto simp: filter_byte_def printable_def OSC_TITLE_MAX_def)
      with 3 assms mode show ?thesis by (auto simp: ansi_ok_def withheld_def)
    next
      case more
      then have "filter_byte b s = (s\<lparr>go_held := go_held s @ [b]\<rparr>, [])"
        using 3 by (simp add: filter_byte_def printable_def OSC_TITLE_MAX_def)
      with 3 assms mode body more show ?thesis by (auto simp: ansi_ok_def withheld_def)
    qed
  next
    case 4
    have ready: "window_title (go_held s @ [ESC, 0x5C])" if "is_title (go_held s)"
      using weighed_title [OF assms(1) _ that, of "[ESC, 0x5C]"] 4 by simp
    with 4 assms mode show ?thesis by (auto simp: filter_byte_def ansi_ok_def withheld_def split: if_splits)
  qed
qed

lemma filter_run:
  "ansi_ok s \<Longrightarrow> without_titles seen shown \<Longrightarrow> filter_bytes bs s = (s1, out) \<Longrightarrow>
   ansi_ok s1 \<and> (\<exists>seen1. seen @ withheld s @ bs = seen1 @ withheld s1 \<and> without_titles seen1 (shown @ out))"
proof (induction bs arbitrary: s seen shown out)
  case (Cons b bs)
  obtain s2 o1 where step: "filter_byte b s = (s2, o1)" by (cases "filter_byte b s")
  from Cons.prems(3) step obtain o2 where run: "filter_bytes bs s2 = (s1, o2)" and eq: "out = o1 @ o2"
    by (auto split: prod.splits)
  note ok = filter_step [OF Cons.prems(1) step]
  then obtain seen2 where seen2: "seen @ withheld s @ [b] = seen2 @ withheld s2" "without_titles seen2 (shown @ o1)"
    using Cons.prems(2) without_titles.kept [of seen shown o1] without_titles.title [of seen shown "withheld s @ [b]"]
    by (metis append.assoc append_Nil2)
  from Cons.IH [OF conjunct1 [OF ok] seen2(2) run] obtain seen1 where
    "ansi_ok s1" "seen2 @ withheld s2 @ bs = seen1 @ withheld s1" "without_titles seen1 ((shown @ o1) @ o2)" by blast
  moreover have "seen @ withheld s @ b # bs = seen2 @ withheld s2 @ bs" using seen2(1) by (metis append.assoc append_Cons append_Nil)
  ultimately show ?case using eq by (intro conjI exI [of _ seen1]) simp_all
qed (auto intro: exI [of _ seen])

text \<open>Property C18: to a terminal that understands escapes the filter is transparent but for window titles.
  Whatever the remote sends, in whatever reads, what the client has been shown, followed by the bytes
  the filter still withholds, is the remote's output with complete window titles taken out and every
  other byte in its place; at most 257 bytes are withheld, and a flush releases exactly those.\<close>

theorem filter_drops_only_titles:
  "\<exists>s out. filter_gateway_output bs (new_out Ansi) = (s, out) \<and> without_titles bs (out @ withheld s) \<and>
     length (withheld s) \<le> 257 \<and> snd (flush_pending s) = withheld s"
proof -
  obtain s out where run: "filter_bytes bs (new_out Ansi) = (s, out)" by (cases "filter_bytes bs (new_out Ansi)")
  have "ansi_ok (new_out Ansi)" "withheld (new_out Ansi) = []" by (simp_all add: ansi_ok_def new_out_def withheld_def)
  with filter_run [OF _ without_titles.start run] obtain seen where
    s: "ansi_ok s" "bs = seen @ withheld s" "without_titles seen out" by auto
  then have "length (withheld s) \<le> 257" by (auto simp: ansi_ok_def withheld_def)
  moreover have "without_titles bs (out @ withheld s)" using without_titles.kept [OF s(3)] s(2) by simp
  ultimately show ?thesis
    using run flush_releases [OF s(1)] by (intro exI [of _ s] exI [of _ out]) (simp add: filter_gateway_output_def new_out_def)
qed

text \<open>The titles do go: a complete one leaves nothing on the screen and nothing held.\<close>

lemma title_text_held:
  "list_all printable body \<Longrightarrow> go_state s = 5 \<Longrightarrow> length (go_held s) + length body \<le> 256 \<Longrightarrow>
   filter_bytes body s = (s\<lparr>go_held := go_held s @ body\<rparr>, [])"
proof (induction body arbitrary: s)
  case (Cons b body)
  have "b \<noteq> 0x07" "b \<noteq> ESC" "0x20 \<le> b" "b \<le> 0x7E" using Cons.prems(1) by (auto simp: printable_def)
  then have "filter_byte b s = (s\<lparr>go_held := go_held s @ [b]\<rparr>, [])"
    using Cons.prems by (simp add: filter_byte_def OSC_TITLE_MAX_def)
  with Cons.IH [of "s\<lparr>go_held := go_held s @ [b]\<rparr>"] Cons.prems show ?case by simp
qed simp

lemma filter_append: "filter_bytes (xs @ ys) s =
    (case filter_bytes xs s of (s1, out1) \<Rightarrow> case filter_bytes ys s1 of (s2, out2) \<Rightarrow> (s2, out1 @ out2))"
  by (induction xs arbitrary: s) (simp_all split: prod.splits)

lemma window_title_dropped:
  assumes "window_title t"
  shows "filter_bytes t (new_out Ansi) = (new_out Ansi, [])"
proof -
  from assms obtain code body final where t: "t = [ESC, 0x5D] @ (code # 0x3B # body) @ final" "code \<in> {0x30, 0x31, 0x32}"
    "list_all printable body" "length body \<le> 252" "final \<in> {[0x07], [ESC, 0x5C]}"
    by (auto simp: window_title_def)
  define held where "held = [ESC, 0x5D] @ code # 0x3B # body"
  have "list_all printable (code # 0x3B # body)" using t(2,3) by (auto simp: printable_def)
  moreover have "filter_bytes [ESC, 0x5D] (new_out Ansi) = ((new_out Ansi)\<lparr>go_state := 5, go_held := [ESC, 0x5D]\<rparr>, [])"
    by (simp add: filter_byte_def new_out_def)
  ultimately have held: "filter_bytes ([ESC, 0x5D] @ (code # 0x3B # body)) (new_out Ansi) =
      ((new_out Ansi)\<lparr>go_state := 5, go_held := held\<rparr>, [])"
    using title_text_held [of "code # 0x3B # body" "(new_out Ansi)\<lparr>go_state := 5, go_held := [ESC, 0x5D]\<rparr>"] t(4)
    unfolding filter_append held_def by simp
  have "is_title held" using t(2) by (auto simp: is_title_def held_def)
  then have "filter_bytes final ((new_out Ansi)\<lparr>go_state := 5, go_held := held\<rparr>) = (new_out Ansi, [])"
    using t(5) by (auto simp: filter_byte_def new_out_def)
  with held show ?thesis
    by (simp only: t(1) append.assoc [symmetric] filter_append [of "[ESC, 0x5D] @ (code # 0x3B # body)" final] prod.case append_Nil)
qed

text \<open>Enter reaches the remote as one CR, however the client's terminal ends a line.\<close>

lemma enter_is_one_cr:
  "normalize_gateway_input 0x0D c = (Some 0x0D, True)"
  "normalize_gateway_input 0x0A True = (None, False)" "normalize_gateway_input 0x00 True = (None, False)"
  by (simp_all add: normalize_gateway_input_def)

end
