(* ===== verification/Telnet_Options.thy ===== *)
theory Telnet_Options
  imports Tnio Rust_Std
begin

text \<open>
  The telnet gateway's own end of a telnet connection (\<^verbatim>\<open>src/src/telnet/gateway.rs\<close>,
  \<^verbatim>\<open>GatewayTelnetIac\<close>) and the parser of the local user's stream that its bridge reads through
  (\<^verbatim>\<open>src/src/telnet/io.rs\<close>, \<^verbatim>\<open>InboundTelnet\<close>): commands are taken out of the data, options are
  negotiated by the Q method of RFC 1143, and the terminal's name and window size are reported.

  A \<^verbatim>\<open>&mut Vec<u8>\<close> that a function appends to is what it returns: a step gives the parser, the data
  and the replies.
\<close>

section \<open>Constants\<close>

abbreviation (input) OPT_BINARY :: byte where "OPT_BINARY \<equiv> 0"
abbreviation (input) OPT_ECHO :: byte where "OPT_ECHO \<equiv> 1"
abbreviation (input) OPT_SGA :: byte where "OPT_SGA \<equiv> 3"
abbreviation (input) OPT_STATUS :: byte where "OPT_STATUS \<equiv> 5"
abbreviation (input) OPT_TIMING_MARK :: byte where "OPT_TIMING_MARK \<equiv> 6"
abbreviation (input) OPT_TTYPE :: byte where "OPT_TTYPE \<equiv> 0x18"
abbreviation (input) OPT_NAWS :: byte where "OPT_NAWS \<equiv> 0x1F"
abbreviation (input) STATUS_IS :: byte where "STATUS_IS \<equiv> 0"
abbreviation (input) STATUS_SEND :: byte where "STATUS_SEND \<equiv> 1"
abbreviation (input) TTYPE_IS :: byte where "TTYPE_IS \<equiv> 0"
abbreviation (input) TTYPE_SEND :: byte where "TTYPE_SEND \<equiv> 1"

definition MAX_SB_BODY_BYTES :: nat where "MAX_SB_BODY_BYTES = 8192"

definition to_be_bytes :: "u16 \<Rightarrow> byte list" where
  "to_be_bytes w = [ucast (drop_bit 8 w), ucast w]"

definition from_be_bytes :: "byte \<Rightarrow> byte \<Rightarrow> u16" where
  "from_be_bytes h l = push_bit 8 (ucast h) OR ucast l"


section \<open>The gateway's parser\<close>

datatype OptState = No | Yes | WantYes | WantYesOpposite | WantNo | WantNoOpposite

datatype GatewayIacState = InText | SawIac | SawVerb byte | SawSbOption | InSb | InSbIac

record GatewayTelnetIac =
  gt_state :: GatewayIacState
  cooperate :: bool
  terminal_name :: "byte list"
  window_cols :: u16
  window_rows :: u16
  us_state :: "byte \<Rightarrow> OptState"
  him_state :: "byte \<Rightarrow> OptState"
  sent_dont :: "byte \<Rightarrow> bool"
  sent_wont :: "byte \<Rightarrow> bool"
  sb_option :: byte
  sb_body :: "byte list"

definition new_gateway :: "bool \<Rightarrow> byte list \<Rightarrow> u16 \<Rightarrow> u16 \<Rightarrow> GatewayTelnetIac \<times> byte list" where
  "new_gateway coop name cols rows =
     (let parser = \<lparr>gt_state = InText, cooperate = coop, terminal_name = name, window_cols = cols, window_rows = rows,
        us_state = (\<lambda>_. No), him_state = (\<lambda>_. No), sent_dont = (\<lambda>_. False), sent_wont = (\<lambda>_. False),
        sb_option = 0, sb_body = []\<rparr>
      in if coop
         then (parser\<lparr>us_state := (us_state parser)(OPT_TTYPE := WantYes, OPT_NAWS := WantYes),
                 him_state := (him_state parser)(OPT_ECHO := WantYes)\<rparr>,
               [IAC, WILL, OPT_TTYPE] @ [IAC, WILL, OPT_NAWS] @ [IAC, DO_CMD, OPT_ECHO])
         else (parser, []))"

definition cooperate_with_his_will :: "byte \<Rightarrow> bool" where
  "cooperate_with_his_will opt \<longleftrightarrow> opt = OPT_ECHO"

definition cooperate_with_his_do :: "GatewayTelnetIac \<Rightarrow> byte \<Rightarrow> bool" where
  "cooperate_with_his_do p opt \<longleftrightarrow> cooperate p \<and> (opt = OPT_TTYPE \<or> opt = OPT_NAWS)"

definition emit_naws_sb :: "GatewayTelnetIac \<Rightarrow> byte list" where
  "emit_naws_sb p = [IAC, SB, OPT_NAWS] @ iac_double (to_be_bytes (window_cols p) @ to_be_bytes (window_rows p)) @ [IAC, SE]"

definition set_him :: "byte \<Rightarrow> OptState \<Rightarrow> GatewayTelnetIac \<Rightarrow> GatewayTelnetIac" where
  "set_him opt q p = p\<lparr>him_state := (him_state p)(opt := q)\<rparr>"

definition set_us :: "byte \<Rightarrow> OptState \<Rightarrow> GatewayTelnetIac \<Rightarrow> GatewayTelnetIac" where
  "set_us opt q p = p\<lparr>us_state := (us_state p)(opt := q)\<rparr>"

definition set_dont :: "byte \<Rightarrow> bool \<Rightarrow> GatewayTelnetIac \<Rightarrow> GatewayTelnetIac" where
  "set_dont opt v p = p\<lparr>sent_dont := (sent_dont p)(opt := v)\<rparr>"

definition set_wont :: "byte \<Rightarrow> bool \<Rightarrow> GatewayTelnetIac \<Rightarrow> GatewayTelnetIac" where
  "set_wont opt v p = p\<lparr>sent_wont := (sent_wont p)(opt := v)\<rparr>"

definition handle_recv_will :: "byte \<Rightarrow> GatewayTelnetIac \<Rightarrow> GatewayTelnetIac \<times> byte list" where
  "handle_recv_will opt p = (case him_state p opt of
      No \<Rightarrow>
        if cooperate_with_his_will opt then (set_dont opt False (set_him opt Yes p), [IAC, DO_CMD, opt])
        else if \<not> sent_dont p opt then (set_dont opt True p, [IAC, DONT, opt])
        else (p, [])
    | Yes \<Rightarrow> (p, [])
    | WantYes \<Rightarrow> (set_him opt Yes p, [])
    | WantYesOpposite \<Rightarrow> (set_dont opt True (set_him opt WantNo p), [IAC, DONT, opt])
    | WantNo \<Rightarrow>
        if \<not> sent_dont p opt then (set_dont opt True (set_him opt No p), [IAC, DONT, opt])
        else (set_him opt No p, [])
    | WantNoOpposite \<Rightarrow> (set_dont opt False (set_him opt Yes p), []))"

definition handle_recv_wont :: "byte \<Rightarrow> GatewayTelnetIac \<Rightarrow> GatewayTelnetIac \<times> byte list" where
  "handle_recv_wont opt q = (let p = set_dont opt False q in case him_state p opt of
      No \<Rightarrow> (p, [])
    | Yes \<Rightarrow> (set_him opt No p, [IAC, DONT, opt])
    | WantNo \<Rightarrow> (set_him opt No p, [])
    | WantNoOpposite \<Rightarrow> (set_dont opt False (set_him opt WantYes p), [IAC, DO_CMD, opt])
    | WantYes \<Rightarrow> (set_him opt No p, [])
    | WantYesOpposite \<Rightarrow> (set_him opt No p, []))"

definition handle_recv_do :: "byte \<Rightarrow> GatewayTelnetIac \<Rightarrow> GatewayTelnetIac \<times> byte list" where
  "handle_recv_do opt p = (case us_state p opt of
      No \<Rightarrow>
        if cooperate_with_his_do p opt then
          (set_wont opt False (set_us opt Yes p),
           [IAC, WILL, opt] @ (if opt = OPT_NAWS then emit_naws_sb p else []))
        else if \<not> sent_wont p opt then (set_wont opt True p, [IAC, WONT, opt])
        else (p, [])
    | Yes \<Rightarrow> (p, [])
    | WantYes \<Rightarrow> (set_us opt Yes p, if opt = OPT_NAWS then emit_naws_sb p else [])
    | WantYesOpposite \<Rightarrow> (set_wont opt True (set_us opt WantNo p), [IAC, WONT, opt])
    | WantNo \<Rightarrow>
        if \<not> sent_wont p opt then (set_wont opt True (set_us opt No p), [IAC, WONT, opt])
        else (set_us opt No p, [])
    | WantNoOpposite \<Rightarrow>
        (set_wont opt False (set_us opt Yes p), if opt = OPT_NAWS then emit_naws_sb p else []))"

definition handle_recv_dont :: "byte \<Rightarrow> GatewayTelnetIac \<Rightarrow> GatewayTelnetIac \<times> byte list" where
  "handle_recv_dont opt q = (let p = set_wont opt False q in case us_state p opt of
      No \<Rightarrow> (p, [])
    | Yes \<Rightarrow> (set_us opt No p, [IAC, WONT, opt])
    | WantNo \<Rightarrow> (set_us opt No p, [])
    | WantNoOpposite \<Rightarrow> (set_wont opt False (set_us opt WantYes p), [IAC, WILL, opt])
    | WantYes \<Rightarrow> (set_us opt No p, [])
    | WantYesOpposite \<Rightarrow> (set_us opt No p, []))"

definition request_local_enable :: "byte \<Rightarrow> GatewayTelnetIac \<Rightarrow> GatewayTelnetIac \<times> byte list" where
  "request_local_enable opt p = (case us_state p opt of
      No \<Rightarrow> (set_wont opt False (set_us opt WantYes p), [IAC, WILL, opt])
    | Yes \<Rightarrow> (p, [])
    | WantNo \<Rightarrow> (set_us opt WantNoOpposite p, [])
    | WantNoOpposite \<Rightarrow> (p, [])
    | WantYes \<Rightarrow> (p, [])
    | WantYesOpposite \<Rightarrow> (set_us opt WantYes p, []))"

definition request_local_disable :: "byte \<Rightarrow> GatewayTelnetIac \<Rightarrow> GatewayTelnetIac \<times> byte list" where
  "request_local_disable opt p = (case us_state p opt of
      Yes \<Rightarrow> (set_us opt WantNo p, [IAC, WONT, opt])
    | No \<Rightarrow> (p, [])
    | WantYes \<Rightarrow> (set_us opt WantYesOpposite p, [])
    | WantYesOpposite \<Rightarrow> (p, [])
    | WantNo \<Rightarrow> (p, [])
    | WantNoOpposite \<Rightarrow> (set_us opt WantNo p, []))"

definition process_subneg :: "GatewayTelnetIac \<Rightarrow> byte list" where
  "process_subneg p =
     (if sb_option p = OPT_TTYPE \<and> us_state p OPT_TTYPE = Yes \<and> (case sb_body p of [] \<Rightarrow> False | c # _ \<Rightarrow> c = TTYPE_SEND)
      then [IAC, SB, OPT_TTYPE, TTYPE_IS] @ iac_double (terminal_name p) @ [IAC, SE]
      else [])"

definition send_naws_update :: "u16 \<Rightarrow> u16 \<Rightarrow> GatewayTelnetIac \<Rightarrow> GatewayTelnetIac \<times> byte list" where
  "send_naws_update cols rows p =
     (let p1 = p\<lparr>window_cols := cols, window_rows := rows\<rparr>
      in (p1, if us_state p1 OPT_NAWS = Yes then emit_naws_sb p1 else []))"

definition handle_verb :: "byte \<Rightarrow> byte \<Rightarrow> GatewayTelnetIac \<Rightarrow> GatewayTelnetIac \<times> byte list" where
  "handle_verb verb opt p =
     (if verb = WILL then handle_recv_will opt p
      else if verb = WONT then handle_recv_wont opt p
      else if verb = DO_CMD then handle_recv_do opt p
      else if verb = DONT then handle_recv_dont opt p
      else (p, []))"

definition gateway_feed :: "byte \<Rightarrow> GatewayTelnetIac \<Rightarrow> GatewayTelnetIac \<times> byte list \<times> byte list" where
  "gateway_feed b p = (case gt_state p of
      InText \<Rightarrow> if b = IAC then (p\<lparr>gt_state := SawIac\<rparr>, [], []) else (p, [b], [])
    | SawIac \<Rightarrow>
        if b = IAC then (p\<lparr>gt_state := InText\<rparr>, [IAC], [])
        else if b = SB then (p\<lparr>gt_state := SawSbOption\<rparr>, [], [])
        else if b = WILL \<or> b = WONT \<or> b = DO_CMD \<or> b = DONT then (p\<lparr>gt_state := SawVerb b\<rparr>, [], [])
        else (p\<lparr>gt_state := InText\<rparr>, [], [])
    | SawVerb verb \<Rightarrow> (case handle_verb verb b p of (p1, replies) \<Rightarrow> (p1\<lparr>gt_state := InText\<rparr>, [], replies))
    | SawSbOption \<Rightarrow> (p\<lparr>sb_option := b, sb_body := [], gt_state := InSb\<rparr>, [], [])
    | InSb \<Rightarrow>
        if b = IAC then (p\<lparr>gt_state := InSbIac\<rparr>, [], [])
        else if length (sb_body p) < MAX_SB_BODY_BYTES then (p\<lparr>sb_body := sb_body p @ [b]\<rparr>, [], [])
        else (p, [], [])
    | InSbIac \<Rightarrow>
        if b = SE then (p\<lparr>gt_state := InText\<rparr>, [], process_subneg p)
        else if b = IAC then
          (if length (sb_body p) < MAX_SB_BODY_BYTES then p\<lparr>sb_body := sb_body p @ [IAC], gt_state := InSb\<rparr>
           else p\<lparr>gt_state := InSb\<rparr>, [], [])
        else (p\<lparr>gt_state := InSb\<rparr>, [], []))"

fun gateway_feed_all :: "byte list \<Rightarrow> GatewayTelnetIac \<Rightarrow> GatewayTelnetIac \<times> byte list \<times> byte list" where
  "gateway_feed_all [] p = (p, [], [])"
| "gateway_feed_all (b # bs) p = (case gateway_feed b p of (p1, d1, r1) \<Rightarrow>
     case gateway_feed_all bs p1 of (p2, d2, r2) \<Rightarrow> (p2, d1 @ d2, r1 @ r2))"


section \<open>The parser of the local user's stream\<close>

datatype InboundState = IData | IIac | IOption | ISbOption | ISb | ISbIac

datatype Inbound = InData byte | Naws u16 u16 | Nothing

record InboundTelnet =
  in_state :: InboundState
  in_opt :: byte
  in_body :: "byte list"

definition default_inbound :: InboundTelnet where
  "default_inbound = \<lparr>in_state = IData, in_opt = 0, in_body = []\<rparr>"

definition in_sb :: "InboundTelnet \<Rightarrow> bool" where
  "in_sb s \<longleftrightarrow> in_state s \<in> {ISbOption, ISb, ISbIac}"

definition inbound_feed :: "byte \<Rightarrow> InboundTelnet \<Rightarrow> InboundTelnet \<times> Inbound" where
  "inbound_feed b s = (case in_state s of
      IData \<Rightarrow> if b = IAC then (s\<lparr>in_state := IIac\<rparr>, Nothing) else (s, InData b)
    | IIac \<Rightarrow>
        if b = IAC then (s\<lparr>in_state := IData\<rparr>, InData IAC)
        else (s\<lparr>in_state := if b = SB then ISbOption else if WILL \<le> b \<and> b \<le> DONT then IOption else IData\<rparr>, Nothing)
    | IOption \<Rightarrow> (s\<lparr>in_state := IData\<rparr>, Nothing)
    | ISbOption \<Rightarrow> (s\<lparr>in_opt := b, in_body := [], in_state := ISb\<rparr>, Nothing)
    | ISb \<Rightarrow>
        (if b = IAC then s\<lparr>in_state := ISbIac\<rparr>
         else if length (in_body s) < MAX_SB_BODY_BYTES then s\<lparr>in_body := in_body s @ [b]\<rparr> else s, Nothing)
    | ISbIac \<Rightarrow>
        if b = SE then
          (s\<lparr>in_state := IData\<rparr>,
           if in_opt s = OPT_NAWS \<and> length (in_body s) = 4
           then Naws (from_be_bytes (in_body s ! 0) (in_body s ! 1)) (from_be_bytes (in_body s ! 2) (in_body s ! 3))
           else Nothing)
        else if b = IAC \<and> length (in_body s) < MAX_SB_BODY_BYTES
        then (s\<lparr>in_state := ISb, in_body := in_body s @ [IAC]\<rparr>, Nothing)
        else (s\<lparr>in_state := ISb\<rparr>, Nothing))"

text \<open>What a reader makes of a run of bytes: the events other than \<open>Nothing\<close>.\<close>

fun inbound_events :: "byte list \<Rightarrow> InboundTelnet \<Rightarrow> InboundTelnet \<times> Inbound list" where
  "inbound_events [] s = (s, [])"
| "inbound_events (b # bs) s = (case inbound_feed b s of (s1, e) \<Rightarrow>
     case inbound_events bs s1 of (s2, es) \<Rightarrow> (s2, if e = Nothing then es else e # es))"


section \<open>From bytes to commands\<close>

lemmas gateway_setters = set_him_def set_us_def set_dont_def set_wont_def

lemma gateway_feed_append:
  "gateway_feed_all xs p = (p1, d1, r1) \<Longrightarrow> gateway_feed_all ys p1 = (p2, d2, r2) \<Longrightarrow>
     gateway_feed_all (xs @ ys) p = (p2, d1 @ d2, r1 @ r2)"
  by (induction xs arbitrary: p d1 r1) (fastforce split: prod.splits)+

text \<open>A subnegotiation that can be read back: it names an option, and not the one whose code is IAC.\<close>

fun command_ok :: "telnet_item \<Rightarrow> bool" where
  "command_ok (Subneg payload) \<longleftrightarrow> (case payload of [] \<Rightarrow> False | opt # _ \<Rightarrow> opt \<noteq> IAC)"
| "command_ok i \<longleftrightarrow> item_ok i"

text \<open>What one item does, without the bytes it is spelt with.\<close>

definition gateway_item :: "telnet_item \<Rightarrow> GatewayTelnetIac \<Rightarrow> GatewayTelnetIac \<times> byte list" where
  "gateway_item i p = (case i of
      Data _ \<Rightarrow> (p, [])
    | Negotiate verb opt \<Rightarrow> handle_verb verb opt p
    | Command _ \<Rightarrow> (p, [])
    | Subneg payload \<Rightarrow>
        (let p1 = p\<lparr>sb_option := hd payload, sb_body := take MAX_SB_BODY_BYTES (tl payload)\<rparr> in (p1, process_subneg p1)))"

fun gateway_items :: "telnet_item list \<Rightarrow> GatewayTelnetIac \<Rightarrow> GatewayTelnetIac \<times> byte list" where
  "gateway_items [] p = (p, [])"
| "gateway_items (i # is) p = (case gateway_item i p of (p1, r1) \<Rightarrow>
     case gateway_items is p1 of (p2, r2) \<Rightarrow> (p2, r1 @ r2))"

lemma gt_state_id: "gt_state p = s \<Longrightarrow> p\<lparr>gt_state := s\<rparr> = p"
  by simp

lemma emit_naws_keeps [simp]:
  "emit_naws_sb (p\<lparr>gt_state := s\<rparr>) = emit_naws_sb p"
  by (simp add: emit_naws_sb_def)

lemma cooperate_keeps [simp]: "cooperate_with_his_do (p\<lparr>gt_state := s\<rparr>) = cooperate_with_his_do p"
  by (simp add: cooperate_with_his_do_def fun_eq_iff)

lemmas handlers = handle_recv_will_def handle_recv_wont_def handle_recv_do_def handle_recv_dont_def

lemma handle_verb_state:
  "handle_verb v opt (p\<lparr>gt_state := s\<rparr>) = (case handle_verb v opt p of (q, r) \<Rightarrow> (q\<lparr>gt_state := s\<rparr>, r))"
proof -
  have "handle_recv_will opt (p\<lparr>gt_state := s\<rparr>) = (case handle_recv_will opt p of (q, r) \<Rightarrow> (q\<lparr>gt_state := s\<rparr>, r))"
    by (cases "him_state p opt") (simp_all add: handlers gateway_setters)
  moreover have "handle_recv_wont opt (p\<lparr>gt_state := s\<rparr>) = (case handle_recv_wont opt p of (q, r) \<Rightarrow> (q\<lparr>gt_state := s\<rparr>, r))"
    by (cases "him_state p opt") (simp_all add: handlers gateway_setters)
  moreover have "handle_recv_do opt (p\<lparr>gt_state := s\<rparr>) = (case handle_recv_do opt p of (q, r) \<Rightarrow> (q\<lparr>gt_state := s\<rparr>, r))"
    by (cases "us_state p opt") (simp_all add: handlers gateway_setters)
  moreover have "handle_recv_dont opt (p\<lparr>gt_state := s\<rparr>) = (case handle_recv_dont opt p of (q, r) \<Rightarrow> (q\<lparr>gt_state := s\<rparr>, r))"
    by (cases "us_state p opt") (simp_all add: handlers gateway_setters)
  ultimately show ?thesis by (simp add: handle_verb_def)
qed

lemma handle_verb_keeps_state:
  assumes "gt_state p = s" shows "gt_state (fst (handle_verb v opt p)) = s"
proof -
  obtain q r where q: "handle_verb v opt p = (q, r)" by (cases "handle_verb v opt p")
  with handle_verb_state [where v = v and opt = opt and p = p and s = s] assms have "q = q\<lparr>gt_state := s\<rparr>" by (simp add: gt_state_id)
  then have "gt_state q = gt_state (q\<lparr>gt_state := s\<rparr>)" by (rule arg_cong)
  with q show ?thesis by simp
qed

lemma subneg_body:
  "gt_state p = InSb \<Longrightarrow> length (sb_body p) \<le> MAX_SB_BODY_BYTES \<Longrightarrow>
     gateway_feed_all (iac_double bs) p = (p\<lparr>sb_body := take MAX_SB_BODY_BYTES (sb_body p @ bs)\<rparr>, [], [])"
proof (induction bs arbitrary: p)
  case (Cons b bs)
  let ?q = "p\<lparr>sb_body := take MAX_SB_BODY_BYTES (sb_body p @ [b])\<rparr>"
  have step: "gateway_feed_all (iac_double [b]) p = (?q, [], [])"
    using Cons.prems by (auto simp: gateway_feed_def)
  have len: "length (sb_body ?q) \<le> MAX_SB_BODY_BYTES" by simp
  have "take MAX_SB_BODY_BYTES (sb_body ?q @ bs) = take MAX_SB_BODY_BYTES (sb_body p @ b # bs)"
    using Cons.prems(2) by (cases "length (sb_body p) = MAX_SB_BODY_BYTES") auto
  with gateway_feed_append [OF step Cons.IH [OF _ len]] Cons.prems(1) show ?case
    by (simp add: iac_double_append [of "[b]" bs, simplified])
qed simp

lemma feed_item:
  assumes "gt_state p = InText" "command_ok i"
  shows "gateway_feed_all (item_bytes i) p = (fst (gateway_item i p), item_data i, snd (gateway_item i p))
    \<and> gt_state (fst (gateway_item i p)) = InText"
proof (cases i)
  case (Negotiate verb opt)
  obtain q r where q: "handle_verb verb opt p = (q, r)" by (cases "handle_verb verb opt p")
  then have q_state: "gt_state q = InText" using handle_verb_keeps_state [OF assms(1), of verb opt] by simp
  have seen: "gateway_feed_all [IAC, verb] p = (p\<lparr>gt_state := SawVerb verb\<rparr>, [], [])"
    using assms Negotiate by (auto simp: gateway_feed_def)
  have "gateway_feed_all [opt] (p\<lparr>gt_state := SawVerb verb\<rparr>) = (q, [], r)"
    by (simp add: gateway_feed_def handle_verb_state q gt_state_id [OF q_state])
  from gateway_feed_append [OF seen this] Negotiate q q_state show ?thesis
    by (simp add: gateway_item_def del: gateway_feed_all.simps)
next
  case (Subneg payload)
  with assms(2) obtain opt body where payload: "payload = opt # body" "opt \<noteq> IAC" by (auto split: list.splits)
  let ?p = "p\<lparr>sb_option := opt, sb_body := [], gt_state := InSb\<rparr>"
  let ?q = "?p\<lparr>sb_body := take MAX_SB_BODY_BYTES body\<rparr>"
  have opened: "gateway_feed_all [IAC, SB, opt] p = (?p, [], [])" using assms(1) by (simp add: gateway_feed_def)
  have body: "gateway_feed_all (iac_double body) ?p = (?q, [], [])" using subneg_body [of ?p body] by simp
  have closed: "gateway_feed_all [IAC, SE] ?q = (?q\<lparr>gt_state := InText\<rparr>, [], process_subneg ?q)"
    by (simp add: gateway_feed_def process_subneg_def)
  have "gateway_feed_all ([IAC, SB, opt] @ iac_double body @ [IAC, SE]) p = (?q\<lparr>gt_state := InText\<rparr>, [], process_subneg ?q)"
    using gateway_feed_append [OF opened gateway_feed_append [OF body closed]] by simp
  moreover have "gateway_item i p = (?q\<lparr>gt_state := InText\<rparr>, process_subneg ?q)"
    using Subneg payload assms(1) by (cases p) (simp add: gateway_item_def process_subneg_def Let_def)
  moreover have "item_bytes i = [IAC, SB, opt] @ iac_double body @ [IAC, SE]" using Subneg payload by simp
  ultimately show ?thesis using Subneg by (simp del: gateway_feed_all.simps item_bytes.simps)
qed (use assms in \<open>auto simp: gateway_feed_def gateway_item_def gt_state_id\<close>)

lemma feed_items:
  assumes "gt_state p = InText" "list_all command_ok items"
  shows "gt_state (fst (gateway_items items p)) = InText \<and> gateway_feed_all (concat (map item_bytes items)) p =
    (fst (gateway_items items p), concat (map item_data items), snd (gateway_items items p))"
  using assms
proof (induction items arbitrary: p)
  case (Cons i items)
  from Cons.prems feed_item [of p i] have i: "gateway_feed_all (item_bytes i) p = (fst (gateway_item i p), item_data i, snd (gateway_item i p))"
    and s: "gt_state (fst (gateway_item i p)) = InText" by auto
  from gateway_feed_append [OF i conjunct2 [OF Cons.IH [OF s]]] Cons.IH [OF s] Cons.prems(2) show ?case
    by (simp add: split_beta)
qed simp

text \<open>The gateway's byte-level parser is exactly the command-level one, whatever items the remote's
  stream is made of: each data byte is passed on, an escaped 0xFF as one byte, in order, and nothing
  else is; each negotiation and each subnegotiation is answered once, in its place.\<close>

lemma gateway_reads_commands:
  assumes "gt_state p = InText" "list_all command_ok items"
  shows "gateway_feed_all (concat (map item_bytes items)) p =
    (fst (gateway_items items p), concat (map item_data items), snd (gateway_items items p))"
  using feed_items [OF assms] by simp


section \<open>The Q method\<close>

text \<open>
  The table of RFC 1143, for one side of one option: whether the option is on and whether a change is
  asked for, with the queue bit that says the asker has changed its mind. The two sides differ only in
  their verbs, so a step says \<open>True\<close> for the verb that turns the option on.
\<close>

datatype rfc_option = Off | On | AskedOn | AskedOff

fun rfc_on :: "bool \<Rightarrow> rfc_option \<times> bool \<Rightarrow> (rfc_option \<times> bool) \<times> bool list" where
  "rfc_on agree (Off, _) = (if agree then ((On, False), [True]) else ((Off, False), [False]))"
| "rfc_on agree (On, _) = ((On, False), [])"
| "rfc_on agree (AskedOff, False) = ((Off, False), [])"
| "rfc_on agree (AskedOff, True) = ((On, False), [])"
| "rfc_on agree (AskedOn, False) = ((On, False), [])"
| "rfc_on agree (AskedOn, True) = ((AskedOff, False), [False])"

fun rfc_off :: "rfc_option \<times> bool \<Rightarrow> (rfc_option \<times> bool) \<times> bool list" where
  "rfc_off (Off, _) = ((Off, False), [])"
| "rfc_off (On, _) = ((Off, False), [False])"
| "rfc_off (AskedOff, False) = ((Off, False), [])"
| "rfc_off (AskedOff, True) = ((AskedOn, False), [True])"
| "rfc_off (AskedOn, _) = ((Off, False), [])"

fun rfc_enable :: "rfc_option \<times> bool \<Rightarrow> (rfc_option \<times> bool) \<times> bool list" where
  "rfc_enable (Off, _) = ((AskedOn, False), [True])"
| "rfc_enable (On, _) = ((On, False), [])"
| "rfc_enable (AskedOff, _) = ((AskedOff, True), [])"
| "rfc_enable (AskedOn, _) = ((AskedOn, False), [])"

fun rfc_disable :: "rfc_option \<times> bool \<Rightarrow> (rfc_option \<times> bool) \<times> bool list" where
  "rfc_disable (Off, _) = ((Off, False), [])"
| "rfc_disable (On, _) = ((AskedOff, False), [False])"
| "rfc_disable (AskedOff, _) = ((AskedOff, False), [])"
| "rfc_disable (AskedOn, _) = ((AskedOn, True), [])"

fun rfc_state :: "OptState \<Rightarrow> rfc_option \<times> bool" where
  "rfc_state No = (Off, False)"
| "rfc_state Yes = (On, False)"
| "rfc_state WantYes = (AskedOn, False)"
| "rfc_state WantYesOpposite = (AskedOn, True)"
| "rfc_state WantNo = (AskedOff, False)"
| "rfc_state WantNoOpposite = (AskedOff, True)"

text \<open>
  A change to one option of the parser. What the code adds to the table is the memory of a refusal: one
  that is out already is not repeated, and a peer that offers again after we took the option back is
  refused where the table stays silent.
\<close>

definition rfc_said :: "OptState \<Rightarrow> bool \<Rightarrow> bool list \<Rightarrow> bool list" where
  "rfc_said q refused said =
     (if q = No \<and> refused \<and> said = [False] then []
      else if q = WantNo \<and> \<not> refused then [False] else said)"

definition verbs_of :: "byte \<Rightarrow> byte \<Rightarrow> byte \<Rightarrow> bool list \<Rightarrow> byte list" where
  "verbs_of on off opt said = concat (map (\<lambda>v. [IAC, if v then on else off, opt]) said)"

definition only_him :: "byte \<Rightarrow> GatewayTelnetIac \<Rightarrow> GatewayTelnetIac \<Rightarrow> bool" where
  "only_him opt p q \<longleftrightarrow> us_state q = us_state p \<and> sent_wont q = sent_wont p \<and>
     him_state q = (him_state p)(opt := him_state q opt) \<and> sent_dont q = (sent_dont p)(opt := sent_dont q opt)"

definition only_us :: "byte \<Rightarrow> GatewayTelnetIac \<Rightarrow> GatewayTelnetIac \<Rightarrow> bool" where
  "only_us opt p q \<longleftrightarrow> him_state q = him_state p \<and> sent_dont q = sent_dont p \<and>
     us_state q = (us_state p)(opt := us_state q opt) \<and> sent_wont q = (sent_wont p)(opt := sent_wont q opt)"

definition window_reported :: "byte \<Rightarrow> GatewayTelnetIac \<Rightarrow> GatewayTelnetIac \<Rightarrow> byte list" where
  "window_reported opt p q =
     (if opt = OPT_NAWS \<and> us_state p opt \<noteq> Yes \<and> us_state q opt = Yes then emit_naws_sb p else [])"

lemma recv_will_rfc:
  assumes "handle_recv_will opt p = (q, r)"
  shows "only_him opt p q \<and>
    rfc_state (him_state q opt) = fst (rfc_on (cooperate_with_his_will opt) (rfc_state (him_state p opt))) \<and>
    r = verbs_of DO_CMD DONT opt (rfc_said (him_state p opt) (sent_dont p opt)
          (snd (rfc_on (cooperate_with_his_will opt) (rfc_state (him_state p opt)))))"
  using assms by (cases "him_state p opt")
    (auto simp: handlers gateway_setters only_him_def verbs_of_def rfc_said_def split: if_splits)

lemma recv_wont_rfc:
  assumes "handle_recv_wont opt p = (q, r)"
  shows "only_him opt p q \<and> rfc_state (him_state q opt) = fst (rfc_off (rfc_state (him_state p opt))) \<and>
    r = verbs_of DO_CMD DONT opt (snd (rfc_off (rfc_state (him_state p opt))))"
  using assms by (cases "him_state p opt")
    (auto simp: handlers gateway_setters only_him_def verbs_of_def fun_eq_iff split: if_splits)

lemma recv_do_rfc:
  assumes "handle_recv_do opt p = (q, r)"
  shows "only_us opt p q \<and>
    rfc_state (us_state q opt) = fst (rfc_on (cooperate_with_his_do p opt) (rfc_state (us_state p opt))) \<and>
    r = verbs_of WILL WONT opt (rfc_said (us_state p opt) (sent_wont p opt)
          (snd (rfc_on (cooperate_with_his_do p opt) (rfc_state (us_state p opt))))) @ window_reported opt p q"
  using assms by (cases "us_state p opt")
    (auto simp: handlers gateway_setters only_us_def verbs_of_def rfc_said_def window_reported_def split: if_splits)

lemma recv_dont_rfc:
  assumes "handle_recv_dont opt p = (q, r)"
  shows "only_us opt p q \<and> rfc_state (us_state q opt) = fst (rfc_off (rfc_state (us_state p opt))) \<and>
    r = verbs_of WILL WONT opt (snd (rfc_off (rfc_state (us_state p opt))))"
  using assms by (cases "us_state p opt")
    (auto simp: handlers gateway_setters only_us_def verbs_of_def fun_eq_iff split: if_splits)

lemma request_local_rfc:
  "request_local_enable opt p = (q, r) \<Longrightarrow> only_us opt p q \<and>
     rfc_state (us_state q opt) = fst (rfc_enable (rfc_state (us_state p opt))) \<and>
     r = verbs_of WILL WONT opt (snd (rfc_enable (rfc_state (us_state p opt))))"
  "request_local_disable opt p = (q, r) \<Longrightarrow> only_us opt p q \<and>
     rfc_state (us_state q opt) = fst (rfc_disable (rfc_state (us_state p opt))) \<and>
     r = verbs_of WILL WONT opt (snd (rfc_disable (rfc_state (us_state p opt))))"
  by (cases "us_state p opt"; auto simp: request_local_enable_def request_local_disable_def gateway_setters
      only_us_def verbs_of_def fun_eq_iff split: if_splits)+

definition rfc_view :: "GatewayTelnetIac \<Rightarrow> bool \<Rightarrow> byte \<Rightarrow> rfc_option \<times> bool" where
  "rfc_view p his opt = rfc_state (if his then him_state p opt else us_state p opt)"

definition his_verb :: "byte \<Rightarrow> bool" where
  "his_verb verb \<longleftrightarrow> verb = WILL \<or> verb = WONT"

definition rfc_step :: "byte \<Rightarrow> byte \<Rightarrow> GatewayTelnetIac \<Rightarrow> (rfc_option \<times> bool) \<times> bool list" where
  "rfc_step verb opt p =
     (let q = rfc_view p (his_verb verb) opt
      in if verb = WILL then rfc_on (cooperate_with_his_will opt) q
         else if verb = DO_CMD then rfc_on (cooperate_with_his_do p opt) q
         else rfc_off q)"

text \<open>What goes out: the table's answer in the verbs of that side, the repeated refusals aside.\<close>

definition rfc_answer :: "byte \<Rightarrow> byte \<Rightarrow> GatewayTelnetIac \<Rightarrow> byte list" where
  "rfc_answer verb opt p =
     (let said = snd (rfc_step verb opt p)
      in if verb = WILL then verbs_of DO_CMD DONT opt (rfc_said (him_state p opt) (sent_dont p opt) said)
         else if verb = WONT then verbs_of DO_CMD DONT opt said
         else if verb = DO_CMD then verbs_of WILL WONT opt (rfc_said (us_state p opt) (sent_wont p opt) said)
         else verbs_of WILL WONT opt said)"

lemma changed_at: "f = g(x := f x) \<Longrightarrow> f y = (if y = x then f x else g y)"
  by (metis fun_upd_apply)

lemma only_him_view:
  assumes "only_him opt p q" "rfc_state (him_state q opt) = x"
  shows "rfc_view q = (rfc_view p)(True := (rfc_view p True)(opt := x))"
proof (intro ext)
  fix his other
  have "him_state q other = (if other = opt then him_state q opt else him_state p other)"
    using assms(1) by (intro changed_at) (simp only: only_him_def)
  moreover have "us_state q = us_state p" using assms(1) by (simp only: only_him_def)
  ultimately show "rfc_view q his other = ((rfc_view p)(True := (rfc_view p True)(opt := x))) his other"
    using assms(2) by (simp add: rfc_view_def)
qed

lemma only_us_view:
  assumes "only_us opt p q" "rfc_state (us_state q opt) = x"
  shows "rfc_view q = (rfc_view p)(False := (rfc_view p False)(opt := x))"
proof (intro ext)
  fix his other
  have "us_state q other = (if other = opt then us_state q opt else us_state p other)"
    using assms(1) by (intro changed_at) (simp only: only_us_def)
  moreover have "him_state q = him_state p" using assms(1) by (simp only: only_us_def)
  ultimately show "rfc_view q his other = ((rfc_view p)(False := (rfc_view p False)(opt := x))) his other"
    using assms(2) by (simp add: rfc_view_def)
qed

lemmas rfc_steps = rfc_step_def rfc_answer_def his_verb_def

text \<open>Property C13: whatever state the connection is in, mind changes included, a verb received moves the
  option it names, on the side it names, exactly as the table of RFC 1143 says, leaves every other
  option and the other side alone, and is answered with the table's verbs, except that a refusal
  already sent is not repeated and a stale acceptance after our withdrawal is refused; once NAWS
  is on, and only then, the window size follows.\<close>

theorem gateway_follows_rfc1143:
  assumes "verb \<in> {WILL, WONT, DO_CMD, DONT}" "handle_verb verb opt p = (q, r)"
  shows "rfc_view q = (rfc_view p)(his_verb verb := (rfc_view p (his_verb verb))(opt := fst (rfc_step verb opt p))) \<and>
    r = rfc_answer verb opt p @ (if verb = DO_CMD then window_reported opt p q else [])"
proof -
  from assms(1) consider "verb = WILL" | "verb = WONT" | "verb = DO_CMD" | "verb = DONT" by auto
  then show ?thesis
  proof cases
    case 1
    with assms(2) have "handle_recv_will opt p = (q, r)" by (simp add: handle_verb_def)
    note f = recv_will_rfc [OF this]
    from only_him_view [OF conjunct1 [OF f] conjunct1 [OF conjunct2 [OF f]]] f 1 show ?thesis
      by (simp add: rfc_steps rfc_view_def [of p])
  next
    case 2
    with assms(2) have "handle_recv_wont opt p = (q, r)" by (simp add: handle_verb_def)
    note f = recv_wont_rfc [OF this]
    from only_him_view [OF conjunct1 [OF f] conjunct1 [OF conjunct2 [OF f]]] f 2 show ?thesis
      by (simp add: rfc_steps rfc_view_def [of p])
  next
    case 3
    with assms(2) have "handle_recv_do opt p = (q, r)" by (simp add: handle_verb_def)
    note f = recv_do_rfc [OF this]
    from only_us_view [OF conjunct1 [OF f] conjunct1 [OF conjunct2 [OF f]]] f 3 show ?thesis
      by (simp add: rfc_steps rfc_view_def [of p])
  next
    case 4
    with assms(2) have "handle_recv_dont opt p = (q, r)" by (simp add: handle_verb_def)
    note f = recv_dont_rfc [OF this]
    from only_us_view [OF conjunct1 [OF f] conjunct1 [OF conjunct2 [OF f]]] f 4 show ?thesis
      by (simp add: rfc_steps rfc_view_def [of p])
  qed
qed

theorem gateway_follows_rfc1143_witness:
  "rfc_view (fst (handle_verb DO_CMD OPT_NAWS (fst (new_gateway True [] 80 24)))) False OPT_NAWS = (On, False)"
  using gateway_follows_rfc1143 [of DO_CMD OPT_NAWS "fst (new_gateway True [] 80 24)"
      "fst (handle_verb DO_CMD OPT_NAWS (fst (new_gateway True [] 80 24)))"
      "snd (handle_verb DO_CMD OPT_NAWS (fst (new_gateway True [] 80 24)))"]
  by (simp add: rfc_step_def his_verb_def rfc_view_def new_gateway_def Let_def)


section \<open>A connection of the gateway\<close>

text \<open>What the gateway's loop feeds its parser: bytes of the remote, and the user's new window sizes.\<close>

datatype gateway_input = Remote byte | Resized u16 u16

fun gateway_event :: "gateway_input \<Rightarrow> GatewayTelnetIac \<Rightarrow> GatewayTelnetIac \<times> byte list \<times> byte list" where
  "gateway_event (Remote b) p = gateway_feed b p"
| "gateway_event (Resized cols rows) p = (case send_naws_update cols rows p of (p1, r) \<Rightarrow> (p1, [], r))"

fun gateway_run :: "gateway_input list \<Rightarrow> GatewayTelnetIac \<Rightarrow> GatewayTelnetIac \<times> byte list \<times> byte list" where
  "gateway_run [] p = (p, [], [])"
| "gateway_run (e # es) p = (case gateway_event e p of (p1, d1, r1) \<Rightarrow>
     case gateway_run es p1 of (p2, d2, r2) \<Rightarrow> (p2, d1 @ d2, r1 @ r2))"

text \<open>Bytes that are telnet commands from end to end.\<close>

definition speaks_telnet :: "byte list \<Rightarrow> bool" where
  "speaks_telnet bs \<longleftrightarrow>
     (\<exists>items. bs = concat (map item_bytes items) \<and> list_all command_ok items \<and> concat (map item_data items) = [])"

lemma speaks_Nil: "speaks_telnet []"
  unfolding speaks_telnet_def by (rule exI [of _ "[]"]) simp

lemma speaks_append: "speaks_telnet xs \<Longrightarrow> speaks_telnet ys \<Longrightarrow> speaks_telnet (xs @ ys)"
  unfolding speaks_telnet_def by (elim exE, rename_tac js ks, rule_tac x = "js @ ks" in exI) simp

lemma speaks_item: "command_ok i \<Longrightarrow> item_data i = [] \<Longrightarrow> bs = item_bytes i \<Longrightarrow> speaks_telnet bs"
  unfolding speaks_telnet_def by (rule exI [of _ "[i]"]) simp

lemma speaks_verb: "verb \<in> {WILL, WONT, DO_CMD, DONT} \<Longrightarrow> speaks_telnet [IAC, verb, opt]"
  by (rule speaks_item [of "Negotiate verb opt"]) simp_all

lemma speaks_subneg: "opt \<noteq> IAC \<Longrightarrow> speaks_telnet ([IAC, SB, opt] @ iac_double body @ [IAC, SE])"
  by (rule speaks_item [of "Subneg (opt # body)"]) simp_all

lemma speaks_naws: "speaks_telnet (emit_naws_sb p)"
  unfolding emit_naws_sb_def by (rule speaks_subneg) simp

lemma speaks_verbs: "on \<in> {WILL, WONT, DO_CMD, DONT} \<Longrightarrow> off \<in> {WILL, WONT, DO_CMD, DONT} \<Longrightarrow> speaks_telnet (verbs_of on off opt said)"
  by (induction said) (auto simp: verbs_of_def speaks_Nil intro!: speaks_append [of "[IAC, _, opt]", simplified] speaks_verb)

lemma speaks_handle: "speaks_telnet (snd (handle_verb verb opt p))"
proof -
  note verbs = speaks_verbs [of DO_CMD DONT] speaks_verbs [of WILL WONT]
  have "speaks_telnet (snd (handle_recv_will opt p))" "speaks_telnet (snd (handle_recv_wont opt p))"
    "speaks_telnet (snd (handle_recv_dont opt p))"
    using recv_will_rfc [of opt p] recv_wont_rfc [of opt p] recv_dont_rfc [of opt p]
    by (metis insertCI prod.collapse verbs)+
  moreover have "speaks_telnet (snd (handle_recv_do opt p))"
    using recv_do_rfc [of opt p "fst (handle_recv_do opt p)" "snd (handle_recv_do opt p)"]
    by (auto simp: window_reported_def intro!: speaks_append verbs speaks_naws speaks_Nil)
  ultimately show ?thesis by (simp add: handle_verb_def speaks_Nil)
qed

lemma speaks_process: "speaks_telnet (process_subneg p)"
  using speaks_subneg [of OPT_TTYPE "TTYPE_IS # terminal_name p"] by (simp add: process_subneg_def speaks_Nil)

lemma speaks_feed: "speaks_telnet (snd (snd (gateway_feed b p)))"
  by (cases "gt_state p")
    (simp_all add: gateway_feed_def split_beta speaks_Nil speaks_process speaks_handle)

lemma speaks_event: "speaks_telnet (snd (snd (gateway_event e p)))"
  by (cases e) (simp_all add: speaks_feed send_naws_update_def Let_def speaks_Nil speaks_naws)

text \<open>Property C16: nothing the gateway itself sends into a connection can be taken for typing. Whatever
  the remote sends and however the window is resized, its opening offers and all its answers are whole
  telnet commands, negotiations and closed subnegotiations, with no data byte between them, whatever
  bytes the terminal name and the sizes hold.\<close>

theorem gateway_answers_are_commands:
  "speaks_telnet (snd (new_gateway coop name cols rows) @ snd (snd (gateway_run es p)))"
proof (rule speaks_append)
  show "speaks_telnet (snd (new_gateway coop name cols rows))"
    using speaks_append [OF speaks_verb [of WILL OPT_TTYPE] speaks_append [OF speaks_verb [of WILL OPT_NAWS] speaks_verb [of DO_CMD OPT_ECHO]]]
    by (simp add: new_gateway_def Let_def speaks_Nil)
  show "speaks_telnet (snd (snd (gateway_run es p)))"
  proof (induction es arbitrary: p)
    case (Cons e es)
    show ?case using speaks_append [OF speaks_event [of e p] Cons.IH [of "fst (gateway_event e p)"]]
      by (simp add: split_beta)
  qed (simp add: speaks_Nil)
qed


subsection \<open>A request is answered once\<close>

text \<open>The states a connection can be in: a change of mind has no caller, so no option is ever between.\<close>

definition gateway_ok :: "GatewayTelnetIac \<Rightarrow> bool" where
  "gateway_ok p \<longleftrightarrow> range (him_state p) \<subseteq> {No, Yes, WantYes} \<and> range (us_state p) \<subseteq> {No, Yes, WantYes}"

lemma gateway_okD: "gateway_ok p \<Longrightarrow> him_state p opt \<in> {No, Yes, WantYes} \<and> us_state p opt \<in> {No, Yes, WantYes}"
  by (auto simp: gateway_ok_def)

lemma gateway_okI: "(\<And>opt. him_state p opt \<in> {No, Yes, WantYes} \<and> us_state p opt \<in> {No, Yes, WantYes}) \<Longrightarrow> gateway_ok p"
  by (auto simp: gateway_ok_def)

lemma handle_verb_ok: "gateway_ok p \<Longrightarrow> gateway_ok (fst (handle_verb verb opt p))"
proof (rule gateway_okI)
  fix other assume "gateway_ok p"
  from gateway_okD [OF this, of opt] gateway_okD [OF this, of other]
  show "him_state (fst (handle_verb verb opt p)) other \<in> {No, Yes, WantYes} \<and>
      us_state (fst (handle_verb verb opt p)) other \<in> {No, Yes, WantYes}"
    by (cases "him_state p opt"; cases "us_state p opt") (simp_all add: handle_verb_def handlers gateway_setters)
qed

lemma gateway_ok_cong: "him_state q = him_state p \<Longrightarrow> us_state q = us_state p \<Longrightarrow> gateway_ok q = gateway_ok p"
  by (simp add: gateway_ok_def)

lemma gateway_feed_ok: "gateway_ok p \<Longrightarrow> gateway_ok (fst (gateway_feed b p))"
proof (cases "gt_state p")
  case (SawVerb verb)
  moreover assume "gateway_ok p"
  ultimately show ?thesis
    using handle_verb_ok [of p verb b] by (simp add: gateway_feed_def split_beta gateway_ok_def)
qed (simp_all add: gateway_feed_def gateway_ok_def)

lemma gateway_event_ok: "gateway_ok p \<Longrightarrow> gateway_ok (fst (gateway_event e p))"
  by (cases e) (simp_all add: gateway_feed_ok, simp add: send_naws_update_def Let_def gateway_ok_def)

lemma new_gateway_ok: "gateway_ok (fst (new_gateway coop name cols rows))"
  by (rule gateway_okI) (simp add: new_gateway_def Let_def)

lemma gateway_run_ok: "gateway_ok p \<Longrightarrow> gateway_ok (fst (gateway_run es p))"
proof (induction es arbitrary: p)
  case (Cons e es)
  from Cons.IH [OF gateway_event_ok [OF Cons.prems, of e]] show ?case by (simp add: split_beta)
qed simp

text \<open>A verb is settled when hearing it again would change nothing.\<close>

definition settled :: "byte \<Rightarrow> byte \<Rightarrow> GatewayTelnetIac \<Rightarrow> bool" where
  "settled verb opt p \<longleftrightarrow>
     (if verb = WILL then him_state p opt = Yes \<or> him_state p opt = No \<and> sent_dont p opt \<and> \<not> cooperate_with_his_will opt
      else if verb = WONT then him_state p opt = No
      else if verb = DO_CMD then us_state p opt = Yes \<or> us_state p opt = No \<and> sent_wont p opt \<and> \<not> cooperate_with_his_do p opt
      else us_state p opt = No)"

fun opposite :: "byte \<Rightarrow> byte" where
  "opposite verb = (if verb = WILL then WONT else if verb = WONT then WILL else if verb = DO_CMD then DONT else DO_CMD)"

lemma settled_verbs:
  "settled WILL opt p \<longleftrightarrow> him_state p opt = Yes \<or> him_state p opt = No \<and> sent_dont p opt \<and> opt \<noteq> OPT_ECHO"
  "settled WONT opt p \<longleftrightarrow> him_state p opt = No"
  "settled DO_CMD opt p \<longleftrightarrow> us_state p opt = Yes \<or> us_state p opt = No \<and> sent_wont p opt \<and> \<not> cooperate_with_his_do p opt"
  "settled DONT opt p \<longleftrightarrow> us_state p opt = No"
  by (simp_all add: settled_def cooperate_with_his_will_def)

lemma handle_verbs:
  "handle_verb WILL = handle_recv_will" "handle_verb WONT = handle_recv_wont"
  "handle_verb DO_CMD = handle_recv_do" "handle_verb DONT = handle_recv_dont"
  by (simp_all add: handle_verb_def fun_eq_iff)

lemma is_verb:
  assumes "verb \<in> {WILL, WONT, DO_CMD, DONT}"
  obtains "verb = WILL" | "verb = WONT" | "verb = DO_CMD" | "verb = DONT"
  using assms by auto

lemma settled_silent:
  assumes "verb \<in> {WILL, WONT, DO_CMD, DONT}" "settled verb opt p"
  shows "snd (handle_verb verb opt p) = []"
  using assms(1)
  by (rule is_verb) (use assms(2) in \<open>auto simp: settled_verbs handle_verbs handlers gateway_setters cooperate_with_his_will_def\<close>)

lemma settles:
  assumes "verb \<in> {WILL, WONT, DO_CMD, DONT}" "gateway_ok p"
  shows "settled verb opt (fst (handle_verb verb opt p))"
proof -
  have him: "him_state p opt \<in> {No, Yes, WantYes}" and us: "us_state p opt \<in> {No, Yes, WantYes}"
    using gateway_okD [OF assms(2), of opt] by auto
  have "settled WILL opt (fst (handle_recv_will opt p))" "settled WONT opt (fst (handle_recv_wont opt p))"
    using him by (cases "him_state p opt"; simp add: settled_verbs handlers gateway_setters cooperate_with_his_will_def)+
  moreover have "settled DO_CMD opt (fst (handle_recv_do opt p))" "settled DONT opt (fst (handle_recv_dont opt p))"
    using us by (cases "us_state p opt"; simp add: settled_verbs handlers gateway_setters cooperate_with_his_do_def)+
  ultimately show ?thesis using assms(1) by (auto simp: handle_verbs)
qed

text \<open>The two sides do not touch each other.\<close>

lemma his_side_alone:
  "us_state (fst (handle_recv_will other p)) = us_state p" "sent_wont (fst (handle_recv_will other p)) = sent_wont p"
  "us_state (fst (handle_recv_wont other p)) = us_state p" "sent_wont (fst (handle_recv_wont other p)) = sent_wont p"
  "cooperate (fst (handle_recv_will other p)) = cooperate p" "cooperate (fst (handle_recv_wont other p)) = cooperate p"
  by (cases "him_state p other"; simp add: handlers gateway_setters)+

lemma our_side_alone:
  "him_state (fst (handle_recv_do other p)) = him_state p" "sent_dont (fst (handle_recv_do other p)) = sent_dont p"
  "him_state (fst (handle_recv_dont other p)) = him_state p" "sent_dont (fst (handle_recv_dont other p)) = sent_dont p"
  "cooperate (fst (handle_recv_do other p)) = cooperate p" "cooperate (fst (handle_recv_dont other p)) = cooperate p"
  by (cases "us_state p other"; simp add: handlers gateway_setters)+

lemmas sides_alone = his_side_alone our_side_alone cooperate_with_his_do_def

lemma settled_will_kept_own:
  "settled WILL opt p \<Longrightarrow> settled WILL opt (fst (handle_recv_will other p))"
  "settled WILL opt p \<Longrightarrow> other \<noteq> opt \<Longrightarrow> settled WILL opt (fst (handle_recv_wont other p))"
  by (cases "him_state p other"; auto simp: settled_verbs handlers gateway_setters cooperate_with_his_will_def split: if_splits)+

lemma settled_will_kept_other:
  "settled WILL opt p \<Longrightarrow> settled WILL opt (fst (handle_recv_do other p))"
  "settled WILL opt p \<Longrightarrow> settled WILL opt (fst (handle_recv_dont other p))"
  by (simp_all add: settled_verbs sides_alone)

lemmas settled_will_kept = settled_will_kept_own settled_will_kept_other

lemma settled_wont_kept_own:
  "settled WONT opt p \<Longrightarrow> other \<noteq> opt \<Longrightarrow> settled WONT opt (fst (handle_recv_will other p))"
  "settled WONT opt p \<Longrightarrow> settled WONT opt (fst (handle_recv_wont other p))"
  by (cases "him_state p other"; auto simp: settled_verbs handlers gateway_setters split: if_splits)+

lemma settled_wont_kept_other:
  "settled WONT opt p \<Longrightarrow> settled WONT opt (fst (handle_recv_do other p))"
  "settled WONT opt p \<Longrightarrow> settled WONT opt (fst (handle_recv_dont other p))"
  by (simp_all add: settled_verbs sides_alone)

lemmas settled_wont_kept = settled_wont_kept_own settled_wont_kept_other

lemma settled_do_kept_own:
  "settled DO_CMD opt p \<Longrightarrow> settled DO_CMD opt (fst (handle_recv_do other p))"
  "settled DO_CMD opt p \<Longrightarrow> other \<noteq> opt \<Longrightarrow> settled DO_CMD opt (fst (handle_recv_dont other p))"
  by (cases "us_state p other"; auto simp: settled_verbs handlers gateway_setters cooperate_with_his_do_def split: if_splits)+

lemma settled_do_kept_other:
  "settled DO_CMD opt p \<Longrightarrow> settled DO_CMD opt (fst (handle_recv_will other p))"
  "settled DO_CMD opt p \<Longrightarrow> settled DO_CMD opt (fst (handle_recv_wont other p))"
  by (simp_all add: settled_verbs sides_alone)

lemmas settled_do_kept = settled_do_kept_own settled_do_kept_other

lemma settled_dont_kept_own:
  "settled DONT opt p \<Longrightarrow> other \<noteq> opt \<Longrightarrow> settled DONT opt (fst (handle_recv_do other p))"
  "settled DONT opt p \<Longrightarrow> settled DONT opt (fst (handle_recv_dont other p))"
  by (cases "us_state p other"; auto simp: settled_verbs handlers gateway_setters split: if_splits)+

lemma settled_dont_kept_other:
  "settled DONT opt p \<Longrightarrow> settled DONT opt (fst (handle_recv_will other p))"
  "settled DONT opt p \<Longrightarrow> settled DONT opt (fst (handle_recv_wont other p))"
  by (simp_all add: settled_verbs sides_alone)

lemmas settled_dont_kept = settled_dont_kept_own settled_dont_kept_other

lemma settled_kept:
  assumes "verb \<in> {WILL, WONT, DO_CMD, DONT}" "settled verb opt p" "heard \<noteq> opposite verb \<or> other \<noteq> opt"
  shows "settled verb opt (fst (handle_verb heard other p))"
  using assms(1)
  by (rule is_verb) (use assms(2,3) in \<open>simp_all add: handle_verb_def settled_will_kept settled_wont_kept
      settled_do_kept settled_dont_kept split: if_splits\<close>)

lemma settled_subneg: "settled verb opt (p\<lparr>sb_option := a, sb_body := b\<rparr>) = settled verb opt p"
  by (simp add: settled_def cooperate_with_his_do_def)

lemma settled_item:
  assumes "verb \<in> {WILL, WONT, DO_CMD, DONT}" "settled verb opt p" "i \<noteq> Negotiate (opposite verb) opt"
  shows "settled verb opt (fst (gateway_item i p))"
proof (cases i)
  case (Negotiate heard other)
  with assms settled_kept [OF assms(1,2), of heard other] show ?thesis
    by (simp add: gateway_item_def del: opposite.simps)
qed (use assms(2) in \<open>simp_all add: gateway_item_def Let_def settled_subneg\<close>)

lemma settled_items:
  "verb \<in> {WILL, WONT, DO_CMD, DONT} \<Longrightarrow> settled verb opt p \<Longrightarrow> Negotiate (opposite verb) opt \<notin> set items \<Longrightarrow>
     settled verb opt (fst (gateway_items items p))"
proof (induction items arbitrary: p)
  case (Cons i items)
  then have "settled verb opt (fst (gateway_item i p))" by (intro settled_item) auto
  with Cons show ?case by (simp add: split_beta del: opposite.simps)
qed simp

text \<open>Property C14: no request is answered twice, so a peer that repeats itself cannot start a
  negotiation loop. In every connection of the gateway, after a verb for an option the same verb for it
  gets no answer, however much data and however many other commands come between, until the peer has
  sent the opposite verb for that option.\<close>

theorem repeated_request_unanswered:
  assumes "p = fst (gateway_run es (fst (new_gateway coop name cols rows)))" "gt_state p = InText"
    and "verb \<in> {WILL, WONT, DO_CMD, DONT}" "list_all command_ok items"
    and "Negotiate (opposite verb) opt \<notin> set items"
  shows "snd (snd (gateway_feed_all [IAC, verb, opt]
    (fst (gateway_feed_all ([IAC, verb, opt] @ concat (map item_bytes items)) p)))) = []"
proof -
  let ?p1 = "fst (handle_verb verb opt p)" let ?p2 = "fst (gateway_items items ?p1)"
  have ok: "gateway_ok p" using assms(1) gateway_run_ok [OF new_gateway_ok] by simp
  have one: "gateway_feed_all [IAC, verb, opt] p = (?p1, [], snd (handle_verb verb opt p)) \<and> gt_state ?p1 = InText"
    using feed_item [OF assms(2), of "Negotiate verb opt"] assms(3) by (simp add: gateway_item_def)
  have rest: "gt_state ?p2 = InText \<and> gateway_feed_all (concat (map item_bytes items)) ?p1 =
      (?p2, concat (map item_data items), snd (gateway_items items ?p1))"
    using feed_items [OF conjunct2 [OF one] assms(4)] by simp
  have "gateway_feed_all ([IAC, verb, opt] @ concat (map item_bytes items)) p =
      (?p2, concat (map item_data items), snd (handle_verb verb opt p) @ snd (gateway_items items ?p1))"
    using gateway_feed_append [OF conjunct1 [OF one] conjunct2 [OF rest]] by simp
  moreover have "settled verb opt ?p2" by (rule settled_items [OF assms(3) settles [OF assms(3) ok] assms(5)])
  then have "snd (handle_verb verb opt ?p2) = []" by (rule settled_silent [OF assms(3)])
  then have "snd (snd (gateway_feed_all [IAC, verb, opt] ?p2)) = []"
    using feed_item [OF conjunct1 [OF rest], of "Negotiate verb opt"] assms(3) by (simp add: gateway_item_def)
  ultimately show ?thesis by simp
qed

theorem repeated_request_unanswered_witness:
  "snd (snd (gateway_feed_all [IAC, WILL, 3]
    (fst (gateway_feed_all ([IAC, WILL, 3] @ concat (map item_bytes [Data 0xFF, Negotiate DO_CMD 3, Negotiate WONT 1]))
      (fst (gateway_run [Resized 80 24, Remote 0x41] (fst (new_gateway True [0x41] 40 25)))))))) = []"
  by (rule repeated_request_unanswered [OF refl])
    (simp_all add: new_gateway_def send_naws_update_def gateway_feed_def)


section \<open>What the bridge makes of its user's stream\<close>

lemma be_bytes_roundtrip: "from_be_bytes (ucast (drop_bit 8 (w::u16))) (ucast w) = w"
  unfolding from_be_bytes_def by (rule bit_eqI) (auto simp: bit_simps)

lemma inbound_append:
  "inbound_events xs s = (s1, e1) \<Longrightarrow> inbound_events ys s1 = (s2, e2) \<Longrightarrow> inbound_events (xs @ ys) s = (s2, e1 @ e2)"
  by (induction xs arbitrary: s e1) (fastforce split: prod.splits)+

fun inbound_item :: "telnet_item \<Rightarrow> Inbound list" where
  "inbound_item (Data b) = [InData b]"
| "inbound_item (Subneg payload) = (case payload of
      [opt, w1, w0, h1, h0] \<Rightarrow> if opt = OPT_NAWS then [Naws (from_be_bytes w1 w0) (from_be_bytes h1 h0)] else []
    | _ \<Rightarrow> [])"
| "inbound_item _ = []"

lemma inbound_body:
  "in_state s = ISb \<Longrightarrow> length (in_body s) \<le> MAX_SB_BODY_BYTES \<Longrightarrow>
     inbound_events (iac_double bs) s = (s\<lparr>in_body := take MAX_SB_BODY_BYTES (in_body s @ bs)\<rparr>, [])"
proof (induction bs arbitrary: s)
  case (Cons b bs)
  let ?t = "s\<lparr>in_body := take MAX_SB_BODY_BYTES (in_body s @ [b])\<rparr>"
  have step: "inbound_events (iac_double [b]) s = (?t, [])"
    using Cons.prems by (cases s) (auto simp: inbound_feed_def)
  have len: "length (in_body ?t) \<le> MAX_SB_BODY_BYTES" by simp
  have "take MAX_SB_BODY_BYTES (in_body ?t @ bs) = take MAX_SB_BODY_BYTES (in_body s @ b # bs)"
    using Cons.prems(2) by (cases "length (in_body s) = MAX_SB_BODY_BYTES") auto
  with inbound_append [OF step Cons.IH [OF _ len]] Cons.prems(1) show ?case
    by (simp add: iac_double_append [of "[b]" bs, simplified])
qed simp

lemma inbound_reads_item:
  assumes "in_state s = IData" "command_ok i"
  shows "\<exists>t. inbound_events (item_bytes i) s = (t, inbound_item i) \<and> in_state t = IData"
proof (cases i)
  case (Subneg payload)
  with assms(2) obtain opt body where payload: "payload = opt # body" "opt \<noteq> IAC" by (auto split: list.splits)
  let ?s = "s\<lparr>in_opt := opt, in_body := [], in_state := ISb\<rparr>"
  let ?t = "?s\<lparr>in_body := take MAX_SB_BODY_BYTES body\<rparr>"
  have opened: "inbound_events [IAC, SB, opt] s = (?s, [])" using assms(1) by (simp add: inbound_feed_def)
  have body: "inbound_events (iac_double body) ?s = (?t, [])" using inbound_body [of ?s body] by simp
  have naws: "inbound_item i = (if opt = OPT_NAWS \<and> length body = 4
      then [Naws (from_be_bytes (body ! 0) (body ! 1)) (from_be_bytes (body ! 2) (body ! 3))] else [])"
    using Subneg payload by (auto split: list.splits)
  have len: "length (take MAX_SB_BODY_BYTES body) = 4 \<longleftrightarrow> length body = 4" by (auto simp: MAX_SB_BODY_BYTES_def min_def)
  have "inbound_events [IAC, SE] ?t = (?t\<lparr>in_state := IData\<rparr>, inbound_item i)"
    using len unfolding naws by (simp add: inbound_feed_def MAX_SB_BODY_BYTES_def)
  then have "inbound_events ([IAC, SB, opt] @ iac_double body @ [IAC, SE]) s = (?t\<lparr>in_state := IData\<rparr>, inbound_item i)"
    using inbound_append [OF opened inbound_append [OF body]] by simp
  moreover have "item_bytes i = [IAC, SB, opt] @ iac_double body @ [IAC, SE]" using Subneg payload by simp
  ultimately show ?thesis by (intro exI [of _ "?t\<lparr>in_state := IData\<rparr>"]) simp
next
  case (Negotiate verb opt)
  with assms show ?thesis by (intro exI [of _ s]) (cases s, auto simp: inbound_feed_def)
next
  case (Command c)
  with assms have "\<not> (WILL \<le> c \<and> c \<le> DONT)" by (auto simp: word_le_nat_alt word_unat_eq_iff)
  with assms Command show ?thesis by (intro exI [of _ s]) (cases s, auto simp: inbound_feed_def)
qed (use assms in \<open>cases s, auto simp: inbound_feed_def\<close>)

lemma inbound_reads_items:
  "in_state s = IData \<Longrightarrow> list_all command_ok items \<Longrightarrow>
     \<exists>t. inbound_events (concat (map item_bytes items)) s = (t, concat (map inbound_item items)) \<and> in_state t = IData"
proof (induction items arbitrary: s)
  case (Cons i items)
  from inbound_reads_item [of s i] Cons.prems obtain t where
    t: "inbound_events (item_bytes i) s = (t, inbound_item i)" "in_state t = IData" by auto
  from Cons.IH [OF t(2)] Cons.prems(2) obtain u where
    u: "inbound_events (concat (map item_bytes items)) t = (u, concat (map inbound_item items))" "in_state u = IData" by auto
  from inbound_append [OF t(1) u(1)] u(2) show ?case by auto
qed simp

lemma naws_item: "emit_naws_sb p = item_bytes (Subneg (OPT_NAWS # to_be_bytes (window_cols p) @ to_be_bytes (window_rows p)))"
  by (simp add: emit_naws_sb_def)

lemma naws_event: "inbound_item (Subneg (OPT_NAWS # to_be_bytes cols @ to_be_bytes rows)) = [Naws cols rows]"
  by (simp add: to_be_bytes_def be_bytes_roundtrip)

text \<open>Property C15: the window size survives the trip to another gateway. When a remote that is such a
  gateway asks for it, and again when the user resizes, the reading end learns exactly the two numbers,
  for every pair of 16-bit sizes, those with 0xFF bytes included, and hears nothing else from the
  offers and answers around them.\<close>

theorem window_size_reported:
  "\<exists>p1 p2 r1 r2. gateway_feed_all [IAC, DO_CMD, OPT_NAWS] (fst (new_gateway True name cols rows)) = (p1, [], r1) \<and>
     send_naws_update cols' rows' p1 = (p2, r2) \<and>
     snd (inbound_events (snd (new_gateway True name cols rows) @ r1 @ r2) default_inbound) = [Naws cols rows, Naws cols' rows']"
proof -
  let ?p = "fst (new_gateway True name cols rows)" let ?p1 = "set_us OPT_NAWS Yes ?p"
  let ?p2 = "?p1\<lparr>window_cols := cols', window_rows := rows'\<rparr>"
  let ?offers = "[Negotiate WILL OPT_TTYPE, Negotiate WILL OPT_NAWS, Negotiate DO_CMD OPT_ECHO]"
  let ?size = "\<lambda>c r. Subneg (OPT_NAWS # to_be_bytes c @ to_be_bytes r)"
  have "us_state ?p OPT_NAWS = WantYes" "gt_state ?p = InText" "window_cols ?p = cols" "window_rows ?p = rows"
    by (simp_all add: new_gateway_def Let_def)
  moreover from this have "handle_verb DO_CMD OPT_NAWS ?p = (?p1, emit_naws_sb ?p)"
    by (simp add: handle_verbs handle_recv_do_def)
  ultimately have r1: "gateway_feed_all [IAC, DO_CMD, OPT_NAWS] ?p = (?p1, [], item_bytes (?size cols rows))"
    using feed_item [of ?p "Negotiate DO_CMD OPT_NAWS"] by (simp add: gateway_item_def naws_item del: item_bytes.simps(4))
  have r2: "send_naws_update cols' rows' ?p1 = (?p2, item_bytes (?size cols' rows'))"
    by (simp add: send_naws_update_def set_us_def naws_item)
  have offers: "snd (new_gateway True name cols rows) = concat (map item_bytes ?offers)" by (simp add: new_gateway_def Let_def)
  obtain t where "inbound_events (concat (map item_bytes (?offers @ [?size cols rows, ?size cols' rows']))) default_inbound
      = (t, concat (map inbound_item (?offers @ [?size cols rows, ?size cols' rows'])))"
    using inbound_reads_items [of default_inbound "?offers @ [?size cols rows, ?size cols' rows']"]
    by (auto simp: default_inbound_def)
  then have "snd (inbound_events (concat (map item_bytes ?offers) @ item_bytes (?size cols rows) @ item_bytes (?size cols' rows')) default_inbound)
      = [Naws cols rows, Naws cols' rows']"
    by (simp add: naws_event del: item_bytes.simps inbound_item.simps(2))
  with r1 r2 offers show ?thesis by metis
qed

end
