(* ===== verification/Telnet_Session.thy ===== *)
theory Telnet_Session
  imports Telnet_Options
begin

text \<open>
  The telnet server's end (\<^verbatim>\<open>src/src/telnet/io.rs\<close>, the option policy of \<^verbatim>\<open>session.rs\<close> and
  \<^verbatim>\<open>gateway.rs\<close>): the byte reader under every prompt, which takes telnet commands out of the keys
  and answers them, the option negotiation and the subnegotiations by which a client names its terminal
  and its window. A step is one byte of the reader; what it writes is returned with the new state.
\<close>

section \<open>Terminal names and sizes\<close>

datatype TerminalType = TAscii | TAnsi | TPetscii

definition match_terminal_name :: "str \<Rightarrow> TerminalType option" where
  "match_terminal_name name =
     (let upper = to_ascii_uppercase (trim name); is = (\<lambda>t. upper = str_of t); begins = (\<lambda>t. starts_with upper (str_of t))
      in if upper = [] then None
         else if is ''C64'' \<or> is ''C128'' \<or> is ''COMMODORE'' \<or> begins ''PETSCII'' \<or> begins ''C64'' \<or> begins ''C128''
         then Some TPetscii
         else if begins ''XTERM'' \<or> begins ''VT'' \<or> begins ''ANSI'' \<or> begins ''LINUX'' \<or> begins ''SCREEN'' \<or>
           begins ''TMUX'' \<or> begins ''RXVT'' \<or> begins ''KONSOLE'' \<or> begins ''ALACRITTY'' \<or> begins ''WEZTERM'' \<or>
           is ''CYGWIN'' \<or> is ''PUTTY''
         then Some TAnsi
         else if is ''DUMB'' \<or> is ''UNKNOWN'' \<or> is ''NETWORK'' then Some TAscii
         else None)"

definition gateway_terminal_name :: "TerminalType \<Rightarrow> str" where
  "gateway_terminal_name tt = (case tt of
      TPetscii \<Rightarrow> str_of ''PETSCII'' | TAnsi \<Rightarrow> str_of ''ANSI'' | TAscii \<Rightarrow> str_of ''DUMB'')"

definition PETSCII_WIDTH :: u16 where "PETSCII_WIDTH = 40"

definition gateway_default_window :: "TerminalType \<Rightarrow> u16 \<times> u16" where
  "gateway_default_window tt = (case tt of TPetscii \<Rightarrow> (PETSCII_WIDTH, 25) | _ \<Rightarrow> (80, 24))"

definition gateway_window :: "TerminalType \<Rightarrow> u16 option \<times> u16 option \<Rightarrow> u16 \<Rightarrow> u16 \<Rightarrow> u16 \<times> u16" where
  "gateway_window tt client override_cols override_rows =
     (case gateway_default_window tt of (default_cols, default_rows) \<Rightarrow>
        let pick = (\<lambda>ovr negotiated fallback. if ovr > 0 then ovr else case negotiated of Some n \<Rightarrow> n | None \<Rightarrow> fallback)
        in (pick override_cols (fst client) default_cols, pick override_rows (snd client) default_rows))"

definition gateway_window_source :: "u16 \<Rightarrow> u16 option \<Rightarrow> string" where
  "gateway_window_source ovr negotiated =
     (if ovr > 0 then ''config override'' else if negotiated \<noteq> None then ''client NAWS'' else ''terminal-type default'')"


text \<open>The label and the resolver tell the same precedence.\<close>

lemma window_source_agrees:
  "fst (gateway_window tt client ocols orows) =
     (if gateway_window_source ocols (fst client) = ''config override'' then ocols
      else if gateway_window_source ocols (fst client) = ''client NAWS'' then the (fst client)
      else fst (gateway_default_window tt))"
  "snd (gateway_window tt client ocols orows) =
     (if gateway_window_source orows (snd client) = ''config override'' then orows
      else if gateway_window_source orows (snd client) = ''client NAWS'' then the (snd client)
      else snd (gateway_default_window tt))"
  by (auto simp: gateway_window_def gateway_window_source_def Let_def split: prod.splits option.splits)


section \<open>The session\<close>

datatype SessionIac = IacData | IacCmd | IacOpt byte | IacSb "byte list" bool

record Session =
  iac_resume :: SessionIac
  se_pushback :: "byte option"
  peer_eof :: bool
  last_was_cr :: bool
  neg_sent_will :: "byte \<Rightarrow> bool"
  neg_sent_do :: "byte \<Rightarrow> bool"
  neg_sent_wont :: "byte \<Rightarrow> bool"
  neg_sent_dont :: "byte \<Rightarrow> bool"
  ttype_matched :: bool
  ttype_raw :: "str option"
  telnet_negotiated :: bool
  window_width :: "u16 option"
  window_height :: "u16 option"
  terminal_type :: TerminalType
  is_serial :: bool
  is_ssh :: bool

definition speaks :: "Session \<Rightarrow> bool" where
  "speaks s \<longleftrightarrow> \<not> is_serial s \<and> \<not> is_ssh s"

text \<open>A byte as a \<^verbatim>\<open>char\<close>, in a string; and a string's characters as Latin-1, the others as \<open>?\<close>.\<close>

definition latin1 :: "byte \<Rightarrow> str" where
  "latin1 b = (if b < 0x80 then [b] else [0xC0 OR drop_bit 6 b, 0x80 OR (b AND 0x3F)])"

function to_latin1_bytes :: "str \<Rightarrow> byte list" where
  "to_latin1_bytes [] = []"
| "to_latin1_bytes (b # bs) =
     (if b < 0x80 then b # to_latin1_bytes bs
      else if b = 0xC2 \<or> b = 0xC3 then (push_bit 6 (b AND 0x03) OR (hd bs AND 0x3F)) # to_latin1_bytes (tl bs)
      else 0x3F # to_latin1_bytes (dropWhile cont bs))"
  by pat_completeness auto
termination
  by (relation "measure length") (auto simp: le_imp_less_Suc length_dropWhile_le)

definition is_control :: "byte \<Rightarrow> bool" where
  "is_control b \<longleftrightarrow> b < 0x20 \<or> 0x7F \<le> b \<and> b \<le> 0x9F"

definition swap_case_for_petscii :: "str \<Rightarrow> str" where
  "swap_case_for_petscii =
     map (\<lambda>b. if 0x41 \<le> b \<and> b \<le> 0x5A then b + 32 else if 0x61 \<le> b \<and> b \<le> 0x7A then b - 32 else b)"

definition screen_bytes :: "Session \<Rightarrow> str \<Rightarrow> byte list" where
  "screen_bytes s txt = (if terminal_type s = TPetscii then to_latin1_bytes (swap_case_for_petscii txt) else txt)"

definition send_raw :: "Session \<Rightarrow> byte list \<Rightarrow> byte list" where
  "send_raw s bs = (if speaks s then iac_double bs else bs)"

definition send_line :: "Session \<Rightarrow> str \<Rightarrow> byte list" where
  "send_line s txt = send_raw s (screen_bytes s (txt @ [0x0D, 0x0A]))"

text \<open>The announced name: its characters arrive as bytes.\<close>

definition note_announced_terminal :: "byte list \<Rightarrow> Session \<Rightarrow> Session" where
  "note_announced_terminal name s =
     (if ttype_matched s then s
      else let clean = concat (map latin1 (filter (\<lambda>b. \<not> is_control b) name))
           in if clean = [] then s
              else case match_terminal_name clean of
                  Some tt \<Rightarrow> s\<lparr>ttype_raw := Some clean, terminal_type := tt, ttype_matched := True\<rparr>
                | None \<Rightarrow> s\<lparr>ttype_raw := Some clean\<rparr>)"


section \<open>Options\<close>

definition mark_will :: "byte \<Rightarrow> bool \<Rightarrow> Session \<Rightarrow> Session" where
  "mark_will opt v s = s\<lparr>neg_sent_will := (neg_sent_will s)(opt := v)\<rparr>"

definition mark_do :: "byte \<Rightarrow> bool \<Rightarrow> Session \<Rightarrow> Session" where
  "mark_do opt v s = s\<lparr>neg_sent_do := (neg_sent_do s)(opt := v)\<rparr>"

definition mark_wont :: "byte \<Rightarrow> bool \<Rightarrow> Session \<Rightarrow> Session" where
  "mark_wont opt v s = s\<lparr>neg_sent_wont := (neg_sent_wont s)(opt := v)\<rparr>"

definition mark_dont :: "byte \<Rightarrow> bool \<Rightarrow> Session \<Rightarrow> Session" where
  "mark_dont opt v s = s\<lparr>neg_sent_dont := (neg_sent_dont s)(opt := v)\<rparr>"

definition option_do :: "byte \<Rightarrow> Session \<Rightarrow> Session \<times> byte list" where
  "option_do opt s =
     (if opt = OPT_BINARY then
        if \<not> neg_sent_will s OPT_BINARY then (mark_will OPT_BINARY True s, [IAC, WILL, OPT_BINARY]) else (s, [])
      else if opt = OPT_TIMING_MARK then (s, [IAC, WILL, OPT_TIMING_MARK])
      else if opt = OPT_STATUS then
        if \<not> neg_sent_will s OPT_STATUS then (mark_will OPT_STATUS True s, [IAC, WILL, OPT_STATUS]) else (s, [])
      else if neg_sent_will s opt then (s, [])
      else if neg_sent_wont s opt then (s, [])
      else (mark_wont opt True s, [IAC, WONT, opt]))"

definition option_dont :: "byte \<Rightarrow> Session \<Rightarrow> Session \<times> byte list" where
  "option_dont opt s =
     (if opt = OPT_BINARY then
        if neg_sent_will s OPT_BINARY then (mark_will OPT_BINARY False s, [IAC, WONT, OPT_BINARY]) else (s, [])
      else if opt = OPT_TIMING_MARK then (s, [])
      else if opt = OPT_STATUS then
        if neg_sent_will s OPT_STATUS then (mark_will OPT_STATUS False s, [IAC, WONT, OPT_STATUS]) else (s, [])
      else if neg_sent_will s opt \<and> \<not> neg_sent_wont s opt then (mark_wont opt True s, [IAC, WONT, opt])
      else (s, []))"

definition option_will :: "byte \<Rightarrow> Session \<Rightarrow> Session \<times> byte list" where
  "option_will opt s =
     (if opt = OPT_BINARY then
        if \<not> neg_sent_do s OPT_BINARY then (mark_do OPT_BINARY True s, [IAC, DO_CMD, OPT_BINARY]) else (s, [])
      else if opt = OPT_STATUS then
        if \<not> neg_sent_dont s OPT_STATUS then (mark_dont OPT_STATUS True s, [IAC, DONT, OPT_STATUS]) else (s, [])
      else if neg_sent_do s opt \<and> opt \<noteq> OPT_TTYPE then (s, [])
      else if opt = OPT_TTYPE then
        (mark_do OPT_TTYPE True s,
         (if \<not> neg_sent_do s OPT_TTYPE then [IAC, DO_CMD, OPT_TTYPE] else []) @
         (if \<not> ttype_matched s then [IAC, SB, OPT_TTYPE, TTYPE_SEND, IAC, SE] else []))
      else if opt = OPT_NAWS then (mark_do OPT_NAWS True s, [IAC, DO_CMD, OPT_NAWS])
      else if neg_sent_dont s opt then (s, [])
      else (mark_dont opt True s, [IAC, DONT, opt]))"

definition option_wont :: "byte \<Rightarrow> Session \<Rightarrow> Session \<times> byte list" where
  "option_wont opt s =
     (if opt = OPT_BINARY then
        if neg_sent_do s OPT_BINARY then (mark_do OPT_BINARY False s, [IAC, DONT, OPT_BINARY]) else (s, [])
      else if neg_sent_do s opt \<and> \<not> neg_sent_dont s opt then (mark_dont opt True s, [IAC, DONT, opt])
      else (s, []))"

definition handle_telnet_option :: "byte \<Rightarrow> byte \<Rightarrow> Session \<Rightarrow> Session \<times> byte list" where
  "handle_telnet_option cmd opt s =
     (if cmd = DO_CMD then option_do opt s
      else if cmd = DONT then option_dont opt s
      else if cmd = WILL then option_will opt s
      else if cmd = WONT then option_wont opt s
      else (s, []))"

definition status_of :: "Session \<Rightarrow> byte \<Rightarrow> byte list" where
  "status_of s opt =
     (if neg_sent_will s opt \<and> \<not> neg_sent_wont s opt then WILL # iac_double [opt] else []) @
     (if neg_sent_do s opt \<and> \<not> neg_sent_dont s opt then DO_CMD # iac_double [opt] else [])"

definition send_status_is :: "Session \<Rightarrow> byte list" where
  "send_status_is s =
     [IAC, SB, OPT_STATUS, STATUS_IS] @ concat (map (status_of s) (map word_of_nat [0..<256])) @ [IAC, SE]"

definition handle_subnegotiation :: "byte \<Rightarrow> byte list \<Rightarrow> Session \<Rightarrow> Session \<times> byte list" where
  "handle_subnegotiation opt body s =
     (if opt = OPT_TTYPE then
        (case body of b # name \<Rightarrow> if b = TTYPE_IS then (note_announced_terminal name s, []) else (s, []) | [] \<Rightarrow> (s, []))
      else if opt = OPT_STATUS then
        (case body of
            b # _ \<Rightarrow> (s, if b = STATUS_SEND \<and> neg_sent_will s OPT_STATUS then send_status_is s else [])
          | [] \<Rightarrow> (s, []))
      else if opt = OPT_NAWS then
        if length body \<ge> 4 then
          let w = from_be_bytes (body ! 0) (body ! 1); h = from_be_bytes (body ! 2) (body ! 3);
              s1 = (if w > 0 then s\<lparr>window_width := Some w\<rparr> else s)
          in (if h > 0 then s1\<lparr>window_height := Some h\<rparr> else s1, [])
        else (s, [])
      else (s, []))"


section \<open>The reader\<close>

abbreviation (input) BRK :: byte where "BRK \<equiv> 0xF3"
abbreviation (input) IP :: byte where "IP \<equiv> 0xF4"
abbreviation (input) AYT :: byte where "AYT \<equiv> 0xF6"
abbreviation (input) EC :: byte where "EC \<equiv> 0xF7"
abbreviation (input) EL :: byte where "EL \<equiv> 0xF8"

definition LINE_ERASE_BYTE :: byte where "LINE_ERASE_BYTE = 0x15"

text \<open>
  What a read of one byte comes to, the timer that runs inside a subnegotiation included, and what a
  step decides: to go on, a key, a closed connection or an error.
\<close>

datatype session_input = Got byte | Eof | ReadError string | Stalled

datatype session_step = Going | Key byte | Closed | Failed string

definition se_at :: "SessionIac \<Rightarrow> Session \<Rightarrow> Session" where
  "se_at i s = s\<lparr>iac_resume := i\<rparr>"

definition step_data :: "bool \<Rightarrow> byte \<Rightarrow> Session \<Rightarrow> session_step \<times> Session \<times> byte list" where
  "step_data filter_iac b s =
     (if \<not> filter_iac then (Key b, s\<lparr>last_was_cr := False\<rparr>, [])
      else if b \<noteq> IAC then
        (if last_was_cr s \<and> b = 0 then Going else Key b, s\<lparr>last_was_cr := (b = 0x0D)\<rparr>, [])
      else (Going, se_at IacCmd s, []))"

definition step_command :: "byte \<Rightarrow> Session \<Rightarrow> session_step \<times> Session \<times> byte list" where
  "step_command cmd s0 =
     (let s = se_at IacData s0; key = s\<lparr>last_was_cr := False\<rparr>
      in if cmd = IAC then (Key IAC, key, [])
         else if cmd = SB then (Going, se_at (IacSb [] False) (s\<lparr>telnet_negotiated := True\<rparr>), [])
         else if cmd = WILL \<or> cmd = WONT \<or> cmd = DO_CMD \<or> cmd = DONT then
           (Going, se_at (IacOpt cmd) (s\<lparr>telnet_negotiated := True\<rparr>), [])
         else if cmd = AYT then (Going, s, send_line s (str_of ''[Yes]''))
         else if cmd = IP \<or> cmd = BRK then (Key (if terminal_type s = TPetscii then 0x5F else 0x1B), key, [])
         else if cmd = EC then (Key 0x7F, key, [])
         else if cmd = EL then (Key LINE_ERASE_BYTE, key, [])
         else (Going, s, []))"

definition step_sb :: "byte list \<Rightarrow> bool \<Rightarrow> byte \<Rightarrow> Session \<Rightarrow> session_step \<times> Session \<times> byte list" where
  "step_sb payload iac b s =
     (if iac then
        if b = SE then
          (case payload of
              opt # body \<Rightarrow> (case handle_subnegotiation opt body (se_at IacData s) of (s1, out) \<Rightarrow> (Going, s1, out))
            | [] \<Rightarrow> (Going, se_at IacData s, []))
        else if b = IAC \<and> length payload < 512 then (Going, se_at (IacSb (payload @ [IAC]) False) s, [])
        else (Going, se_at (IacSb payload False) s, [])
      else if b = IAC then (Going, se_at (IacSb payload True) s, [])
      else if length payload < 512 then (Going, se_at (IacSb (payload @ [b]) False) s, [])
      else (Going, s, []))"

definition iac_step :: "bool \<Rightarrow> session_input \<Rightarrow> Session \<Rightarrow> session_step \<times> Session \<times> byte list" where
  "iac_step filter_iac inp s = (case iac_resume s of
      IacSb payload iac \<Rightarrow> (case inp of
          Got b \<Rightarrow> step_sb payload iac b s
        | ReadError e \<Rightarrow> (Failed e, se_at IacData s, [])
        | _ \<Rightarrow> (Closed, se_at IacData s, []))
    | stage \<Rightarrow> (case inp of
          Got b \<Rightarrow> (case stage of
              IacData \<Rightarrow> step_data filter_iac b s
            | IacCmd \<Rightarrow> step_command b s
            | IacOpt cmd \<Rightarrow> (case handle_telnet_option cmd b (se_at IacData s) of (s1, out) \<Rightarrow> (Going, s1, out)))
        | Eof \<Rightarrow> (Closed, (se_at IacData s)\<lparr>peer_eof := True\<rparr>, [])
        | ReadError e \<Rightarrow> (Failed e, s, [])
        | Stalled \<Rightarrow> (Going, s, [])))"

text \<open>A write to a connection that is gone fails the read it is part of.\<close>

definition wrote :: "string option \<Rightarrow> session_step \<times> Session \<times> byte list \<Rightarrow> session_step \<times> Session \<times> byte list" where
  "wrote gone r = (case r of (x, s, out) \<Rightarrow> (case gone of
      Some e \<Rightarrow> if out = [] then (x, s, []) else (Failed e, s, [])
    | None \<Rightarrow> (x, s, out)))"

text \<open>One key: the reader's loop, over the inputs that come; \<open>Going\<close> is a read that is still waiting.\<close>

fun session_read_loop :: "string option \<Rightarrow> session_input list \<Rightarrow> Session \<Rightarrow>
    session_step \<times> Session \<times> byte list \<times> session_input list" where
  "session_read_loop gone [] s = (Going, s, [], [])"
| "session_read_loop gone (i # is) s = (case wrote gone (iac_step (speaks s) i s) of (x, s1, out) \<Rightarrow>
     if x = Going
     then (case session_read_loop gone is s1 of (y, s2, more_out, rest) \<Rightarrow> (y, s2, out @ more_out, rest))
     else (x, s1, out, is))"

definition session_read_byte :: "string option \<Rightarrow> session_input list \<Rightarrow> Session \<Rightarrow>
    session_step \<times> Session \<times> byte list \<times> session_input list" where
  "session_read_byte gone is s = (case se_pushback s of
      Some b \<Rightarrow> (Key b, s\<lparr>se_pushback := None, last_was_cr := (b = 0x0D)\<rparr>, [], is)
    | None \<Rightarrow> session_read_loop gone is s)"

text \<open>A caller of the telnet listener, and what opens its session.\<close>

definition new_session :: Session where
  "new_session = \<lparr>iac_resume = IacData, se_pushback = None, peer_eof = False, last_was_cr = False,
     neg_sent_will = (\<lambda>_. False), neg_sent_do = (\<lambda>_. False), neg_sent_wont = (\<lambda>_. False), neg_sent_dont = (\<lambda>_. False),
     ttype_matched = False, ttype_raw = None, telnet_negotiated = False, window_width = None, window_height = None,
     terminal_type = TAnsi, is_serial = False, is_ssh = False\<rparr>"

definition session_opening :: "byte list" where
  "session_opening = [IAC, WILL, OPT_ECHO] @ [IAC, WILL, OPT_SGA] @ [IAC, DO_CMD, OPT_SGA] @ [IAC, DO_CMD, OPT_TTYPE] @ [IAC, DO_CMD, OPT_NAWS]"

definition open_session :: "Session \<Rightarrow> Session \<times> byte list" where
  "open_session s =
     (if is_serial s then (s, [])
      else (mark_do OPT_NAWS True (mark_do OPT_TTYPE True (mark_do OPT_SGA True (mark_will OPT_SGA True (mark_will OPT_ECHO True s)))),
            session_opening))"

section \<open>From bytes to keys and commands\<close>

text \<open>A telnet session's reader over a run of bytes: the keys it delivers and what it writes.\<close>

fun session_run :: "byte list \<Rightarrow> Session \<Rightarrow> byte list \<times> Session \<times> byte list" where
  "session_run [] s = ([], s, [])"
| "session_run (b # bs) s = (case iac_step True (Got b) s of (x, s1, out) \<Rightarrow>
     case session_run bs s1 of (ks, s2, later) \<Rightarrow> (case x of Key k \<Rightarrow> k # ks | _ \<Rightarrow> ks, s2, out @ later))"

lemma session_append:
  "session_run xs s = (k1, s1, o1) \<Longrightarrow> session_run ys s1 = (k2, s2, o2) \<Longrightarrow> session_run (xs @ ys) s = (k1 @ k2, s2, o1 @ o2)"
  by (induction xs arbitrary: s k1 o1) (fastforce split: prod.splits session_step.splits)+

text \<open>One item, without its spelling.\<close>

definition session_command :: "byte \<Rightarrow> Session \<Rightarrow> byte list \<times> Session \<times> byte list" where
  "session_command c s =
     (let key = s\<lparr>last_was_cr := False\<rparr>
      in if c = AYT then ([], s, send_line s (str_of ''[Yes]''))
         else if c = IP \<or> c = BRK then ([if terminal_type s = TPetscii then 0x5F else 0x1B], key, [])
         else if c = EC then ([0x7F], key, [])
         else if c = EL then ([LINE_ERASE_BYTE], key, [])
         else ([], s, []))"

definition session_item :: "telnet_item \<Rightarrow> Session \<Rightarrow> byte list \<times> Session \<times> byte list" where
  "session_item i s = (case i of
      Data b \<Rightarrow>
        if b = IAC then ([IAC], s\<lparr>last_was_cr := False\<rparr>, [])
        else (if last_was_cr s \<and> b = 0 then [] else [b], s\<lparr>last_was_cr := (b = 0x0D)\<rparr>, [])
    | Negotiate verb opt \<Rightarrow> ([], handle_telnet_option verb opt (s\<lparr>telnet_negotiated := True\<rparr>))
    | Command c \<Rightarrow> session_command c s
    | Subneg payload \<Rightarrow> (case take 512 payload of
          [] \<Rightarrow> ([], s\<lparr>telnet_negotiated := True\<rparr>, [])
        | opt # body \<Rightarrow> ([], handle_subnegotiation opt body (s\<lparr>telnet_negotiated := True\<rparr>))))"

fun session_items :: "telnet_item list \<Rightarrow> Session \<Rightarrow> byte list \<times> Session \<times> byte list" where
  "session_items [] s = ([], s, [])"
| "session_items (i # is) s = (case session_item i s of (k1, s1, o1) \<Rightarrow>
     case session_items is s1 of (k2, s2, o2) \<Rightarrow> (k1 @ k2, s2, o1 @ o2))"

lemmas marks = mark_will_def mark_do_def mark_wont_def mark_dont_def

lemma se_at_at [simp]: "se_at i (se_at j s) = se_at i s"
  by (simp add: se_at_def)

lemma se_at_id: "iac_resume s = i \<Longrightarrow> se_at i s = s"
  by (simp add: se_at_def)

lemma option_handlers_at:
  "option_do opt (se_at i s) = (case option_do opt s of (t, r) \<Rightarrow> (se_at i t, r))"
  "option_dont opt (se_at i s) = (case option_dont opt s of (t, r) \<Rightarrow> (se_at i t, r))"
  "option_will opt (se_at i s) = (case option_will opt s of (t, r) \<Rightarrow> (se_at i t, r))"
  "option_wont opt (se_at i s) = (case option_wont opt s of (t, r) \<Rightarrow> (se_at i t, r))"
  by (simp_all add: option_do_def option_dont_def option_will_def option_wont_def se_at_def marks)

lemma handle_option_at:
  "handle_telnet_option v opt (se_at i s) = (case handle_telnet_option v opt s of (t, r) \<Rightarrow> (se_at i t, r))"
  by (simp add: handle_telnet_option_def option_handlers_at)

lemma handle_option_data:
  assumes "iac_resume s = IacData" shows "iac_resume (fst (handle_telnet_option v opt s)) = IacData"
proof -
  obtain t r where t: "handle_telnet_option v opt s = (t, r)" by (cases "handle_telnet_option v opt s")
  with handle_option_at [of v opt IacData s] have "t = se_at IacData t" by (simp add: se_at_id [OF assms])
  then have "iac_resume t = iac_resume (se_at IacData t)" by (rule arg_cong)
  with t show ?thesis by (simp add: se_at_def)
qed

lemma status_at: "send_status_is (se_at i s) = send_status_is s"
proof -
  have "status_of (se_at i s) = status_of s" by (simp add: fun_eq_iff status_of_def se_at_def)
  then show ?thesis by (simp add: send_status_is_def)
qed

lemma note_at: "note_announced_terminal name (se_at i s) = se_at i (note_announced_terminal name s)"
proof -
  define clean where "clean = concat (map latin1 (filter (\<lambda>b. \<not> is_control b) name))"
  show ?thesis unfolding note_announced_terminal_def Let_def clean_def [symmetric]
    by (cases "match_terminal_name clean") (simp_all add: se_at_def)
qed

lemma handle_subneg_at:
  "handle_subnegotiation opt body (se_at i s) = (case handle_subnegotiation opt body s of (t, r) \<Rightarrow> (se_at i t, r))"
  by (simp add: handle_subnegotiation_def note_at status_at Let_def split: list.split) (simp add: se_at_def)

lemma handle_subneg_data:
  assumes "iac_resume s = IacData" shows "iac_resume (fst (handle_subnegotiation opt body s)) = IacData"
proof -
  obtain t r where t: "handle_subnegotiation opt body s = (t, r)" by (cases "handle_subnegotiation opt body s")
  with handle_subneg_at [of opt body IacData s] have "t = se_at IacData t" by (simp add: se_at_id [OF assms])
  then have "iac_resume t = iac_resume (se_at IacData t)" by (rule arg_cong)
  with t show ?thesis by (simp add: se_at_def)
qed

lemma payload_read:
  "iac_resume s = IacSb payload False \<Longrightarrow> length payload \<le> 512 \<Longrightarrow>
     session_run (iac_double bs) s = ([], se_at (IacSb (take 512 (payload @ bs)) False) s, [])"
proof (induction bs arbitrary: s payload)
  case (Cons b bs)
  let ?t = "se_at (IacSb (take 512 (payload @ [b])) False) s"
  have step: "session_run (iac_double [b]) s = ([], ?t, [])"
    using Cons.prems by (auto simp: iac_step_def step_sb_def se_at_def)
  have "iac_resume ?t = IacSb (take 512 (payload @ [b])) False" "length (take 512 (payload @ [b])) \<le> 512"
    by (simp_all add: se_at_def)
  moreover have "take 512 (take 512 (payload @ [b]) @ bs) = take 512 (payload @ b # bs)"
    using Cons.prems(2) by (cases "length payload = 512") auto
  ultimately show ?case using session_append [OF step Cons.IH [of ?t "take 512 (payload @ [b])"]] Cons.prems(1)
    by (simp add: iac_double_append [of "[b]" bs, simplified])
qed (simp add: se_at_id)

lemma resume_at [simp]: "iac_resume (se_at i s) = i"
  by (simp add: se_at_def)

lemma sb_ends:
  "session_run [SE] (se_at (IacSb p True) s) = (case p of
      [] \<Rightarrow> ([], se_at IacData s, [])
    | opt # body \<Rightarrow> ([], handle_subnegotiation opt body (se_at IacData s)))"
  by (cases p) (simp_all add: iac_step_def step_sb_def split_beta)

lemma session_reads_item:
  assumes "iac_resume s = IacData" "item_ok i"
  shows "session_run (item_bytes i) s = session_item i s \<and> iac_resume (fst (snd (session_item i s))) = IacData"
proof (cases i)
  case (Data b)
  then show ?thesis using assms(1)
    by (cases s) (simp add: iac_step_def step_data_def step_command_def session_item_def se_at_def)
next
  case (Negotiate verb opt)
  let ?s = "s\<lparr>telnet_negotiated := True\<rparr>"
  have data: "iac_resume ?s = IacData" using assms(1) by simp
  have seen: "session_run [IAC, verb] s = ([], se_at (IacOpt verb) ?s, [])"
    using assms Negotiate by (auto simp: iac_step_def step_data_def step_command_def se_at_def)
  obtain t r where t: "handle_telnet_option verb opt ?s = (t, r)" by (cases "handle_telnet_option verb opt ?s")
  have "se_at IacData ?s = ?s" using se_at_id [OF data] .
  then have "session_run [opt] (se_at (IacOpt verb) ?s) = ([], t, r)"
    using t by (simp add: iac_step_def)
  from session_append [OF seen this] Negotiate t handle_option_data [OF data, of verb opt] show ?thesis
    by (simp add: session_item_def del: session_run.simps)
next
  case (Command c)
  then show ?thesis using assms
    by (cases s) (auto simp: iac_step_def step_data_def step_command_def session_item_def session_command_def se_at_def Let_def)
next
  case (Subneg payload)
  let ?s = "s\<lparr>telnet_negotiated := True\<rparr>"
  have data: "iac_resume ?s = IacData" using assms(1) by simp
  have opened: "session_run [IAC, SB] s = ([], se_at (IacSb [] False) ?s, [])"
    using assms(1) by (simp add: iac_step_def step_data_def step_command_def se_at_def)
  have body: "session_run (iac_double payload) (se_at (IacSb [] False) ?s) = ([], se_at (IacSb (take 512 payload) False) ?s, [])"
    using payload_read [of "se_at (IacSb [] False) ?s" "[]" payload] by (simp add: se_at_def)
  have id: "se_at IacData ?s = ?s" using se_at_id [OF data] .
  have iac: "session_run [IAC] (se_at (IacSb (take 512 payload) False) ?s) = ([], se_at (IacSb (take 512 payload) True) ?s, [])"
    by (simp add: iac_step_def step_sb_def se_at_def)
  have se: "session_run [SE] (se_at (IacSb (take 512 payload) True) ?s) =
      (case take 512 payload of [] \<Rightarrow> ([], ?s, []) | opt # body \<Rightarrow> ([], handle_subnegotiation opt body ?s))"
    unfolding sb_ends id ..
  obtain k :: "byte list" and t o1 where ended: "(case take 512 payload of [] \<Rightarrow> ([], ?s, []) | opt # body \<Rightarrow> ([], handle_subnegotiation opt body ?s)) = (k, t, o1)"
    by (rule prod_cases3)
  from session_append [OF opened session_append [OF body session_append [OF iac trans [OF se ended]]]]
  have "session_run (item_bytes i) s = session_item i s"
    using Subneg ended by (simp add: session_item_def del: session_run.simps)
  moreover have "iac_resume (fst (snd (session_item i s))) = IacData"
    using Subneg handle_subneg_data [OF data] data by (auto simp: session_item_def split: list.splits)
  ultimately show ?thesis by simp
qed

lemma session_reads_items:
  "iac_resume s = IacData \<Longrightarrow> list_all item_ok items \<Longrightarrow>
     session_run (concat (map item_bytes items)) s = session_items items s \<and>
     iac_resume (fst (snd (session_items items s))) = IacData"
proof (induction items arbitrary: s)
  case (Cons i items)
  from Cons.prems session_reads_item [of s i] have
    i: "session_run (item_bytes i) s = (fst (session_item i s), fst (snd (session_item i s)), snd (snd (session_item i s)))"
    and at: "iac_resume (fst (snd (session_item i s))) = IacData" by auto
  from Cons.IH [OF at] Cons.prems(2) have
    "session_run (concat (map item_bytes items)) (fst (snd (session_item i s))) =
      (fst (session_items items (fst (snd (session_item i s)))), fst (snd (session_items items (fst (snd (session_item i s))))),
       snd (snd (session_items items (fst (snd (session_item i s))))))"
    and "iac_resume (fst (snd (session_items items (fst (snd (session_item i s)))))) = IacData" by auto
  with session_append [OF i] show ?case by (auto simp: split_beta)
qed simp

lemma speaks_step:
  assumes "iac_step f i s = (x, t, out)" shows "speaks t = speaks s"
  using assms
  by (auto simp: iac_step_def step_data_def step_command_def step_sb_def se_at_def speaks_def Let_def
      handle_telnet_option_def option_do_def option_dont_def option_will_def option_wont_def marks
      handle_subnegotiation_def note_announced_terminal_def
      split: SessionIac.splits session_input.splits if_splits prod.splits list.splits option.splits)

text \<open>The reader of one key is that run up to its first key: what a caller gets, and what is left.\<close>

lemma read_byte_run:
  "speaks s \<Longrightarrow> session_read_loop None (map Got bs) s = (Key k, s1, out, rest) \<Longrightarrow>
     \<exists>us vs. bs = us @ vs \<and> rest = map Got vs \<and> session_run us s = ([k], s1, out)"
proof (induction bs arbitrary: s out)
  case (Cons b bs)
  obtain x t o1 where step: "iac_step True (Got b) s = (x, t, o1)" by (cases "iac_step True (Got b) s")
  have t: "speaks t" using speaks_step [OF step] Cons.prems(1) by simp
  show ?case
  proof (cases "x = Going")
    case True
    with Cons.prems step obtain o2 where "session_read_loop None (map Got bs) t = (Key k, s1, o2, rest)" "out = o1 @ o2"
      by (auto simp: wrote_def split: prod.splits)
    with Cons.IH [OF t] obtain us vs where "bs = us @ vs" "rest = map Got vs" "session_run us t = ([k], s1, o2)" by blast
    then show ?thesis using True step \<open>out = o1 @ o2\<close> by (intro exI [of _ "b # us"] exI [of _ vs]) simp
  next
    case False
    with Cons.prems step have "x = Key k" "t = s1" "o1 = out" "rest = map Got bs"
      by (auto simp: wrote_def split: prod.splits)
    with step show ?thesis by (intro exI [of _ "[b]"] exI [of _ bs]) simp
  qed
qed simp


text \<open>Property C38: the server's byte-level reader is exactly the command-level one, whatever a client's
  stream is made of: data bytes are keys, but for the NUL of a CR NUL pair; a break or an interrupt is the
  terminal's escape key, an erase its key; every negotiation and every subnegotiation, its payload cut
  at 512 bytes, is handled once and in its place; and the reader is back in data at the end.\<close>

theorem session_reads_commands:
  assumes "iac_resume s = IacData" "list_all item_ok items"
  shows "session_run (concat (map item_bytes items)) s = session_items items s"
  using session_reads_items [OF assms] by simp

theorem session_reads_commands_witness:
  "session_run (concat (map item_bytes [Data 0x0D, Data 0, Command 0xF4, Subneg [0x1F, 0, 0xFF, 0, 24], Data 0xFF])) new_session
    = session_items [Data 0x0D, Data 0, Command 0xF4, Subneg [0x1F, 0, 0xFF, 0, 24], Data 0xFF] new_session"
  by (rule session_reads_commands) (simp_all add: new_session_def)

text \<open>Typing, as a telnet client spells it: a bare CR with a NUL after it, 0xFF doubled.\<close>

definition typed :: "byte \<Rightarrow> telnet_item list" where
  "typed b = (if b = 0x0D then [Data b, Data 0] else [Data b])"

lemma session_items_append:
  "session_items xs s = (k1, s1, o1) \<Longrightarrow> session_items ys s1 = (k2, s2, o2) \<Longrightarrow> session_items (xs @ ys) s = (k1 @ k2, s2, o1 @ o2)"
  by (induction xs arbitrary: s k1 o1) (fastforce split: prod.splits)+

lemma typing_read:
  "iac_resume s = IacData \<Longrightarrow> \<not> last_was_cr s \<Longrightarrow>
     session_run (concat (map item_bytes (concat (map typed keys)))) s = (keys, s, [])"
proof -
  assume s: "iac_resume s = IacData" "\<not> last_was_cr s"
  then have id: "s\<lparr>last_was_cr := False\<rparr> = s" by (cases s) simp
  have one: "session_items (typed b) s = ([b], s, [])" for b
    using s(2) id by (simp add: typed_def session_item_def)
  have "session_items (concat (map typed keys)) s = (keys, s, [])"
    by (induction keys) (use session_items_append [OF one] in simp_all)
  moreover have "list_all item_ok (concat (map typed keys))" by (induction keys) (simp_all add: typed_def)
  ultimately show ?thesis using session_reads_items [OF s(1)] by simp
qed

text \<open>An option the peer has turned off stays off: after our WONT its next request for it is taken for an
  acknowledgement and gets no answer.\<close>

lemma withdrawn_option_unanswered:
  assumes "neg_sent_will s opt" "\<not> neg_sent_wont s opt" "opt \<notin> {OPT_BINARY, OPT_TIMING_MARK, OPT_STATUS}"
    and "handle_telnet_option DONT opt s = (t, r)"
  shows "r = [IAC, WONT, opt] \<and> handle_telnet_option DO_CMD opt t = (t, []) \<and> status_of t opt = status_of (mark_will opt False s) opt"
  using assms by (auto simp: handle_telnet_option_def option_do_def option_dont_def marks status_of_def)

end
