(* ===== verification/Duplex.thy ===== *)
theory Duplex
  imports Main
begin

text \<open>
  Two deterministic machines joined by a pair of streams. A machine reads one symbol and appends what it
  writes to the other's stream, and which of them moves is not determined. The two moves commute, so one
  run that empties both streams decides every other run: all have its length and its end.
\<close>

record ('a, 'b, 'm) duplex =
  side_a :: 'a
  side_b :: 'b
  to_a :: "'m list"
  to_b :: "'m list"

inductive moves :: "('a \<Rightarrow> 'm \<Rightarrow> 'a \<times> 'm list) \<Rightarrow> ('b \<Rightarrow> 'm \<Rightarrow> 'b \<times> 'm list) \<Rightarrow>
    ('a, 'b, 'm) duplex \<Rightarrow> ('a, 'b, 'm) duplex \<Rightarrow> bool" for f g where
  a_reads: "to_a c = x # xs \<Longrightarrow> f (side_a c) x = (a, out) \<Longrightarrow>
      moves f g c (c\<lparr>side_a := a, to_a := xs, to_b := to_b c @ out\<rparr>)"
| b_reads: "to_b c = y # ys \<Longrightarrow> g (side_b c) y = (b, out) \<Longrightarrow>
      moves f g c (c\<lparr>side_b := b, to_b := ys, to_a := to_a c @ out\<rparr>)"

inductive_cases movesE: "moves f g c d"

lemma moves_commute:
  assumes "moves f g c d" "moves f g c e"
  shows "d = e \<or> (\<exists>u. moves f g d u \<and> moves f g e u)"
  using assms
proof (elim movesE, goal_cases)
  case (2 x xs a out y ys b out')
  let ?u = "c\<lparr>side_a := a, side_b := b, to_a := xs @ out', to_b := ys @ out\<rparr>"
  have "moves f g d ?u" using b_reads [of d y "ys @ out" g b out' f] 2 by (cases c) simp
  moreover have "moves f g e ?u" using a_reads [of e x "xs @ out'" f a out g] 2 by (cases c) simp
  ultimately show ?thesis by blast
next
  case (3 y ys b out x xs a out')
  let ?u = "c\<lparr>side_a := a, side_b := b, to_a := xs @ out, to_b := ys @ out'\<rparr>"
  have "moves f g e ?u" using b_reads [of e y "ys @ out'" g b out f] 3 by (cases c) simp
  moreover have "moves f g d ?u" using a_reads [of d x "xs @ out" f a out' g] 3 by (cases c) simp
  ultimately show ?thesis by blast
qed auto

lemma quiet_end: "to_a c = [] \<Longrightarrow> to_b c = [] \<Longrightarrow> \<not> moves f g c d"
  by (auto elim: movesE)

lemma move_towards:
  assumes "(moves f g ^^ n) c e" "to_a e = []" "to_b e = []" "moves f g c d"
  shows "\<exists>m. n = Suc m \<and> (moves f g ^^ m) d e"
  using assms(1,4)
proof (induction n arbitrary: c d)
  case 0
  with quiet_end [OF assms(2,3)] show ?case by auto
next
  case (Suc n)
  from Suc.prems(1) obtain c1 where c1: "moves f g c c1" "(moves f g ^^ n) c1 e" by (metis relpowp_Suc_D2)
  from moves_commute [OF c1(1) Suc.prems(2)] show ?case
  proof
    assume "c1 = d" with c1 show ?thesis by auto
  next
    assume "\<exists>u. moves f g c1 u \<and> moves f g d u"
    then obtain u where u: "moves f g c1 u" "moves f g d u" by blast
    from Suc.IH [OF c1(2) u(1)] obtain m where m: "n = Suc m" "(moves f g ^^ m) u e" by blast
    from relpowp_Suc_I2 [OF u(2) m(2)] m(1) show ?thesis by auto
  qed
qed

theorem one_run_decides:
  "(moves f g ^^ n) c e \<Longrightarrow> to_a e = [] \<Longrightarrow> to_b e = [] \<Longrightarrow> (moves f g ^^ m) c d \<Longrightarrow>
     m \<le> n \<and> (moves f g ^^ (n - m)) d e"
proof (induction m arbitrary: c n)
  case (Suc m)
  from Suc.prems(4) obtain c1 where c1: "moves f g c c1" "(moves f g ^^ m) c1 d" by (metis relpowp_Suc_D2)
  from move_towards [OF Suc.prems(1-3) c1(1)] obtain k where k: "n = Suc k" "(moves f g ^^ k) c1 e" by blast
  from Suc.IH [OF k(2) Suc.prems(2,3) c1(2)] k(1) show ?case by simp
qed auto

text \<open>Reading a whole run on one side.\<close>

fun machine_run :: "('a \<Rightarrow> 'm \<Rightarrow> 'a \<times> 'm list) \<Rightarrow> 'm list \<Rightarrow> 'a \<Rightarrow> 'a \<times> 'm list" where
  "machine_run f [] a = (a, [])"
| "machine_run f (x # xs) a = (case f a x of (a1, o1) \<Rightarrow> case machine_run f xs a1 of (a2, o2) \<Rightarrow> (a2, o1 @ o2))"

lemma a_reads_all:
  "to_a c = xs @ rest \<Longrightarrow> machine_run f xs (side_a c) = (a, out) \<Longrightarrow>
     (moves f g ^^ length xs) c (c\<lparr>side_a := a, to_a := rest, to_b := to_b c @ out\<rparr>)"
proof (induction xs arbitrary: c out)
  case (Cons x xs)
  obtain a1 o1 where step: "f (side_a c) x = (a1, o1)" by (cases "f (side_a c) x")
  with Cons.prems(2) obtain o2 where run: "machine_run f xs a1 = (a, o2)" "out = o1 @ o2" by (auto split: prod.splits)
  let ?c = "c\<lparr>side_a := a1, to_a := xs @ rest, to_b := to_b c @ o1\<rparr>"
  have one: "moves f g c ?c" using a_reads [of c x "xs @ rest" f a1 o1 g] Cons.prems(1) step by simp
  have "(moves f g ^^ length xs) ?c (?c\<lparr>side_a := a, to_a := rest, to_b := to_b ?c @ o2\<rparr>)"
    by (rule Cons.IH) (simp_all add: run(1))
  from relpowp_Suc_I2 [OF one this] run(2) show ?case by simp
qed simp

lemma b_reads_all:
  "to_b c = ys @ rest \<Longrightarrow> machine_run g ys (side_b c) = (b, out) \<Longrightarrow>
     (moves f g ^^ length ys) c (c\<lparr>side_b := b, to_b := rest, to_a := to_a c @ out\<rparr>)"
proof (induction ys arbitrary: c out)
  case (Cons y ys)
  obtain b1 o1 where step: "g (side_b c) y = (b1, o1)" by (cases "g (side_b c) y")
  with Cons.prems(2) obtain o2 where run: "machine_run g ys b1 = (b, o2)" "out = o1 @ o2" by (auto split: prod.splits)
  let ?c = "c\<lparr>side_b := b1, to_b := ys @ rest, to_a := to_a c @ o1\<rparr>"
  have one: "moves f g c ?c" using b_reads [of c y "ys @ rest" g b1 o1 f] Cons.prems(1) step by simp
  have "(moves f g ^^ length ys) ?c (?c\<lparr>side_b := b, to_b := rest, to_a := to_a ?c @ o2\<rparr>)"
    by (rule Cons.IH) (simp_all add: run(1))
  from relpowp_Suc_I2 [OF one this] run(2) show ?case by simp
qed simp

end
