(* ===== verification/Telnet_Link.thy ===== *)
theory Telnet_Link
  imports Telnet_Session Duplex
begin

text \<open>
  One gateway dialled from another: the outgoing gateway's parser (\<open>GatewayTelnetIac\<close>) and a server
  session on the two directions of one connection, each byte delivered whenever the network pleases.
  Every order of delivery ends the opening negotiation, in one and the same state.
\<close>

definition client_reads :: "GatewayTelnetIac \<times> byte list \<Rightarrow> byte \<Rightarrow> (GatewayTelnetIac \<times> byte list) \<times> byte list" where
  "client_reads c b = (case gateway_feed b (fst c) of (p, d, r) \<Rightarrow> ((p, snd c @ d), r))"

definition server_reads :: "Session \<times> byte list \<Rightarrow> byte \<Rightarrow> (Session \<times> byte list) \<times> byte list" where
  "server_reads c b = (case iac_step (speaks (fst c)) (Got b) (fst c) of (x, s, out) \<Rightarrow>
     ((s, snd c @ (case x of Key k \<Rightarrow> [k] | _ \<Rightarrow> [])), out))"

lemma client_run:
  "gateway_feed_all bs p = (q, d, r) \<Longrightarrow> machine_run client_reads bs (p, shown) = ((q, shown @ d), r)"
  by (induction bs arbitrary: p shown d r) (auto simp: client_reads_def split: prod.splits)

lemma server_run:
  "session_run bs s = (ks, t, out) \<Longrightarrow> speaks s \<Longrightarrow> machine_run server_reads bs (s, keys) = ((t, keys @ ks), out)"
proof (induction bs arbitrary: s keys ks out)
  case (Cons b bs)
  obtain x u o1 where step: "iac_step True (Got b) s = (x, u, o1)" by (cases "iac_step True (Got b) s")
  with Cons.prems obtain ks2 o2 where rest: "session_run bs u = (ks2, t, o2)" "out = o1 @ o2"
      "ks = (case x of Key k \<Rightarrow> [k] | _ \<Rightarrow> []) @ ks2"
    by (auto split: prod.splits session_step.splits)
  have "speaks u" using speaks_step [OF step] Cons.prems(2) by simp
  from Cons.IH [OF rest(1) this] step rest Cons.prems(2) show ?case by (simp add: server_reads_def)
qed simp

text \<open>The connection as it is dialled: each end has written what it opens with.\<close>

definition dial :: "TerminalType \<Rightarrow> u16 \<Rightarrow> u16 \<Rightarrow> (GatewayTelnetIac \<times> byte list, Session \<times> byte list, byte) duplex" where
  "dial tt cols rows =
     (case new_gateway True (gateway_terminal_name tt) cols rows of (p, offers) \<Rightarrow>
      case open_session new_session of (s, opening) \<Rightarrow>
        \<lparr>side_a = (p, []), side_b = (s, []), to_a = opening, to_b = offers\<rparr>)"

text \<open>What both ends are to have agreed on.\<close>

definition options_agreed :: "TerminalType \<Rightarrow> u16 \<Rightarrow> u16 \<Rightarrow> GatewayTelnetIac \<Rightarrow> Session \<Rightarrow> bool" where
  "options_agreed tt cols rows p s \<longleftrightarrow>
     him_state p = (\<lambda>_. No)(OPT_ECHO := Yes) \<and> us_state p = (\<lambda>_. No)(OPT_TTYPE := Yes, OPT_NAWS := Yes) \<and>
     terminal_type s = tt \<and> ttype_matched s \<and> ttype_raw s = Some (gateway_terminal_name tt) \<and>
     window_width s = (if cols > 0 then Some cols else None) \<and> window_height s = (if rows > 0 then Some rows else None)"

lemma own_name_known: "match_terminal_name (gateway_terminal_name tt) = Some tt"
proof (cases tt)
  case TAscii then show ?thesis by (simp only:) code_simp
next
  case TAnsi then show ?thesis by (simp only:) code_simp
next
  case TPetscii then show ?thesis by (simp only:) code_simp
qed

lemma own_name_clean:
  "concat (map latin1 (filter (\<lambda>b. \<not> is_control b) (gateway_terminal_name tt))) = gateway_terminal_name tt"
proof (cases tt)
  case TAscii then show ?thesis by (simp only:) code_simp
next
  case TAnsi then show ?thesis by (simp only:) code_simp
next
  case TPetscii then show ?thesis by (simp only:) code_simp
qed

lemma own_name_facts: "gateway_terminal_name tt \<noteq> []" "length (gateway_terminal_name tt) \<le> 7"
  by (cases tt; simp add: gateway_terminal_name_def str_of_def)+

lemma own_name_noted:
  "\<not> ttype_matched s \<Longrightarrow> note_announced_terminal (gateway_terminal_name tt) s =
     s\<lparr>ttype_raw := Some (gateway_terminal_name tt), terminal_type := tt, ttype_matched := True\<rparr>"
  by (simp add: note_announced_terminal_def own_name_clean own_name_known own_name_facts Let_def)

section \<open>The rounds of the opening\<close>

definition offers_said :: "telnet_item list" where
  "offers_said = [Negotiate WILL OPT_TTYPE, Negotiate WILL OPT_NAWS, Negotiate DO_CMD OPT_ECHO]"

definition opening_said :: "telnet_item list" where
  "opening_said = [Negotiate WILL OPT_ECHO, Negotiate WILL OPT_SGA, Negotiate DO_CMD OPT_SGA, Negotiate DO_CMD OPT_TTYPE,
     Negotiate DO_CMD OPT_NAWS]"

definition answers_said :: "u16 \<Rightarrow> u16 \<Rightarrow> telnet_item list" where
  "answers_said cols rows =
     [Negotiate DONT OPT_SGA, Negotiate WONT OPT_SGA, Subneg (OPT_NAWS # to_be_bytes cols @ to_be_bytes rows)]"

definition asks_said :: "telnet_item list" where
  "asks_said = [Subneg [OPT_TTYPE, TTYPE_SEND], Negotiate WONT OPT_SGA, Negotiate DONT OPT_SGA]"

definition name_said :: "TerminalType \<Rightarrow> telnet_item list" where
  "name_said tt = [Subneg (OPT_TTYPE # TTYPE_IS # gateway_terminal_name tt)]"

abbreviation "spelt items \<equiv> concat (map item_bytes items)"

lemma client_first:
  "\<exists>q. gateway_items opening_said (fst (new_gateway True name cols rows)) = (q, spelt (answers_said cols rows)) \<and>
     him_state q = (\<lambda>_. No)(OPT_ECHO := Yes) \<and> us_state q = (\<lambda>_. No)(OPT_TTYPE := Yes, OPT_NAWS := Yes) \<and>
     gt_state q = InText \<and> terminal_name q = name"
  by (simp add: opening_said_def new_gateway_def Let_def gateway_item_def handle_verbs handlers gateway_setters
      cooperate_with_his_will_def cooperate_with_his_do_def answers_said_def emit_naws_sb_def del: iac_double.simps)
    (auto simp: fun_eq_iff)

lemma client_second:
  assumes "him_state p = (\<lambda>_. No)(OPT_ECHO := Yes)" "us_state p = (\<lambda>_. No)(OPT_TTYPE := Yes, OPT_NAWS := Yes)"
    "terminal_name p = gateway_terminal_name tt" "gt_state p = InText"
  shows "\<exists>q. gateway_items asks_said p = (q, spelt (name_said tt)) \<and> him_state q = him_state p \<and> us_state q = us_state p \<and>
    gt_state q = InText"
  using assms by (simp add: asks_said_def gateway_item_def handle_verbs handlers gateway_setters process_subneg_def
      MAX_SB_BODY_BYTES_def name_said_def Let_def del: iac_double.simps) (simp add: iac_double.simps(2))

lemma server_first:
  "\<exists>t. session_items (offers_said @ answers_said cols rows) (fst (open_session new_session)) = ([], t, spelt asks_said) \<and>
     iac_resume t = IacData \<and> speaks t \<and> \<not> ttype_matched t \<and>
     window_width t = (if cols > 0 then Some cols else None) \<and> window_height t = (if rows > 0 then Some rows else None)"
  by (simp add: offers_said_def answers_said_def open_session_def new_session_def session_item_def handle_telnet_option_def
      option_will_def option_do_def option_dont_def option_wont_def marks asks_said_def handle_subnegotiation_def
      to_be_bytes_def be_bytes_roundtrip speaks_def Let_def)

lemma server_second:
  assumes "iac_resume s = IacData" "\<not> ttype_matched s"
  shows "\<exists>t. session_items (name_said tt) s = ([], t, []) \<and> terminal_type t = tt \<and> ttype_matched t \<and>
    ttype_raw t = Some (gateway_terminal_name tt) \<and> window_width t = window_width s \<and> window_height t = window_height s"
proof -
  have "take 512 (OPT_TTYPE # TTYPE_IS # gateway_terminal_name tt) = OPT_TTYPE # TTYPE_IS # gateway_terminal_name tt"
    using own_name_facts(2) [of tt] by simp
  with assms show ?thesis
    by (simp add: name_said_def session_item_def handle_subnegotiation_def own_name_noted)
qed

section \<open>Every order of delivery\<close>

lemma client_round:
  assumes "gt_state p = InText" "list_all command_ok is" "concat (map item_data is) = []" "gateway_items is p = (q, out)"
  shows "machine_run client_reads (spelt is) (p, shown) = ((q, shown), out)"
  using client_run [OF conjunct2 [OF feed_items [OF assms(1,2)]], of shown] assms(3,4) by simp

lemma server_round:
  assumes "iac_resume s = IacData" "speaks s" "list_all item_ok is" "session_items is s = ([], t, out)"
  shows "machine_run server_reads (spelt is) (s, keys) = ((t, keys), out)"
  using server_run [of "spelt is" s "[]" t out keys] session_reads_items [OF assms(1,3)] assms(2,4) by simp

lemma opening_run:
  "\<exists>n p s. (moves client_reads server_reads ^^ n) (dial tt cols rows)
     \<lparr>side_a = (p, []), side_b = (s, []), to_a = [], to_b = []\<rparr> \<and> options_agreed tt cols rows p s"
proof -
  let ?name = "gateway_terminal_name tt" let ?R = "moves client_reads server_reads"
  let ?p0 = "fst (new_gateway True ?name cols rows)" let ?s0 = "fst (open_session new_session)"
  have start: "dial tt cols rows = \<lparr>side_a = (?p0, []), side_b = (?s0, []), to_a = spelt opening_said, to_b = spelt offers_said\<rparr>"
    by (simp add: dial_def new_gateway_def open_session_def new_session_def session_opening_def opening_said_def offers_said_def Let_def)
  from client_first [of ?name cols rows] obtain p1 where p1: "gateway_items opening_said ?p0 = (p1, spelt (answers_said cols rows))"
      "him_state p1 = (\<lambda>_. No)(OPT_ECHO := Yes)" "us_state p1 = (\<lambda>_. No)(OPT_TTYPE := Yes, OPT_NAWS := Yes)"
      "gt_state p1 = InText" "terminal_name p1 = ?name" by blast
  from client_second [OF p1(2,3,5,4)] obtain p2 where p2: "gateway_items asks_said p1 = (p2, spelt (name_said tt))"
      "him_state p2 = him_state p1" "us_state p2 = us_state p1" by blast
  from server_first [of cols rows] obtain s1 where s1: "session_items (offers_said @ answers_said cols rows) ?s0 = ([], s1, spelt asks_said)"
      "iac_resume s1 = IacData" "speaks s1" "\<not> ttype_matched s1"
      "window_width s1 = (if cols > 0 then Some cols else None)" "window_height s1 = (if rows > 0 then Some rows else None)" by blast
  from server_second [OF s1(2,4)] obtain s2 where s2: "session_items (name_said tt) s1 = ([], s2, [])"
      "terminal_type s2 = tt" "ttype_matched s2" "ttype_raw s2 = Some ?name"
      "window_width s2 = window_width s1" "window_height s2 = window_height s1" by blast
  have a1: "machine_run client_reads (spelt opening_said) (?p0, []) = ((p1, []), spelt (answers_said cols rows))"
    by (rule client_round [OF _ _ _ p1(1)]) (simp_all add: new_gateway_def opening_said_def Let_def)
  have a2: "machine_run client_reads (spelt asks_said) (p1, []) = ((p2, []), spelt (name_said tt))"
    by (rule client_round [OF p1(4) _ _ p2(1)]) (simp_all add: asks_said_def)
  have b1: "machine_run server_reads (spelt (offers_said @ answers_said cols rows)) (?s0, []) = ((s1, []), spelt asks_said)"
    by (rule server_round [OF _ _ _ s1(1)])
      (simp_all add: open_session_def new_session_def marks speaks_def offers_said_def answers_said_def)
  have b2: "machine_run server_reads (spelt (name_said tt)) (s1, []) = ((s2, []), [])"
    by (rule server_round [OF s1(2,3) _ s2(1)]) (simp add: name_said_def)
  let ?c1 = "\<lparr>side_a = (p1, []), side_b = (?s0, []), to_a = [], to_b = spelt (offers_said @ answers_said cols rows)\<rparr>"
  let ?c2 = "\<lparr>side_a = (p1, []), side_b = (s1, []), to_a = spelt asks_said, to_b = []\<rparr>"
  let ?c3 = "\<lparr>side_a = (p2, []), side_b = (s1, []), to_a = [], to_b = spelt (name_said tt)\<rparr>"
  let ?c4 = "\<lparr>side_a = (p2, []), side_b = (s2, []), to_a = [], to_b = []\<rparr>"
  have "(?R ^^ length (spelt opening_said)) (dial tt cols rows) ?c1"
    using a_reads_all [of "dial tt cols rows" "spelt opening_said" "[]" client_reads "(p1, [])" "spelt (answers_said cols rows)" server_reads] a1
    by (simp add: start)
  moreover have "(?R ^^ length (spelt (offers_said @ answers_said cols rows))) ?c1 ?c2"
    using b_reads_all [of ?c1 "spelt (offers_said @ answers_said cols rows)" "[]" server_reads "(s1, [])" "spelt asks_said" client_reads] b1 by simp
  moreover have "(?R ^^ length (spelt asks_said)) ?c2 ?c3"
    using a_reads_all [of ?c2 "spelt asks_said" "[]" client_reads "(p2, [])" "spelt (name_said tt)" server_reads] a2 by simp
  moreover have "(?R ^^ length (spelt (name_said tt))) ?c3 ?c4"
    using b_reads_all [of ?c3 "spelt (name_said tt)" "[]" server_reads "(s2, [])" "[]" client_reads] b2 by simp
  moreover have "options_agreed tt cols rows p2 s2" using p1 p2 s1 s2 by (simp add: options_agreed_def)
  ultimately show ?thesis by (meson relpowp_trans)
qed

text \<open>Property C12: the opening negotiation of a gateway that dials another ends, whatever order the
  network delivers the two directions in. There is a number of bytes no delivery exceeds and one final
  state every delivery is on the way to: both directions silent; echo, terminal type and window size
  on and nothing else; the server knowing the dialler's terminal, by its own name for it, and its
  size; and not one byte of it all shown to the user or taken for a key.\<close>

theorem gateways_agree_on_options:
  "\<exists>n p s. options_agreed tt cols rows p s \<and>
     (\<forall>m d. (moves client_reads server_reads ^^ m) (dial tt cols rows) d \<longrightarrow>
        m \<le> n \<and> (moves client_reads server_reads ^^ (n - m)) d
          \<lparr>side_a = (p, []), side_b = (s, []), to_a = [], to_b = []\<rparr>)"
proof -
  from opening_run obtain n p s where run: "(moves client_reads server_reads ^^ n) (dial tt cols rows)
      \<lparr>side_a = (p, []), side_b = (s, []), to_a = [], to_b = []\<rparr>" "options_agreed tt cols rows p s" by blast
  with one_run_decides [OF run(1)] show ?thesis by (intro exI [of _ n] exI [of _ p] exI [of _ s]) simp
qed

theorem gateways_agree_on_options_witness:
  "\<exists>n p s. options_agreed TPetscii 40 255 p s \<and> 0 \<le> n \<and>
     (moves client_reads server_reads ^^ n) (dial TPetscii 40 255) \<lparr>side_a = (p, []), side_b = (s, []), to_a = [], to_b = []\<rparr>"
proof -
  have start: "(moves client_reads server_reads ^^ 0) (dial TPetscii 40 255) (dial TPetscii 40 255)" by simp
  from gateways_agree_on_options [of TPetscii 40 255] obtain n p s where "options_agreed TPetscii 40 255 p s" and
    "\<forall>m d. (moves client_reads server_reads ^^ m) (dial TPetscii 40 255) d \<longrightarrow>
        m \<le> n \<and> (moves client_reads server_reads ^^ (n - m)) d \<lparr>side_a = (p, []), side_b = (s, []), to_a = [], to_b = []\<rparr>" by blast
  with start show ?thesis by fastforce
qed

end
