(* ===== verification/Spec2Isabelle.thy ===== *)
theory Spec2Isabelle
  imports Kermit_Server Zmodem_Limits Xmodem_Limits Punter_Correct Cpm_Fcb Cpm_Tarbell Gateway_Terminal Telnet_Link
begin

text \<open>
  A verification of the protocol and emulation core of \<^emph>\<open>ethernetgateway\<close>, the Rust sources under
  \<^verbatim>\<open>src/src\<close>. The gateway lets retro computers dial in over telnet, SSH or a serial line, moves files
  with Kermit, ZMODEM, Punter and XMODEM, and runs CP/M disks on an emulated machine. The modelled
  parts are the ones that decide what arrives: the byte layer under every transfer protocol, the
  packet codecs and engines above it, the telnet negotiation and the terminal translation of a
  session, and the memory and disk hardware of the CP/M machine.

  \<^bold>\<open>The parts and how they interact.\<close> A transfer engine reads and writes through \<^verbatim>\<open>tnio.rs\<close>, which
  undoes telnet quoting, enforces deadlines and honours the user's cancel keys. Kermit builds packets
  over that layer, negotiates a session in its Send-Init exchange and answers file commands in server
  mode; ZMODEM moves a batch as headers and checked subpackets; XMODEM and YMODEM send numbered blocks,
  each acknowledged; Punter alternates handshake codes and checked blocks.
  A session reads its caller's keys through the telnet reader of \<^verbatim>\<open>telnet/io.rs\<close>; when it dials a remote,
  the parser of \<^verbatim>\<open>telnet/gateway.rs\<close> negotiates for it, and the remote's output passes a filter for the
  caller's terminal, which on a Commodore is the translator of \<^verbatim>\<open>petscii.rs\<close>.
  Below the CP/M emulator a booted machine owns guest memory, one bank board and the mounted images,
  and talks to a disk board only through the controller interface: a port access returns a host
  request, and the machine serves it from the image it names.

  \<^bold>\<open>Theories.\<close>
  \<^item> \<^theory_text>\<open>Gateway_Prelude\<close>: names of the machine integers, the fact collections, exhaustive reasoning over
    a byte, facts on lists and words. \<^theory_text>\<open>Rust_Std\<close>: what the program uses of Rust's strings, slices,
    casts and saturating arithmetic.
  \<^item> \<^theory_text>\<open>Tnio\<close> (\<^verbatim>\<open>tnio.rs\<close>): the wire as the bytes still to come with the moment each becomes readable,
    the single-byte reader with its NVT and IAC states, raw writes, the cancel counter. The lemmas show
    that what one end writes the other end reads, that telnet commands are invisible, that every read
    returns by its deadline.
  \<^item> \<^theory_text>\<open>Wire_Reader\<close> and \<^theory_text>\<open>Link\<close>: sequencing of fallible reads and writes (\<^verbatim>\<open>?\<close>) over the reader
    state, the wire and the writer, and the locales for readers that never move the clock back and
    never gain input. \<^theory_text>\<open>Checksum_Register\<close>: the locale of a register folded over a block, interpreted
    on Kermit's, ZMODEM's and Punter's check functions.
  \<^item> \<^theory_text>\<open>Kermit_Codec\<close>, \<^theory_text>\<open>Kermit_Packet\<close>, \<^theory_text>\<open>Kermit_Negotiation\<close>, \<^theory_text>\<open>Kermit_Attributes\<close>, \<^theory_text>\<open>Kermit_Server\<close>
    (\<^verbatim>\<open>kermit.rs\<close>): quoting with control, 8th-bit and repeat prefixes, the three block checks, the
    packet reader with its resynchronisation after damage, the parameters of a session, attribute
    fields and dates, and the server's generic file commands over a model of the transfer directory.
    The lemmas are round trips, detection of corruption, agreement of both ends of a negotiation and
    confinement of the server to its directory.
  \<^item> \<^theory_text>\<open>Zmodem_Codec\<close> (\<^verbatim>\<open>zmodem.rs\<close>, first part): CRC-16 and CRC-32, ZDLE escaping, hex and binary
    headers, data subpackets and the frame reader. \<^theory_text>\<open>Wire_Progress\<close>: readers and engine steps that
    use up the wire, from which every engine loop gets its measure. \<^theory_text>\<open>Zmodem_Transfer\<close>
    (\<^verbatim>\<open>zmodem.rs\<close>, second part): the batch receiver and the batch sender with every retry counter and
    deadline. \<^theory_text>\<open>Zmodem_Correct\<close>, \<^theory_text>\<open>Zmodem_Limits\<close>: two gateways on a line that delivers in time
    transfer the accepted files exactly (\<^theory_text>\<open>Bursts\<close> says what such a line is); a file survives damaged frames below the retry limit
    (\<open>bad_line\<close>); whatever a peer sends, a receipt stays within the receiver's limits and holds
    checked bytes only.
  \<^item> \<^theory_text>\<open>Xmodem_Block\<close>, \<^theory_text>\<open>Xmodem_Transfer\<close> (\<^verbatim>\<open>xmodem.rs\<close>): blocks with either trailer and the detection of
    the sender's, the YMODEM file header, and both engines: the receiver from its first start request
    to the end of a batch, the sender with its 1K fallback and its two closing handshakes.
    \<^theory_text>\<open>Xmodem_Correct\<close>, \<^theory_text>\<open>Xmodem_Recovery\<close>, \<^theory_text>\<open>Xmodem_Limits\<close>: two gateways transfer a file, with its name
    and metadata under YMODEM; a file survives damaged and repeated blocks and spurious ends of file
    (\<open>bad_blocks\<close>); a block is accepted exactly when it is the one a sender writes, and every
    receipt is well formed.
  \<^item> \<^theory_text>\<open>Punter_Block\<close>, \<^theory_text>\<open>Punter_Transfer\<close>, \<^theory_text>\<open>Punter_Correct\<close> (\<^verbatim>\<open>punter.rs\<close>): blocks with their two
    checksums and back-patched sizes, the sending and receiving engines in full, and what they
    guarantee: the abstract contract is that a transfer hands over the same bytes, and the engines
    refine it, over a link that damages and repeats blocks for the receiver (\<open>delivery\<close>), and end to
    end for a sender and a receiver of this program.
  \<^item> \<^theory_text>\<open>Cpm_Memory\<close> (\<^verbatim>\<open>cpm/mmu.rs\<close>, \<^verbatim>\<open>cpm/cromemco_bank.rs\<close>): both bank boards, refined to a map from bank
    and address to byte through the locale \<open>banked_memory\<close>. \<^theory_text>\<open>Cpm_Fcb\<close> (\<^verbatim>\<open>cpm/fcb.rs\<close>): file control
    blocks as record counters, 8.3 names, ambiguous names.
  \<^item> \<^theory_text>\<open>Cpm_Machine\<close> (\<^verbatim>\<open>cpm/controller.rs\<close>, parts of \<^verbatim>\<open>cpm/boot_machine.rs\<close> and \<^verbatim>\<open>cpm/boot.rs\<close>): the controller
    trait as a record of operations, the machine's memory, mounted images and service of host
    requests, and the locale \<open>disk_controller\<close> with what a board promises. \<^theory_text>\<open>Cpm_Wd1771\<close>
    (\<^verbatim>\<open>cpm/wd1771.rs\<close>): the floppy chip. \<^theory_text>\<open>Cpm_Tarbell\<close> (\<^verbatim>\<open>cpm/tarbell.rs\<close>): the board around it, which
    interprets the locale, so that every run of every guest keeps the images it may not change.
  \<^item> \<^theory_text>\<open>Petscii\<close> (\<^verbatim>\<open>petscii.rs\<close>, \<^verbatim>\<open>PetsciiLink\<close> of \<^verbatim>\<open>serial.rs\<close>): the ANSI interpreter with its colour, cursor and
    screen codes, the folding of UTF-8 punctuation, the translation of text and keys. Only characters and
    codes of the translator reach a C64's screen, an unfinished sequence gives way within a bound, and
    what a host writes is shown as what it means (\<open>items_meaning\<close>). \<^theory_text>\<open>Gateway_Terminal\<close>
    (\<^verbatim>\<open>telnet/gateway.rs\<close>, \<^verbatim>\<open>telnet/colors.rs\<close>): the output filter for each kind of terminal, transparent to an
    ANSI user but for window titles; the escape key; the translation of keys toward the remote.
  \<^item> \<^theory_text>\<open>Telnet_Options\<close> (\<^verbatim>\<open>GatewayTelnetIac\<close> of \<^verbatim>\<open>telnet/gateway.rs\<close>, \<^verbatim>\<open>InboundTelnet\<close> of \<^verbatim>\<open>telnet/io.rs\<close>): the
    client's parser and its option negotiation, which refines the table of RFC 1143, answers no
    request twice and writes whole commands only. \<^theory_text>\<open>Telnet_Session\<close> (\<^verbatim>\<open>TelnetSession\<close>'s reader in
    \<^verbatim>\<open>telnet/io.rs\<close>, terminal names of \<^verbatim>\<open>telnet/session.rs\<close>): the server's reader, option policy and
    subnegotiations, refined to a handler of commands. \<^theory_text>\<open>Duplex\<close>: two deterministic machines on a pair
    of streams, where one finished run decides all. \<^theory_text>\<open>Telnet_Link\<close>: both ends of the negotiation
    together, under every order of delivery.

  \<^bold>\<open>State and errors.\<close> A Rust struct is a record with the source's fields, an enum a datatype, \<^verbatim>\<open>u8\<close> a
  byte word that wraps; counters and lengths that the code keeps below their width are naturals, with
  the bound as a lemma or the saturation written out. A call that fails returns \<open>Inl\<close> of the
  component's error type. Time is the clock of the wire: a read of a byte that is not there yet moves
  it to the byte's arrival or to the deadline.

  \<^bold>\<open>Bounds.\<close> No loop is modelled with fuel: each recursion ends by a measure, mostly the bytes left on
  the wire (every pass of a reader takes at least one or the deadline passes) paired with the retry
  counters of the engine. That the engines return is part of the theorems, not an assumption.

  \<^bold>\<open>Not modelled.\<close> The Kermit transfer engines over the layers above, with sliding windows and
  streaming; the 88-DCDD, 88-HDSK, Cromemco and z80pack boards, which would be further interpretations of
  \<open>disk_controller\<close>; the CP/M directory of a disk image and the BDOS; the AT command interpreter and the
  relay handshake. The asynchronous sessions, menus, web and desktop interfaces, network clients and
  serial drivers are I/O around libraries that are not part of the repository. Scheduling of the async
  runtime is not modelled but for the two directions of a telnet connection (\<open>moves\<close>): a session is one
  sequence of reads and writes on its own streams, as the code awaits each of them in turn. Logging and
  trace output are left out of every definition; they do not feed back into the state.
\<close>

end
